(* ===== verification/Prelude.thy ===== *)
theory Prelude
  imports Main "HOL-Library.Word" "HOL-Library.AList" "HOL-Library.Multiset"
    "HOL-Library.Signed_Division"
begin

text \<open>
  Shared material of the development: Go's signed integers as words, Go's maps as
  association lists with distinct keys, the two ways Go code deletes from a slice
  (keeping the order, or moving the last element into the gap), and the search loops
  that return the first matching index. The lemmas are declared \<open>simp\<close> or collected in
  the named collections below, and the component theories rest on them.
\<close>

named_theorems sint_simps \<open>signed reading of word arithmetic that does not overflow\<close>
named_theorems gomap_simps \<open>lookups after updates and deletions of Go maps\<close>

section \<open>Go integers\<close>

text \<open>
  Go's \<open>int64\<close> and \<open>int32\<close> wrap around; a value is read with \<open>sint\<close>. Go's \<open>/\<close> and
  \<open>%\<close> truncate towards zero, which \<open>sdiv\<close> and \<open>smod\<close> of \<open>HOL-Library.Signed_Division\<close>
  do on \<open>int\<close>.
\<close>

type_synonym i64 = "64 word"
type_synonym i32 = "32 word"

definition go_div :: "i64 \<Rightarrow> i64 \<Rightarrow> i64" where
  "go_div a b = word_of_int (sint a sdiv sint b)"

definition go_mod :: "i64 \<Rightarrow> i64 \<Rightarrow> i64" where
  "go_mod a b = word_of_int (sint a smod sint b)"

definition maxInt64 :: i64 where "maxInt64 = 0x7FFFFFFFFFFFFFFF"
definition minInt64 :: i64 where "minInt64 = 0x8000000000000000"

lemma sint_maxInt64 [simp]: "sint maxInt64 = 2 ^ 63 - 1"
  by (simp add: maxInt64_def)

lemma sint_minInt64 [simp]: "sint minInt64 = - (2 ^ 63)"
  by (simp add: minInt64_def)

lemma sint64_ge: "- (2 ^ 63) \<le> sint (x :: i64)"
  using sint_ge [of x] by simp

lemma sint64_less: "sint (x :: i64) < 2 ^ 63"
  using sint_lt [of x] by simp

lemma sint_eq_iff: "(a :: 'a :: len word) = b \<longleftrightarrow> sint a = sint b"
proof
  assume "sint a = sint b"
  then have "word_of_int (sint a) = (word_of_int (sint b) :: 'a word)" by simp
  then show "a = b" by simp
qed simp

lemmas sint64_eq_iff = sint_eq_iff [where 'a = 64]

lemma sint_word_of_int64:
  assumes "- (2 ^ 63) \<le> k" and "k < 2 ^ 63"
  shows "sint (word_of_int k :: i64) = k"
  using assms by (simp add: sint_sbintrunc' signed_take_bit_int_eq_self)

lemma word_plus64_conv: "(a :: i64) + b = word_of_int (sint a + sint b)"
  by (simp add: wi_hom_add [symmetric])

lemma word_minus64_conv: "(a :: i64) - b = word_of_int (sint a - sint b)"
  by (simp add: wi_hom_sub [symmetric])

lemma word_times64_conv: "(a :: i64) * b = word_of_int (sint a * sint b)"
  by (simp add: wi_hom_mult [symmetric])

lemma sint_plus64 [sint_simps]:
  fixes a b :: i64
  assumes "- (2 ^ 63) \<le> sint a + sint b" and "sint a + sint b < 2 ^ 63"
  shows "sint (a + b) = sint a + sint b"
  unfolding word_plus64_conv using assms by (rule sint_word_of_int64)

lemma sint_minus64 [sint_simps]:
  fixes a b :: i64
  assumes "- (2 ^ 63) \<le> sint a - sint b" and "sint a - sint b < 2 ^ 63"
  shows "sint (a - b) = sint a - sint b"
  unfolding word_minus64_conv using assms by (rule sint_word_of_int64)

lemma sint_times64 [sint_simps]:
  fixes a b :: i64
  assumes "- (2 ^ 63) \<le> sint a * sint b" and "sint a * sint b < 2 ^ 63"
  shows "sint (a * b) = sint a * sint b"
  unfolding word_times64_conv using assms by (rule sint_word_of_int64)

text \<open>A sum that leaves the range comes back on the other side, once.\<close>

lemma word_of_int64_eq_iff: "(word_of_int k :: i64) = word_of_int l \<longleftrightarrow> k mod 2 ^ 64 = l mod 2 ^ 64"
  unfolding word_of_int_eq_iff take_bit_eq_mod by simp

lemma word_of_int_shift64: "(word_of_int (k + m * 2 ^ 64) :: i64) = word_of_int k"
  unfolding word_of_int64_eq_iff by simp

lemma sint_plus64_cases:
  fixes a b :: i64
  shows "sint (a + b) = (if sint a + sint b < - (2 ^ 63) then sint a + sint b + 2 ^ 64
    else if sint a + sint b \<ge> 2 ^ 63 then sint a + sint b - 2 ^ 64 else sint a + sint b)"
proof -
  let ?s = "sint a + sint b"
  have r: "- (2 ^ 64) \<le> ?s" "?s < 2 ^ 64"
    using sint64_ge [of a] sint64_ge [of b] sint64_less [of a] sint64_less [of b] by auto
  consider "?s < - (2 ^ 63)" | "?s \<ge> 2 ^ 63" | "- (2 ^ 63) \<le> ?s" "?s < 2 ^ 63" by linarith
  then show ?thesis
  proof cases
    case 1
    have "sint (word_of_int (?s + 1 * 2 ^ 64) :: i64) = ?s + 1 * 2 ^ 64"
      by (rule sint_word_of_int64) (use 1 r in auto)
    then show ?thesis using 1 by (simp only: word_of_int_shift64 word_plus64_conv) simp
  next
    case 2
    have "sint (word_of_int (?s + (- 1) * 2 ^ 64) :: i64) = ?s + (- 1) * 2 ^ 64"
      by (rule sint_word_of_int64) (use 2 r in auto)
    then show ?thesis using 2 by (simp only: word_of_int_shift64 word_plus64_conv) simp
  next
    case 3
    then show ?thesis by (simp add: sint_plus64)
  qed
qed

lemma sdiv_abs_le_div: "\<bar>k sdiv l\<bar> \<le> \<bar>k\<bar> div \<bar>l\<bar>" for k l :: int
proof -
  have "0 \<le> \<bar>k\<bar> div \<bar>l\<bar>" by (cases "l = 0") (simp_all add: pos_imp_zdiv_nonneg_iff)
  then show ?thesis by (simp add: signed_divide_int_def abs_mult abs_sgn_eq)
qed

lemma sdiv_abs_le: "\<bar>k sdiv l\<bar> \<le> \<bar>k\<bar>" for k l :: int
proof (cases "l = 0")
  case False
  have "\<bar>k\<bar> div \<bar>l\<bar> \<le> \<bar>k\<bar> div 1"
    using False by (intro zdiv_mono2) auto
  with sdiv_abs_le_div [of k l] show ?thesis by simp
qed (simp add: signed_divide_int_def)

lemma sint_go_div:
  assumes "sint b \<noteq> - 1"
  shows "sint (go_div a b) = sint a sdiv sint b"
proof -
  have "sint a sdiv sint b < 2 ^ 63"
  proof (cases "\<bar>sint b\<bar> \<le> 1")
    case True
    with assms have "sint b = 0 \<or> sint b = 1" by arith
    then show ?thesis using sint64_less [of a] by auto
  next
    case False
    then have "\<bar>sint a\<bar> div \<bar>sint b\<bar> \<le> \<bar>sint a\<bar> div 2" by (intro zdiv_mono2) auto
    also have "\<dots> < 2 ^ 63" using sint64_ge [of a] sint64_less [of a] by auto
    finally show ?thesis using sdiv_abs_le_div [of "sint a" "sint b"] by linarith
  qed
  moreover have "- (2 ^ 63) \<le> sint a sdiv sint b"
    using sdiv_abs_le [of "sint a" "sint b"] sint64_ge [of a] sint64_less [of a] by auto
  ultimately show ?thesis unfolding go_div_def by (intro sint_word_of_int64)
qed

section \<open>Go maps\<close>

text \<open>
  A Go map is an association list with distinct keys. The order of the list stands for the
  iteration order, which Go leaves unspecified: a theorem about every such list covers
  every iteration order. A map that is only read by key is a HOL map.
\<close>

type_synonym ('k, 'v) gomap = "('k \<times> 'v) list"

abbreviation mget :: "('k, 'v) gomap \<Rightarrow> 'k \<Rightarrow> 'v option" where
  "mget m k \<equiv> map_of m k"

abbreviation mput :: "'k \<Rightarrow> 'v \<Rightarrow> ('k, 'v) gomap \<Rightarrow> ('k, 'v) gomap" where
  "mput \<equiv> AList.update"

abbreviation mdel :: "'k \<Rightarrow> ('k, 'v) gomap \<Rightarrow> ('k, 'v) gomap" where
  "mdel \<equiv> AList.delete"

definition mkeys :: "('k, 'v) gomap \<Rightarrow> 'k set" where
  "mkeys m = fst ` set m"

definition gomap_wf :: "('k, 'v) gomap \<Rightarrow> bool" where
  "gomap_wf m = distinct (map fst m)"

lemma mget_mput [gomap_simps, simp]: "mget (mput k v m) k' = (if k = k' then Some v else mget m k')"
  by (simp add: update_conv')

lemma mget_mdel [gomap_simps, simp]: "mget (mdel k m) k' = (if k = k' then None else mget m k')"
  by (simp add: delete_conv')

lemma gomap_wf_Nil [simp]: "gomap_wf []"
  by (simp add: gomap_wf_def)

lemma gomap_wf_mput [simp]: "gomap_wf m \<Longrightarrow> gomap_wf (mput k v m)"
  by (simp add: gomap_wf_def distinct_update)

lemma gomap_wf_mdel [simp]: "gomap_wf m \<Longrightarrow> gomap_wf (mdel k m)"
  by (simp add: gomap_wf_def distinct_delete)

lemma mkeys_iff: "k \<in> mkeys m \<longleftrightarrow> mget m k \<noteq> None"
  by (simp add: mkeys_def map_of_eq_None_iff)

lemma mkeys_mput [gomap_simps, simp]: "mkeys (mput k v m) = insert k (mkeys m)"
  by (auto simp: mkeys_iff split: if_splits)

lemma mkeys_mdel [gomap_simps, simp]: "mkeys (mdel k m) = mkeys m - {k}"
  by (auto simp: mkeys_iff split: if_splits)

lemma mkeys_Nil [simp]: "mkeys [] = {}"
  by (simp add: mkeys_def)

lemma length_gomap: "gomap_wf m \<Longrightarrow> length m = card (mkeys m)"
  unfolding gomap_wf_def mkeys_def by (metis distinct_card length_map list.set_map)

lemma finite_mkeys [simp]: "finite (mkeys m)"
  by (simp add: mkeys_def)

lemma mget_SomeD: "mget m k = Some v \<Longrightarrow> (k, v) \<in> set m"
  by (rule map_of_SomeD)

lemma mget_iff_mem: "gomap_wf m \<Longrightarrow> mget m k = Some v \<longleftrightarrow> (k, v) \<in> set m"
  by (simp add: gomap_wf_def)

lemma mput_same: "mget m k = Some v \<Longrightarrow> mput k v m = m"
  by (induction m) (auto split: if_splits)

lemma length_mdel: "gomap_wf m \<Longrightarrow> length (mdel k m) = length m - (if mget m k = None then 0 else 1)"
  by (simp add: length_gomap mkeys_iff)

lemma length_mput: "gomap_wf m \<Longrightarrow> length (mput k v m) = length m + (if mget m k = None then 1 else 0)"
  by (auto simp: length_gomap card_insert_if mkeys_iff)

lemma set_mdel: "gomap_wf m \<Longrightarrow> (k', v) \<in> set (mdel k m) \<longleftrightarrow> (k', v) \<in> set m \<and> k' \<noteq> k"
  using mget_iff_mem [of "mdel k m" k' v] mget_iff_mem [of m k' v] by (auto split: if_splits)

lemma set_mput: "gomap_wf m \<Longrightarrow> (k', v') \<in> set (mput k v m) \<longleftrightarrow> (if k' = k then v' = v else (k', v') \<in> set m)"
  using mget_iff_mem [of "mput k v m" k' v'] mget_iff_mem [of m k' v'] by auto

lemma mput_mput: "mput k v (mput k v' m) = mput k v m"
  by (induction m) auto

text \<open>Copying a map entry by entry.\<close>

lemma fold_mput_append:
  "distinct (map fst (ys @ xs)) \<Longrightarrow> fold (\<lambda>(k, v) m. mput k v m) xs ys = ys @ xs"
proof (induction xs arbitrary: ys)
  case (Cons e xs)
  have "mput (fst e) (snd e) ys = ys @ [e]"
    using Cons.prems by (induction ys) auto
  with Cons.IH [of "ys @ [e]"] Cons.prems show ?case by (simp add: split_beta)
qed simp

lemma fold_mput_self: "gomap_wf m \<Longrightarrow> fold (\<lambda>(k, v) m. mput k v m) m [] = m"
  using fold_mput_append [of "[]" m] by (simp add: gomap_wf_def)

lemma find_SomeD: "find P xs = Some x \<Longrightarrow> P x \<and> x \<in> set xs"
  by (induction xs) (auto split: if_splits)

section \<open>Slices\<close>

text \<open>
  The loop \<open>for i, x := range xs { if P(x) { ... break } }\<close> finds the first index with \<open>P\<close>.
\<close>

fun find_idx :: "('a \<Rightarrow> bool) \<Rightarrow> 'a list \<Rightarrow> nat option" where
  "find_idx P [] = None"
| "find_idx P (x # xs) = (if P x then Some 0 else map_option Suc (find_idx P xs))"

lemma find_idx_None: "find_idx P xs = None \<longleftrightarrow> (\<forall>x \<in> set xs. \<not> P x)"
  by (induction xs) auto

lemma find_idx_Some:
  "find_idx P xs = Some i \<Longrightarrow> i < length xs \<and> P (xs ! i) \<and> (\<forall>j < i. \<not> P (xs ! j))"
proof (induction xs arbitrary: i)
  case (Cons x xs)
  show ?case
  proof (cases "P x")
    case False
    with Cons.prems obtain k where k: "find_idx P xs = Some k" "i = Suc k" by auto
    with Cons.IH have "k < length xs \<and> P (xs ! k) \<and> (\<forall>j < k. \<not> P (xs ! j))" by blast
    with k False show ?thesis by (auto simp: nth_Cons split: nat.splits)
  qed (use Cons.prems in auto)
qed simp

text \<open>\<open>append(xs[:i], xs[i+1:]...)\<close>: delete index \<open>i\<close>, keeping the order.\<close>

definition remove_at :: "nat \<Rightarrow> 'a list \<Rightarrow> 'a list" where
  "remove_at i xs = take i xs @ drop (Suc i) xs"

lemma length_remove_at: "i < length xs \<Longrightarrow> length (remove_at i xs) = length xs - 1"
  by (simp add: remove_at_def)

lemma mset_remove_at: "i < length xs \<Longrightarrow> mset (remove_at i xs) = mset xs - {#xs ! i#}"
  unfolding remove_at_def
  by (metis add_mset_remove_trivial id_take_nth_drop mset.simps(2) mset_append
      union_mset_add_mset_right)

lemma remove_at_split: "i < length xs \<Longrightarrow> xs = take i xs @ xs ! i # drop (Suc i) xs"
  by (rule id_take_nth_drop)

lemma set_remove_at_distinct:
  assumes "distinct xs" and "i < length xs"
  shows "set (remove_at i xs) = set xs - {xs ! i}"
proof -
  have "distinct (take i xs @ xs ! i # drop (Suc i) xs)"
    using assms remove_at_split [OF assms(2)] by simp
  moreover have "set xs = set (take i xs @ xs ! i # drop (Suc i) xs)"
    using remove_at_split [OF assms(2)] by simp
  ultimately show ?thesis unfolding remove_at_def by auto
qed

lemma distinct_remove_at: "distinct xs \<Longrightarrow> distinct (remove_at i xs)"
proof (cases "i < length xs")
  case True
  assume "distinct xs"
  then have "distinct (take i xs @ xs ! i # drop (Suc i) xs)"
    using remove_at_split [OF True] by simp
  then show ?thesis unfolding remove_at_def by simp
qed (simp add: remove_at_def)

text \<open>
  \<open>xs[i] = xs[len(xs)-1]; xs = xs[:len(xs)-1]\<close>: delete index \<open>i\<close> by moving the last element
  into the gap. The order changes, the multiset loses exactly the element at \<open>i\<close>.
\<close>

definition swap_remove :: "nat \<Rightarrow> 'a list \<Rightarrow> 'a list" where
  "swap_remove i xs = butlast (xs[i := last xs])"

lemma mset_swap_remove:
  assumes "i < length xs"
  shows "mset (swap_remove i xs) = mset xs - {#xs ! i#}"
proof -
  let ?ys = "xs[i := last xs]"
  have ne: "?ys \<noteq> []" using assms by auto
  have last: "last ?ys = last xs"
    using assms ne by (simp add: last_conv_nth nth_list_update)
  have "mset ?ys = add_mset (last xs) (mset xs - {#xs ! i#})"
    using assms by (rule mset_update)
  moreover have "mset ?ys = add_mset (last ?ys) (mset (butlast ?ys))"
    using ne by (metis add_mset_add_single append_butlast_last_id mset.simps mset_append)
  ultimately show ?thesis unfolding swap_remove_def last by simp
qed

lemma length_swap_remove: "i < length xs \<Longrightarrow> length (swap_remove i xs) = length xs - 1"
  by (simp add: swap_remove_def)

lemma mset_swap_remove_add:
  "i < length xs \<Longrightarrow> mset xs = add_mset (xs ! i) (mset (swap_remove i xs))"
  by (simp add: mset_swap_remove)

end
