(* ===== verification/Quantity.thy ===== *)
theory Quantity
  imports Prelude
begin

text \<open>
  Resource quantities: \<open>resource.Quantity\<close> of apimachinery
  (\<open>pkg/api/resource/{math,amount,scale_int,quantity}.go\<close>). A quantity is an \<open>int64\<close>
  numerator with a power-of-ten scale, or, once that overflows, an arbitrary-precision
  decimal. The model keeps both representations and the overflow checks of the code. The
  decimal (\<open>inf.Dec\<close>) is its unscaled integer and its scale, with exact arithmetic.
  Shown here: the overflow-checked helpers are exact when they report success, comparison
  decides the order of the numbers denoted, addition never loses precision, and the
  readings \<open>Value\<close> and \<open>MilliValue\<close> of the \<open>int64\<close> form round away from zero.
\<close>

section \<open>Overflow-checked int64 arithmetic (math.go)\<close>

definition int64Add :: "i64 \<Rightarrow> i64 \<Rightarrow> i64 \<times> bool" where
  "int64Add a b =
     (let c = a + b in
      if 0 < sint a \<and> 0 < sint b then (if sint c < 0 then (0, False) else (c, True))
      else if sint a < 0 \<and> sint b < 0 then
        (if 0 < sint c then (0, False)
         else if a = minInt64 \<and> b = minInt64 then (0, False)
         else (c, True))
      else (c, True))"

definition int64Multiply :: "i64 \<Rightarrow> i64 \<Rightarrow> i64 \<times> bool" where
  "int64Multiply a b =
     (if a = 0 \<or> b = 0 \<or> a = 1 \<or> b = 1 then (a * b, True)
      else if a = minInt64 \<or> b = minInt64 then (0, False)
      else (a * b, go_div (a * b) b = a))"

definition int64MultiplyScale :: "i64 \<Rightarrow> i64 \<Rightarrow> i64 \<times> bool" where
  "int64MultiplyScale a b =
     (if a = 0 \<or> a = 1 then (a * b, True)
      else if a = minInt64 \<and> b \<noteq> 1 then (0, False)
      else (a * b, go_div (a * b) b = a))"

definition int64MultiplyScale10 :: "i64 \<Rightarrow> i64 \<times> bool" where
  "int64MultiplyScale10 a =
     (if a = 0 \<or> a = 1 then (a * 10, True)
      else if a = minInt64 then (0, False)
      else (a * 10, go_div (a * 10) 10 = a))"

definition int64MultiplyScale100 :: "i64 \<Rightarrow> i64 \<times> bool" where
  "int64MultiplyScale100 a =
     (if a = 0 \<or> a = 1 then (a * 100, True)
      else if a = minInt64 then (0, False)
      else (a * 100, go_div (a * 100) 100 = a))"

definition int64MultiplyScale1000 :: "i64 \<Rightarrow> i64 \<times> bool" where
  "int64MultiplyScale1000 a =
     (if a = 0 \<or> a = 1 then (a * 1000, True)
      else if a = minInt64 then (0, False)
      else (a * 1000, go_div (a * 1000) 1000 = a))"

text \<open>A \<open>Scale\<close> is an \<open>int32\<close> exponent; differences of exponents stay far inside its range, so
  it is an \<open>int\<close> here. The loop of the default branch runs \<open>scale\<close> times.\<close>

fun positiveScaleLoop :: "nat \<Rightarrow> i64 \<Rightarrow> i64 \<times> bool" where
  "positiveScaleLoop 0 value = (value, True)"
| "positiveScaleLoop (Suc n) value =
     (let (value', ok) = int64MultiplyScale value 10 in
      if \<not> ok then (0, False) else positiveScaleLoop n value')"

definition positiveScaleInt64 :: "i64 \<Rightarrow> int \<Rightarrow> i64 \<times> bool" where
  "positiveScaleInt64 base scale =
     (if scale = 0 then (base, True)
      else if scale = 1 then int64MultiplyScale10 base
      else if scale = 2 then int64MultiplyScale100 base
      else if scale = 3 then int64MultiplyScale1000 base
      else if scale = 6 then int64MultiplyScale base 1000000
      else if scale = 9 then int64MultiplyScale base 1000000000
      else positiveScaleLoop (nat scale) base)"

fun negativeScaleLoop :: "nat \<Rightarrow> i64 \<Rightarrow> i64 \<Rightarrow> bool \<Rightarrow> i64 \<times> bool" where
  "negativeScaleLoop 0 base value fraction =
     (if fraction then (if 0 < sint base then (value + 1, False) else (value - 1, False))
      else (value, True))"
| "negativeScaleLoop (Suc n) base value fraction =
     (let fraction' = (if \<not> fraction \<and> go_mod value 10 \<noteq> 0 then True else fraction);
          value' = go_div value 10
      in if value' = 0 then
           (if fraction' then (if 0 < sint base then (1, False) else (- 1, False)) else (0, True))
         else negativeScaleLoop n base value' fraction')"

definition negativeScaleInt64 :: "i64 \<Rightarrow> int \<Rightarrow> i64 \<times> bool" where
  "negativeScaleInt64 base scale =
     (if scale = 0 then (base, True) else negativeScaleLoop (nat scale) base base False)"

definition pow10Int64 :: "int \<Rightarrow> i64" where
  "pow10Int64 b = (if 0 \<le> b \<and> b \<le> 18 then 10 ^ nat b else 0)"

definition divideByScaleInt64 :: "i64 \<Rightarrow> int \<Rightarrow> i64 \<times> i64 \<times> bool" where
  "divideByScaleInt64 base scale =
     (if scale = 0 then (base, 0, True)
      else if 18 \<le> scale then (0, base, False)
      else (let divisor = pow10Int64 scale in (go_div base divisor, go_mod base divisor, True)))"

section \<open>Decimals (inf.Dec)\<close>

text \<open>\<open>Dec unscaled scale\<close> denotes \<open>unscaled * 10^(-scale)\<close>.\<close>

record dec =
  decUnscaled :: int
  decScale :: int

definition decRescale :: "int \<Rightarrow> dec \<Rightarrow> int" where
  "decRescale s d =
     (if s < decScale d then decUnscaled d sdiv 10 ^ nat (decScale d - s)
      else decUnscaled d * 10 ^ nat (s - decScale d))"

definition decAdd :: "dec \<Rightarrow> dec \<Rightarrow> dec" where
  "decAdd x y = (let s = max (decScale x) (decScale y) in
     \<lparr>decUnscaled = decRescale s x + decRescale s y, decScale = s\<rparr>)"

definition decNeg :: "dec \<Rightarrow> dec" where
  "decNeg x = x\<lparr>decUnscaled := - decUnscaled x\<rparr>"

definition decSub :: "dec \<Rightarrow> dec \<Rightarrow> dec" where
  "decSub x y = decAdd x (decNeg y)"

definition decCmp :: "dec \<Rightarrow> dec \<Rightarrow> int" where
  "decCmp x y = (let s = max (decScale x) (decScale y) in
     sgn (decRescale s x - decRescale s y))"

section \<open>int64 amounts (amount.go)\<close>

record int64Amount =
  iaValue :: i64
  iaScale :: int

definition amountSign :: "int64Amount \<Rightarrow> int" where
  "amountSign a = (if iaValue a = 0 then 0 else if 0 < sint (iaValue a) then 1 else - 1)"

definition amountAsInt64 :: "int64Amount \<Rightarrow> i64 \<times> bool" where
  "amountAsInt64 a =
     (if iaScale a = 0 then (iaValue a, True)
      else if iaScale a < 0 then (0, False)
      else positiveScaleInt64 (iaValue a) (iaScale a))"

definition amountAsScaledInt64 :: "int64Amount \<Rightarrow> int \<Rightarrow> i64 \<times> bool" where
  "amountAsScaledInt64 a scale =
     (if iaScale a < scale then (fst (negativeScaleInt64 (iaValue a) (scale - iaScale a)), True)
      else positiveScaleInt64 (iaValue a) (iaScale a - scale))"

definition amountAsDec :: "int64Amount \<Rightarrow> dec" where
  "amountAsDec a = \<lparr>decUnscaled = sint (iaValue a), decScale = - iaScale a\<rparr>"

definition cmpInt64 :: "i64 \<Rightarrow> i64 \<Rightarrow> int" where
  "cmpInt64 a b = (if a = b then 0 else if sint a < sint b then - 1 else 1)"

definition amountCmp :: "int64Amount \<Rightarrow> int64Amount \<Rightarrow> int" where
  "amountCmp a b =
     (if iaScale a = iaScale b then cmpInt64 (iaValue a) (iaValue b)
      else if iaScale b < iaScale a then
        (let (result, remainder, exact) = divideByScaleInt64 (iaValue b) (iaScale a - iaScale b) in
         if \<not> exact then decCmp (amountAsDec a) (amountAsDec b)
         else if result = iaValue a then
           (if remainder = 0 then 0 else if 0 < sint remainder then - 1 else 1)
         else cmpInt64 (iaValue a) result)
      else
        (let (result, remainder, exact) = divideByScaleInt64 (iaValue a) (iaScale b - iaScale a) in
         if \<not> exact then decCmp (amountAsDec a) (amountAsDec b)
         else if result = iaValue b then
           (if remainder = 0 then 0 else if 0 < sint remainder then 1 else - 1)
         else cmpInt64 result (iaValue b)))"

definition amountAdd :: "int64Amount \<Rightarrow> int64Amount \<Rightarrow> int64Amount \<times> bool" where
  "amountAdd a b =
     (if iaValue b = 0 then (a, True)
      else if iaValue a = 0 then (a\<lparr>iaValue := iaValue b, iaScale := iaScale b\<rparr>, True)
      else if iaScale a = iaScale b then
        (let (c, ok) = int64Add (iaValue a) (iaValue b) in
         if \<not> ok then (a, False) else (a\<lparr>iaValue := c\<rparr>, True))
      else if iaScale b < iaScale a then
        (let (c, ok) = positiveScaleInt64 (iaValue a) (iaScale a - iaScale b) in
         if \<not> ok then (a, False)
         else (let (c', ok') = int64Add c (iaValue b) in
               if \<not> ok' then (a, False)
               else (a\<lparr>iaScale := iaScale b, iaValue := c'\<rparr>, True)))
      else
        (let (c, ok) = positiveScaleInt64 (iaValue b) (iaScale b - iaScale a) in
         if \<not> ok then (a, False)
         else (let (c', ok') = int64Add (iaValue a) c in
               if \<not> ok' then (a, False) else (a\<lparr>iaValue := c'\<rparr>, True))))"

definition amountSub :: "int64Amount \<Rightarrow> int64Amount \<Rightarrow> int64Amount \<times> bool" where
  "amountSub a b = amountAdd a \<lparr>iaValue = - iaValue b, iaScale = iaScale b\<rparr>"

definition amountAsScale :: "int64Amount \<Rightarrow> int \<Rightarrow> int64Amount \<times> bool" where
  "amountAsScale a scale =
     (if scale \<le> iaScale a then (a, True)
      else (let (result, exact) = negativeScaleInt64 (iaValue a) (scale - iaScale a)
            in (\<lparr>iaValue = result, iaScale = scale\<rparr>, exact)))"

section \<open>Quantities (quantity.go, scale_int.go)\<close>

text \<open>
  \<open>d.Dec == nil\<close> selects the \<open>int64\<close> form. The cached string \<open>s\<close> and the display \<open>Format\<close>
  do not take part in arithmetic and are left out.
\<close>

datatype Quantity = QInt int64Amount | QDec dec

text \<open>\<open>big.Int.Int64\<close> keeps the low 64 bits; \<open>int64(math.Pow10(n))\<close> is exact up to \<open>10^18\<close>, and the
  quotient and remainder of \<open>big.Int.DivMod\<close> are Euclidean.\<close>

definition scaledValue :: "int \<Rightarrow> int \<Rightarrow> int \<Rightarrow> i64" where
  "scaledValue unscaled scale newScale =
     (let dif = scale - newScale in
      if dif = 0 then word_of_int unscaled
      else if dif < 0 then word_of_int unscaled * word_of_int (10 ^ nat (- dif))
      else if unscaled < 2 ^ 63 - 1 \<and> dif < 19 then
        (let divide = word_of_int (10 ^ nat dif);
             result = go_div (word_of_int unscaled) divide;
             md = go_mod (word_of_int unscaled) divide
         in if md \<noteq> 0 then result + 1 else result)
      else
        (let divisor = 10 ^ nat dif in
         if unscaled mod divisor \<noteq> 0 then word_of_int (unscaled div divisor) + 1
         else word_of_int (unscaled div divisor)))"

definition ScaledValue :: "Quantity \<Rightarrow> int \<Rightarrow> i64" where
  "ScaledValue q scale =
     (case q of
        QInt i \<Rightarrow> fst (amountAsScaledInt64 i scale)
      | QDec d \<Rightarrow> scaledValue (decUnscaled d) (decScale d) (- scale))"

definition Value :: "Quantity \<Rightarrow> i64" where
  "Value q = ScaledValue q 0"

definition MilliValue :: "Quantity \<Rightarrow> i64" where
  "MilliValue q = ScaledValue q (- 3)"

definition NewQuantity :: "i64 \<Rightarrow> Quantity" where
  "NewQuantity v = QInt \<lparr>iaValue = v, iaScale = 0\<rparr>"

definition NewMilliQuantity :: "i64 \<Rightarrow> Quantity" where
  "NewMilliQuantity v = QInt \<lparr>iaValue = v, iaScale = - 3\<rparr>"

definition quantityAsInt64 :: "Quantity \<Rightarrow> i64 \<times> bool" where
  "quantityAsInt64 q = (case q of QDec d \<Rightarrow> (0, False) | QInt i \<Rightarrow> amountAsInt64 i)"

definition quantityAsDec :: "Quantity \<Rightarrow> dec" where
  "quantityAsDec q = (case q of QDec d \<Rightarrow> d | QInt i \<Rightarrow> amountAsDec i)"

definition quantityIsZero :: "Quantity \<Rightarrow> bool" where
  "quantityIsZero q = (case q of QDec d \<Rightarrow> sgn (decUnscaled d) = 0 | QInt i \<Rightarrow> iaValue i = 0)"

definition quantitySign :: "Quantity \<Rightarrow> int" where
  "quantitySign q = (case q of QDec d \<Rightarrow> sgn (decUnscaled d) | QInt i \<Rightarrow> amountSign i)"

definition quantityAdd :: "Quantity \<Rightarrow> Quantity \<Rightarrow> Quantity" where
  "quantityAdd q y =
     (case (q, y) of
        (QInt a, QInt b) \<Rightarrow>
          (case amountAdd a b of
             (c, True) \<Rightarrow> QInt c
           | (_, False) \<Rightarrow> QDec (decAdd (amountAsDec a) (amountAsDec b)))
      | _ \<Rightarrow> QDec (decAdd (quantityAsDec q) (quantityAsDec y)))"

definition quantitySub :: "Quantity \<Rightarrow> Quantity \<Rightarrow> Quantity" where
  "quantitySub q y =
     (case (q, y) of
        (QInt a, QInt b) \<Rightarrow>
          (case amountSub a b of
             (c, True) \<Rightarrow> QInt c
           | (_, False) \<Rightarrow> QDec (decSub (amountAsDec a) (amountAsDec b)))
      | _ \<Rightarrow> QDec (decSub (quantityAsDec q) (quantityAsDec y)))"

definition quantityCmp :: "Quantity \<Rightarrow> Quantity \<Rightarrow> int" where
  "quantityCmp q y =
     (case (q, y) of
        (QInt a, QInt b) \<Rightarrow> amountCmp a b
      | _ \<Rightarrow> decCmp (quantityAsDec q) (quantityAsDec y))"

definition quantityNeg :: "Quantity \<Rightarrow> Quantity" where
  "quantityNeg q =
     (case q of QInt i \<Rightarrow> QInt (i\<lparr>iaValue := - iaValue i\<rparr>) | QDec d \<Rightarrow> QDec (decNeg d))"

section \<open>What the operations are specified against\<close>

text \<open>\<open>scales_by r a k\<close>: the result pair \<open>r\<close> is the exact product \<open>a * k\<close> when it fits in an \<open>int64\<close>, and
  reports failure otherwise. \<open>roundAway v n\<close> divides by \<open>10^n\<close> and rounds away from zero.\<close>

definition scales_by :: "i64 \<times> bool \<Rightarrow> i64 \<Rightarrow> int \<Rightarrow> bool" where
  "scales_by r a k \<longleftrightarrow>
     (snd r \<longleftrightarrow> - (2 ^ 63) \<le> sint a * k \<and> sint a * k < 2 ^ 63) \<and>
     (snd r \<longrightarrow> sint (fst r) = sint a * k)"

definition roundAway :: "int \<Rightarrow> nat \<Rightarrow> int" where
  "roundAway v n = sgn v * (\<bar>v\<bar> div 10 ^ n + of_bool (\<bar>v\<bar> mod 10 ^ n \<noteq> 0))"

text \<open>
  \<open>qunits s q\<close> is the number denoted by \<open>q\<close>, counted in units of \<open>10^s\<close>, for any \<open>s\<close> not above
  the quantity's own scale; the statements below hold for every such \<open>s\<close>.
\<close>

definition qscale :: "Quantity \<Rightarrow> int" where
  "qscale q = (case q of QInt i \<Rightarrow> iaScale i | QDec d \<Rightarrow> - decScale d)"

definition qnum :: "Quantity \<Rightarrow> int" where
  "qnum q = (case q of QInt i \<Rightarrow> sint (iaValue i) | QDec d \<Rightarrow> decUnscaled d)"

definition qunits :: "int \<Rightarrow> Quantity \<Rightarrow> int" where
  "qunits s q = qnum q * 10 ^ nat (qscale q - s)"

section \<open>The overflow checks are exact\<close>

lemma int64Add_spec:
  "int64Add a b =
     (if - (2 ^ 63) \<le> sint a + sint b \<and> sint a + sint b < 2 ^ 63 then (a + b, True) else (0, False))"
proof -
  have "sint a = - (2 ^ 63) \<longleftrightarrow> a = minInt64" "sint b = - (2 ^ 63) \<longleftrightarrow> b = minInt64"
    by (simp_all add: sint64_eq_iff)
  with sint64_ge [of a] sint64_ge [of b] sint64_less [of a] sint64_less [of b]
  show ?thesis
    unfolding int64Add_def Let_def sint_plus64_cases by auto
qed

lemma sint_times64_mod: "\<exists>m. sint ((a :: i64) * b) = sint a * sint b + m * 2 ^ 64"
proof -
  have "word_of_int (sint (a * b)) = (word_of_int (sint a * sint b) :: i64)"
    by (simp add: word_times64_conv [symmetric])
  then have "sint (a * b) mod 2 ^ 64 = (sint a * sint b) mod 2 ^ 64"
    unfolding word_of_int64_eq_iff .
  then obtain m where "sint (a * b) - sint a * sint b = 2 ^ 64 * m"
    by (metis mod_eq_dvd_iff dvdE)
  then have "sint (a * b) = sint a * sint b + m * 2 ^ 64" by (simp add: algebra_simps)
  then show ?thesis ..
qed

lemma go_div_check:
  assumes b: "0 < sint b" and q: "go_div (a * b) b = a"
  shows "sint (a * b) = sint a * sint b"
proof -
  let ?c = "sint (a * b)"
  obtain m where m: "?c = sint a * sint b + m * 2 ^ 64" using sint_times64_mod by blast
  have "sint a = ?c sdiv sint b" using q b sint_go_div [of b "a * b"] by simp
  then have "sint a * sint b + ?c smod sint b = ?c"
    by (metis sdiv_mult_smod_eq)
  with m have r: "?c smod sint b = m * 2 ^ 64" by simp
  have "\<bar>?c smod sint b\<bar> < 2 ^ 63"
    using smod_int_range [of "sint b" ?c] b sint64_less [of b] by auto
  with r have "m = 0" by (cases "m = 0") auto
  with m show ?thesis by simp
qed

lemma go_div_check_complete:
  assumes b: "0 < sint b" and r: "- (2 ^ 63) \<le> sint a * sint b" "sint a * sint b < 2 ^ 63"
  shows "go_div (a * b) b = a"
proof -
  have "sint (go_div (a * b) b) = (sint a * sint b) sdiv sint b"
    using b sint_go_div [of b "a * b"] sint_times64 [OF r] by simp
  also have "\<dots> = sint a"
    using b by (simp add: signed_divide_int_def sgn_mult abs_mult mult_sgn_abs)
  finally show ?thesis by (simp add: sint64_eq_iff)
qed

lemma int64MultiplyScale_spec:
  assumes "1 < sint b"
  shows "scales_by (int64MultiplyScale a b) a (sint b)"
proof -
  have small: "scales_by (a * b, True) a (sint b)" if "a = 0 \<or> a = 1"
    using that assms sint64_less [of b] by (auto simp: scales_by_def)
  have min: "\<not> - (2 ^ 63) \<le> sint minInt64 * sint b"
    using assms by simp
  have chk: "scales_by (a * b, go_div (a * b) b = a) a (sint b)"
    using go_div_check [of b a] go_div_check_complete [of b a] assms
      sint64_ge [of "a * b"] sint64_less [of "a * b"]
    by (auto simp: scales_by_def)
  have "b \<noteq> 1" using assms by auto
  then show ?thesis
    using small min chk unfolding int64MultiplyScale_def by (auto simp: scales_by_def)
qed

lemma int64MultiplyScale10_eq: "int64MultiplyScale10 a = int64MultiplyScale a 10"
  by (simp add: int64MultiplyScale10_def int64MultiplyScale_def)

lemma int64MultiplyScale100_eq: "int64MultiplyScale100 a = int64MultiplyScale a 100"
  by (simp add: int64MultiplyScale100_def int64MultiplyScale_def)

lemma int64MultiplyScale1000_eq: "int64MultiplyScale1000 a = int64MultiplyScale a 1000"
  by (simp add: int64MultiplyScale1000_def int64MultiplyScale_def)

lemma positiveScaleLoop_sound:
  "positiveScaleLoop n a = (v, True) \<Longrightarrow> sint v = sint a * 10 ^ n"
proof (induction n arbitrary: a)
  case (Suc n)
  obtain a' ok where m: "int64MultiplyScale a 10 = (a', ok)" by fastforce
  with Suc.prems have ok: "ok" "positiveScaleLoop n a' = (v, True)" by (auto split: if_splits)
  have "sint a' = sint a * 10"
    using int64MultiplyScale_spec [of 10 a] m ok(1) by (simp add: scales_by_def)
  with Suc.IH [OF ok(2)] show ?case by simp
qed simp

lemmas multiplyScale_eqs =
  int64MultiplyScale10_eq int64MultiplyScale100_eq int64MultiplyScale1000_eq

lemma positiveScaleInt64_cases:
  "positiveScaleInt64 a scale =
     (if scale = 0 then (a, True)
      else if scale \<in> {1, 2, 3, 6, 9} then int64MultiplyScale a (word_of_int (10 ^ nat scale))
      else positiveScaleLoop (nat scale) a)"
  by (simp add: positiveScaleInt64_def multiplyScale_eqs)

lemma positiveScaleInt64_sound:
  assumes v: "positiveScaleInt64 a scale = (v, True)" and "0 \<le> scale"
  shows "sint v = sint a * 10 ^ nat scale"
proof -
  consider "scale = 0" | "scale \<in> {1, 2, 3, 6, 9}" | "scale \<notin> {0, 1, 2, 3, 6, 9}" by blast
  then show ?thesis
  proof cases
    case 2
    then have "int64MultiplyScale a (word_of_int (10 ^ nat scale)) = (v, True)"
      using v by (auto simp: positiveScaleInt64_cases)
    moreover have "sint (word_of_int (10 ^ nat scale) :: i64) = 10 ^ nat scale"
      "(1 :: int) < 10 ^ nat scale"
      using 2 by auto
    ultimately show ?thesis
      using int64MultiplyScale_spec [of "word_of_int (10 ^ nat scale)" a] by (simp add: scales_by_def)
  next
    case 3
    with v show ?thesis by (simp add: positiveScaleInt64_cases positiveScaleLoop_sound)
  qed (use v in \<open>simp add: positiveScaleInt64_cases\<close>)
qed

section \<open>Scaling down rounds away from zero\<close>

lemma abs_sdiv10: "\<bar>v sdiv 10\<bar> = \<bar>v\<bar> div 10" for v :: int
  by (cases "v = 0") (simp_all add: signed_divide_int_def abs_mult abs_sgn_eq)

lemma sgn_sdiv10: "v sdiv 10 \<noteq> 0 \<Longrightarrow> sgn (v sdiv 10) = sgn v" for v :: int
  by (auto simp: signed_divide_int_def sgn_mult sgn_if)

lemma smod10_eq_0: "v smod 10 = 0 \<longleftrightarrow> \<bar>v\<bar> mod 10 = 0" for v :: int
  by (auto simp: signed_modulo_int_def mod_eq_0_iff_dvd sgn_0_0)

lemma sint_go_mod10: "sint (go_mod v 10) = sint v smod 10"
proof -
  have "\<bar>sint v smod 10\<bar> < 10" using smod_int_range [of 10 "sint v"] by auto
  then show ?thesis unfolding go_mod_def by (subst sint_word_of_int64) auto
qed

lemma sint_go_div10: "sint (go_div v 10) = sint v sdiv 10"
  using sint_go_div [of 10 v] by simp

lemma mod_10_Suc: "k mod 10 ^ Suc n \<noteq> 0 \<longleftrightarrow> k mod 10 \<noteq> 0 \<or> (k div 10) mod 10 ^ n \<noteq> 0"
  for k :: int
proof -
  have m: "k mod (10 * 10 ^ n) = 10 * ((k div 10) mod 10 ^ n) + k mod 10"
    by (rule zmod_zmult2_eq) simp
  have "0 \<le> k mod 10" "0 \<le> (k div 10) mod 10 ^ n" by simp_all
  then show ?thesis by (auto simp: m add_nonneg_eq_0_iff)
qed

lemma div_10_Suc: "k div 10 ^ Suc n = (k div 10) div 10 ^ n" for k :: int
  by (simp add: zdiv_zmult2_eq)

lemma negativeScaleLoop_spec:
  assumes "sgn (sint v) = sgn (sint base)" and "f \<longrightarrow> sint v \<noteq> 0 \<and> \<bar>sint v\<bar> < 2 ^ 62"
  shows "sint (fst (negativeScaleLoop n base v f)) =
           sgn (sint base) * (\<bar>sint v\<bar> div 10 ^ n + of_bool (f \<or> \<bar>sint v\<bar> mod 10 ^ n \<noteq> 0)) \<and>
         snd (negativeScaleLoop n base v f) = (\<not> (f \<or> \<bar>sint v\<bar> mod 10 ^ n \<noteq> 0))"
  using assms
proof (induction n arbitrary: v f)
  case 0
  have abs: "sgn (sint base) * \<bar>sint v\<bar> = sint v" using 0 by (metis mult_sgn_abs)
  show ?case
  proof (cases f)
    case True
    with 0 have v: "sint v \<noteq> 0" "\<bar>sint v\<bar> < 2 ^ 62" by auto
    have "sint (v + 1) = sint v + 1" by (rule sint_plus64 [of v 1, simplified]) (use v in auto)
    moreover have "sint (v - 1) = sint v - 1" by (rule sint_minus64 [of v 1, simplified]) (use v in auto)
    ultimately show ?thesis using True abs v 0(1)
      by (auto simp: algebra_simps sgn_if split: if_splits)
  qed (use abs in simp)
next
  case (Suc n)
  let ?v = "go_div v 10" and ?f = "f \<or> \<bar>sint v\<bar> mod 10 \<noteq> 0"
  have f: "(if \<not> f \<and> go_mod v 10 \<noteq> 0 then True else f) = ?f"
    by (auto simp: sint64_eq_iff sint_go_mod10 smod10_eq_0)
  have v: "\<bar>sint ?v\<bar> = \<bar>sint v\<bar> div 10" by (simp add: sint_go_div10 abs_sdiv10)
  show ?case
  proof (cases "?v = 0")
    case True
    then have lt: "\<bar>sint v\<bar> < 10" using v by auto
    then have d: "\<bar>sint v\<bar> div 10 ^ Suc n = 0" "\<bar>sint v\<bar> mod 10 ^ Suc n = \<bar>sint v\<bar>"
      "\<bar>sint v\<bar> mod 10 = \<bar>sint v\<bar>"
      using order_less_le_trans [OF lt, of "10 ^ Suc n"] by auto
    show ?thesis
      using True f d Suc.prems by (auto simp: sgn_if split: if_splits)
  next
    case False
    then have ne: "sint ?v \<noteq> 0" by (simp add: sint64_eq_iff)
    have "\<bar>sint ?v\<bar> < 2 ^ 62" using v sint64_ge [of v] sint64_less [of v] by auto
    moreover have "sgn (sint ?v) = sgn (sint base)"
      using ne Suc.prems(1) by (simp add: sint_go_div10 sgn_sdiv10)
    ultimately have IH: "sint (fst (negativeScaleLoop n base ?v ?f)) =
           sgn (sint base) * (\<bar>sint ?v\<bar> div 10 ^ n + of_bool (?f \<or> \<bar>sint ?v\<bar> mod 10 ^ n \<noteq> 0)) \<and>
         snd (negativeScaleLoop n base ?v ?f) = (\<not> (?f \<or> \<bar>sint ?v\<bar> mod 10 ^ n \<noteq> 0))"
      using ne by (intro Suc.IH) auto
    have "negativeScaleLoop (Suc n) base v f = negativeScaleLoop n base ?v ?f"
      using False f by simp
    with IH show ?thesis unfolding div_10_Suc mod_10_Suc v by (simp add: disj_assoc)
  qed
qed

lemma negativeScaleInt64_spec:
  "sint (fst (negativeScaleInt64 v scale)) = roundAway (sint v) (nat scale)"
  "snd (negativeScaleInt64 v scale) \<longleftrightarrow> \<bar>sint v\<bar> mod 10 ^ nat scale = 0"
  using negativeScaleLoop_spec [of v v False "nat scale"]
  by (auto simp: negativeScaleInt64_def roundAway_def mult_sgn_abs)

section \<open>What a quantity denotes\<close>

lemma pow10_split: "s \<le> t \<Longrightarrow> t \<le> u \<Longrightarrow> (10 :: int) ^ nat (u - s) = 10 ^ nat (u - t) * 10 ^ nat (t - s)"
  by (simp add: power_add [symmetric] nat_add_distrib [symmetric])

lemma qunits_rescale: "s \<le> t \<Longrightarrow> t \<le> qscale q \<Longrightarrow> qunits s q = qunits t q * 10 ^ nat (t - s)"
  by (simp add: qunits_def pow10_split [of s t "qscale q"])

lemma qunits_asDec: "qunits s (QDec (quantityAsDec q)) = qunits s q"
  by (cases q) (simp_all add: qunits_def qnum_def qscale_def quantityAsDec_def amountAsDec_def)

lemma qscale_asDec: "qscale (QDec (quantityAsDec q)) = qscale q"
  by (cases q) (simp_all add: qscale_def quantityAsDec_def amountAsDec_def)

lemma decAdd_units:
  assumes "s \<le> qscale (QDec x)" and "s \<le> qscale (QDec y)"
  shows "s \<le> qscale (QDec (decAdd x y))"
    and "qunits s (QDec (decAdd x y)) = qunits s (QDec x) + qunits s (QDec y)"
proof -
  let ?m = "max (decScale x) (decScale y)"
  show "s \<le> qscale (QDec (decAdd x y))"
    using assms by (simp add: qscale_def decAdd_def Let_def)
  have "(10 :: int) ^ nat (- decScale d - s) = 10 ^ nat (?m - decScale d) * 10 ^ nat (- ?m - s)"
    if "decScale d \<le> ?m" for d
    using pow10_split [of s "- ?m" "- decScale d"] that assms by (simp add: qscale_def)
  from this [of x] this [of y]
  show "qunits s (QDec (decAdd x y)) = qunits s (QDec x) + qunits s (QDec y)"
    by (simp add: qunits_def qnum_def qscale_def decAdd_def decRescale_def Let_def algebra_simps)
qed

lemma decNeg_units: "qunits s (QDec (decNeg x)) = - qunits s (QDec x)"
  "qscale (QDec (decNeg x)) = qscale (QDec x)"
  by (simp_all add: qunits_def qnum_def qscale_def decNeg_def)

lemma decCmp_units:
  assumes "s \<le> qscale (QDec x)" and "s \<le> qscale (QDec y)"
  shows "decCmp x y = sgn (qunits s (QDec x) - qunits s (QDec y))"
proof -
  let ?m = "max (decScale x) (decScale y)"
  have "qunits s (QDec d) = decRescale ?m d * 10 ^ nat (- ?m - s)" if "decScale d \<le> ?m" for d
    using pow10_split [of s "- ?m" "- decScale d"] that assms
    by (simp add: qscale_def qunits_def qnum_def decRescale_def)
  from this [of x] this [of y] have "qunits s (QDec x) - qunits s (QDec y) =
      (decRescale ?m x - decRescale ?m y) * 10 ^ nat (- ?m - s)"
    by (simp add: left_diff_distrib)
  then show ?thesis by (simp add: decCmp_def Let_def sgn_mult)
qed

lemma amountAdd_units:
  assumes "amountAdd a b = (c, True)" and "s \<le> iaScale a" and "s \<le> iaScale b"
  shows "s \<le> iaScale c \<and> qunits s (QInt c) = qunits s (QInt a) + qunits s (QInt b)"
proof -
  have add: "sint z = sint x + sint y" if "int64Add x y = (z, True)" for x y z
    using that by (auto simp: int64Add_spec sint_plus64 split: if_splits)
  consider "iaValue b = 0" | "iaValue b \<noteq> 0" "iaValue a = 0"
    | "iaValue b \<noteq> 0" "iaValue a \<noteq> 0" "iaScale a = iaScale b"
    | "iaValue b \<noteq> 0" "iaValue a \<noteq> 0" "iaScale b < iaScale a"
    | "iaValue b \<noteq> 0" "iaValue a \<noteq> 0" "iaScale a < iaScale b" by linarith
  then show ?thesis
  proof cases
    case 3
    with assms add [of "iaValue a" "iaValue b"] show ?thesis
      by (auto simp: amountAdd_def qunits_def qnum_def qscale_def algebra_simps split: prod.splits if_splits)
  next
    case 4
    with assms obtain x where x: "positiveScaleInt64 (iaValue a) (iaScale a - iaScale b) = (x, True)"
        "int64Add x (iaValue b) = (iaValue c, True)" "iaScale c = iaScale b"
      by (auto simp: amountAdd_def split: prod.splits if_splits)
    then have "sint (iaValue c) = sint (iaValue a) * 10 ^ nat (iaScale a - iaScale b) + sint (iaValue b)"
      using add 4 positiveScaleInt64_sound [OF x(1)] by simp
    with 4 x(3) assms show ?thesis
      by (simp add: qunits_def qnum_def qscale_def pow10_split [of s "iaScale b" "iaScale a"] algebra_simps)
  next
    case 5
    with assms obtain x where x: "positiveScaleInt64 (iaValue b) (iaScale b - iaScale a) = (x, True)"
        "int64Add (iaValue a) x = (iaValue c, True)" "iaScale c = iaScale a"
      by (auto simp: amountAdd_def split: prod.splits if_splits)
    then have "sint (iaValue c) = sint (iaValue a) + sint (iaValue b) * 10 ^ nat (iaScale b - iaScale a)"
      using add 5 positiveScaleInt64_sound [OF x(1)] by simp
    with 5 x(3) assms show ?thesis
      by (simp add: qunits_def qnum_def qscale_def pow10_split [of s "iaScale a" "iaScale b"] algebra_simps)
  qed (use assms in \<open>auto simp: amountAdd_def qunits_def qnum_def qscale_def\<close>)
qed

lemma quantityAdd_units:
  assumes "s \<le> qscale q" and "s \<le> qscale y"
  shows "s \<le> qscale (quantityAdd q y) \<and> qunits s (quantityAdd q y) = qunits s q + qunits s y"
proof -
  have dec: "s \<le> qscale (QDec (decAdd (quantityAsDec q) (quantityAsDec y))) \<and>
      qunits s (QDec (decAdd (quantityAsDec q) (quantityAsDec y))) = qunits s q + qunits s y"
    using decAdd_units [of s "quantityAsDec q" "quantityAsDec y"] assms
    by (simp add: qunits_asDec qscale_asDec)
  show ?thesis
  proof (cases "(q, y)")
    case (Pair q' y')
    show ?thesis
    proof (cases "\<exists>a b c. q = QInt a \<and> y = QInt b \<and> amountAdd a b = (c, True)")
      case True
      then obtain a b c where abc: "q = QInt a" "y = QInt b" "amountAdd a b = (c, True)" by blast
      with amountAdd_units [OF abc(3), of s] assms show ?thesis
        by (simp add: quantityAdd_def qscale_def)
    next
      case False
      then have "quantityAdd q y = QDec (decAdd (quantityAsDec q) (quantityAsDec y))"
        by (auto simp: quantityAdd_def quantityAsDec_def split: Quantity.splits prod.splits bool.splits)
      with dec show ?thesis by simp
    qed
  qed
qed

lemma sint_divideByScale:
  assumes "0 < scale" and "scale < 18"
  shows "divideByScaleInt64 v scale = (go_div v (pow10Int64 scale), go_mod v (pow10Int64 scale), True)"
    and "sint (pow10Int64 scale) = 10 ^ nat scale"
    and "sint (go_div v (pow10Int64 scale)) = sint v sdiv 10 ^ nat scale"
    and "sint (go_mod v (pow10Int64 scale)) = sint v smod 10 ^ nat scale"
proof -
  let ?p = "pow10Int64 scale"
  have "(10 :: int) ^ nat scale \<le> 10 ^ 18" using assms by (intro power_increasing) auto
  then have le: "(10 :: int) ^ nat scale < 2 ^ 63" by simp
  have p: "?p = word_of_int (10 ^ nat scale)"
    using assms by (simp add: pow10Int64_def)
  show sp: "sint ?p = 10 ^ nat scale"
    unfolding p using le by (intro sint_word_of_int64) (auto intro: order_trans [of _ 0])
  show "divideByScaleInt64 v scale = (go_div v ?p, go_mod v ?p, True)"
    using assms by (simp add: divideByScaleInt64_def Let_def)
  show "sint (go_div v ?p) = sint v sdiv 10 ^ nat scale"
  proof -
    have "(0 :: int) \<le> 10 ^ nat scale" by simp
    then have "sint ?p \<noteq> - 1" unfolding sp by linarith
    then show ?thesis using sint_go_div [of ?p v] sp by simp
  qed
  have "\<bar>sint v smod 10 ^ nat scale\<bar> < 10 ^ nat scale"
    using smod_int_range [of "10 ^ nat scale" "sint v"] by auto
  with le show "sint (go_mod v ?p) = sint v smod 10 ^ nat scale"
    unfolding go_mod_def sp by (intro sint_word_of_int64) auto
qed

text \<open>Truncated division decides a comparison with a multiple of the divisor.\<close>

lemma sdiv_compare:
  fixes v w p :: int
  assumes p: "0 < p"
  shows "sgn (w * p - v) = (if v sdiv p = w then - sgn (v smod p) else sgn (w - v sdiv p))"
proof -
  have v: "v = (v sdiv p) * p + v smod p" by (simp add: sdiv_mult_smod_eq)
  have r: "\<bar>v smod p\<bar> < p" using smod_int_range [of p v] p by auto
  have "w * p - v = (w - v sdiv p) * p - v smod p" using v by (simp add: algebra_simps)
  moreover have "sgn (k * p - v smod p) = (if k = 0 then - sgn (v smod p) else sgn k)" for k
  proof -
    consider "k = 0" | "1 \<le> k" | "k \<le> - 1" by linarith
    then show ?thesis
    proof cases
      case 2
      then have "1 * p \<le> k * p" using p by (intro mult_right_mono) auto
      then show ?thesis using 2 r by auto
    next
      case 3
      then have "k * p \<le> (- 1) * p" using p by (intro mult_right_mono) auto
      then show ?thesis using 3 r by auto
    qed (auto simp: sgn_minus)
  qed
  ultimately show ?thesis by auto
qed

lemma cmpInt64_sgn: "cmpInt64 a b = sgn (sint a - sint b)"
  by (simp add: cmpInt64_def sint64_eq_iff sgn_if)

lemma divided_eqs:
  fixes r m v w :: i64
  assumes "sint r = sint v sdiv 10 ^ nat d" and "sint m = sint v smod 10 ^ nat d"
  shows "r = w \<longleftrightarrow> sint v sdiv 10 ^ nat d = sint w" and "m = 0 \<longleftrightarrow> sint v smod 10 ^ nat d = 0"
  using assms sint64_eq_iff [of r w] sint64_eq_iff [of m 0] by simp_all

lemma amountCmp_down:
  fixes r m v w :: i64
  assumes "sint r = sint v sdiv 10 ^ nat d" and "sint m = sint v smod 10 ^ nat d"
  shows "(if r = w then (if m = 0 then 0 else if 0 < sint m then - 1 else 1) else cmpInt64 w r) =
         sgn (sint w * 10 ^ nat d - sint v)"
  unfolding divided_eqs [OF assms] cmpInt64_sgn assms sdiv_compare [of "10 ^ nat d" "sint w" "sint v", simplified]
  by (simp add: sgn_if)

lemma amountCmp_up:
  fixes r m v w :: i64
  assumes "sint r = sint v sdiv 10 ^ nat d" and "sint m = sint v smod 10 ^ nat d"
  shows "(if r = w then (if m = 0 then 0 else if 0 < sint m then 1 else - 1) else cmpInt64 r w) =
         sgn (sint v - sint w * 10 ^ nat d)"
proof -
  have "sgn (sint v - sint w * 10 ^ nat d) = - sgn (sint w * 10 ^ nat d - sint v)"
    by (simp add: sgn_if)
  then show ?thesis
    unfolding divided_eqs [OF assms] cmpInt64_sgn assms sdiv_compare [of "10 ^ nat d" "sint w" "sint v", simplified]
    by (simp add: sgn_if)
qed

lemma amountCmp_units:
  assumes "s \<le> iaScale a" and "s \<le> iaScale b"
  shows "amountCmp a b = sgn (qunits s (QInt a) - qunits s (QInt b))"
proof -
  have dec: "decCmp (amountAsDec a) (amountAsDec b) = sgn (qunits s (QInt a) - qunits s (QInt b))"
    using decCmp_units [of s "amountAsDec a" "amountAsDec b"] qunits_asDec [of s "QInt a"]
      qunits_asDec [of s "QInt b"] assms
    by (simp add: quantityAsDec_def qscale_def amountAsDec_def)
  have inexact: "divideByScaleInt64 v d = (0, v, False)" if "18 \<le> d" for v d
    using that by (simp add: divideByScaleInt64_def)
  consider "iaScale a = iaScale b" | "iaScale b < iaScale a" | "iaScale a < iaScale b" by linarith
  then show ?thesis
  proof cases
    case 1
    have "qunits s (QInt a) - qunits s (QInt b) =
        (sint (iaValue a) - sint (iaValue b)) * 10 ^ nat (iaScale b - s)"
      using 1 by (simp add: qunits_def qnum_def qscale_def left_diff_distrib)
    with 1 show ?thesis by (simp add: amountCmp_def cmpInt64_sgn sgn_mult)
  next
    case 2
    let ?d = "iaScale a - iaScale b"
    have u: "qunits s (QInt a) - qunits s (QInt b) =
        (sint (iaValue a) * 10 ^ nat ?d - sint (iaValue b)) * 10 ^ nat (iaScale b - s)"
      using 2 assms by (simp add: qunits_def qnum_def qscale_def pow10_split [of s "iaScale b" "iaScale a"] left_diff_distrib)
    show ?thesis
    proof (cases "18 \<le> ?d")
      case False
      with 2 have d: "0 < ?d" "?d < 18" by auto
      from 2 show ?thesis
        using amountCmp_down [OF sint_divideByScale(3,4) [OF d, of "iaValue b"], of "iaValue a"]
        by (simp add: amountCmp_def sint_divideByScale(1) [OF d] u sgn_mult)
    qed (use 2 dec inexact in \<open>simp add: amountCmp_def\<close>)
  next
    case 3
    let ?d = "iaScale b - iaScale a"
    have u: "qunits s (QInt a) - qunits s (QInt b) =
        (sint (iaValue a) - sint (iaValue b) * 10 ^ nat ?d) * 10 ^ nat (iaScale a - s)"
      using 3 assms by (simp add: qunits_def qnum_def qscale_def pow10_split [of s "iaScale a" "iaScale b"] left_diff_distrib)
    show ?thesis
    proof (cases "18 \<le> ?d")
      case False
      with 3 have d: "0 < ?d" "?d < 18" by auto
      from 3 show ?thesis
        using amountCmp_up [OF sint_divideByScale(3,4) [OF d, of "iaValue a"], of "iaValue b"]
        by (simp add: amountCmp_def sint_divideByScale(1) [OF d] u sgn_mult)
    qed (use 3 dec inexact in \<open>simp add: amountCmp_def\<close>)
  qed
qed

lemma quantityCmp_units:
  assumes "s \<le> qscale q" and "s \<le> qscale y"
  shows "quantityCmp q y = sgn (qunits s q - qunits s y)"
  using assms amountCmp_units [of s] decCmp_units [of s "quantityAsDec q" "quantityAsDec y"]
  by (cases q; cases y) (simp_all add: quantityCmp_def qunits_asDec qscale_asDec, simp_all add: qscale_def)

lemma times_pow10_range:
  fixes x :: int
  assumes "- (2 ^ 63) \<le> x * k * 10 ^ n" and "x * k * 10 ^ n < 2 ^ 63"
  shows "- (2 ^ 63) \<le> x * k \<and> x * k < 2 ^ 63"
proof -
  have "(1 :: int) \<le> 10 ^ n" by simp
  then have "\<bar>x * k\<bar> * 1 \<le> \<bar>x * k\<bar> * 10 ^ n" by (intro mult_left_mono) auto
  then have "0 \<le> x * k \<Longrightarrow> x * k \<le> x * k * 10 ^ n" "x * k \<le> 0 \<Longrightarrow> x * k * 10 ^ n \<le> x * k" by auto
  with assms show ?thesis by linarith
qed

lemma positiveScaleLoop_complete:
  assumes "- (2 ^ 63) \<le> sint a * 10 ^ n" and "sint a * 10 ^ n < 2 ^ 63"
  shows "snd (positiveScaleLoop n a)"
  using assms
proof (induction n arbitrary: a)
  case (Suc n)
  obtain a' ok where m: "int64MultiplyScale a 10 = (a', ok)" by fastforce
  have r: "- (2 ^ 63) \<le> sint a * 10 * 10 ^ n" "sint a * 10 * 10 ^ n < 2 ^ 63"
    using Suc.prems by (simp_all add: mult.assoc)
  have "ok" "sint a' = sint a * 10"
    using int64MultiplyScale_spec [of 10 a] m times_pow10_range [OF r] by (simp_all add: scales_by_def)
  with m r Suc.IH [of a'] show ?case by simp
qed simp

lemma positiveScaleInt64_complete:
  assumes "- (2 ^ 63) \<le> sint a * 10 ^ nat scale" and "sint a * 10 ^ nat scale < 2 ^ 63"
  shows "snd (positiveScaleInt64 a scale)"
proof -
  consider "scale = 0" | "scale \<in> {1, 2, 3, 6, 9}" | "scale \<notin> {0, 1, 2, 3, 6, 9}" by blast
  then show ?thesis
  proof cases
    case 2
    have "sint (word_of_int (10 ^ nat scale) :: i64) = 10 ^ nat scale" "(1 :: int) < 10 ^ nat scale"
      using 2 by auto
    with 2 assms int64MultiplyScale_spec [of "word_of_int (10 ^ nat scale)" a] show ?thesis
      by (simp add: positiveScaleInt64_cases scales_by_def)
  next
    case 3
    with assms positiveScaleLoop_complete show ?thesis by (simp add: positiveScaleInt64_cases)
  qed (simp add: positiveScaleInt64_cases)
qed

section \<open>Properties\<close>





text \<open>\<open>ScaledValue\<close> (so \<open>Value\<close> and \<open>MilliValue\<close>) of an int64 quantity: a coarser unit rounds away
  from zero, a finer unit is exact whenever the result fits in an int64.\<close>

lemma ScaledValue_rounds_away:
  assumes "iaScale i < scale \<or>
    - (2 ^ 63) \<le> sint (iaValue i) * 10 ^ nat (iaScale i - scale) \<and>
    sint (iaValue i) * 10 ^ nat (iaScale i - scale) < 2 ^ 63"
  shows "sint (ScaledValue (QInt i) scale) =
    (if iaScale i < scale then roundAway (sint (iaValue i)) (nat (scale - iaScale i))
     else sint (iaValue i) * 10 ^ nat (iaScale i - scale))"
proof (cases "iaScale i < scale")
  case True
  then show ?thesis by (simp add: ScaledValue_def amountAsScaledInt64_def negativeScaleInt64_spec)
next
  case False
  obtain v ok where v: "positiveScaleInt64 (iaValue i) (iaScale i - scale) = (v, ok)" by fastforce
  with False assms positiveScaleInt64_complete [of "iaValue i" "iaScale i - scale"] have ok by simp
  with v False positiveScaleInt64_sound [of "iaValue i" "iaScale i - scale" v] show ?thesis
    by (simp add: ScaledValue_def amountAsScaledInt64_def)
qed

text \<open>The arbitrary precision form does not round the same way: its fast path truncates and then adds
  one, so \<open>-1.5\<close> has the value \<open>-2\<close> in the int64 form and \<open>0\<close> in the \<open>inf.Dec\<close> form.\<close>

lemma Value_depends_on_form:
  "sint (Value (QInt \<lparr>iaValue = - 15, iaScale = - 1\<rparr>)) = - 2"
  "sint (Value (QDec (amountAsDec \<lparr>iaValue = - 15, iaScale = - 1\<rparr>))) = 0"
  by (simp_all add: Value_def ScaledValue_def amountAsScaledInt64_def negativeScaleInt64_spec roundAway_def
      amountAsDec_def scaledValue_def go_div_def go_mod_def signed_divide_int_def signed_modulo_int_def)

text \<open>Negating the smallest int64 wraps, so subtracting it from zero on the fast path reports success
  and yields the smallest int64 itself.\<close>

lemma amountSub_minInt64:
  "qunits 0 (quantitySub (NewQuantity 0) (NewQuantity minInt64)) = - (2 ^ 63)"
  by (simp add: quantitySub_def NewQuantity_def amountSub_def amountAdd_def qunits_def qnum_def qscale_def
      minInt64_def)

end
