(* ===== verification/ApiTypes.thy ===== *)
theory ApiTypes
  imports Quantity "HOL-Library.Char_ord" "HOL-Library.List_Lexorder"
begin

text \<open>
  The API objects the scheduler reads (\<open>staging/src/k8s.io/api/core/v1/types.go\<close>) with the fields the
  modelled code uses, and the pure helpers on them: resource names
  (\<open>pkg/apis/core/v1/helper/helpers.go\<close>, \<open>apimachinery/pkg/util/validation\<close>), object keys
  (\<open>client-go/tools/cache/store.go\<close>), zone keys (\<open>pkg/util/node/node.go\<close>) and pod priority.
  Go strings are byte strings; they are \<open>string\<close> here. A nil slice and an empty slice are both \<open>[]\<close>;
  a pointer field is an \<open>option\<close>. Of a volume only the name of its claim is kept, if it has one.
\<close>

section \<open>Strings\<close>

definition hasPrefix :: "string \<Rightarrow> string \<Rightarrow> bool" where
  "hasPrefix s p \<longleftrightarrow> take (length p) s = p"

fun strContains :: "string \<Rightarrow> string \<Rightarrow> bool" where
  "strContains [] p \<longleftrightarrow> p = []"
| "strContains (c # s) p \<longleftrightarrow> hasPrefix (c # s) p \<or> strContains s p"

text \<open>\<open>strings.Split(s, sep)\<close> for a one-byte separator: never empty.\<close>

fun strSplit :: "char \<Rightarrow> string \<Rightarrow> string list" where
  "strSplit sep [] = [[]]"
| "strSplit sep (c # s) =
     (if c = sep then [] # strSplit sep s
      else (case strSplit sep s of [] \<Rightarrow> [[c]] | w # ws \<Rightarrow> (c # w) # ws))"

section \<open>Qualified names (validation.go)\<close>

definition isLowerAlnum :: "char \<Rightarrow> bool" where
  "isLowerAlnum c \<longleftrightarrow> (CHR ''a'' \<le> c \<and> c \<le> CHR ''z'') \<or> (CHR ''0'' \<le> c \<and> c \<le> CHR ''9'')"

definition isAlnum :: "char \<Rightarrow> bool" where
  "isAlnum c \<longleftrightarrow> isLowerAlnum c \<or> (CHR ''A'' \<le> c \<and> c \<le> CHR ''Z'')"

definition matchesDNS1123Label :: "string \<Rightarrow> bool" where
  "matchesDNS1123Label s \<longleftrightarrow>
     s \<noteq> [] \<and> isLowerAlnum (hd s) \<and> isLowerAlnum (last s) \<and>
     list_all (\<lambda>c. isLowerAlnum c \<or> c = CHR ''-'') s"

definition IsDNS1123Subdomain :: "string \<Rightarrow> bool" where
  "IsDNS1123Subdomain s \<longleftrightarrow> length s \<le> 253 \<and> list_all matchesDNS1123Label (strSplit CHR ''.'' s)"

definition matchesQualifiedName :: "string \<Rightarrow> bool" where
  "matchesQualifiedName s \<longleftrightarrow>
     s \<noteq> [] \<and> isAlnum (hd s) \<and> isAlnum (last s) \<and>
     list_all (\<lambda>c. isAlnum c \<or> c = CHR ''-'' \<or> c = CHR ''_'' \<or> c = CHR ''.'') s"

definition qualifiedNamePart :: "string \<Rightarrow> bool" where
  "qualifiedNamePart name \<longleftrightarrow> name \<noteq> [] \<and> length name \<le> 63 \<and> matchesQualifiedName name"

text \<open>True stands for an empty list of error messages.\<close>

definition IsQualifiedName :: "string \<Rightarrow> bool" where
  "IsQualifiedName value \<longleftrightarrow>
     (case strSplit CHR ''/'' value of
        [name] \<Rightarrow> qualifiedNamePart name
      | [prefix, name] \<Rightarrow> prefix \<noteq> [] \<and> IsDNS1123Subdomain prefix \<and> qualifiedNamePart name
      | _ \<Rightarrow> False)"

section \<open>Resource names (helpers.go)\<close>

definition ResourceCPU :: string where "ResourceCPU = ''cpu''"
definition ResourceMemory :: string where "ResourceMemory = ''memory''"
definition ResourceEphemeralStorage :: string where "ResourceEphemeralStorage = ''ephemeral-storage''"
definition ResourcePods :: string where "ResourcePods = ''pods''"

definition IsPrefixedNativeResource :: "string \<Rightarrow> bool" where
  "IsPrefixedNativeResource name \<longleftrightarrow> strContains name ''kubernetes.io/''"

definition IsNativeResource :: "string \<Rightarrow> bool" where
  "IsNativeResource name \<longleftrightarrow> \<not> strContains name ''/'' \<or> IsPrefixedNativeResource name"

definition IsExtendedResourceName :: "string \<Rightarrow> bool" where
  "IsExtendedResourceName name \<longleftrightarrow>
     \<not> (IsNativeResource name \<or> hasPrefix name ''requests.'') \<and> IsQualifiedName (''requests.'' @ name)"

definition IsHugePageResourceName :: "string \<Rightarrow> bool" where
  "IsHugePageResourceName name \<longleftrightarrow> hasPrefix name ''hugepages-''"

definition IsAttachableVolumeResourceName :: "string \<Rightarrow> bool" where
  "IsAttachableVolumeResourceName name \<longleftrightarrow> hasPrefix name ''attachable-volumes-''"

definition IsScalarResourceName :: "string \<Rightarrow> bool" where
  "IsScalarResourceName name \<longleftrightarrow>
     IsExtendedResourceName name \<or> IsHugePageResourceName name \<or>
     IsPrefixedNativeResource name \<or> IsAttachableVolumeResourceName name"

section \<open>API objects (types.go)\<close>

type_synonym ResourceList = "(string, Quantity) gomap"
type_synonym labelmap = "(string, string) gomap"

record NodeSelectorRequirement =
  nsrKey :: string
  nsrOperator :: string
  nsrValues :: "string list"

record NodeSelectorTerm =
  nstMatchExpressions :: "NodeSelectorRequirement list"
  nstMatchFields :: "NodeSelectorRequirement list"

record PreferredSchedulingTerm =
  pstWeight :: i32
  pstPreference :: NodeSelectorTerm

record NodeAffinity =
  naRequired :: "NodeSelectorTerm list option"
  naPreferred :: "PreferredSchedulingTerm list"

record LabelSelectorRequirement =
  lsrKey :: string
  lsrOperator :: string
  lsrValues :: "string list"

record LabelSelector =
  lsMatchLabels :: labelmap
  lsMatchExpressions :: "LabelSelectorRequirement list"

record PodAffinityTerm =
  patLabelSelector :: "LabelSelector option"
  patNamespaces :: "string list"
  patTopologyKey :: string

record Affinity =
  affNodeAffinity :: "NodeAffinity option"
  affPodAffinity :: "PodAffinityTerm list option"
  affPodAntiAffinity :: "PodAffinityTerm list option"

record Toleration =
  tolKey :: string
  tolOperator :: string
  tolValue :: string
  tolEffect :: string
  tolTolerationSeconds :: "i64 option"

record Taint =
  taintKey :: string
  taintValue :: string
  taintEffect :: string

record ContainerPort =
  cpHostPort :: i32
  cpProtocol :: string
  cpHostIP :: string

record Container =
  cName :: string
  cImage :: string
  cPorts :: "ContainerPort list"
  cRequests :: ResourceList
  cResourcesAllocated :: ResourceList

record VirtualMachine =
  vmName :: string
  vmImage :: string
  vmRequests :: ResourceList
  vmResourcesAllocated :: ResourceList

record CommonInfo =
  wName :: string
  wImage :: string
  wRequests :: ResourceList
  wResourcesAllocated :: ResourceList

record ObjectMeta =
  omName :: string
  omNamespace :: string
  omTenant :: string
  omUID :: string
  omResourceVersion :: string
  omLabels :: labelmap
  omAnnotations :: labelmap
  omDeletionTimestamp :: "int option"

record PodSpec =
  psNodeName :: string
  psContainers :: "Container list"
  psInitContainers :: "Container list"
  psVirtualMachine :: "VirtualMachine option"
  psOverhead :: "ResourceList option"
  psPriority :: "i32 option"
  psPreemptionPolicy :: "string option"
  psNodeSelector :: labelmap
  psAffinity :: "Affinity option"
  psTolerations :: "Toleration list"
  psSchedulerName :: string
  psVolumes :: "string option list"

record PodCondition =
  pcType :: string
  pcStatus :: string
  pcReason :: string

record PodStatus =
  pstPhase :: string
  pstConditions :: "PodCondition list"
  pstNominatedNodeName :: string
  pstStartTime :: "int option"

record Pod =
  podMeta :: ObjectMeta
  podSpec :: PodSpec
  podStatus :: PodStatus

record NodeCondition =
  ncType :: string
  ncStatus :: string

record ContainerImage =
  ciNames :: "string list"
  ciSizeBytes :: i64

record NodeSpec =
  nsUnschedulable :: bool
  nsTaints :: "Taint list"

record NodeStatus =
  nstAllocatable :: ResourceList
  nstConditions :: "NodeCondition list"
  nstImages :: "ContainerImage list"

record Node =
  nodeMeta :: ObjectMeta
  nodeSpec :: NodeSpec
  nodeStatus :: NodeStatus

abbreviation podName :: "Pod \<Rightarrow> string" where "podName p \<equiv> omName (podMeta p)"
abbreviation podNamespace :: "Pod \<Rightarrow> string" where "podNamespace p \<equiv> omNamespace (podMeta p)"
abbreviation podTenant :: "Pod \<Rightarrow> string" where "podTenant p \<equiv> omTenant (podMeta p)"
abbreviation podUID :: "Pod \<Rightarrow> string" where "podUID p \<equiv> omUID (podMeta p)"
abbreviation podNodeName :: "Pod \<Rightarrow> string" where "podNodeName p \<equiv> psNodeName (podSpec p)"
abbreviation nodeName :: "Node \<Rightarrow> string" where "nodeName n \<equiv> omName (nodeMeta n)"

text \<open>The zero values \<open>v1.Pod{}\<close> and \<open>v1.Node{}\<close>.\<close>

definition zeroMeta :: ObjectMeta where
  "zeroMeta = \<lparr>omName = [], omNamespace = [], omTenant = [], omUID = [], omResourceVersion = [], omLabels = [],
     omAnnotations = [], omDeletionTimestamp = None\<rparr>"

definition zeroPod :: Pod where
  "zeroPod = \<lparr>podMeta = zeroMeta,
     podSpec = \<lparr>psNodeName = [], psContainers = [], psInitContainers = [], psVirtualMachine = None,
       psOverhead = None, psPriority = None, psPreemptionPolicy = None, psNodeSelector = [], psAffinity = None,
       psTolerations = [], psSchedulerName = [], psVolumes = []\<rparr>,
     podStatus = \<lparr>pstPhase = [], pstConditions = [], pstNominatedNodeName = [], pstStartTime = None\<rparr>\<rparr>"

definition zeroNode :: Node where
  "zeroNode = \<lparr>nodeMeta = zeroMeta, nodeSpec = \<lparr>nsUnschedulable = False, nsTaints = []\<rparr>,
     nodeStatus = \<lparr>nstAllocatable = [], nstConditions = [], nstImages = []\<rparr>\<rparr>"

text \<open>The feature gates (\<open>pkg/features/kube_features.go\<close>) the modelled code consults.\<close>

record features =
  LocalStorageCapacityIsolation :: bool
  InPlacePodVerticalScaling :: bool
  PodOverhead :: bool
  NonPreemptingPriority :: bool
  BalanceAttachedNodeVolumes :: bool

definition defaultFeatures :: features where
  "defaultFeatures = \<lparr>LocalStorageCapacityIsolation = True, InPlacePodVerticalScaling = False, PodOverhead = True,
     NonPreemptingPriority = False, BalanceAttachedNodeVolumes = False\<rparr>"

section \<open>Helpers on API objects\<close>

text \<open>\<open>ResourceList.Cpu\<close> and \<open>ResourceList.Memory\<close> (\<open>api/core/v1/resource.go\<close>): the zero quantity when absent.\<close>

definition zeroQuantity :: Quantity where
  "zeroQuantity = QInt \<lparr>iaValue = 0, iaScale = 0\<rparr>"

definition rlGet :: "string \<Rightarrow> ResourceList \<Rightarrow> Quantity" where
  "rlGet name rl = (case mget rl name of Some q \<Rightarrow> q | None \<Rightarrow> zeroQuantity)"

definition Cpu :: "ResourceList \<Rightarrow> Quantity" where
  "Cpu rl = rlGet ResourceCPU rl"

definition Memory :: "ResourceList \<Rightarrow> Quantity" where
  "Memory rl = rlGet ResourceMemory rl"

text \<open>\<open>PodSpec.Workloads\<close>. The memo \<open>WorkloadInfo\<close> has one entry per container (or one for the virtual
  machine) for the whole life of the pod, and its resources are refreshed on each call, so the result is
  a function of the specification.\<close>

definition Workloads :: "PodSpec \<Rightarrow> CommonInfo list" where
  "Workloads ps =
     (case psVirtualMachine ps of
        Some vm \<Rightarrow> [\<lparr>wName = vmName vm, wImage = vmImage vm, wRequests = vmRequests vm,
                    wResourcesAllocated = vmResourcesAllocated vm\<rparr>]
      | None \<Rightarrow> map (\<lambda>c. \<lparr>wName = cName c, wImage = cImage c, wRequests = cRequests c,
                           wResourcesAllocated = cResourcesAllocated c\<rparr>) (psContainers ps))"

definition GetPodPriority :: "Pod \<Rightarrow> i32" where
  "GetPodPriority pod = (case psPriority (podSpec pod) of Some p \<Rightarrow> p | None \<Rightarrow> 0)"

definition TenantSystem :: string where "TenantSystem = ''system''"

definition MetaNamespaceKeyFunc :: "ObjectMeta \<Rightarrow> string" where
  "MetaNamespaceKeyFunc m =
     (let metaKey = omName m;
          metaKey = (if omNamespace m \<noteq> [] then omNamespace m @ ''/'' @ metaKey else metaKey)
      in if omTenant m \<noteq> [] \<and> omTenant m \<noteq> TenantSystem then omTenant m @ ''/'' @ metaKey else metaKey)"

definition SplitMetaTenantNamespaceKey :: "string \<Rightarrow> (string \<times> string \<times> string) option" where
  "SplitMetaTenantNamespaceKey key =
     (case strSplit CHR ''/'' key of
        [name] \<Rightarrow> Some ([], [], name)
      | [namespace, name] \<Rightarrow> Some (TenantSystem, namespace, name)
      | [tenant, namespace, name] \<Rightarrow> Some (tenant, namespace, name)
      | _ \<Rightarrow> None)"

definition GetPodFullName :: "Pod \<Rightarrow> string" where
  "GetPodFullName pod = podName pod @ ''_'' @ podNamespace pod @ ''_'' @ podTenant pod"

definition GetPodKey :: "Pod \<Rightarrow> string option" where
  "GetPodKey pod = (if podUID pod = [] then None else Some (podUID pod))"

text \<open>A nil label map and an empty one give the same answers to the lookups below.\<close>

definition labelGet :: "labelmap \<Rightarrow> string \<Rightarrow> string" where
  "labelGet m k = (case mget m k of Some v \<Rightarrow> v | None \<Rightarrow> [])"

definition GetZoneKey :: "Node \<Rightarrow> string" where
  "GetZoneKey node =
     (let labels = omLabels (nodeMeta node);
          zone = (case mget labels ''failure-domain.beta.kubernetes.io/zone'' of
                    Some z \<Rightarrow> z | None \<Rightarrow> labelGet labels ''topology.kubernetes.io/zone'');
          region = (case mget labels ''failure-domain.beta.kubernetes.io/region'' of
                    Some z \<Rightarrow> z | None \<Rightarrow> labelGet labels ''topology.kubernetes.io/region'')
      in if region = [] \<and> zone = [] then [] else region @ [CHR '':'', CHR 0x00, CHR '':''] @ zone)"

text \<open>
  \<open>GetPodStartTime\<close> reads the clock for a pod that has not started. \<open>clock k\<close> is the \<open>k\<close>-th reading; the
  number of readings made so far is threaded through.
\<close>

type_synonym clock = "nat \<Rightarrow> int"

definition GetPodStartTime :: "clock \<Rightarrow> nat \<Rightarrow> Pod \<Rightarrow> int \<times> nat" where
  "GetPodStartTime clock k pod =
     (case pstStartTime (podStatus pod) of Some t \<Rightarrow> (t, k) | None \<Rightarrow> (clock k, Suc k))"

definition earliestStep :: "clock \<Rightarrow> Pod \<Rightarrow> int \<times> i32 \<times> nat \<Rightarrow> int \<times> i32 \<times> nat" where
  "earliestStep clock pod = (\<lambda>(earliest, maxPriority, k).
     if GetPodPriority pod = maxPriority then
       (let (t, k1) = GetPodStartTime clock k pod in
        if t < earliest then (let (t', k2) = GetPodStartTime clock k1 pod in (t', maxPriority, k2))
        else (earliest, maxPriority, k1))
     else if sint maxPriority < sint (GetPodPriority pod) then
       (let (t, k1) = GetPodStartTime clock k pod in (t, GetPodPriority pod, k1))
     else (earliest, maxPriority, k))"

definition GetEarliestPodStartTime :: "clock \<Rightarrow> nat \<Rightarrow> Pod list \<Rightarrow> int option \<times> nat" where
  "GetEarliestPodStartTime clock k pods =
     (case pods of
        [] \<Rightarrow> (None, k)
      | p0 # _ \<Rightarrow>
          (let (t0, k0) = GetPodStartTime clock k p0;
               (t, _, k') = fold (earliestStep clock) pods (t0, GetPodPriority p0, k0)
           in (Some t, k')))"

definition MoreImportantPod :: "clock \<Rightarrow> nat \<Rightarrow> Pod \<Rightarrow> Pod \<Rightarrow> bool \<times> nat" where
  "MoreImportantPod clock k pod1 pod2 =
     (let p1 = GetPodPriority pod1; p2 = GetPodPriority pod2 in
      if p1 \<noteq> p2 then (sint p2 < sint p1, k)
      else (let (t1, k1) = GetPodStartTime clock k pod1;
                (t2, k2) = GetPodStartTime clock k1 pod2
            in (t1 < t2, k2)))"

text \<open>The pod \<open>GetEarliestPodStartTime\<close> looks for: the earliest started among those of highest priority.\<close>

definition firstStarted :: "(Pod \<Rightarrow> int) \<Rightarrow> Pod set \<Rightarrow> Pod \<Rightarrow> bool" where
  "firstStarted st S p \<longleftrightarrow> p \<in> S \<and>
     (\<forall>q \<in> S. sint (GetPodPriority q) \<le> sint (GetPodPriority p) \<and>
        (GetPodPriority q = GetPodPriority p \<longrightarrow> st p \<le> st q))"

section \<open>Lemmas\<close>

lemma strSplit_no_sep: "sep \<notin> set s \<Longrightarrow> strSplit sep s = [s]"
  by (induction s) auto

lemma strSplit_append:
  "sep \<notin> set a \<Longrightarrow> strSplit sep (a @ sep # b) = a # strSplit sep b"
  by (induction a) auto

lemma strSplit_not_Nil [simp]: "strSplit sep s \<noteq> []"
  by (induction s) (auto split: list.splits)

lemma split_key:
  assumes "omTenant m \<noteq> []" and "omNamespace m \<noteq> []"
    and "CHR ''/'' \<notin> set (omTenant m)" and "CHR ''/'' \<notin> set (omNamespace m)" and "CHR ''/'' \<notin> set (omName m)"
  shows "SplitMetaTenantNamespaceKey (MetaNamespaceKeyFunc m) = Some (omTenant m, omNamespace m, omName m)"
  using assms
  by (simp add: SplitMetaTenantNamespaceKey_def MetaNamespaceKeyFunc_def Let_def strSplit_append strSplit_no_sep)

lemma GetPodStartTime_started:
  "pstStartTime (podStatus p) = Some t \<Longrightarrow> GetPodStartTime clock k p = (t, k)"
  by (simp add: GetPodStartTime_def)

text \<open>The loop of \<open>GetEarliestPodStartTime\<close> keeps the highest priority seen and the earliest start among the
  pods that have it.\<close>

lemma earliestStep_best:
  assumes "pstStartTime (podStatus q) = Some (st q)" and "firstStarted st seen p0"
  shows "\<exists>p'. firstStarted st (insert q seen) p' \<and>
     earliestStep clock q (st p0, GetPodPriority p0, k) = (st p', GetPodPriority p', k)"
proof -
  have q: "GetPodStartTime clock k q = (st q, k)" using assms(1) by (rule GetPodStartTime_started)
  consider (same) "GetPodPriority q = GetPodPriority p0" "st q < st p0"
    | (later) "GetPodPriority q = GetPodPriority p0" "\<not> st q < st p0"
    | (higher) "GetPodPriority q \<noteq> GetPodPriority p0" "sint (GetPodPriority p0) < sint (GetPodPriority q)"
    | (lower) "GetPodPriority q \<noteq> GetPodPriority p0" "\<not> sint (GetPodPriority p0) < sint (GetPodPriority q)"
    by blast
  then show ?thesis
  proof cases
    case same
    then have "firstStarted st (insert q seen) q" using assms(2) by (fastforce simp: firstStarted_def)
    with same q show ?thesis by (auto simp: earliestStep_def)
  next
    case later
    then have "firstStarted st (insert q seen) p0" using assms(2) by (fastforce simp: firstStarted_def)
    with later q show ?thesis by (auto simp: earliestStep_def)
  next
    case higher
    then have "firstStarted st (insert q seen) q" using assms(2) by (fastforce simp: firstStarted_def)
    with higher q show ?thesis by (auto simp: earliestStep_def)
  next
    case lower
    then have "firstStarted st (insert q seen) p0" using assms(2) by (fastforce simp: firstStarted_def)
    with lower show ?thesis by (auto simp: earliestStep_def)
  qed
qed

lemma earliest_fold:
  assumes "\<And>p. p \<in> set pods \<Longrightarrow> pstStartTime (podStatus p) = Some (st p)" and "firstStarted st seen p0"
  shows "\<exists>p1. firstStarted st (seen \<union> set pods) p1 \<and>
     fold (earliestStep clock) pods (st p0, GetPodPriority p0, k) = (st p1, GetPodPriority p1, k)"
  using assms
proof (induction pods arbitrary: seen p0)
  case (Cons q pods)
  obtain p' where p': "firstStarted st (insert q seen) p'"
      "earliestStep clock q (st p0, GetPodPriority p0, k) = (st p', GetPodPriority p', k)"
    using earliestStep_best [of q st seen p0 clock k] Cons.prems by auto
  from Cons.IH [OF Cons.prems(1) p'(1)] p'(2) show ?case by auto
qed auto

lemma GetEarliestPodStartTime_started:
  assumes "\<And>p. p \<in> set pods \<Longrightarrow> pstStartTime (podStatus p) = Some (st p)" and "pods \<noteq> []"
  shows "\<exists>p1. firstStarted st (set pods) p1 \<and> GetEarliestPodStartTime clock k pods = (Some (st p1), k)"
proof -
  obtain p0 ps where p: "pods = p0 # ps" using assms(2) by (cases pods) auto
  then have "GetPodStartTime clock k p0 = (st p0, k)" using assms(1) by (intro GetPodStartTime_started) simp
  moreover obtain p1 where "firstStarted st ({p0} \<union> set pods) p1"
      "fold (earliestStep clock) pods (st p0, GetPodPriority p0, k) = (st p1, GetPodPriority p1, k)"
    using earliest_fold [of pods st "{p0}" p0 clock k] assms(1) by (auto simp: firstStarted_def)
  ultimately show ?thesis using p by (auto simp: GetEarliestPodStartTime_def)
qed

section \<open>Properties\<close>



text \<open>Two unstarted pods of equal priority are each more important than the other, because each comparison
  reads a clock that has moved on: the relation given to the sort is not asymmetric.\<close>

lemma MoreImportantPod_not_asym:
  assumes "GetPodPriority p = GetPodPriority q" and "pstStartTime (podStatus p) = None"
    and "pstStartTime (podStatus q) = None" and "strict_mono clock"
  shows "fst (MoreImportantPod clock k p q)" and "fst (MoreImportantPod clock k' q p)"
  using assms by (simp_all add: MoreImportantPod_def GetPodStartTime_def Let_def strict_mono_less)

end
