(* ===== verification/HostPorts.thy ===== *)
theory HostPorts
  imports ApiTypes
begin

text \<open>
  The host ports in use on a node (\<open>pkg/scheduler/nodeinfo/host_ports.go\<close>): a map from an IP to the set of
  its protocol/port pairs. The abstract view is the set of bound (ip, protocol, port) triples; the
  locale \<open>port_table\<close> is the contract \<open>NodeInfo\<close> relies on.
\<close>

section \<open>Model\<close>

record ProtocolPort =
  ppProtocol :: string
  ppPort :: i32

type_synonym HostPortInfo = "(string, (ProtocolPort, unit) gomap) gomap"

definition DefaultBindAllHostIP :: string where
  "DefaultBindAllHostIP = ''0.0.0.0''"

definition ProtocolTCP :: string where
  "ProtocolTCP = ''TCP''"

definition NewProtocolPort :: "string \<Rightarrow> i32 \<Rightarrow> ProtocolPort" where
  "NewProtocolPort protocol port =
     \<lparr>ppProtocol = (if protocol = [] then ProtocolTCP else protocol), ppPort = port\<rparr>"

definition sanitize :: "string \<Rightarrow> string \<Rightarrow> string \<times> string" where
  "sanitize ip protocol =
     (if ip = [] then DefaultBindAllHostIP else ip, if protocol = [] then ProtocolTCP else protocol)"

definition hpAdd :: "string \<Rightarrow> string \<Rightarrow> i32 \<Rightarrow> HostPortInfo \<Rightarrow> HostPortInfo" where
  "hpAdd ip protocol port h =
     (if sint port \<le> 0 then h
      else (let (ip', protocol') = sanitize ip protocol; pp = NewProtocolPort protocol' port in
            case mget h ip' of
              None \<Rightarrow> mput ip' [(pp, ())] h
            | Some m \<Rightarrow> mput ip' (mput pp () m) h))"

definition hpRemove :: "string \<Rightarrow> string \<Rightarrow> i32 \<Rightarrow> HostPortInfo \<Rightarrow> HostPortInfo" where
  "hpRemove ip protocol port h =
     (if sint port \<le> 0 then h
      else (let (ip', protocol') = sanitize ip protocol; pp = NewProtocolPort protocol' port in
            case mget h ip' of
              None \<Rightarrow> h
            | Some m \<Rightarrow> if mdel pp m = [] then mdel ip' h else mput ip' (mdel pp m) h))"

definition hpLen :: "HostPortInfo \<Rightarrow> nat" where
  "hpLen h = fold (\<lambda>(_, m) n. n + length m) h 0"

definition CheckConflict :: "string \<Rightarrow> string \<Rightarrow> i32 \<Rightarrow> HostPortInfo \<Rightarrow> bool" where
  "CheckConflict ip protocol port h =
     (if sint port \<le> 0 then False
      else (let (ip', protocol') = sanitize ip protocol; pp = NewProtocolPort protocol' port in
            if ip' = DefaultBindAllHostIP then list_ex (\<lambda>(_, m). mget m pp \<noteq> None) h
            else list_ex (\<lambda>key. case mget h key of Some m \<Rightarrow> mget m pp \<noteq> None | None \<Rightarrow> False)
                   [DefaultBindAllHostIP, ip']))"

section \<open>Abstract view\<close>

text \<open>The bindings of a table, the binding a request denotes, and when two bindings collide.\<close>

type_synonym binding = "string \<times> ProtocolPort"

definition hpBindings :: "HostPortInfo \<Rightarrow> binding set" where
  "hpBindings h = {(ip, pp). \<exists>m. mget h ip = Some m \<and> pp \<in> mkeys m}"

definition hpInv :: "HostPortInfo \<Rightarrow> bool" where
  "hpInv h \<longleftrightarrow> gomap_wf h \<and> list_all (\<lambda>(_, m). m \<noteq> [] \<and> gomap_wf m) h"

definition requestBinding :: "string \<Rightarrow> string \<Rightarrow> i32 \<Rightarrow> binding option" where
  "requestBinding ip protocol port =
     (if sint port \<le> 0 then None
      else Some (fst (sanitize ip protocol), NewProtocolPort protocol port))"

fun bindingsCollide :: "binding \<Rightarrow> binding \<Rightarrow> bool" where
  "bindingsCollide (ip, pp) (ip', pp') \<longleftrightarrow>
     pp = pp' \<and> (ip = ip' \<or> ip = DefaultBindAllHostIP \<or> ip' = DefaultBindAllHostIP)"

section \<open>Interface\<close>

locale port_table =
  fixes add remove :: "string \<Rightarrow> string \<Rightarrow> i32 \<Rightarrow> 'h \<Rightarrow> 'h"
    and conflict :: "string \<Rightarrow> string \<Rightarrow> i32 \<Rightarrow> 'h \<Rightarrow> bool"
    and bindings :: "'h \<Rightarrow> binding set"
    and inv :: "'h \<Rightarrow> bool"
  assumes add_inv: "inv h \<Longrightarrow> inv (add ip pr po h)"
    and remove_inv: "inv h \<Longrightarrow> inv (remove ip pr po h)"
    and add_bindings: "inv h \<Longrightarrow> bindings (add ip pr po h) = bindings h \<union> set_option (requestBinding ip pr po)"
    and remove_bindings: "inv h \<Longrightarrow> bindings (remove ip pr po h) = bindings h - set_option (requestBinding ip pr po)"
    and conflict_iff: "inv h \<Longrightarrow> conflict ip pr po h \<longleftrightarrow>
      (\<exists>b \<in> set_option (requestBinding ip pr po). \<exists>c \<in> bindings h. bindingsCollide b c)"
begin

definition addAll :: "ContainerPort list \<Rightarrow> 'h \<Rightarrow> 'h" where
  "addAll ps h = fold (\<lambda>p. add (cpHostIP p) (cpProtocol p) (cpHostPort p)) ps h"

definition removeAll :: "ContainerPort list \<Rightarrow> 'h \<Rightarrow> 'h" where
  "removeAll ps h = fold (\<lambda>p. remove (cpHostIP p) (cpProtocol p) (cpHostPort p)) ps h"

definition wanted :: "ContainerPort list \<Rightarrow> binding set" where
  "wanted ps = (\<Union>p \<in> set ps. set_option (requestBinding (cpHostIP p) (cpProtocol p) (cpHostPort p)))"

lemma addAll_spec: "inv h \<Longrightarrow> inv (addAll ps h) \<and> bindings (addAll ps h) = bindings h \<union> wanted ps"
  unfolding addAll_def wanted_def
  by (induction ps arbitrary: h) (auto simp: add_inv add_bindings)

lemma removeAll_spec: "inv h \<Longrightarrow> inv (removeAll ps h) \<and> bindings (removeAll ps h) = bindings h - wanted ps"
  unfolding removeAll_def wanted_def
  by (induction ps arbitrary: h) (auto simp: remove_inv remove_bindings)

lemma no_conflict_disjoint:
  assumes "inv h" and "\<And>p. p \<in> set ps \<Longrightarrow> \<not> conflict (cpHostIP p) (cpProtocol p) (cpHostPort p) h"
  shows "bindings h \<inter> wanted ps = {}"
proof -
  have "bindingsCollide b b" for b by (cases b) simp
  then show ?thesis using assms by (fastforce simp: conflict_iff wanted_def)
qed

lemma removeAll_addAll:
  assumes "inv h" and "\<And>p. p \<in> set ps \<Longrightarrow> \<not> conflict (cpHostIP p) (cpProtocol p) (cpHostPort p) h"
  shows "bindings (removeAll ps (addAll ps h)) = bindings h"
  using addAll_spec [OF assms(1), of ps] removeAll_spec [of "addAll ps h" ps] no_conflict_disjoint [OF assms]
  by auto

end

section \<open>The table implements the interface\<close>

lemma NewProtocolPort_sanitize [simp]:
  "NewProtocolPort (snd (sanitize ip protocol)) port = NewProtocolPort protocol port"
  by (simp add: sanitize_def NewProtocolPort_def ProtocolTCP_def)

lemma hpInv_entry: "hpInv h \<Longrightarrow> mget h ip = Some m \<Longrightarrow> m \<noteq> [] \<and> gomap_wf m"
  by (auto simp: hpInv_def list_all_iff dest!: mget_SomeD)

lemma hpInv_iff: "hpInv h \<longleftrightarrow> gomap_wf h \<and> (\<forall>ip m. mget h ip = Some m \<longrightarrow> m \<noteq> [] \<and> gomap_wf m)"
  unfolding hpInv_def list_all_iff using mget_iff_mem by fast

lemma mdel_Nil_iff: "mdel k m = [] \<longleftrightarrow> mkeys m \<subseteq> {k}"
proof -
  have "mdel k m = [] \<longleftrightarrow> mkeys (mdel k m) = {}" unfolding mkeys_def by simp
  then show ?thesis by auto
qed

lemma mput_not_Nil [simp]: "mput k v m \<noteq> []"
  by (metis empty_iff insertI1 mkeys_Nil mkeys_mput)

lemma hpAdd_inv: "hpInv h \<Longrightarrow> hpInv (hpAdd ip pr po h)"
  using hpInv_entry [of h] unfolding hpInv_iff hpAdd_def Let_def
  by (auto simp: gomap_wf_def split: option.splits prod.splits if_splits simp del: gomap_wf_mput
      intro: distinct_update)

lemma hpRemove_inv: "hpInv h \<Longrightarrow> hpInv (hpRemove ip pr po h)"
  unfolding hpInv_iff hpRemove_def Let_def
  by (auto split: option.splits prod.splits if_splits)

lemma hpAdd_bindings:
  "hpBindings (hpAdd ip pr po h) = hpBindings h \<union> set_option (requestBinding ip pr po)"
  by (auto simp: hpBindings_def hpAdd_def requestBinding_def Let_def split_beta mkeys_def [of "[(_, ())]"]
      split: option.splits if_splits)

lemma hpRemove_bindings:
  "hpBindings (hpRemove ip pr po h) = hpBindings h - set_option (requestBinding ip pr po)"
  by (auto simp: hpBindings_def hpRemove_def requestBinding_def Let_def split_beta mdel_Nil_iff
      split: option.splits if_splits)

lemma list_ex_entries:
  "gomap_wf h \<Longrightarrow> list_ex (\<lambda>(_, m). mget m pp \<noteq> None) h \<longleftrightarrow> (\<exists>ip. (ip, pp) \<in> hpBindings h)"
  by (force simp: list_ex_iff hpBindings_def mkeys_iff mget_iff_mem)

lemma bex_collide:
  "(\<exists>c \<in> B. bindingsCollide (ip, pp) c) \<longleftrightarrow>
   (\<exists>ip'. (ip', pp) \<in> B \<and> (ip = ip' \<or> ip = DefaultBindAllHostIP \<or> ip' = DefaultBindAllHostIP))"
  by force

lemma CheckConflict_iff:
  assumes "hpInv h"
  shows "CheckConflict ip pr po h \<longleftrightarrow>
    (\<exists>b \<in> set_option (requestBinding ip pr po). \<exists>c \<in> hpBindings h. bindingsCollide b c)"
proof (cases "sint po \<le> 0")
  case False
  let ?ip = "fst (sanitize ip pr)" and ?pp = "NewProtocolPort pr po"
  have key: "(case mget h k of Some m \<Rightarrow> mget m ?pp \<noteq> None | None \<Rightarrow> False) \<longleftrightarrow> (k, ?pp) \<in> hpBindings h" for k
    by (auto simp: hpBindings_def mkeys_iff split: option.splits)
  have "CheckConflict ip pr po h \<longleftrightarrow>
    (if ?ip = DefaultBindAllHostIP then \<exists>ip. (ip, ?pp) \<in> hpBindings h
     else (DefaultBindAllHostIP, ?pp) \<in> hpBindings h \<or> (?ip, ?pp) \<in> hpBindings h)"
    using False assms list_ex_entries [of h ?pp]
    unfolding CheckConflict_def Let_def hpInv_def
    by (simp only: prod.case_eq_if NewProtocolPort_sanitize list_ex_Nil_iff list_ex_Cons_iff key if_False simp_thms)
  with False show ?thesis by (auto simp: requestBinding_def bex_collide)
qed (simp add: CheckConflict_def requestBinding_def)

lemma hpLen_sum: "fold (\<lambda>(_, m) n. n + length m) h k = k + (\<Sum>(_, m) \<leftarrow> h. length m)"
  by (induction h arbitrary: k) auto

lemma hpLen_card:
  assumes "hpInv h"
  shows "hpLen h = card (hpBindings h)"
proof -
  have wf: "distinct (map fst h)" and inner: "\<And>e. e \<in> set h \<Longrightarrow> gomap_wf (snd e)"
    using assms by (auto simp: hpInv_def gomap_wf_def list_all_iff)
  have B: "hpBindings h = (SIGMA ip : fst ` set h. mkeys (the (mget h ip)))"
    using wf by (force simp: hpBindings_def map_of_eq_Some_iff)
  have "hpLen h = (\<Sum>e \<leftarrow> h. card (mkeys (snd e)))"
    using inner by (auto simp: hpLen_def hpLen_sum split_beta length_gomap intro!: arg_cong [of _ _ sum_list])
  also have "\<dots> = (\<Sum>e \<in> set h. card (mkeys (snd e)))"
    using wf by (simp add: sum_list_distinct_conv_sum_set distinct_map)
  also have "\<dots> = (\<Sum>ip \<in> fst ` set h. card (mkeys (the (mget h ip))))"
    using wf by (subst sum.reindex) (auto simp: distinct_map intro!: sum.cong)
  also have "\<dots> = card (hpBindings h)"
    unfolding B by (subst card_SigmaI) auto
  finally show ?thesis .
qed

interpretation hp: port_table hpAdd hpRemove CheckConflict hpBindings hpInv
  by unfold_locales
    (simp_all only: hpAdd_inv hpRemove_inv hpAdd_bindings hpRemove_bindings CheckConflict_iff)

section \<open>Properties\<close>

text \<open>C30: the two-level table is the set of bound (ip, protocol, port) triples: adding inserts and removing
  deletes the sanitised triple (nothing for a non-positive port), both keep the table free of duplicate
  and empty entries, a conflict is reported exactly when a bound triple has the same protocol and port and
  an IP that overlaps (equal, or either one the wildcard), and the length is the number of triples.\<close>

theorem hostports_refine_set:
  assumes "hpInv h"
  shows "hpInv (hpAdd ip pr po h) \<and> hpInv (hpRemove ip pr po h) \<and>
    hpBindings (hpAdd ip pr po h) = hpBindings h \<union> set_option (requestBinding ip pr po) \<and>
    hpBindings (hpRemove ip pr po h) = hpBindings h - set_option (requestBinding ip pr po) \<and>
    (CheckConflict ip pr po h \<longleftrightarrow>
      (\<exists>b \<in> set_option (requestBinding ip pr po). \<exists>c \<in> hpBindings h. bindingsCollide b c)) \<and>
    hpLen h = card (hpBindings h)"
  using hp.add_inv hp.remove_inv hp.add_bindings hp.remove_bindings hp.conflict_iff hpLen_card assms by simp

theorem hostports_refine_set_witness:
  "CheckConflict ''10.0.0.1'' [] 80 [(''0.0.0.0'', [(NewProtocolPort ''TCP'' 80, ())])] \<and>
   \<not> CheckConflict ''10.0.0.1'' ''UDP'' 80 [(''0.0.0.0'', [(NewProtocolPort ''TCP'' 80, ())])]"
proof -
  let ?h = "[(''0.0.0.0'', [(NewProtocolPort ''TCP'' 80, ())])]"
  have inv: "hpInv ?h" by (simp add: hpInv_def gomap_wf_def)
  have b: "hpBindings ?h = {(DefaultBindAllHostIP, NewProtocolPort ''TCP'' 80)}"
    by (auto simp: hpBindings_def mkeys_def DefaultBindAllHostIP_def split: if_splits)
  from hostports_refine_set [OF inv, of "''10.0.0.1''" "[]" 80]
    hostports_refine_set [OF inv, of "''10.0.0.1''" "''UDP''" 80]
  show ?thesis
    unfolding b by (simp add: requestBinding_def NewProtocolPort_def ProtocolTCP_def)
qed

end
