(* ===== verification/NodeInfo.thy ===== *)
theory NodeInfo
  imports HostPorts
begin

text \<open>
  Node level aggregates (\<open>pkg/scheduler/nodeinfo/node_info.go\<close>, \<open>pkg/scheduler/util/non_zero.go\<close>): the
  resources requested by the pods of a node, its used ports, its pod lists, and the generation number that
  marks a change. The process wide counter behind \<open>nextGeneration\<close> is threaded through the operations
  that bump it; it is an \<open>int\<close>, so its wrap-around after \<open>2^63\<close> changes is not modelled. Quantities of
  resources are \<open>int64\<close> and wrap. A nil map and an empty map are not distinguished, and the range over
  a map visits its entries in the order of the association list. \<open>taintsErr\<close> is never assigned by the
  source and is left out.
\<close>

section \<open>Resources\<close>

record Resource =
  rMilliCPU :: i64
  rMemory :: i64
  rEphemeralStorage :: i64
  rAllowedPodNumber :: i64
  rScalarResources :: "(string, i64) gomap"

definition emptyResource :: Resource where
  "emptyResource = \<lparr>rMilliCPU = 0, rMemory = 0, rEphemeralStorage = 0, rAllowedPodNumber = 0,
                    rScalarResources = []\<rparr>"

definition scalarGet :: "(string, i64) gomap \<Rightarrow> string \<Rightarrow> i64" where
  "scalarGet m name = (case mget m name of Some v \<Rightarrow> v | None \<Rightarrow> 0)"

definition SetScalar :: "string \<Rightarrow> i64 \<Rightarrow> Resource \<Rightarrow> Resource" where
  "SetScalar name quantity r = r\<lparr>rScalarResources := mput name quantity (rScalarResources r)\<rparr>"

definition AddScalar :: "string \<Rightarrow> i64 \<Rightarrow> Resource \<Rightarrow> Resource" where
  "AddScalar name quantity r = SetScalar name (scalarGet (rScalarResources r) name + quantity) r"

definition resourceAddEntry :: "features \<Rightarrow> string \<times> Quantity \<Rightarrow> Resource \<Rightarrow> Resource" where
  "resourceAddEntry f = (\<lambda>(rName, rQuant) r.
     if rName = ResourceCPU then r\<lparr>rMilliCPU := rMilliCPU r + MilliValue rQuant\<rparr>
     else if rName = ResourceMemory then r\<lparr>rMemory := rMemory r + Value rQuant\<rparr>
     else if rName = ResourcePods then r\<lparr>rAllowedPodNumber := rAllowedPodNumber r + Value rQuant\<rparr>
     else if rName = ResourceEphemeralStorage then
       (if LocalStorageCapacityIsolation f then r\<lparr>rEphemeralStorage := rEphemeralStorage r + Value rQuant\<rparr> else r)
     else if IsScalarResourceName rName then AddScalar rName (Value rQuant) r
     else r)"

definition resourceAdd :: "features \<Rightarrow> ResourceList \<Rightarrow> Resource \<Rightarrow> Resource" where
  "resourceAdd f rl r = fold (resourceAddEntry f) rl r"

definition NewResource :: "features \<Rightarrow> ResourceList \<Rightarrow> Resource" where
  "NewResource f rl = resourceAdd f rl emptyResource"

definition setMaxEntry :: "string \<times> Quantity \<Rightarrow> Resource \<Rightarrow> Resource" where
  "setMaxEntry = (\<lambda>(rName, rQuantity) r.
     if rName = ResourceMemory then
       (let mem = Value rQuantity in if sint (rMemory r) < sint mem then r\<lparr>rMemory := mem\<rparr> else r)
     else if rName = ResourceCPU then
       (let cpu = MilliValue rQuantity in if sint (rMilliCPU r) < sint cpu then r\<lparr>rMilliCPU := cpu\<rparr> else r)
     else if rName = ResourceEphemeralStorage then
       (let e = Value rQuantity in if sint (rEphemeralStorage r) < sint e then r\<lparr>rEphemeralStorage := e\<rparr> else r)
     else if IsScalarResourceName rName then
       (let value = Value rQuantity in
        if sint (scalarGet (rScalarResources r) rName) < sint value then SetScalar rName value r else r)
     else r)"

definition SetMaxResource :: "ResourceList \<Rightarrow> Resource \<Rightarrow> Resource" where
  "SetMaxResource rl r = fold setMaxEntry rl r"

text \<open>\<open>Resource.ResourceList\<close>; the display format of a quantity is not modelled.\<close>

definition resourceToList :: "Resource \<Rightarrow> ResourceList" where
  "resourceToList r =
     fold (\<lambda>(rName, rQuant) result. mput rName (NewQuantity rQuant) result) (rScalarResources r)
       [(ResourceCPU, NewMilliQuantity (rMilliCPU r)), (ResourceMemory, NewQuantity (rMemory r)),
        (ResourcePods, NewQuantity (rAllowedPodNumber r)),
        (ResourceEphemeralStorage, NewQuantity (rEphemeralStorage r))]"

section \<open>Non-zero requests (non_zero.go)\<close>

definition DefaultMilliCPURequest :: i64 where "DefaultMilliCPURequest = 100"
definition DefaultMemoryRequest :: i64 where "DefaultMemoryRequest = 200 * 1024 * 1024"

definition GetNonzeroRequestForResource :: "features \<Rightarrow> string \<Rightarrow> ResourceList \<Rightarrow> i64" where
  "GetNonzeroRequestForResource f resource requests =
     (if resource = ResourceCPU then
        (if mget requests ResourceCPU = None then DefaultMilliCPURequest else MilliValue (Cpu requests))
      else if resource = ResourceMemory then
        (if mget requests ResourceMemory = None then DefaultMemoryRequest else Value (Memory requests))
      else if resource = ResourceEphemeralStorage then
        (if \<not> LocalStorageCapacityIsolation f then 0
         else case mget requests ResourceEphemeralStorage of None \<Rightarrow> 0 | Some q \<Rightarrow> Value q)
      else if IsScalarResourceName resource then
        (case mget requests resource of None \<Rightarrow> 0 | Some q \<Rightarrow> Value q)
      else 0)"

definition GetNonzeroRequests :: "features \<Rightarrow> ResourceList \<Rightarrow> i64 \<times> i64" where
  "GetNonzeroRequests f requests =
     (GetNonzeroRequestForResource f ResourceCPU requests, GetNonzeroRequestForResource f ResourceMemory requests)"

section \<open>The request of a pod\<close>

definition workloadRequests :: "features \<Rightarrow> CommonInfo \<Rightarrow> ResourceList" where
  "workloadRequests f w = (if InPlacePodVerticalScaling f then wResourcesAllocated w else wRequests w)"

definition calcWorkload :: "features \<Rightarrow> CommonInfo \<Rightarrow> Resource \<times> i64 \<times> i64 \<Rightarrow> Resource \<times> i64 \<times> i64" where
  "calcWorkload f w = (\<lambda>(res, non0CPU, non0Mem).
     let rl = workloadRequests f w; (c, m) = GetNonzeroRequests f rl
     in (resourceAdd f rl res, non0CPU + c, non0Mem + m))"

definition calcInit :: "features \<Rightarrow> Container \<Rightarrow> Resource \<times> i64 \<times> i64 \<Rightarrow> Resource \<times> i64 \<times> i64" where
  "calcInit f ic = (\<lambda>(res, non0CPU, non0Mem).
     let (c, m) = GetNonzeroRequests f (cRequests ic)
     in (SetMaxResource (cRequests ic) res,
         if sint non0CPU < sint c then c else non0CPU, if sint non0Mem < sint m then m else non0Mem))"

definition calcOverhead :: "features \<Rightarrow> ResourceList option \<Rightarrow> Resource \<times> i64 \<times> i64 \<Rightarrow> Resource \<times> i64 \<times> i64" where
  "calcOverhead f overhead = (\<lambda>(res, non0CPU, non0Mem).
     case overhead of
       None \<Rightarrow> (res, non0CPU, non0Mem)
     | Some ov \<Rightarrow>
         if PodOverhead f then
           (resourceAdd f ov res,
            if mget ov ResourceCPU \<noteq> None then non0CPU + MilliValue (Cpu ov) else non0CPU,
            if mget ov ResourceMemory \<noteq> None then non0Mem + Value (Memory ov) else non0Mem)
         else (res, non0CPU, non0Mem))"

definition calculateResource :: "features \<Rightarrow> Pod \<Rightarrow> Resource \<times> i64 \<times> i64" where
  "calculateResource f pod =
     calcOverhead f (psOverhead (podSpec pod))
       (fold (calcInit f) (psInitContainers (podSpec pod))
         (fold (calcWorkload f) (Workloads (podSpec pod)) (emptyResource, 0, 0)))"

section \<open>NodeInfo\<close>

record ImageStateSummary =
  issSize :: i64
  issNumNodes :: nat

record nodeTransientInfo =
  AllocatableVolumesCount :: int
  RequestedVolumes :: int

record NodeInfo =
  niNode :: "Node option"
  niResourceProviderId :: string
  niPods :: "Pod list"
  niPodsWithAffinity :: "Pod list"
  niUsedPorts :: HostPortInfo
  niRequestedResource :: Resource
  niNonzeroRequest :: Resource
  niAllocatableResource :: Resource
  niTaints :: "Taint list"
  niImageStates :: "(string, ImageStateSummary) gomap"
  niTransientInfo :: nodeTransientInfo
  niMemoryPressure :: string
  niDiskPressure :: string
  niPidPressure :: string
  niGeneration :: int

datatype nodeInfoErr = ErrEmptyUID | ErrNoPod | ErrProviderIdSet | ErrProviderIdEmpty | PanicNilNode

definition NewTransientSchedulerInfo :: nodeTransientInfo where
  "NewTransientSchedulerInfo = \<lparr>AllocatableVolumesCount = 0, RequestedVolumes = 0\<rparr>"

definition nextGeneration :: "int \<Rightarrow> int" where
  "nextGeneration g = g + 1"

definition hasPodAffinityConstraints :: "Pod \<Rightarrow> bool" where
  "hasPodAffinityConstraints pod =
     (case psAffinity (podSpec pod) of
        None \<Rightarrow> False
      | Some a \<Rightarrow> affPodAffinity a \<noteq> None \<or> affPodAntiAffinity a \<noteq> None)"

definition podPorts :: "Pod \<Rightarrow> ContainerPort list" where
  "podPorts pod = concat (map cPorts (psContainers (podSpec pod)))"

definition UpdateUsedPorts :: "Pod \<Rightarrow> bool \<Rightarrow> HostPortInfo \<Rightarrow> HostPortInfo" where
  "UpdateUsedPorts pod add h =
     fold (\<lambda>p. if add then hpAdd (cpHostIP p) (cpProtocol p) (cpHostPort p)
               else hpRemove (cpHostIP p) (cpProtocol p) (cpHostPort p)) (podPorts pod) h"

definition addScalars :: "(string, i64) gomap \<Rightarrow> (string, i64) gomap \<Rightarrow> (string, i64) gomap" where
  "addScalars res m = fold (\<lambda>(rName, rQuant) m. mput rName (scalarGet m rName + rQuant) m) res m"

definition subScalars :: "(string, i64) gomap \<Rightarrow> (string, i64) gomap \<Rightarrow> (string, i64) gomap" where
  "subScalars res m = fold (\<lambda>(rName, rQuant) m. mput rName (scalarGet m rName - rQuant) m) res m"

definition addPod :: "features \<Rightarrow> Pod \<Rightarrow> int \<Rightarrow> NodeInfo \<Rightarrow> NodeInfo \<times> int" where
  "addPod f pod g n =
     (let (res, non0CPU, non0Mem) = calculateResource f pod;
          req = niRequestedResource n; non0 = niNonzeroRequest n; g' = nextGeneration g
      in (n\<lparr>niRequestedResource := req\<lparr>rMilliCPU := rMilliCPU req + rMilliCPU res,
                                    rMemory := rMemory req + rMemory res,
                                    rEphemeralStorage := rEphemeralStorage req + rEphemeralStorage res,
                                    rScalarResources := addScalars (rScalarResources res) (rScalarResources req)\<rparr>,
            niNonzeroRequest := non0\<lparr>rMilliCPU := rMilliCPU non0 + non0CPU, rMemory := rMemory non0 + non0Mem\<rparr>,
            niPods := niPods n @ [pod],
            niPodsWithAffinity :=
              (if hasPodAffinityConstraints pod then niPodsWithAffinity n @ [pod] else niPodsWithAffinity n),
            niUsedPorts := UpdateUsedPorts pod True (niUsedPorts n),
            niGeneration := g'\<rparr>, g'))"

definition removePod :: "features \<Rightarrow> Pod \<Rightarrow> int \<Rightarrow> NodeInfo \<Rightarrow> NodeInfo \<times> int \<times> nodeInfoErr option" where
  "removePod f pod g n =
     (case GetPodKey pod of
        None \<Rightarrow> (n, g, Some ErrEmptyUID)
      | Some k1 \<Rightarrow>
          (let n = (case find_idx (\<lambda>p. GetPodKey p = Some k1) (niPodsWithAffinity n) of
                      Some i \<Rightarrow> n\<lparr>niPodsWithAffinity := swap_remove i (niPodsWithAffinity n)\<rparr>
                    | None \<Rightarrow> n)
           in case find_idx (\<lambda>p. GetPodKey p = Some k1) (niPods n) of
                None \<Rightarrow> (n, g, Some (if niNode n = None then PanicNilNode else ErrNoPod))
              | Some i \<Rightarrow>
                  (let (res, non0CPU, non0Mem) = calculateResource f pod;
                       req = niRequestedResource n; non0 = niNonzeroRequest n; g' = nextGeneration g
                   in (n\<lparr>niPods := swap_remove i (niPods n),
                         niRequestedResource := req\<lparr>rMilliCPU := rMilliCPU req - rMilliCPU res,
                           rMemory := rMemory req - rMemory res,
                           rEphemeralStorage := rEphemeralStorage req - rEphemeralStorage res,
                           rScalarResources := subScalars (rScalarResources res) (rScalarResources req)\<rparr>,
                         niNonzeroRequest := non0\<lparr>rMilliCPU := rMilliCPU non0 - non0CPU,
                                                 rMemory := rMemory non0 - non0Mem\<rparr>,
                         niUsedPorts := UpdateUsedPorts pod False (niUsedPorts n),
                         niGeneration := g'\<rparr>, g', None))))"

definition emptyNodeInfo :: "int \<Rightarrow> NodeInfo" where
  "emptyNodeInfo g =
     \<lparr>niNode = None, niResourceProviderId = [], niPods = [], niPodsWithAffinity = [], niUsedPorts = [],
      niRequestedResource = emptyResource, niNonzeroRequest = emptyResource,
      niAllocatableResource = emptyResource, niTaints = [], niImageStates = [],
      niTransientInfo = NewTransientSchedulerInfo, niMemoryPressure = [], niDiskPressure = [],
      niPidPressure = [], niGeneration = g\<rparr>"

definition NewNodeInfo :: "features \<Rightarrow> Pod list \<Rightarrow> int \<Rightarrow> NodeInfo \<times> int" where
  "NewNodeInfo f pods g =
     (let g' = nextGeneration g in fold (\<lambda>pod (n, g). addPod f pod g n) pods (emptyNodeInfo g', g'))"

definition SetResourceProviderId :: "string \<Rightarrow> NodeInfo \<Rightarrow> NodeInfo \<times> nodeInfoErr option" where
  "SetResourceProviderId rpId n =
     (if niResourceProviderId n \<noteq> [] then
        (n, Some (if niNode n = None then PanicNilNode else ErrProviderIdSet))
      else if rpId = [] then (n, Some (if niNode n = None then PanicNilNode else ErrProviderIdEmpty))
      else (n\<lparr>niResourceProviderId := rpId\<rparr>, None))"

definition SetAllocatableResource :: "Resource \<Rightarrow> int \<Rightarrow> NodeInfo \<Rightarrow> NodeInfo \<times> int" where
  "SetAllocatableResource r g n =
     (let g' = nextGeneration g in (n\<lparr>niAllocatableResource := r, niGeneration := g'\<rparr>, g'))"

definition setCondition :: "NodeCondition \<Rightarrow> NodeInfo \<Rightarrow> NodeInfo" where
  "setCondition cond n =
     (if ncType cond = ''MemoryPressure'' then n\<lparr>niMemoryPressure := ncStatus cond\<rparr>
      else if ncType cond = ''DiskPressure'' then n\<lparr>niDiskPressure := ncStatus cond\<rparr>
      else if ncType cond = ''PIDPressure'' then n\<lparr>niPidPressure := ncStatus cond\<rparr>
      else n)"

definition SetNode :: "features \<Rightarrow> Node \<Rightarrow> int \<Rightarrow> NodeInfo \<Rightarrow> NodeInfo \<times> int" where
  "SetNode f node g n =
     (let g' = nextGeneration g;
          n = n\<lparr>niNode := Some node,
                niAllocatableResource := NewResource f (nstAllocatable (nodeStatus node)),
                niTaints := nsTaints (nodeSpec node)\<rparr>;
          n = fold setCondition (nstConditions (nodeStatus node)) n
      in (n\<lparr>niTransientInfo := NewTransientSchedulerInfo, niGeneration := g'\<rparr>, g'))"

definition resourceClone :: "Resource \<Rightarrow> Resource" where
  "resourceClone r =
     \<lparr>rMilliCPU = rMilliCPU r, rMemory = rMemory r, rEphemeralStorage = rEphemeralStorage r,
      rAllowedPodNumber = rAllowedPodNumber r,
      rScalarResources = fold (\<lambda>(k, v) m. mput k v m) (rScalarResources r) []\<rparr>"

definition clonePorts :: "HostPortInfo \<Rightarrow> HostPortInfo" where
  "clonePorts h =
     fold (\<lambda>(ip, portMap) c. mput ip (fold (\<lambda>(pp, v) m. mput pp v m) portMap []) c) h []"

definition nodeInfoClone :: "NodeInfo \<Rightarrow> NodeInfo" where
  "nodeInfoClone n =
     \<lparr>niNode = niNode n, niResourceProviderId = niResourceProviderId n, niPods = niPods n,
      niPodsWithAffinity = niPodsWithAffinity n, niUsedPorts = clonePorts (niUsedPorts n),
      niRequestedResource = resourceClone (niRequestedResource n),
      niNonzeroRequest = resourceClone (niNonzeroRequest n),
      niAllocatableResource = resourceClone (niAllocatableResource n), niTaints = niTaints n,
      niImageStates = niImageStates n, niTransientInfo = niTransientInfo n,
      niMemoryPressure = niMemoryPressure n, niDiskPressure = niDiskPressure n,
      niPidPressure = niPidPressure n, niGeneration = niGeneration n\<rparr>"

definition VolumeLimits :: "NodeInfo \<Rightarrow> (string, i64) gomap" where
  "VolumeLimits n =
     fold (\<lambda>(k, v) m. if IsAttachableVolumeResourceName k then mput k v m else m)
       (rScalarResources (niAllocatableResource n)) []"

definition FilterOutPods :: "NodeInfo \<Rightarrow> Pod list \<Rightarrow> Pod list" where
  "FilterOutPods n pods =
     (case niNode n of
        None \<Rightarrow> pods
      | Some node \<Rightarrow>
          filter (\<lambda>p. if podNodeName p \<noteq> nodeName node then True
                      else case GetPodKey p of
                             None \<Rightarrow> False
                           | Some podKey \<Rightarrow> list_ex (\<lambda>np. podUID np = podKey) (niPods n)) pods)"

text \<open>\<open>NodeInfo.Filter\<close>; None is the nil dereference of a NodeInfo without a node.\<close>

definition nodeInfoFilter :: "NodeInfo \<Rightarrow> Pod \<Rightarrow> bool option" where
  "nodeInfoFilter n pod =
     (case niNode n of
        None \<Rightarrow> None
      | Some node \<Rightarrow>
          Some (podNodeName pod \<noteq> nodeName node \<or>
                list_ex (\<lambda>p. podName p = podName pod \<and> podNamespace p = podNamespace pod \<and>
                             podTenant p = podTenant pod) (niPods n)))"

section \<open>What the aggregates are specified against\<close>

text \<open>The dimensions \<open>AddPod\<close> and \<open>RemovePod\<close> account for, the amount of a resource along one of them, and
  the request of a single pod.\<close>

datatype dim = DCPU | DMemory | DEphemeral | DScalar string

fun amount :: "Resource \<Rightarrow> dim \<Rightarrow> i64" where
  "amount r DCPU = rMilliCPU r"
| "amount r DMemory = rMemory r"
| "amount r DEphemeral = rEphemeralStorage r"
| "amount r (DScalar name) = scalarGet (rScalarResources r) name"

definition podRequest :: "features \<Rightarrow> Pod \<Rightarrow> Resource" where
  "podRequest f pod = fst (calculateResource f pod)"

definition podNonzeroCPU :: "features \<Rightarrow> Pod \<Rightarrow> i64" where
  "podNonzeroCPU f pod = fst (snd (calculateResource f pod))"

definition podNonzeroMemory :: "features \<Rightarrow> Pod \<Rightarrow> i64" where
  "podNonzeroMemory f pod = snd (snd (calculateResource f pod))"

text \<open>The aggregates of a node are the sums over its pods.\<close>

definition nodeInfoInv :: "features \<Rightarrow> NodeInfo \<Rightarrow> bool" where
  "nodeInfoInv f n \<longleftrightarrow>
     (\<forall>d. amount (niRequestedResource n) d = (\<Sum>p \<leftarrow> niPods n. amount (podRequest f p) d)) \<and>
     rMilliCPU (niNonzeroRequest n) = (\<Sum>p \<leftarrow> niPods n. podNonzeroCPU f p) \<and>
     rMemory (niNonzeroRequest n) = (\<Sum>p \<leftarrow> niPods n. podNonzeroMemory f p) \<and>
     mset (niPodsWithAffinity n) = mset (filter hasPodAffinityConstraints (niPods n)) \<and>
     hpInv (niUsedPorts n)"

definition max64 :: "i64 \<Rightarrow> i64 \<Rightarrow> i64" where
  "max64 a b = (if sint a < sint b then b else a)"

text \<open>What one entry of a resource list contributes along a dimension.\<close>

fun listAmount :: "features \<Rightarrow> ResourceList \<Rightarrow> dim \<Rightarrow> i64" where
  "listAmount f rl DCPU = (case mget rl ResourceCPU of Some q \<Rightarrow> MilliValue q | None \<Rightarrow> 0)"
| "listAmount f rl DMemory = (case mget rl ResourceMemory of Some q \<Rightarrow> Value q | None \<Rightarrow> 0)"
| "listAmount f rl DEphemeral =
     (if LocalStorageCapacityIsolation f
      then (case mget rl ResourceEphemeralStorage of Some q \<Rightarrow> Value q | None \<Rightarrow> 0) else 0)"
| "listAmount f rl (DScalar name) =
     (if name \<notin> {ResourceCPU, ResourceMemory, ResourcePods, ResourceEphemeralStorage} \<and> IsScalarResourceName name
      then (case mget rl name of Some q \<Rightarrow> Value q | None \<Rightarrow> 0) else 0)"

text \<open>How an init container's request list raises an amount: the larger of the two, where it has an entry.\<close>

definition raise :: "Quantity option \<Rightarrow> (Quantity \<Rightarrow> i64) \<Rightarrow> i64 \<Rightarrow> i64" where
  "raise entry val a = (case entry of Some q \<Rightarrow> max64 a (val q) | None \<Rightarrow> a)"

fun listRaise :: "ResourceList \<Rightarrow> dim \<Rightarrow> i64 \<Rightarrow> i64" where
  "listRaise rl DCPU a = raise (mget rl ResourceCPU) MilliValue a"
| "listRaise rl DMemory a = raise (mget rl ResourceMemory) Value a"
| "listRaise rl DEphemeral a = raise (mget rl ResourceEphemeralStorage) Value a"
| "listRaise rl (DScalar name) a =
     (if name \<notin> {ResourceCPU, ResourceMemory, ResourceEphemeralStorage} \<and> IsScalarResourceName name
      then raise (mget rl name) Value a else a)"

text \<open>The maps inside a pod have distinct keys.\<close>

definition podWf :: "Pod \<Rightarrow> bool" where
  "podWf pod \<longleftrightarrow>
     list_all (\<lambda>w. gomap_wf (wRequests w) \<and> gomap_wf (wResourcesAllocated w)) (Workloads (podSpec pod)) \<and>
     list_all (\<lambda>c. gomap_wf (cRequests c)) (psInitContainers (podSpec pod)) \<and>
     (case psOverhead (podSpec pod) of Some ov \<Rightarrow> gomap_wf ov | None \<Rightarrow> True)"

definition overheadAmount :: "features \<Rightarrow> Pod \<Rightarrow> dim \<Rightarrow> i64" where
  "overheadAmount f pod d =
     (case psOverhead (podSpec pod) of Some ov \<Rightarrow> if PodOverhead f then listAmount f ov d else 0 | None \<Rightarrow> 0)"

text \<open>The list of pods with affinity after the removal.\<close>

definition affinityAfter :: "Pod \<Rightarrow> Pod list \<Rightarrow> Pod list" where
  "affinityAfter pod ps =
     (case find_idx (\<lambda>p. GetPodKey p = Some (podUID pod)) ps of Some i \<Rightarrow> swap_remove i ps | None \<Rightarrow> ps)"

section \<open>Maps of amounts\<close>

lemma scalarGet_mput [simp]: "scalarGet (mput k v m) k' = (if k = k' then v else scalarGet m k')"
  by (simp add: scalarGet_def)

lemma scalarGet_Nil [simp]: "scalarGet [] k = 0"
  by (simp add: scalarGet_def)

lemma scalarGet_Cons [simp]: "scalarGet ((k, v) # m) k' = (if k = k' then v else scalarGet m k')"
  by (simp add: scalarGet_def)

lemma scalarGet_absent: "k \<notin> fst ` set m \<Longrightarrow> scalarGet m k = 0"
  by (simp add: scalarGet_def map_of_eq_None_iff [THEN iffD2])

lemma scalarGet_addScalars:
  "gomap_wf res \<Longrightarrow> scalarGet (addScalars res m) k = scalarGet m k + scalarGet res k"
  unfolding addScalars_def gomap_wf_def
  by (induction res arbitrary: m) (auto simp: scalarGet_absent)

lemma scalarGet_subScalars:
  "gomap_wf res \<Longrightarrow> scalarGet (subScalars res m) k = scalarGet m k - scalarGet res k"
  unfolding subScalars_def gomap_wf_def
  by (induction res arbitrary: m) (auto simp: scalarGet_absent)

lemma resource_names_distinct [simp]:
  "ResourceMemory \<noteq> ResourceCPU" "ResourceCPU \<noteq> ResourceMemory"
  "ResourcePods \<noteq> ResourceCPU" "ResourceCPU \<noteq> ResourcePods"
  "ResourcePods \<noteq> ResourceMemory" "ResourceMemory \<noteq> ResourcePods"
  "ResourceEphemeralStorage \<noteq> ResourceCPU" "ResourceCPU \<noteq> ResourceEphemeralStorage"
  "ResourceEphemeralStorage \<noteq> ResourceMemory" "ResourceMemory \<noteq> ResourceEphemeralStorage"
  "ResourceEphemeralStorage \<noteq> ResourcePods" "ResourcePods \<noteq> ResourceEphemeralStorage"
  by (simp_all add: ResourceCPU_def ResourceMemory_def ResourcePods_def ResourceEphemeralStorage_def)

text \<open>Adding a resource list adds, along every dimension, the amount the list has there, in whatever
  order the map is traversed.\<close>

lemma amount_addEntry:
  "amount (resourceAddEntry f (k, q) r) d = amount r d + listAmount f [(k, q)] d"
  by (cases d) (auto simp: resourceAddEntry_def AddScalar_def SetScalar_def)

lemma listAmount_Cons:
  "k \<notin> fst ` set rl \<Longrightarrow> listAmount f ((k, q) # rl) d = listAmount f [(k, q)] d + listAmount f rl d"
  by (cases d) (auto simp: map_of_eq_None_iff [THEN iffD2])

lemma listAmount_Nil [simp]: "listAmount f [] d = 0"
  by (cases d) auto

lemma amount_resourceAdd:
  "gomap_wf rl \<Longrightarrow> amount (resourceAdd f rl r) d = amount r d + listAmount f rl d"
proof (induction rl arbitrary: r)
  case (Cons e rl)
  obtain k q where e: "e = (k, q)" by (cases e)
  from Cons have wf: "gomap_wf rl" and k: "k \<notin> fst ` set rl" by (auto simp: gomap_wf_def e)
  have "amount (resourceAdd f (e # rl) r) d = amount (resourceAdd f rl (resourceAddEntry f e r)) d"
    by (simp add: resourceAdd_def)
  also have "\<dots> = amount r d + listAmount f [e] d + listAmount f rl d"
    by (simp add: Cons.IH [OF wf] e amount_addEntry)
  finally show ?case by (simp add: e listAmount_Cons [OF k])
qed (simp add: resourceAdd_def)

lemma amount_setMaxEntry:
  "amount (setMaxEntry (k, q) r) d = listRaise [(k, q)] d (amount r d)"
  by (cases d) (auto simp: setMaxEntry_def SetScalar_def raise_def max64_def Let_def)

lemma listRaise_Cons:
  "k \<notin> fst ` set rl \<Longrightarrow> listRaise ((k, q) # rl) d a = listRaise rl d (listRaise [(k, q)] d a)"
  by (cases d) (auto simp: raise_def map_of_eq_None_iff [THEN iffD2] split: option.splits)

lemma listRaise_Nil [simp]: "listRaise [] d a = a"
  by (cases d) (auto simp: raise_def)

lemma amount_SetMaxResource:
  "gomap_wf rl \<Longrightarrow> amount (SetMaxResource rl r) d = listRaise rl d (amount r d)"
proof (induction rl arbitrary: r)
  case (Cons e rl)
  obtain k q where e: "e = (k, q)" by (cases e)
  from Cons have wf: "gomap_wf rl" and k: "k \<notin> fst ` set rl" by (auto simp: gomap_wf_def e)
  have "amount (SetMaxResource (e # rl) r) d = amount (SetMaxResource rl (setMaxEntry e r)) d"
    by (simp add: SetMaxResource_def)
  then show ?case
    by (simp add: Cons.IH [OF wf] e amount_setMaxEntry listRaise_Cons [OF k])
qed (simp add: SetMaxResource_def)

text \<open>The three phases of \<open>calculateResource\<close>.\<close>

lemma amount_workloads:
  assumes "\<And>w. w \<in> set ws \<Longrightarrow> gomap_wf (wRequests w) \<and> gomap_wf (wResourcesAllocated w)"
  shows "amount (fst (fold (calcWorkload f) ws (r, c, m))) d =
     amount r d + (\<Sum>w \<leftarrow> ws. listAmount f (workloadRequests f w) d)"
  using assms
  by (induction ws arbitrary: r c m)
    (auto simp: calcWorkload_def Let_def GetNonzeroRequests_def amount_resourceAdd workloadRequests_def)

lemma amount_inits:
  assumes "\<And>ic. ic \<in> set ics \<Longrightarrow> gomap_wf (cRequests ic)"
  shows "amount (fst (fold (calcInit f) ics (r, c, m))) d =
     fold (\<lambda>ic. listRaise (cRequests ic) d) ics (amount r d)"
  using assms
  by (induction ics arbitrary: r c m)
    (auto simp: calcInit_def Let_def GetNonzeroRequests_def amount_SetMaxResource)

lemma amount_podRequest:
  assumes "podWf pod"
  shows "amount (podRequest f pod) d =
     fold (\<lambda>ic. listRaise (cRequests ic) d) (psInitContainers (podSpec pod))
       (\<Sum>w \<leftarrow> Workloads (podSpec pod). listAmount f (workloadRequests f w) d) + overheadAmount f pod d"
proof -
  let ?ws = "Workloads (podSpec pod)" and ?ics = "psInitContainers (podSpec pod)"
  obtain r c m where w: "fold (calcWorkload f) ?ws (emptyResource, 0, 0) = (r, c, m)" by (metis prod_cases3)
  obtain r' c' m' where i: "fold (calcInit f) ?ics (r, c, m) = (r', c', m')" by (metis prod_cases3)
  have "amount emptyResource d = 0" by (cases d) (simp_all add: emptyResource_def)
  then have r: "amount r d = (\<Sum>w \<leftarrow> ?ws. listAmount f (workloadRequests f w) d)"
    using amount_workloads [of ?ws f emptyResource 0 0 d] assms w by (auto simp: podWf_def list_all_iff)
  have "amount r' d = fold (\<lambda>ic. listRaise (cRequests ic) d) ?ics (amount r d)"
    using amount_inits [of ?ics f r c m d] assms i by (auto simp: podWf_def list_all_iff)
  then show ?thesis
    using assms r
    by (auto simp: podRequest_def calculateResource_def w i calcOverhead_def overheadAmount_def podWf_def
        amount_resourceAdd split: option.splits)
qed

section \<open>Aggregates and pods\<close>

lemma gomap_wf_addEntry:
  "gomap_wf (rScalarResources r) \<Longrightarrow> gomap_wf (rScalarResources (resourceAddEntry f e r))"
  by (cases e) (simp add: resourceAddEntry_def AddScalar_def SetScalar_def)

lemma gomap_wf_resourceAdd:
  "gomap_wf (rScalarResources r) \<Longrightarrow> gomap_wf (rScalarResources (resourceAdd f rl r))"
  unfolding resourceAdd_def by (induction rl arbitrary: r) (simp_all add: gomap_wf_addEntry)

lemma gomap_wf_SetMaxResource:
  "gomap_wf (rScalarResources r) \<Longrightarrow> gomap_wf (rScalarResources (SetMaxResource rl r))"
  unfolding SetMaxResource_def
  by (induction rl arbitrary: r) (auto simp: setMaxEntry_def SetScalar_def Let_def)

lemma gomap_wf_workloads:
  "gomap_wf (rScalarResources (fst s)) \<Longrightarrow> gomap_wf (rScalarResources (fst (fold (calcWorkload f) ws s)))"
proof (induction ws arbitrary: s)
  case (Cons w ws)
  have "gomap_wf (rScalarResources (fst (calcWorkload f w s)))"
    using Cons.prems by (auto simp: calcWorkload_def Let_def split_beta gomap_wf_resourceAdd)
  with Cons.IH show ?case by simp
qed simp

lemma gomap_wf_inits:
  "gomap_wf (rScalarResources (fst s)) \<Longrightarrow> gomap_wf (rScalarResources (fst (fold (calcInit f) ics s)))"
proof (induction ics arbitrary: s)
  case (Cons ic ics)
  have "gomap_wf (rScalarResources (fst (calcInit f ic s)))"
    using Cons.prems by (auto simp: calcInit_def Let_def split_beta gomap_wf_SetMaxResource)
  with Cons.IH show ?case by simp
qed simp

lemma gomap_wf_podRequest: "gomap_wf (rScalarResources (podRequest f pod))"
proof -
  have "gomap_wf (rScalarResources (fst (calcOverhead f o' s)))" if "gomap_wf (rScalarResources (fst s))" for o' s
    using that by (auto simp: calcOverhead_def split_beta gomap_wf_resourceAdd split: option.splits)
  then show ?thesis
    unfolding podRequest_def calculateResource_def
    by (simp add: gomap_wf_inits gomap_wf_workloads emptyResource_def)
qed

lemma addPod_simps [simp]:
  "niPods (fst (addPod f pod g n)) = niPods n @ [pod]"
  "niGeneration (fst (addPod f pod g n)) = g + 1"
  "snd (addPod f pod g n) = g + 1"
  "niNode (fst (addPod f pod g n)) = niNode n"
  "niUsedPorts (fst (addPod f pod g n)) = UpdateUsedPorts pod True (niUsedPorts n)"
  "niPodsWithAffinity (fst (addPod f pod g n)) =
     (if hasPodAffinityConstraints pod then niPodsWithAffinity n @ [pod] else niPodsWithAffinity n)"
  "rMilliCPU (niNonzeroRequest (fst (addPod f pod g n))) = rMilliCPU (niNonzeroRequest n) + podNonzeroCPU f pod"
  "rMemory (niNonzeroRequest (fst (addPod f pod g n))) = rMemory (niNonzeroRequest n) + podNonzeroMemory f pod"
  by (simp_all add: addPod_def split_beta Let_def nextGeneration_def podNonzeroCPU_def podNonzeroMemory_def)

lemma amount_addPod [simp]:
  "amount (niRequestedResource (fst (addPod f pod g n))) d =
   amount (niRequestedResource n) d + amount (podRequest f pod) d"
  using gomap_wf_podRequest [of f pod]
  by (cases d) (simp_all add: addPod_def split_beta Let_def podRequest_def scalarGet_addScalars)

lemma UpdateUsedPorts_locale:
  "UpdateUsedPorts pod True h = hp.addAll (podPorts pod) h"
  "UpdateUsedPorts pod False h = hp.removeAll (podPorts pod) h"
  by (simp_all add: UpdateUsedPorts_def hp.addAll_def hp.removeAll_def)

lemma nodeInfoInv_addPod: "nodeInfoInv f n \<Longrightarrow> nodeInfoInv f (fst (addPod f pod g n))"
  by (simp add: nodeInfoInv_def UpdateUsedPorts_locale hp.addAll_spec)

text \<open>\<open>RemovePod\<close> of a pod that is on the node, when the node's pods have distinct uids.\<close>

lemma find_idx_key:
  assumes "pod \<in> set ps" and "podUID pod \<noteq> []" and "distinct (map podUID ps)"
  obtains i where "find_idx (\<lambda>p. GetPodKey p = Some (podUID pod)) ps = Some i"
    and "i < length ps" and "ps ! i = pod"
proof -
  let ?P = "\<lambda>p. GetPodKey p = Some (podUID pod)"
  have "find_idx ?P ps \<noteq> None" using assms by (auto simp: find_idx_None GetPodKey_def)
  then obtain i where i: "find_idx ?P ps = Some i" by blast
  then have lt: "i < length ps" and "?P (ps ! i)" using find_idx_Some by blast+
  then have "podUID (ps ! i) = podUID pod" by (auto simp: GetPodKey_def split: if_splits)
  moreover have "inj_on podUID (set ps)" using assms(3) by (simp add: distinct_map)
  ultimately have "ps ! i = pod" using assms(1) lt by (meson inj_onD nth_mem)
  with i lt that show thesis by blast
qed

lemma find_idx_no_key:
  "pod \<notin> set qs \<Longrightarrow> set qs \<subseteq> set ps \<Longrightarrow> pod \<in> set ps \<Longrightarrow> distinct (map podUID ps) \<Longrightarrow>
   find_idx (\<lambda>p. GetPodKey p = Some (podUID pod)) qs = None"
  unfolding find_idx_None GetPodKey_def distinct_map
  by (auto dest: inj_onD)

lemma sum_list_swap_remove:
  fixes h :: "'a \<Rightarrow> 'b :: ab_group_add"
  assumes "i < length xs"
  shows "(\<Sum>x \<leftarrow> swap_remove i xs. h x) = (\<Sum>x \<leftarrow> xs. h x) - h (xs ! i)"
proof -
  have "(\<Sum>x \<leftarrow> xs. h x) = sum_mset (image_mset h (add_mset (xs ! i) (mset (swap_remove i xs))))"
    unfolding mset_swap_remove_add [OF assms, symmetric] by (simp flip: sum_mset_sum_list)
  also have "\<dots> = h (xs ! i) + (\<Sum>x \<leftarrow> swap_remove i xs. h x)"
    by (simp flip: sum_mset_sum_list)
  finally show ?thesis by simp
qed

lemma affinityAfter_mset:
  assumes ps: "mset qs = mset (filter P ps)" and pod: "pod \<in> set ps" "podUID pod \<noteq> []" "distinct (map podUID ps)"
  shows "mset (affinityAfter pod qs) = filter_mset P (mset ps - {#pod#})"
proof -
  have sub: "set qs = {p \<in> set ps. P p}" using arg_cong [OF ps, of set_mset] by auto
  have "mset (map podUID qs) = mset (map podUID (filter P ps))" using ps by simp
  then have d: "distinct (map podUID qs)"
    using pod(3) mset_eq_imp_distinct_iff [of "map podUID qs" "map podUID (filter P ps)"]
    by (simp add: distinct_map_filter)
  show ?thesis
  proof (cases "P pod")
    case True
    then have "pod \<in> set qs" using sub pod(1) by simp
    then obtain i where "find_idx (\<lambda>p. GetPodKey p = Some (podUID pod)) qs = Some i" "i < length qs" "qs ! i = pod"
      using find_idx_key [OF _ pod(2) d] by blast
    with True ps show ?thesis by (simp add: affinityAfter_def mset_swap_remove)
  next
    case False
    then have "find_idx (\<lambda>p. GetPodKey p = Some (podUID pod)) qs = None"
      using find_idx_no_key [of pod qs ps] sub pod by auto
    with False ps show ?thesis by (simp add: affinityAfter_def)
  qed
qed

lemma removePod_eq:
  assumes "podUID pod \<noteq> []" and "find_idx (\<lambda>p. GetPodKey p = Some (podUID pod)) (niPods n) = Some i"
  obtains n' where "removePod f pod g n = (n', g + 1, None)"
    and "niPods n' = swap_remove i (niPods n)"
    and "niPodsWithAffinity n' = affinityAfter pod (niPodsWithAffinity n)"
    and "niUsedPorts n' = UpdateUsedPorts pod False (niUsedPorts n)"
    and "niGeneration n' = g + 1" and "niNode n' = niNode n"
    and "\<And>d. amount (niRequestedResource n') d = amount (niRequestedResource n) d - amount (podRequest f pod) d"
    and "rMilliCPU (niNonzeroRequest n') = rMilliCPU (niNonzeroRequest n) - podNonzeroCPU f pod"
    and "rMemory (niNonzeroRequest n') = rMemory (niNonzeroRequest n) - podNonzeroMemory f pod"
proof -
  obtain res c m where c: "calculateResource f pod = (res, c, m)" by (metis prod_cases3)
  have wf: "gomap_wf (rScalarResources res)" using gomap_wf_podRequest [of f pod] by (simp add: podRequest_def c)
  have key: "GetPodKey pod = Some (podUID pod)" using assms(1) by (simp add: GetPodKey_def)
  let ?n' = "fst (removePod f pod g n)"
  have am: "amount (niRequestedResource ?n') d = amount (niRequestedResource n) d - amount (podRequest f pod) d" for d
    using assms wf
    by (cases d) (auto simp: removePod_def key c Let_def podRequest_def scalarGet_subScalars split: option.splits)
  have eq: "removePod f pod g n = (?n', g + 1, None)" "niPods ?n' = swap_remove i (niPods n)"
      "niPodsWithAffinity ?n' = affinityAfter pod (niPodsWithAffinity n)"
      "niUsedPorts ?n' = UpdateUsedPorts pod False (niUsedPorts n)" "niGeneration ?n' = g + 1" "niNode ?n' = niNode n"
      "rMilliCPU (niNonzeroRequest ?n') = rMilliCPU (niNonzeroRequest n) - podNonzeroCPU f pod"
      "rMemory (niNonzeroRequest ?n') = rMemory (niNonzeroRequest n) - podNonzeroMemory f pod"
    using assms
    by (auto simp: removePod_def key c Let_def nextGeneration_def affinityAfter_def podNonzeroCPU_def
        podNonzeroMemory_def split: option.splits)
  show thesis by (rule that [OF eq(1-6) am eq(7,8)])
qed

lemma removePod_tracked:
  assumes "nodeInfoInv f n" and pod: "pod \<in> set (niPods n)" "podUID pod \<noteq> []" "distinct (map podUID (niPods n))"
  obtains n' where "removePod f pod g n = (n', g + 1, None)" and "nodeInfoInv f n'"
    and "mset (niPods n') = mset (niPods n) - {#pod#}" and "niGeneration n' = g + 1" and "niNode n' = niNode n"
    and "hpBindings (niUsedPorts n') = hpBindings (niUsedPorts n) - hp.wanted (podPorts pod)"
proof -
  obtain i where i: "find_idx (\<lambda>p. GetPodKey p = Some (podUID pod)) (niPods n) = Some i"
      "i < length (niPods n)" "niPods n ! i = pod"
    using find_idx_key [OF pod] by blast
  obtain n' where n': "removePod f pod g n = (n', g + 1, None)" "niPods n' = swap_remove i (niPods n)"
     "niPodsWithAffinity n' = affinityAfter pod (niPodsWithAffinity n)"
     "niUsedPorts n' = UpdateUsedPorts pod False (niUsedPorts n)" "niGeneration n' = g + 1" "niNode n' = niNode n"
     "\<And>d. amount (niRequestedResource n') d = amount (niRequestedResource n) d - amount (podRequest f pod) d"
     "rMilliCPU (niNonzeroRequest n') = rMilliCPU (niNonzeroRequest n) - podNonzeroCPU f pod"
     "rMemory (niNonzeroRequest n') = rMemory (niNonzeroRequest n) - podNonzeroMemory f pod"
    using removePod_eq [OF pod(2) i(1)] by blast
  have ms: "mset (niPods n') = mset (niPods n) - {#pod#}" using i n'(2) by (simp add: mset_swap_remove)
  have ports: "hpInv (niUsedPorts n)" using assms(1) by (simp add: nodeInfoInv_def)
  have aff: "mset (niPodsWithAffinity n') = mset (filter hasPodAffinityConstraints (niPods n'))"
    using affinityAfter_mset [OF _ pod, of "niPodsWithAffinity n" hasPodAffinityConstraints] assms(1) n'(3) ms
    by (simp add: nodeInfoInv_def)
  have "nodeInfoInv f n'"
    using assms(1) aff i n' hp.removeAll_spec [OF ports]
    by (simp add: nodeInfoInv_def sum_list_swap_remove UpdateUsedPorts_locale)
  then show thesis
    using that n'(1,4,5,6) ms hp.removeAll_spec [OF ports] by (simp add: UpdateUsedPorts_locale)
qed

section \<open>Clones\<close>

lemma clonePorts_self: "hpInv h \<Longrightarrow> clonePorts h = h"
proof -
  assume h: "hpInv h"
  let ?copy = "\<lambda>portMap. fold (\<lambda>(pp, v) m. mput pp v m) portMap ([] :: (ProtocolPort, unit) gomap)"
  have "fold (\<lambda>(ip, portMap) c. mput ip (?copy portMap) c) h [] = fold (\<lambda>(k, v) m. mput k v m) h []"
    using h by (intro fold_cong) (auto simp: hpInv_def list_all_iff fold_mput_self)
  also have "\<dots> = h" using h by (simp add: fold_mput_self hpInv_def)
  finally show ?thesis by (simp add: clonePorts_def)
qed

lemma resourceClone_self: "gomap_wf (rScalarResources r) \<Longrightarrow> resourceClone r = r"
  by (simp add: resourceClone_def fold_mput_self)

section \<open>Adding and then removing a pod\<close>

lemma find_idx_fresh:
  "(\<And>p. p \<in> set ps \<Longrightarrow> podUID p \<noteq> podUID pod) \<Longrightarrow> podUID pod \<noteq> [] \<Longrightarrow>
   find_idx (\<lambda>p. GetPodKey p = Some (podUID pod)) (ps @ [pod]) = Some (length ps)"
  by (induction ps) (auto simp: GetPodKey_def)

lemma find_idx_absent:
  "(\<And>p. p \<in> set ps \<Longrightarrow> podUID p \<noteq> podUID pod) \<Longrightarrow>
   find_idx (\<lambda>p. GetPodKey p = Some (podUID pod)) ps = None"
  by (auto simp: find_idx_None GetPodKey_def)

lemma swap_remove_last: "swap_remove (length xs) (xs @ [x]) = xs"
  by (simp add: swap_remove_def)

lemma nodeInfoInv_SetNode: "nodeInfoInv f n \<Longrightarrow> nodeInfoInv f (fst (SetNode f node g n))"
proof -
  have "nodeInfoInv f (fold setCondition cs n') = nodeInfoInv f n'" for cs n'
    by (induction cs arbitrary: n') (auto simp: setCondition_def nodeInfoInv_def)
  then show "nodeInfoInv f n \<Longrightarrow> ?thesis" by (simp add: SetNode_def Let_def nodeInfoInv_def)
qed

lemma nodeInfoInv_empty: "nodeInfoInv f (emptyNodeInfo g)"
proof -
  have "amount emptyResource d = 0" for d by (cases d) (simp_all add: emptyResource_def)
  then show ?thesis by (simp add: nodeInfoInv_def emptyNodeInfo_def emptyResource_def hpInv_def)
qed

lemma nodeInfoInv_NewNodeInfo: "nodeInfoInv f (fst (NewNodeInfo f pods g))"
proof -
  have "nodeInfoInv f n \<Longrightarrow> nodeInfoInv f (fst (fold (\<lambda>pod (n, g). addPod f pod g n) pods (n, g)))" for n g
  proof (induction pods arbitrary: n g)
    case (Cons pod pods)
    then show ?case using nodeInfoInv_addPod [of f n pod g] by (cases "addPod f pod g n") simp
  qed simp
  then show ?thesis by (simp add: NewNodeInfo_def Let_def nodeInfoInv_empty)
qed

section \<open>Properties\<close>

text \<open>C16: the aggregates of a node are always the sums over its pods. Building a NodeInfo, adding a pod,
  setting the node, and removing a pod of the node keep, along every resource dimension (CPU, memory,
  ephemeral storage and each scalar resource, in wrapping int64 arithmetic), the requested and the non-zero
  amounts equal to the sums over the pods on the node, and the list of pods with affinity equal to the
  sublist that has it.\<close>

theorem nodeInfo_sums:
  assumes "nodeInfoInv f n" and "pod \<in> set (niPods n)" and "podUID pod \<noteq> []" and "distinct (map podUID (niPods n))"
  shows "nodeInfoInv f (fst (NewNodeInfo f pods g)) \<and> nodeInfoInv f (fst (addPod f p g n)) \<and>
    nodeInfoInv f (fst (SetNode f node g n)) \<and>
    (\<exists>n'. removePod f pod g n = (n', g + 1, None) \<and> nodeInfoInv f n' \<and>
       mset (niPods n') = mset (niPods n) - {#pod#} \<and> niGeneration n' = g + 1)"
  using removePod_tracked [OF assms] nodeInfoInv_NewNodeInfo nodeInfoInv_addPod [OF assms(1)]
    nodeInfoInv_SetNode [OF assms(1)]
  by metis

theorem nodeInfo_sums_witness:
  "\<exists>n'. removePod defaultFeatures (zeroPod\<lparr>podMeta := zeroMeta\<lparr>omUID := ''u''\<rparr>\<rparr>) 1
      (fst (addPod defaultFeatures (zeroPod\<lparr>podMeta := zeroMeta\<lparr>omUID := ''u''\<rparr>\<rparr>) 0 (emptyNodeInfo 0))) =
      (n', 2, None) \<and> nodeInfoInv defaultFeatures n'"
proof -
  let ?p = "zeroPod\<lparr>podMeta := zeroMeta\<lparr>omUID := ''u''\<rparr>\<rparr>"
  let ?n = "fst (addPod defaultFeatures ?p 0 (emptyNodeInfo 0))"
  have "nodeInfoInv defaultFeatures ?n" by (intro nodeInfoInv_addPod nodeInfoInv_empty)
  then show ?thesis
    using nodeInfo_sums [of defaultFeatures ?n ?p "[]" 1] by (simp add: emptyNodeInfo_def) blast
qed

text \<open>Adding a pod with a new uid and removing it again succeeds and undoes the addition: the pod
  lists, every resource amount and the non-zero requests are as before (also when an addition
  wrapped around), and so are the used host ports, provided none of the pod's ports was in conflict.\<close>

lemma removePod_undo:
  assumes "nodeInfoInv f n" and "podUID pod \<noteq> []" and "podUID pod \<notin> podUID ` set (niPods n)"
  shows "\<exists>n'. removePod f pod (g + 1) (fst (addPod f pod g n)) = (n', g + 2, None) \<and>
    niPods n' = niPods n \<and> niPodsWithAffinity n' = niPodsWithAffinity n \<and>
    (\<forall>d. amount (niRequestedResource n') d = amount (niRequestedResource n) d) \<and>
    rMilliCPU (niNonzeroRequest n') = rMilliCPU (niNonzeroRequest n) \<and>
    rMemory (niNonzeroRequest n') = rMemory (niNonzeroRequest n) \<and>
    (list_all (\<lambda>p. \<not> CheckConflict (cpHostIP p) (cpProtocol p) (cpHostPort p) (niUsedPorts n)) (podPorts pod) \<longrightarrow>
     hpBindings (niUsedPorts n') = hpBindings (niUsedPorts n))"
proof -
  let ?n1 = "fst (addPod f pod g n)" and ?k = "\<lambda>p. GetPodKey p = Some (podUID pod)"
  have fresh: "podUID p \<noteq> podUID pod" if "p \<in> set (niPods n)" for p
    using that assms(3) by (metis imageI)
  have "set (niPodsWithAffinity n) = {p \<in> set (niPods n). hasPodAffinityConstraints p}"
    using assms(1) by (auto simp: nodeInfoInv_def dest: arg_cong [of _ _ set_mset])
  then have "affinityAfter pod (niPodsWithAffinity ?n1) = niPodsWithAffinity n"
    using find_idx_fresh [of "niPodsWithAffinity n" pod] find_idx_absent [of "niPodsWithAffinity n" pod] fresh assms(2)
    by (simp add: affinityAfter_def swap_remove_last)
  moreover have "find_idx ?k (niPods ?n1) = Some (length (niPods n))"
    using find_idx_fresh [of "niPods n" pod] fresh assms(2) by simp
  from removePod_eq [OF assms(2) this, of f "g + 1"]
  obtain n' where "removePod f pod (g + 1) ?n1 = (n', g + 1 + 1, None)"
      "niPods n' = swap_remove (length (niPods n)) (niPods ?n1)"
      "niPodsWithAffinity n' = affinityAfter pod (niPodsWithAffinity ?n1)"
      "niUsedPorts n' = UpdateUsedPorts pod False (niUsedPorts ?n1)"
      "\<And>d. amount (niRequestedResource n') d = amount (niRequestedResource ?n1) d - amount (podRequest f pod) d"
      "rMilliCPU (niNonzeroRequest n') = rMilliCPU (niNonzeroRequest ?n1) - podNonzeroCPU f pod"
      "rMemory (niNonzeroRequest n') = rMemory (niNonzeroRequest ?n1) - podNonzeroMemory f pod"
    by metis
  ultimately show ?thesis
    using assms(1) hp.removeAll_addAll [of "niUsedPorts n" "podPorts pod"]
    by (intro exI [of _ n']) (simp add: swap_remove_last UpdateUsedPorts_locale nodeInfoInv_def list_all_iff)
qed



text \<open>With the local storage gate off, the requests of containers for ephemeral storage are dropped, and
  those of init containers are not.\<close>

lemma ephemeral_gate_ignored_by_init:
  "amount (podRequest (defaultFeatures\<lparr>LocalStorageCapacityIsolation := False\<rparr>)
     (zeroPod\<lparr>podSpec := podSpec zeroPod\<lparr>psInitContainers :=
       [\<lparr>cName = ''i'', cImage = [], cPorts = [], cRequests = [(''ephemeral-storage'', NewQuantity 7)],
         cResourcesAllocated = []\<rparr>]\<rparr>\<rparr>)) DEphemeral = 7"
  by (subst amount_podRequest)
    (simp_all add: podWf_def zeroPod_def Workloads_def gomap_wf_def overheadAmount_def raise_def max64_def
      ResourceEphemeralStorage_def Value_def ScaledValue_def amountAsScaledInt64_def NewQuantity_def
      positiveScaleInt64_def)

end
