(* ===== verification/GoHeap.thy ===== *)
theory GoHeap
  imports Prelude
begin

text \<open>
  The algorithms of Go's \<open>container/heap\<close> on the sequence of elements it orders: \<open>up\<close>, \<open>down\<close>, and the heap
  property they restore. The contract of the comparison is the locale \<open>weak_order\<close>, a strict weak order.
  \<open>SchedHeap\<close> runs these algorithms through the \<open>Less\<close> and \<open>Swap\<close> of the scheduler's heap.
\<close>

section \<open>Model\<close>

definition swap :: "nat \<Rightarrow> nat \<Rightarrow> 'a list \<Rightarrow> 'a list" where
  "swap i j xs = xs[i := xs ! j, j := xs ! i]"

abbreviation parent :: "nat \<Rightarrow> nat" where
  "parent j \<equiv> (j - 1) div 2"

function listUp :: "('a \<Rightarrow> 'a \<Rightarrow> bool) \<Rightarrow> 'a list \<Rightarrow> nat \<Rightarrow> 'a list" where
  "listUp lessFn xs j =
     (if parent j = j \<or> \<not> lessFn (xs ! j) (xs ! parent j) then xs
      else listUp lessFn (swap (parent j) j xs) (parent j))"
  by auto
termination
  by (relation "measure (\<lambda>(_, _, j). j)") auto

declare listUp.simps [simp del]

text \<open>The child \<open>down\<close> compares with: the right one if it exists and precedes the left one.\<close>

definition minChild :: "('a \<Rightarrow> 'a \<Rightarrow> bool) \<Rightarrow> 'a list \<Rightarrow> nat \<Rightarrow> nat \<Rightarrow> nat" where
  "minChild lessFn xs i n =
     (let j1 = 2 * i + 1; j2 = j1 + 1 in if j2 < n \<and> lessFn (xs ! j2) (xs ! j1) then j2 else j1)"

function listDown :: "('a \<Rightarrow> 'a \<Rightarrow> bool) \<Rightarrow> 'a list \<Rightarrow> nat \<Rightarrow> nat \<Rightarrow> 'a list \<times> nat" where
  "listDown lessFn xs i n =
     (if n \<le> 2 * i + 1 \<or> \<not> lessFn (xs ! minChild lessFn xs i n) (xs ! i) then (xs, i)
      else listDown lessFn (swap i (minChild lessFn xs i n) xs) (minChild lessFn xs i n) n)"
  by auto
termination
  by (relation "measure (\<lambda>(_, _, i, n). n - i)") (auto simp: minChild_def Let_def split: if_splits)

declare listDown.simps [simp del]

text \<open>No element precedes its parent, among the first \<open>n\<close>.\<close>

definition heapOrdered :: "('a \<Rightarrow> 'a \<Rightarrow> bool) \<Rightarrow> 'a list \<Rightarrow> nat \<Rightarrow> bool" where
  "heapOrdered lessFn xs n \<longleftrightarrow> (\<forall>k < n. 0 < k \<longrightarrow> \<not> lessFn (xs ! k) (xs ! parent k))"

text \<open>One defect: the element at \<open>i\<close> may precede its parent (\<open>upReady\<close>), or may also be preceded by its
  children (\<open>downReady\<close>); the children of \<open>i\<close> do not precede the parent of \<open>i\<close>.\<close>

definition grandOrdered :: "('a \<Rightarrow> 'a \<Rightarrow> bool) \<Rightarrow> 'a list \<Rightarrow> nat \<Rightarrow> nat \<Rightarrow> bool" where
  "grandOrdered lessFn xs n i \<longleftrightarrow>
     (\<forall>c < n. 0 < c \<longrightarrow> parent c = i \<longrightarrow> 0 < i \<longrightarrow> \<not> lessFn (xs ! c) (xs ! parent i))"

definition upReady :: "('a \<Rightarrow> 'a \<Rightarrow> bool) \<Rightarrow> 'a list \<Rightarrow> nat \<Rightarrow> nat \<Rightarrow> bool" where
  "upReady lessFn xs n i \<longleftrightarrow>
     (\<forall>k < n. 0 < k \<longrightarrow> k \<noteq> i \<longrightarrow> \<not> lessFn (xs ! k) (xs ! parent k)) \<and> grandOrdered lessFn xs n i"

definition downReady :: "('a \<Rightarrow> 'a \<Rightarrow> bool) \<Rightarrow> 'a list \<Rightarrow> nat \<Rightarrow> nat \<Rightarrow> bool" where
  "downReady lessFn xs n i \<longleftrightarrow>
     (\<forall>k < n. 0 < k \<longrightarrow> k \<noteq> i \<longrightarrow> parent k \<noteq> i \<longrightarrow> \<not> lessFn (xs ! k) (xs ! parent k)) \<and> grandOrdered lessFn xs n i"

section \<open>Sequences\<close>

lemma length_swap [simp]: "length (swap i j xs) = length xs"
  by (simp add: swap_def)

lemma nth_swap:
  "i < length xs \<Longrightarrow> j < length xs \<Longrightarrow> k < length xs \<Longrightarrow>
   swap i j xs ! k = (if k = j then xs ! i else if k = i then xs ! j else xs ! k)"
  by (simp add: swap_def nth_list_update)

lemma mset_swap_eq [simp]: "i < length xs \<Longrightarrow> j < length xs \<Longrightarrow> mset (swap i j xs) = mset xs"
  by (simp add: swap_def mset_swap)

lemma take_swap: "i < n \<Longrightarrow> j < n \<Longrightarrow> n \<le> length xs \<Longrightarrow> take n (swap i j xs) = swap i j (take n xs)"
  by (simp add: swap_def take_update_swap)

lemma drop_swap: "i < n \<Longrightarrow> j < n \<Longrightarrow> drop n (swap i j xs) = drop n xs"
  by (simp add: swap_def drop_update_cancel)

lemma minChild_bounds:
  assumes "\<not> n \<le> 2 * i + 1"
  shows "i < minChild lessFn xs i n" and "minChild lessFn xs i n < n"
    and "parent (minChild lessFn xs i n) = i" and "0 < minChild lessFn xs i n"
  using assms by (auto simp: minChild_def Let_def)

lemma parent_less: "0 < k \<Longrightarrow> parent k < k"
  by linarith

lemma parent_eq_iff: "parent j = j \<longleftrightarrow> j = 0"
  by linarith

lemma listUp_mset: "j < length xs \<Longrightarrow> mset (listUp lessFn xs j) = mset xs"
proof (induction lessFn xs j rule: listUp.induct)
  case (1 lessFn xs j)
  then show ?case by (subst listUp.simps) auto
qed

lemma listUp_length [simp]: "length (listUp lessFn xs j) = length xs"
proof (induction lessFn xs j rule: listUp.induct)
  case (1 lessFn xs j)
  then show ?case by (subst listUp.simps) auto
qed

lemma listUp_drop: "j < n \<Longrightarrow> drop n (listUp lessFn xs j) = drop n xs"
proof (induction lessFn xs j rule: listUp.induct)
  case (1 lessFn xs j)
  then show ?case by (subst listUp.simps) (auto simp: drop_swap)
qed

lemma listDown_stop:
  "n \<le> 2 * i + 1 \<or> \<not> lessFn (xs ! minChild lessFn xs i n) (xs ! i) \<Longrightarrow> listDown lessFn xs i n = (xs, i)"
  by (subst listDown.simps) auto

lemma listDown_move:
  "\<not> n \<le> 2 * i + 1 \<Longrightarrow> lessFn (xs ! minChild lessFn xs i n) (xs ! i) \<Longrightarrow>
   listDown lessFn xs i n = listDown lessFn (swap i (minChild lessFn xs i n) xs) (minChild lessFn xs i n) n"
  by (subst listDown.simps) auto

text \<open>What every call of \<open>down\<close> keeps, as one predicate over its result.\<close>

lemma listDown_props:
  assumes "i < n" and "n \<le> length xs" and "listDown lessFn xs i n = (ys, i')"
  shows "mset ys = mset xs \<and> length ys = length xs \<and> i \<le> i' \<and> i' < n \<and> drop n ys = drop n xs \<and>
    (i' = i \<longrightarrow> ys = xs)"
  using assms
proof (induction lessFn xs i n rule: listDown.induct)
  case (1 lessFn xs i n)
  let ?c = "minChild lessFn xs i n"
  show ?case
  proof (cases "n \<le> 2 * i + 1 \<or> \<not> lessFn (xs ! ?c) (xs ! i)")
    case True
    with 1 show ?thesis by (simp add: listDown_stop)
  next
    case False
    then have c: "i < ?c" "?c < n" using minChild_bounds [of n i lessFn xs] by auto
    have "listDown lessFn (swap i ?c xs) ?c n = (ys, i')" using 1 False listDown_move by metis
    with 1 False c show ?thesis by (auto simp: drop_swap)
  qed
qed

section \<open>A strict weak order\<close>

locale weak_order =
  fixes lessFn :: "'a \<Rightarrow> 'a \<Rightarrow> bool"
  assumes asym: "lessFn x y \<Longrightarrow> \<not> lessFn y x"
    and neg_trans: "\<not> lessFn y x \<Longrightarrow> \<not> lessFn z y \<Longrightarrow> \<not> lessFn z x"
begin

lemma irrefl: "\<not> lessFn x x"
  using asym by blast

text \<open>Moving the defect up one level.\<close>

lemma upReady_swap:
  assumes j: "0 < j" "j < n" "n \<le> length xs" and ready: "upReady lessFn xs n j"
    and lt: "lessFn (xs ! j) (xs ! parent j)"
  shows "upReady lessFn (swap (parent j) j xs) n (parent j)"
proof -
  let ?i = "parent j" and ?ys = "swap (parent j) j xs"
  have ij: "?i < j" using j(1) by (rule parent_less)
  have nth: "?ys ! k = (if k = j then xs ! ?i else if k = ?i then xs ! j else xs ! k)" if "k < n" for k
    using that j ij by (intro nth_swap) auto
  have ord: "\<not> lessFn (xs ! k) (xs ! parent k)" if "k < n" "0 < k" "k \<noteq> j" for k
    using ready that by (auto simp: upReady_def)
  have "\<not> lessFn (?ys ! k) (?ys ! parent k)" if k: "k < n" "0 < k" "k \<noteq> ?i" for k
  proof -
    have pk: "parent k < n" using k parent_less [of k] by linarith
    consider "k = j" | "k \<noteq> j" "parent k = j" | "k \<noteq> j" "parent k = ?i" | "k \<noteq> j" "parent k \<noteq> j" "parent k \<noteq> ?i"
      by blast
    then show ?thesis
    proof cases
      case 1
      then show ?thesis using nth [of k] nth [of ?i] k ij asym [OF lt] pk by simp
    next
      case 2
      then have "\<not> lessFn (xs ! k) (xs ! ?i)" using ready k j(1) by (auto simp: upReady_def grandOrdered_def)
      then show ?thesis using nth [of k] nth [of j] 2 k j by simp
    next
      case 3
      then have "\<not> lessFn (xs ! k) (xs ! ?i)" using ord k by metis
      then have "\<not> lessFn (xs ! k) (xs ! j)" using asym [OF lt] neg_trans by blast
      then show ?thesis using nth [of k] nth [of ?i] 3 k ij pk by simp
    next
      case 4
      then show ?thesis using nth [of k] nth [of "parent k"] ord k pk by simp
    qed
  qed
  moreover have "\<not> lessFn (?ys ! c) (?ys ! parent ?i)" if c: "c < n" "0 < c" "parent c = ?i" "0 < ?i" for c
  proof -
    have pi: "parent ?i < ?i" using c(4) by (rule parent_less)
    have top: "\<not> lessFn (xs ! ?i) (xs ! parent ?i)" using ord [of ?i] c ij j by simp
    have e: "?ys ! parent ?i = xs ! parent ?i" using nth [of "parent ?i"] pi ij j by simp
    show ?thesis
    proof (cases "c = j")
      case True
      then show ?thesis using nth [of c] c e top by simp
    next
      case False
      have "\<not> lessFn (xs ! c) (xs ! ?i)" using ord [of c] c False by simp
      then have "\<not> lessFn (xs ! c) (xs ! parent ?i)" using top neg_trans by blast
      moreover have "c \<noteq> ?i" using c parent_less [of c] by simp
      ultimately show ?thesis using nth [of c] c e False by simp
    qed
  qed
  ultimately show ?thesis by (auto simp: upReady_def grandOrdered_def)
qed

lemma upReady_done:
  "upReady lessFn xs n j \<Longrightarrow> j = 0 \<or> \<not> lessFn (xs ! j) (xs ! parent j) \<Longrightarrow> heapOrdered lessFn xs n"
  unfolding upReady_def heapOrdered_def by blast

lemma listUp_ordered:
  "j < n \<Longrightarrow> n \<le> length xs \<Longrightarrow> upReady lessFn xs n j \<Longrightarrow> heapOrdered lessFn (listUp lessFn xs j) n"
proof (induction j arbitrary: xs rule: less_induct)
  case (less j)
  show ?case
  proof (cases "j = 0 \<or> \<not> lessFn (xs ! j) (xs ! parent j)")
    case True
    then have "listUp lessFn xs j = xs" by (subst listUp.simps) (auto simp: parent_eq_iff)
    with True less show ?thesis using upReady_done by simp
  next
    case False
    then have "listUp lessFn xs j = listUp lessFn (swap (parent j) j xs) (parent j)"
      by (subst listUp.simps) (auto simp: parent_eq_iff)
    moreover have "parent j < j" using False parent_less by blast
    ultimately show ?thesis using False less upReady_swap [of j n xs] by simp
  qed
qed

text \<open>Moving the defect down one level: afterwards the element at \<open>i\<close> is in order with its parent.\<close>

lemma minChild_min:
  assumes "k < n" and "0 < k" and "parent k = i"
  shows "\<not> lessFn (xs ! k) (xs ! minChild lessFn xs i n)"
proof -
  have "k = 2 * i + 1 \<or> k = 2 * i + 2" using assms(2,3) by linarith
  with assms(1) irrefl asym show ?thesis by (auto simp: minChild_def Let_def)
qed

lemma downReady_swap:
  fixes xs :: "'a list" and i n :: nat
  defines "c \<equiv> minChild lessFn xs i n"
  assumes n: "n \<le> length xs" "\<not> n \<le> 2 * i + 1" and ready: "downReady lessFn xs n i"
    and lt: "lessFn (xs ! c) (xs ! i)"
  shows "downReady lessFn (swap i c xs) n c \<and>
    (\<forall>k < n. 0 < k \<longrightarrow> k \<noteq> c \<longrightarrow> parent k \<noteq> c \<longrightarrow> \<not> lessFn (swap i c xs ! k) (swap i c xs ! parent k)) \<and>
    \<not> lessFn (swap i c xs ! c) (swap i c xs ! i)"
proof -
  let ?ys = "swap i c xs"
  have c: "i < c" "c < n" "parent c = i" "0 < c" using minChild_bounds [OF n(2)] by (auto simp: c_def)
  have nth: "?ys ! k = (if k = c then xs ! i else if k = i then xs ! c else xs ! k)" if "k < n" for k
    using that c n by (intro nth_swap) auto
  have ord: "\<not> lessFn (?ys ! k) (?ys ! parent k)" if k: "k < n" "0 < k" "k \<noteq> c" "parent k \<noteq> c" for k
  proof -
    have pk: "parent k < n" "parent k < k" using k parent_less [of k] by linarith+
    consider "k = i" | "k \<noteq> i" "parent k = i" | "k \<noteq> i" "parent k \<noteq> i" by blast
    then show ?thesis
    proof cases
      case 1
      then have "\<not> lessFn (xs ! c) (xs ! parent i)" using ready c k by (auto simp: downReady_def grandOrdered_def)
      then show ?thesis using nth [of k] nth [of "parent k"] 1 k pk by simp
    next
      case 2
      then have "\<not> lessFn (xs ! k) (xs ! c)" unfolding c_def using minChild_min k by blast
      then show ?thesis using nth [of k] nth [of i] 2 k c pk by simp
    next
      case 3
      then have "\<not> lessFn (xs ! k) (xs ! parent k)" using ready k by (auto simp: downReady_def)
      then show ?thesis using nth [of k] nth [of "parent k"] 3 k pk by simp
    qed
  qed
  have "\<not> lessFn (?ys ! d) (?ys ! parent c)" if d: "d < n" "0 < d" "parent d = c" for d
  proof -
    have "d \<noteq> i" "d \<noteq> c" using d c parent_less [of d] by auto
    moreover from this have "\<not> lessFn (xs ! d) (xs ! c)" using ready d c by (auto simp: downReady_def)
    ultimately show ?thesis using nth [of d] nth [of i] d c by simp
  qed
  then have "downReady lessFn ?ys n c" using ord by (auto simp: downReady_def grandOrdered_def)
  moreover have "\<not> lessFn (?ys ! c) (?ys ! i)" using nth [of c] nth [of i] c asym [OF lt] by simp
  ultimately show ?thesis using ord by blast
qed

lemma downReady_stop:
  assumes "downReady lessFn xs n i" and "n \<le> 2 * i + 1 \<or> \<not> lessFn (xs ! minChild lessFn xs i n) (xs ! i)"
  shows "upReady lessFn xs n i"
proof -
  have "\<not> lessFn (xs ! k) (xs ! i)" if "k < n" "0 < k" "parent k = i" for k
  proof -
    have "2 * i + 1 \<le> k" using that(2,3) by linarith
    with that(1) assms(2) have "\<not> lessFn (xs ! minChild lessFn xs i n) (xs ! i)" by linarith
    with minChild_min [OF that] neg_trans show ?thesis by blast
  qed
  with assms(1) show ?thesis unfolding upReady_def downReady_def by metis
qed

lemma listDown_settles:
  assumes "i < n" and "n \<le> length xs" and "downReady lessFn xs n i"
    and "i = 0 \<or> \<not> lessFn (xs ! i) (xs ! parent i)"
  shows "heapOrdered lessFn (fst (listDown lessFn xs i n)) n"
  using assms
proof (induction "n - i" arbitrary: xs i rule: less_induct)
  case less
  let ?c = "minChild lessFn xs i n"
  show ?case
  proof (cases "n \<le> 2 * i + 1 \<or> \<not> lessFn (xs ! ?c) (xs ! i)")
    case True
    then have "heapOrdered lessFn xs n"
      using upReady_done [OF downReady_stop] less.prems by blast
    with True show ?thesis by (simp add: listDown_stop)
  next
    case False
    then have c: "i < ?c" "?c < n" "parent ?c = i" using minChild_bounds [of n i] by auto
    have "downReady lessFn (swap i ?c xs) n ?c" "\<not> lessFn (swap i ?c xs ! ?c) (swap i ?c xs ! i)"
      using downReady_swap [of n xs i] False less.prems by blast+
    with c less show ?thesis using False by (simp add: listDown_move)
  qed
qed

text \<open>\<open>heap.Fix\<close> and \<open>heap.Remove\<close> follow \<open>down\<close> by \<open>up\<close> when \<open>down\<close> did not move the element.\<close>

lemma listDown_or_up:
  assumes "i < n" and "n \<le> length xs" and "downReady lessFn xs n i" and "listDown lessFn xs i n = (ys, i')"
  shows "heapOrdered lessFn (if i < i' then ys else listUp lessFn ys i) n"
proof (cases "n \<le> 2 * i + 1 \<or> \<not> lessFn (xs ! minChild lessFn xs i n) (xs ! i)")
  case True
  then have "listDown lessFn xs i n = (xs, i)" "upReady lessFn xs n i"
    using assms downReady_stop by (auto simp: listDown_stop)
  with assms show ?thesis using listUp_ordered by simp
next
  case False
  let ?c = "minChild lessFn xs i n"
  have c: "i < ?c" "?c < n" "parent ?c = i" using False minChild_bounds [of n i] by auto
  have "downReady lessFn (swap i ?c xs) n ?c" "\<not> lessFn (swap i ?c xs ! ?c) (swap i ?c xs ! i)"
    using downReady_swap [of n xs i] False assms by blast+
  then have "heapOrdered lessFn (fst (listDown lessFn (swap i ?c xs) ?c n)) n"
    using c assms by (intro listDown_settles) auto
  moreover have "listDown lessFn (swap i ?c xs) ?c n = (ys, i')"
    using False assms(4) listDown_move by metis
  moreover have "?c \<le> i'" using listDown_props [OF c(2) _ calculation(2)] assms(2) by simp
  ultimately show ?thesis using c by simp
qed

lemma heapOrdered_root:
  assumes "heapOrdered lessFn xs n" and "k < n"
  shows "\<not> lessFn (xs ! k) (xs ! 0)"
  using assms(2)
proof (induction k rule: less_induct)
  case (less k)
  show ?case
  proof (cases "k = 0")
    case False
    then have "parent k < k" using parent_less by blast
    moreover have "\<not> lessFn (xs ! k) (xs ! parent k)" using assms(1) False less.prems by (simp add: heapOrdered_def)
    ultimately show ?thesis using less neg_trans by (meson order.strict_trans)
  qed (simp add: irrefl)
qed

text \<open>Changing one element of an ordered sequence leaves one defect.\<close>

lemma downReady_change:
  assumes ord: "heapOrdered lessFn xs m" "n \<le> m" and same: "\<And>k. k < n \<Longrightarrow> k \<noteq> i \<Longrightarrow> ys ! k = xs ! k"
  shows "downReady lessFn ys n i"
proof -
  have o: "\<not> lessFn (xs ! k) (xs ! parent k)" if "k < n" "0 < k" for k
    using ord that by (auto simp: heapOrdered_def)
  have "\<not> lessFn (ys ! k) (ys ! parent k)" if "k < n" "0 < k" "k \<noteq> i" "parent k \<noteq> i" for k
    using o [of k] that same [of k] same [of "parent k"] parent_less [of k] by simp
  moreover have "\<not> lessFn (ys ! c) (ys ! parent i)" if c: "c < n" "0 < c" "parent c = i" "0 < i" for c
  proof -
    have lt: "i < c" "parent i < i" using c parent_less [of c] parent_less [of i] by auto
    have "\<not> lessFn (xs ! c) (xs ! parent i)"
      using o [of c] o [of i] c lt neg_trans [of "xs ! i" "xs ! parent i" "xs ! c"] by simp
    then show ?thesis using same [of c] same [of "parent i"] c lt by simp
  qed
  ultimately show ?thesis by (auto simp: downReady_def grandOrdered_def)
qed

lemma upReady_append:
  assumes "heapOrdered lessFn xs (length xs)"
  shows "upReady lessFn (xs @ [x]) (Suc (length xs)) (length xs)"
proof -
  have "\<not> lessFn ((xs @ [x]) ! k) ((xs @ [x]) ! parent k)" if "k < Suc (length xs)" "0 < k" "k \<noteq> length xs" for k
    using assms that parent_less [of k] by (simp add: heapOrdered_def nth_append)
  moreover have "parent c \<noteq> length xs" if "c < Suc (length xs)" "0 < c" for c
    using that parent_less [of c] by linarith
  ultimately show ?thesis by (auto simp: upReady_def grandOrdered_def)
qed

lemma heapOrdered_take: "heapOrdered lessFn (take n xs) n \<longleftrightarrow> heapOrdered lessFn xs n"
proof -
  have "parent k < n" if "k < n" for k using that by linarith
  then show ?thesis by (simp add: heapOrdered_def)
qed

text \<open>The sequence part of \<open>heap.Fix\<close>, \<open>heap.Remove\<close> and \<open>heap.Pop\<close>.\<close>

lemma listFix_spec:
  fixes xs :: "'a list"
  assumes "heapOrdered lessFn xs (length xs)" and "i < length xs"
    and "listDown lessFn (xs[i := x]) i (length xs) = (ys, i')"
  defines "zs \<equiv> if i < i' then ys else listUp lessFn ys i"
  shows "heapOrdered lessFn zs (length xs)" and "mset zs = mset (xs[i := x])" and "length zs = length xs"
proof -
  have "downReady lessFn (xs[i := x]) (length xs) i"
    using assms(1) by (rule downReady_change) auto
  then show "heapOrdered lessFn zs (length xs)"
    unfolding zs_def using assms(2,3) by (intro listDown_or_up [of _ _ "xs[i := x]"]) auto
  from listDown_props [OF assms(2) _ assms(3)] show "mset zs = mset (xs[i := x])" "length zs = length xs"
    using assms(2) by (auto simp: zs_def listUp_mset)
qed

lemma listRemove_spec:
  fixes xs :: "'a list"
  assumes ord: "heapOrdered lessFn xs (length xs)" and len: "length xs = Suc n" and "i < n"
    and down: "listDown lessFn (swap i n xs) i n = (ys, i')"
  defines "zs \<equiv> if i < i' then ys else listUp lessFn ys i"
  shows "heapOrdered lessFn zs n" and "last zs = xs ! i" and "length zs = Suc n" and "mset zs = mset xs"
proof -
  have "downReady lessFn (swap i n xs) n i"
    using ord assms(3) len by (intro downReady_change [of xs "length xs"]) (auto simp: nth_swap)
  then show "heapOrdered lessFn zs n"
    unfolding zs_def using assms(3) len down by (intro listDown_or_up [of _ _ "swap i n xs"]) auto
  note props = listDown_props [OF assms(3) _ down]
  show lz: "length zs = Suc n" and "mset zs = mset xs"
    using props assms(3) len by (auto simp: zs_def listUp_mset)
  have "drop n zs = drop n (swap i n xs)"
    using props assms(3) len by (auto simp: zs_def listUp_drop)
  then have "zs ! n = swap i n xs ! n" using lz len by (metis length_swap lessI nth_via_drop Cons_nth_drop_Suc)
  then show "last zs = xs ! i"
    using lz len assms(3) by (simp add: last_conv_nth nth_swap flip: length_0_conv)
qed

end

end
