(* ===== verification/SchedHeap.thy ===== *)
theory SchedHeap
  imports GoHeap
begin

text \<open>
  The scheduler's heap (\<open>pkg/scheduler/internal/heap/heap.go\<close>): a map from keys to objects with their
  position, and the sequence of keys kept in heap order by \<open>container/heap\<close>, which works through the
  \<open>Len\<close>, \<open>Less\<close>, \<open>Swap\<close>, \<open>Push\<close> and \<open>Pop\<close> of \<open>data\<close>. \<open>absSeq\<close> maps it to the sequence of (key, object) pairs of
  \<open>GoHeap\<close>; \<open>contents\<close> to the finite map a client sees. The metric recorder is the gauge it maintains.
\<close>

section \<open>Model: data\<close>

record 'o heapItem =
  hiObj :: 'o
  hiIndex :: nat

record 'o heapData =
  hdItems :: "(string, 'o heapItem) gomap"
  hdQueue :: "string list"

definition dataLess :: "('o \<Rightarrow> 'o \<Rightarrow> bool) \<Rightarrow> 'o heapData \<Rightarrow> nat \<Rightarrow> nat \<Rightarrow> bool" where
  "dataLess lessFn h i j =
     (if length (hdQueue h) < i \<or> length (hdQueue h) < j then False
      else (case mget (hdItems h) (hdQueue h ! i) of
              None \<Rightarrow> False
            | Some itemi \<Rightarrow>
                (case mget (hdItems h) (hdQueue h ! j) of
                   None \<Rightarrow> False
                 | Some itemj \<Rightarrow> lessFn (hiObj itemi) (hiObj itemj))))"

text \<open>A queued key without an item is a nil dereference in Go; \<open>dataOk\<close> below excludes it.\<close>

definition setIndex :: "string \<Rightarrow> nat \<Rightarrow> (string, 'o heapItem) gomap \<Rightarrow> (string, 'o heapItem) gomap" where
  "setIndex k i items =
     (case mget items k of Some item \<Rightarrow> mput k (item\<lparr>hiIndex := i\<rparr>) items | None \<Rightarrow> items)"

definition dataSwap :: "nat \<Rightarrow> nat \<Rightarrow> 'o heapData \<Rightarrow> 'o heapData" where
  "dataSwap i j h =
     (let q = swap i j (hdQueue h)
      in \<lparr>hdItems = setIndex (q ! j) j (setIndex (q ! i) i (hdItems h)), hdQueue = q\<rparr>)"

definition dataPush :: "string \<Rightarrow> 'o \<Rightarrow> 'o heapData \<Rightarrow> 'o heapData" where
  "dataPush key obj h =
     \<lparr>hdItems = mput key \<lparr>hiObj = obj, hiIndex = length (hdQueue h)\<rparr> (hdItems h), hdQueue = hdQueue h @ [key]\<rparr>"

definition dataPop :: "'o heapData \<Rightarrow> 'o option \<times> 'o heapData" where
  "dataPop h =
     (let key = last (hdQueue h); q = butlast (hdQueue h) in
      case mget (hdItems h) key of
        None \<Rightarrow> (None, \<lparr>hdItems = hdItems h, hdQueue = q\<rparr>)
      | Some item \<Rightarrow> (Some (hiObj item), \<lparr>hdItems = mdel key (hdItems h), hdQueue = q\<rparr>))"

definition dataPeek :: "'o heapData \<Rightarrow> 'o option" where
  "dataPeek h =
     (if hdQueue h \<noteq> [] then map_option hiObj (mget (hdItems h) (hd (hdQueue h))) else None)"

section \<open>Model: container/heap on data\<close>

function goUp :: "('o \<Rightarrow> 'o \<Rightarrow> bool) \<Rightarrow> 'o heapData \<Rightarrow> nat \<Rightarrow> 'o heapData" where
  "goUp lessFn h j =
     (if parent j = j \<or> \<not> dataLess lessFn h j (parent j) then h
      else goUp lessFn (dataSwap (parent j) j h) (parent j))"
  by auto
termination
  by (relation "measure (\<lambda>(_, _, j). j)") auto

declare goUp.simps [simp del]

definition dataMinChild :: "('o \<Rightarrow> 'o \<Rightarrow> bool) \<Rightarrow> 'o heapData \<Rightarrow> nat \<Rightarrow> nat \<Rightarrow> nat" where
  "dataMinChild lessFn h i n =
     (let j1 = 2 * i + 1; j2 = j1 + 1 in if j2 < n \<and> dataLess lessFn h j2 j1 then j2 else j1)"

function goDown :: "('o \<Rightarrow> 'o \<Rightarrow> bool) \<Rightarrow> 'o heapData \<Rightarrow> nat \<Rightarrow> nat \<Rightarrow> 'o heapData \<times> nat" where
  "goDown lessFn h i n =
     (if n \<le> 2 * i + 1 \<or> \<not> dataLess lessFn h (dataMinChild lessFn h i n) i then (h, i)
      else goDown lessFn (dataSwap i (dataMinChild lessFn h i n) h) (dataMinChild lessFn h i n) n)"
  by auto
termination
  by (relation "measure (\<lambda>(_, _, i, n). n - i)") (auto simp: dataMinChild_def Let_def split: if_splits)

declare goDown.simps [simp del]

definition goPush :: "('o \<Rightarrow> 'o \<Rightarrow> bool) \<Rightarrow> string \<Rightarrow> 'o \<Rightarrow> 'o heapData \<Rightarrow> 'o heapData" where
  "goPush lessFn key obj h = (let h = dataPush key obj h in goUp lessFn h (length (hdQueue h) - 1))"

definition goPop :: "('o \<Rightarrow> 'o \<Rightarrow> bool) \<Rightarrow> 'o heapData \<Rightarrow> 'o option \<times> 'o heapData" where
  "goPop lessFn h =
     (let n = length (hdQueue h) - 1; (h, _) = goDown lessFn (dataSwap 0 n h) 0 n in dataPop h)"

definition goFix :: "('o \<Rightarrow> 'o \<Rightarrow> bool) \<Rightarrow> nat \<Rightarrow> 'o heapData \<Rightarrow> 'o heapData" where
  "goFix lessFn i h =
     (let (h', i') = goDown lessFn h i (length (hdQueue h)) in if i < i' then h' else goUp lessFn h' i)"

definition goRemove :: "('o \<Rightarrow> 'o \<Rightarrow> bool) \<Rightarrow> nat \<Rightarrow> 'o heapData \<Rightarrow> 'o option \<times> 'o heapData" where
  "goRemove lessFn i h =
     (let n = length (hdQueue h) - 1 in
      dataPop (if n \<noteq> i then
                 (let (h', i') = goDown lessFn (dataSwap i n h) i n in if i < i' then h' else goUp lessFn h' i)
               else h))"

section \<open>Model: Heap\<close>

record 'o Heap =
  heapDat :: "'o heapData"
  metricRecorder :: "int option"

datatype heapErr = HeapKeyErr | HeapNotFound | HeapRemoved | HeapPanicIndex

type_synonym 'o keyFunc = "'o \<Rightarrow> string option"

definition NewWithRecorder :: "int option \<Rightarrow> 'o Heap" where
  "NewWithRecorder rec = \<lparr>heapDat = \<lparr>hdItems = [], hdQueue = []\<rparr>, metricRecorder = rec\<rparr>"

definition heapAdd :: "('o \<Rightarrow> 'o \<Rightarrow> bool) \<Rightarrow> 'o keyFunc \<Rightarrow> 'o \<Rightarrow> 'o Heap \<Rightarrow> 'o Heap \<times> heapErr option" where
  "heapAdd lessFn keyFn obj h =
     (case keyFn obj of
        None \<Rightarrow> (h, Some HeapKeyErr)
      | Some key \<Rightarrow>
          (case mget (hdItems (heapDat h)) key of
             Some item \<Rightarrow>
               (h\<lparr>heapDat := goFix lessFn (hiIndex item)
                   ((heapDat h)\<lparr>hdItems := mput key (item\<lparr>hiObj := obj\<rparr>) (hdItems (heapDat h))\<rparr>)\<rparr>, None)
           | None \<Rightarrow>
               (h\<lparr>heapDat := goPush lessFn key obj (heapDat h),
                  metricRecorder := map_option (\<lambda>n. n + 1) (metricRecorder h)\<rparr>, None)))"

definition heapAddIfNotPresent :: "('o \<Rightarrow> 'o \<Rightarrow> bool) \<Rightarrow> 'o keyFunc \<Rightarrow> 'o \<Rightarrow> 'o Heap \<Rightarrow> 'o Heap \<times> heapErr option" where
  "heapAddIfNotPresent lessFn keyFn obj h =
     (case keyFn obj of
        None \<Rightarrow> (h, Some HeapKeyErr)
      | Some key \<Rightarrow>
          (case mget (hdItems (heapDat h)) key of
             Some _ \<Rightarrow> (h, None)
           | None \<Rightarrow>
               (h\<lparr>heapDat := goPush lessFn key obj (heapDat h),
                  metricRecorder := map_option (\<lambda>n. n + 1) (metricRecorder h)\<rparr>, None)))"

definition heapUpdate :: "('o \<Rightarrow> 'o \<Rightarrow> bool) \<Rightarrow> 'o keyFunc \<Rightarrow> 'o \<Rightarrow> 'o Heap \<Rightarrow> 'o Heap \<times> heapErr option" where
  "heapUpdate = heapAdd"

definition heapDelete :: "('o \<Rightarrow> 'o \<Rightarrow> bool) \<Rightarrow> 'o keyFunc \<Rightarrow> 'o \<Rightarrow> 'o Heap \<Rightarrow> 'o Heap \<times> heapErr option" where
  "heapDelete lessFn keyFn obj h =
     (case keyFn obj of
        None \<Rightarrow> (h, Some HeapKeyErr)
      | Some key \<Rightarrow>
          (case mget (hdItems (heapDat h)) key of
             Some item \<Rightarrow>
               (h\<lparr>heapDat := snd (goRemove lessFn (hiIndex item) (heapDat h)),
                  metricRecorder := map_option (\<lambda>n. n - 1) (metricRecorder h)\<rparr>, None)
           | None \<Rightarrow> (h, Some HeapNotFound)))"

definition heapPeek :: "'o Heap \<Rightarrow> 'o option" where
  "heapPeek h = dataPeek (heapDat h)"

text \<open>Popping an empty heap swaps index 0 with index -1 and panics.\<close>

definition heapPop :: "('o \<Rightarrow> 'o \<Rightarrow> bool) \<Rightarrow> 'o Heap \<Rightarrow> (heapErr + 'o) \<times> 'o Heap" where
  "heapPop lessFn h =
     (if hdQueue (heapDat h) = [] then (Inl HeapPanicIndex, h)
      else (case goPop lessFn (heapDat h) of
              (Some obj, d) \<Rightarrow>
                (Inr obj, h\<lparr>heapDat := d, metricRecorder := map_option (\<lambda>n. n - 1) (metricRecorder h)\<rparr>)
            | (None, d) \<Rightarrow> (Inl HeapRemoved, h\<lparr>heapDat := d\<rparr>)))"

definition heapGetByKey :: "string \<Rightarrow> 'o Heap \<Rightarrow> 'o option" where
  "heapGetByKey key h = map_option hiObj (mget (hdItems (heapDat h)) key)"

definition heapGet :: "'o keyFunc \<Rightarrow> 'o \<Rightarrow> 'o Heap \<Rightarrow> heapErr + 'o option" where
  "heapGet keyFn obj h =
     (case keyFn obj of None \<Rightarrow> Inl HeapKeyErr | Some key \<Rightarrow> Inr (heapGetByKey key h))"

definition heapList :: "'o Heap \<Rightarrow> 'o list" where
  "heapList h = map (\<lambda>(_, item). hiObj item) (hdItems (heapDat h))"

definition heapLen :: "'o Heap \<Rightarrow> nat" where
  "heapLen h = length (hdQueue (heapDat h))"

section \<open>Abstraction and invariant\<close>

definition absSeq :: "'o heapData \<Rightarrow> (string \<times> 'o) list" where
  "absSeq d = map (\<lambda>k. (k, hiObj (the (mget (hdItems d) k)))) (hdQueue d)"

definition lessKV :: "('o \<Rightarrow> 'o \<Rightarrow> bool) \<Rightarrow> string \<times> 'o \<Rightarrow> string \<times> 'o \<Rightarrow> bool" where
  "lessKV lessFn a b = lessFn (snd a) (snd b)"

definition dataOk :: "'o heapData \<Rightarrow> bool" where
  "dataOk d \<longleftrightarrow> gomap_wf (hdItems d) \<and> distinct (hdQueue d) \<and> mkeys (hdItems d) = set (hdQueue d) \<and>
     (\<forall>i < length (hdQueue d). map_option hiIndex (mget (hdItems d) (hdQueue d ! i)) = Some i)"

definition contents :: "'o Heap \<Rightarrow> string \<Rightarrow> 'o option" where
  "contents h key = map_option hiObj (mget (hdItems (heapDat h)) key)"

definition heapInv :: "('o \<Rightarrow> 'o \<Rightarrow> bool) \<Rightarrow> 'o keyFunc \<Rightarrow> 'o Heap \<Rightarrow> bool" where
  "heapInv lessFn keyFn h \<longleftrightarrow>
     dataOk (heapDat h) \<and> heapOrdered (lessKV lessFn) (absSeq (heapDat h)) (length (hdQueue (heapDat h))) \<and>
     (\<forall>(k, obj) \<in> set (absSeq (heapDat h)). keyFn obj = Some k) \<and>
     (case metricRecorder h of Some n \<Rightarrow> n = int (heapLen h) | None \<Rightarrow> True)"

section \<open>The data layer refines the sequence\<close>

lemma length_absSeq [simp]: "length (absSeq d) = length (hdQueue d)"
  by (simp add: absSeq_def)

lemma absSeq_Nil_iff [simp]: "absSeq d = [] \<longleftrightarrow> hdQueue d = []"
  by (simp add: absSeq_def)

lemma dataOk_item:
  assumes "dataOk d" and "i < length (hdQueue d)"
  obtains item where "mget (hdItems d) (hdQueue d ! i) = Some item" and "hiIndex item = i"
    and "absSeq d ! i = (hdQueue d ! i, hiObj item)"
proof -
  obtain item where item: "mget (hdItems d) (hdQueue d ! i) = Some item" "hiIndex item = i"
    using assms by (fastforce simp: dataOk_def)
  moreover have "absSeq d ! i = (hdQueue d ! i, hiObj item)" using assms(2) item(1) by (simp add: absSeq_def)
  ultimately show thesis by (rule that)
qed

lemma dataOk_index:
  assumes "dataOk d" and "mget (hdItems d) k = Some item"
  shows "hiIndex item < length (hdQueue d) \<and> hdQueue d ! hiIndex item = k"
proof -
  have "k \<in> set (hdQueue d)" using assms by (auto simp: dataOk_def mkeys_iff)
  then obtain i where i: "i < length (hdQueue d)" "hdQueue d ! i = k" by (auto simp: in_set_conv_nth)
  with dataOk_item [OF assms(1) i(1)] assms(2) show ?thesis by auto
qed

lemma absSeq_mem:
  assumes "dataOk d"
  shows "(k, obj) \<in> set (absSeq d) \<longleftrightarrow> map_option hiObj (mget (hdItems d) k) = Some obj"
proof -
  have "k \<in> set (hdQueue d) \<longleftrightarrow> mget (hdItems d) k \<noteq> None" using assms by (auto simp: dataOk_def mkeys_iff)
  then show ?thesis by (auto simp: absSeq_def)
qed

lemma dataLess_abs:
  assumes "dataOk d" and "i < length (hdQueue d)" and "j < length (hdQueue d)"
  shows "dataLess lessFn d i j \<longleftrightarrow> lessKV lessFn (absSeq d ! i) (absSeq d ! j)"
proof -
  obtain a where a: "mget (hdItems d) (hdQueue d ! i) = Some a" "absSeq d ! i = (hdQueue d ! i, hiObj a)"
    using dataOk_item [OF assms(1,2)] by metis
  obtain b where b: "mget (hdItems d) (hdQueue d ! j) = Some b" "absSeq d ! j = (hdQueue d ! j, hiObj b)"
    using dataOk_item [OF assms(1,3)] by metis
  show ?thesis using assms(2,3) by (simp add: dataLess_def lessKV_def a b)
qed

lemma mget_setIndex:
  "mget (setIndex k i items) k' =
   (if k = k' then map_option (\<lambda>it. it\<lparr>hiIndex := i\<rparr>) (mget items k') else mget items k')"
  by (auto simp: setIndex_def split: option.splits)

lemma gomap_wf_setIndex [simp]: "gomap_wf items \<Longrightarrow> gomap_wf (setIndex k i items)"
  by (simp add: setIndex_def split: option.splits)

lemma mkeys_setIndex [simp]: "mkeys (setIndex k i items) = mkeys items"
  by (rule set_eqI) (simp add: mkeys_iff mget_setIndex)

lemma map_swap: "i < length xs \<Longrightarrow> j < length xs \<Longrightarrow> map f (swap i j xs) = swap i j (map f xs)"
  by (simp add: swap_def map_update)

lemma dataSwap_abs:
  assumes "i < length (hdQueue d)" and "j < length (hdQueue d)"
  shows "absSeq (dataSwap i j d) = swap i j (absSeq d)"
proof -
  have "hiObj (the (mget (setIndex b j (setIndex a i items)) k)) = hiObj (the (mget items k))"
    for a b k and items :: "(string, 'a heapItem) gomap"
    by (cases "mget items k") (simp_all add: mget_setIndex)
  then show ?thesis
    using assms by (simp add: absSeq_def dataSwap_def Let_def map_swap)
qed

lemma dataSwap_queue [simp]: "hdQueue (dataSwap i j d) = swap i j (hdQueue d)"
  by (simp add: dataSwap_def Let_def)

lemma dataSwap_ok:
  assumes ok: "dataOk d" and i: "i < length (hdQueue d)" and j: "j < length (hdQueue d)"
  shows "dataOk (dataSwap i j d)"
proof -
  let ?q = "swap i j (hdQueue d)" and ?it = "hdItems (dataSwap i j d)"
  have ms: "mset ?q = mset (hdQueue d)" using i j by simp
  have q: "distinct ?q" "set ?q = set (hdQueue d)"
    using ok mset_eq_imp_distinct_iff [OF ms] mset_eq_setD [OF ms] by (simp_all add: dataOk_def)
  have keys: "mkeys ?it = mkeys (hdItems d)"
    by (simp add: dataSwap_def Let_def)
  have "map_option hiIndex (mget ?it (?q ! m)) = Some m" if m: "m < length ?q" for m
  proof -
    have mem: "mget (hdItems d) (?q ! m) \<noteq> None"
      using m q(2) ok nth_mem [OF m] by (auto simp: dataOk_def mkeys_iff)
    consider "m = j" | "m = i" "m \<noteq> j" | "m \<noteq> i" "m \<noteq> j" by blast
    then show ?thesis
    proof cases
      case 3
      then have "?q ! m = hdQueue d ! m" using m i j by (simp add: nth_swap)
      moreover have "?q ! m \<noteq> ?q ! i" "?q ! m \<noteq> ?q ! j" using 3 m i j q(1) by (simp_all add: nth_eq_iff_index_eq)
      ultimately show ?thesis using ok m by (simp add: dataOk_def dataSwap_def Let_def mget_setIndex)
    next
      case 2
      then have "?q ! m \<noteq> ?q ! j" using m j q(1) by (simp add: nth_eq_iff_index_eq)
      with 2 mem show ?thesis by (auto simp: dataSwap_def Let_def mget_setIndex)
    qed (use mem in \<open>auto simp: dataSwap_def Let_def mget_setIndex\<close>)
  qed
  moreover have "gomap_wf ?it" using ok by (simp add: dataOk_def dataSwap_def Let_def)
  ultimately show ?thesis using ok q keys by (simp add: dataOk_def)
qed

lemmas dataSwap_simps = dataSwap_ok dataSwap_abs dataSwap_queue

lemma goUp_abs:
  assumes "dataOk d" and "j < length (hdQueue d)"
  shows "dataOk (goUp lessFn d j) \<and> absSeq (goUp lessFn d j) = listUp (lessKV lessFn) (absSeq d) j \<and>
    length (hdQueue (goUp lessFn d j)) = length (hdQueue d)"
  using assms
proof (induction j arbitrary: d rule: less_induct)
  case (less j)
  show ?case
  proof (cases "parent j = j \<or> \<not> dataLess lessFn d j (parent j)")
    case True
    then have "goUp lessFn d j = d" by (subst goUp.simps) simp
    moreover have "listUp (lessKV lessFn) (absSeq d) j = absSeq d"
      using True less.prems dataLess_abs [of d j "parent j" lessFn] by (subst listUp.simps) auto
    ultimately show ?thesis using less.prems by simp
  next
    case False
    let ?d = "dataSwap (parent j) j d"
    have p: "parent j < j" using False parent_less [of j] by (cases "j = 0") auto
    then have IH: "dataOk (goUp lessFn ?d (parent j)) \<and>
        absSeq (goUp lessFn ?d (parent j)) = listUp (lessKV lessFn) (absSeq ?d) (parent j) \<and>
        length (hdQueue (goUp lessFn ?d (parent j))) = length (hdQueue ?d)"
      using less.prems by (intro less.IH) (simp_all add: dataSwap_ok)
    have "goUp lessFn d j = goUp lessFn ?d (parent j)" using False by (subst goUp.simps) simp
    moreover have "listUp (lessKV lessFn) (absSeq d) j = listUp (lessKV lessFn) (swap (parent j) j (absSeq d)) (parent j)"
      using False less.prems p dataLess_abs [of d j "parent j" lessFn] by (subst listUp.simps) auto
    ultimately show ?thesis using IH less.prems p by (simp add: dataSwap_abs)
  qed
qed

lemma dataMinChild_abs:
  assumes "dataOk d" and "n \<le> length (hdQueue d)" and "\<not> n \<le> 2 * i + 1"
  shows "dataMinChild lessFn d i n = minChild (lessKV lessFn) (absSeq d) i n"
  using assms dataLess_abs [of d "2 * i + 2" "2 * i + 1" lessFn]
  by (auto simp: dataMinChild_def minChild_def Let_def)

lemma goDown_abs:
  assumes "dataOk d" and "n \<le> length (hdQueue d)" and "i < length (hdQueue d)"
  shows "dataOk (fst (goDown lessFn d i n)) \<and>
    absSeq (fst (goDown lessFn d i n)) = fst (listDown (lessKV lessFn) (absSeq d) i n) \<and>
    snd (goDown lessFn d i n) = snd (listDown (lessKV lessFn) (absSeq d) i n) \<and>
    length (hdQueue (fst (goDown lessFn d i n))) = length (hdQueue d)"
  using assms
proof (induction "n - i" arbitrary: d i rule: less_induct)
  case less
  let ?c = "minChild (lessKV lessFn) (absSeq d) i n"
  show ?case
  proof (cases "n \<le> 2 * i + 1")
    case True
    then have "goDown lessFn d i n = (d, i)" by (subst goDown.simps) simp
    with True less.prems show ?thesis by (simp add: listDown_stop)
  next
    case False
    note c = minChild_bounds [OF False, of "lessKV lessFn" "absSeq d"]
    have mc: "dataMinChild lessFn d i n = ?c" using less.prems False by (intro dataMinChild_abs)
    have lt: "dataLess lessFn d ?c i \<longleftrightarrow> lessKV lessFn (absSeq d ! ?c) (absSeq d ! i)"
      using less.prems c by (intro dataLess_abs) auto
    show ?thesis
    proof (cases "dataLess lessFn d ?c i")
      case True
      have "goDown lessFn d i n = goDown lessFn (dataSwap i ?c d) ?c n"
        using False True mc by (subst goDown.simps) simp
      moreover have "listDown (lessKV lessFn) (absSeq d) i n = listDown (lessKV lessFn) (absSeq (dataSwap i ?c d)) ?c n"
        using False True lt less.prems c by (simp add: listDown_move dataSwap_abs)
      ultimately show ?thesis
        using less.hyps [of ?c "dataSwap i ?c d"] less.prems c by (simp add: dataSwap_ok)
    next
      case stop: False
      then have "goDown lessFn d i n = (d, i)" using mc by (subst goDown.simps) simp
      with stop lt less.prems show ?thesis by (simp add: listDown_stop)
    qed
  qed
qed

lemma dataPop_abs:
  assumes ok: "dataOk d" and ne: "hdQueue d \<noteq> []"
  shows "fst (dataPop d) = Some (snd (last (absSeq d)))"
    and "dataOk (snd (dataPop d))" and "absSeq (snd (dataPop d)) = butlast (absSeq d)"
proof -
  let ?n = "length (hdQueue d) - 1" and ?k = "last (hdQueue d)"
  have n: "?n < length (hdQueue d)" using ne by simp
  then obtain item where item: "mget (hdItems d) ?k = Some item" "hiIndex item = ?n"
    using dataOk_item [OF ok n] ne by (metis last_conv_nth)
  have pop: "dataPop d = (Some (hiObj item), \<lparr>hdItems = mdel ?k (hdItems d), hdQueue = butlast (hdQueue d)\<rparr>)"
    using item by (simp add: dataPop_def)
  show "fst (dataPop d) = Some (snd (last (absSeq d)))"
    using ne item by (simp add: pop absSeq_def last_map)
  have q: "hdQueue d = butlast (hdQueue d) @ [?k]" using ne by simp
  have k: "?k \<notin> set (butlast (hdQueue d))" "distinct (butlast (hdQueue d))"
    using ok q by (metis dataOk_def distinct_append distinct.simps(2) not_distinct_conv_prefix disjoint_insert(1) inf_bot_right list.set(1,2))+
  have nth: "butlast (hdQueue d) ! i = hdQueue d ! i" "hdQueue d ! i \<noteq> ?k" if "i < length (butlast (hdQueue d))" for i
    using that k by (auto simp: nth_butlast in_set_conv_nth)
  have set: "set (hdQueue d) = insert ?k (set (butlast (hdQueue d)))" by (subst q) simp
  have "map_option hiIndex (mget (mdel ?k (hdItems d)) (butlast (hdQueue d) ! i)) = Some i"
    if "i < length (butlast (hdQueue d))" for i
    using nth [OF that] that ok by (simp add: dataOk_def)
  then show "dataOk (snd (dataPop d))"
    using ok k set by (simp add: dataOk_def pop)
  show "absSeq (snd (dataPop d)) = butlast (absSeq d)"
    using k by (auto simp: pop absSeq_def map_butlast [symmetric])
qed

lemma dataPush_abs:
  assumes "dataOk d" and "mget (hdItems d) k = None"
  shows "dataOk (dataPush k obj d)" and "absSeq (dataPush k obj d) = absSeq d @ [(k, obj)]"
proof -
  have "k \<notin> mkeys (hdItems d)" using assms(2) by (simp add: mkeys_iff)
  then have k: "k \<notin> set (hdQueue d)" using assms(1) by (simp add: dataOk_def)
  have "map_option hiIndex (mget (hdItems (dataPush k obj d)) (hdQueue (dataPush k obj d) ! i)) = Some i"
    if "i < length (hdQueue (dataPush k obj d))" for i
  proof (cases "i = length (hdQueue d)")
    case False
    with that have "i < length (hdQueue d)" by (simp add: dataPush_def)
    moreover from this have "hdQueue d ! i \<noteq> k" using k by (metis nth_mem)
    ultimately show ?thesis using assms by (simp add: dataPush_def nth_append dataOk_def)
  qed (simp add: dataPush_def)
  then show "dataOk (dataPush k obj d)"
    using assms k by (simp add: dataOk_def dataPush_def)
  show "absSeq (dataPush k obj d) = absSeq d @ [(k, obj)]"
    using k by (auto simp: absSeq_def dataPush_def)
qed

lemma dataSet_abs:
  fixes d :: "'o heapData" and obj :: 'o
  assumes ok: "dataOk d" and item: "mget (hdItems d) k = Some item"
  defines "d' \<equiv> d\<lparr>hdItems := mput k (item\<lparr>hiObj := obj\<rparr>) (hdItems d)\<rparr>"
  shows "dataOk d'" and "absSeq d' = (absSeq d)[hiIndex item := (k, obj)]" and "hdQueue d' = hdQueue d"
proof -
  have i: "hiIndex item < length (hdQueue d)" "hdQueue d ! hiIndex item = k" using dataOk_index [OF ok item] by auto
  have "k \<in> set (hdQueue d)" using i by (metis nth_mem)
  then show "dataOk d'" using ok item by (auto simp: dataOk_def d'_def)
  show "absSeq d' = (absSeq d)[hiIndex item := (k, obj)]"
  proof (rule nth_equalityI)
    fix j assume "j < length (absSeq d')"
    then have j: "j < length (hdQueue d)" by (simp add: d'_def)
    have "hdQueue d ! j = k \<longleftrightarrow> j = hiIndex item" using ok i j by (auto simp: dataOk_def nth_eq_iff_index_eq)
    with j i show "absSeq d' ! j = (absSeq d)[hiIndex item := (k, obj)] ! j"
      by (cases "j = hiIndex item") (simp_all add: absSeq_def d'_def)
  qed (simp add: d'_def)
qed (simp add: d'_def)

lemma contents_eqI:
  assumes "dataOk (heapDat h)" and "\<And>k obj. (k, obj) \<in> set (absSeq (heapDat h)) \<longleftrightarrow> f k = Some obj"
  shows "contents h = f"
proof
  fix k
  have "contents h k = Some obj \<longleftrightarrow> f k = Some obj" for obj
    using assms absSeq_mem [OF assms(1)] by (simp add: contents_def)
  then show "contents h k = f k" by (metis not_None_eq)
qed

lemma contents_mem: "dataOk (heapDat h) \<Longrightarrow> contents h k = Some obj \<longleftrightarrow> (k, obj) \<in> set (absSeq (heapDat h))"
  by (simp add: absSeq_mem contents_def)

lemma distinct_absSeq: "dataOk d \<Longrightarrow> distinct (map fst (absSeq d))"
  by (simp add: absSeq_def dataOk_def comp_def)

section \<open>Interfaces\<close>

text \<open>What the scheduling queue relies on: a finite map with a minimum.\<close>

locale keyed_queue =
  fixes lessFn :: "'o \<Rightarrow> 'o \<Rightarrow> bool" and keyFn :: "'o keyFunc"
    and add delete :: "'o \<Rightarrow> 'h \<Rightarrow> 'h \<times> heapErr option"
    and pop :: "'h \<Rightarrow> (heapErr + 'o) \<times> 'h"
    and get :: "string \<Rightarrow> 'h \<Rightarrow> 'o option"
    and inv :: "'h \<Rightarrow> bool"
  assumes add_ok: "inv h \<Longrightarrow> keyFn obj = Some k \<Longrightarrow>
      \<exists>h'. add obj h = (h', None) \<and> inv h' \<and> (\<lambda>k. get k h') = (\<lambda>k. get k h)(k \<mapsto> obj)"
    and delete_ok: "inv h \<Longrightarrow> keyFn obj = Some k \<Longrightarrow> get k h \<noteq> None \<Longrightarrow>
      \<exists>h'. delete obj h = (h', None) \<and> inv h' \<and> (\<lambda>k. get k h') = (\<lambda>k. get k h)(k := None)"
    and delete_absent: "inv h \<Longrightarrow> keyFn obj = Some k \<Longrightarrow> get k h = None \<Longrightarrow> delete obj h = (h, Some HeapNotFound)"
    and pop_ok: "inv h \<Longrightarrow> get k h \<noteq> None \<Longrightarrow>
      \<exists>k' obj h'. pop h = (Inr obj, h') \<and> inv h' \<and> get k' h = Some obj \<and> keyFn obj = Some k' \<and>
        (\<lambda>k. get k h') = (\<lambda>k. get k h)(k' := None) \<and>
        (\<forall>k'' obj'. get k'' h = Some obj' \<longrightarrow> \<not> lessFn obj' obj)"
    and get_key: "inv h \<Longrightarrow> get k h = Some obj \<Longrightarrow> keyFn obj = Some k"

locale keyed_heap = weak_order lessFn for lessFn :: "'o \<Rightarrow> 'o \<Rightarrow> bool" +
  fixes keyFn :: "'o keyFunc"

sublocale keyed_heap \<subseteq> kv: weak_order "lessKV lessFn"
  by unfold_locales (unfold lessKV_def, erule asym, erule (1) neg_trans)

context keyed_heap
begin

text \<open>Rebuilding the invariant from the sequence: the recorder follows the length.\<close>

lemma heapInvI:
  assumes "dataOk (heapDat h)" and "heapOrdered (lessKV lessFn) (absSeq (heapDat h)) (length (hdQueue (heapDat h)))"
    and "\<And>k obj. (k, obj) \<in> set (absSeq (heapDat h)) \<Longrightarrow> keyFn obj = Some k"
    and "\<And>n. metricRecorder h = Some n \<Longrightarrow> n = int (length (hdQueue (heapDat h)))"
  shows "heapInv lessFn keyFn h"
  using assms by (auto simp: heapInv_def heapLen_def split: option.splits)

lemma heapInvD:
  assumes "heapInv lessFn keyFn h"
  shows "dataOk (heapDat h)" and "heapOrdered (lessKV lessFn) (absSeq (heapDat h)) (length (absSeq (heapDat h)))"
    and "(k, obj) \<in> set (absSeq (heapDat h)) \<Longrightarrow> keyFn obj = Some k"
    and "metricRecorder h = Some n \<Longrightarrow> n = int (length (hdQueue (heapDat h)))"
  using assms by (auto simp: heapInv_def heapLen_def)

lemma push_spec:
  assumes inv: "heapInv lessFn keyFn h" and k: "keyFn obj = Some k" "mget (hdItems (heapDat h)) k = None"
  defines "h' \<equiv> h\<lparr>heapDat := goPush lessFn k obj (heapDat h),
                  metricRecorder := map_option (\<lambda>n. n + 1) (metricRecorder h)\<rparr>"
  shows "heapInv lessFn keyFn h'" and "contents h' = (contents h)(k \<mapsto> obj)"
proof -
  let ?d = "heapDat h" and ?p = "dataPush k obj (heapDat h)"
  have ok: "dataOk ?d" and ord: "heapOrdered (lessKV lessFn) (absSeq ?d) (length (absSeq ?d))"
    using heapInvD [OF inv] by blast+
  have len: "length (hdQueue ?p) = Suc (length (hdQueue ?d))" by (simp add: dataPush_def)
  note p = dataPush_abs [OF ok k(2), of obj]
  note up = goUp_abs [OF p(1), of "length (hdQueue ?d)" lessFn]
  have d': "heapDat h' = goUp lessFn ?p (length (hdQueue ?d))" by (simp add: h'_def goPush_def Let_def len)
  have ok': "dataOk (heapDat h')" and len': "length (hdQueue (heapDat h')) = Suc (length (hdQueue ?d))"
    and abs: "absSeq (heapDat h') = listUp (lessKV lessFn) (absSeq ?d @ [(k, obj)]) (length (hdQueue ?d))"
    using up len by (simp_all add: d' p(2))
  have set: "set (absSeq (heapDat h')) = insert (k, obj) (set (absSeq ?d))"
    using mset_eq_setD [OF listUp_mset [of "length (hdQueue ?d)" "absSeq ?d @ [(k, obj)]" "lessKV lessFn"]]
    by (simp add: abs)
  have ord': "heapOrdered (lessKV lessFn) (absSeq (heapDat h')) (length (hdQueue (heapDat h')))"
    using kv.listUp_ordered [OF _ _ kv.upReady_append [OF ord]] by (simp add: abs len')
  have rec: "metricRecorder h' = map_option (\<lambda>n. n + 1) (metricRecorder h)" by (simp add: h'_def)
  show "heapInv lessFn keyFn h'"
    by (rule heapInvI [OF ok' ord']) (use k(1) set len' rec heapInvD(3,4) [OF inv] in auto)
  have "contents h k = None" using k(2) by (simp add: contents_def)
  then have "(k, o') \<notin> set (absSeq ?d)" for o' using contents_mem [OF ok, of k o'] by simp
  then show "contents h' = (contents h)(k \<mapsto> obj)"
    using ok' by (intro contents_eqI) (auto simp: set contents_mem [OF ok])
qed

lemma fix_spec:
  assumes inv: "heapInv lessFn keyFn h" and k: "keyFn obj = Some k" "mget (hdItems (heapDat h)) k = Some item"
  defines "s \<equiv> (heapDat h)\<lparr>hdItems := mput k (item\<lparr>hiObj := obj\<rparr>) (hdItems (heapDat h))\<rparr>"
  shows "heapInv lessFn keyFn (h\<lparr>heapDat := goFix lessFn (hiIndex item) s\<rparr>)"
    and "contents (h\<lparr>heapDat := goFix lessFn (hiIndex item) s\<rparr>) = (contents h)(k \<mapsto> obj)"
proof -
  let ?d = "heapDat h" and ?i = "hiIndex item" and ?n = "length (hdQueue (heapDat h))"
  let ?e = "fst (goDown lessFn s ?i ?n)" and ?j = "snd (goDown lessFn s ?i ?n)" and ?d' = "goFix lessFn ?i s"
  note ok = heapInvD(1) [OF inv] and ord = heapInvD(2) [OF inv]
  have i: "?i < ?n" "hdQueue ?d ! ?i = k" using dataOk_index [OF ok k(2)] by auto
  note s = dataSet_abs [OF ok k(2), of obj, folded s_def]
  have e: "dataOk ?e" "length (hdQueue ?e) = ?n"
      "listDown (lessKV lessFn) ((absSeq ?d)[?i := (k, obj)]) ?i (length (absSeq ?d)) = (absSeq ?e, ?j)"
    using goDown_abs [OF s(1), of ?n ?i lessFn] i(1) by (simp_all add: s(2,3) prod_eq_iff)
  have d': "?d' = (if ?i < ?j then ?e else goUp lessFn ?e ?i)" by (simp add: goFix_def s(3) split_beta)
  have ok': "dataOk ?d'" and len': "length (hdQueue ?d') = ?n"
    and abs: "absSeq ?d' = (if ?i < ?j then absSeq ?e else listUp (lessKV lessFn) (absSeq ?e) ?i)"
    using e goUp_abs [of ?e ?i lessFn] i(1) by (simp_all add: d')
  have ord': "heapOrdered (lessKV lessFn) (absSeq ?d') ?n" and ms: "mset (absSeq ?d') = mset (absSeq s)"
    using kv.listFix_spec [OF ord _ e(3)] i(1) by (simp_all add: abs s(2))
  have set: "set (absSeq ?d') = set (absSeq s)" using ms by (rule mset_eq_setD)
  have mem: "(k', o') \<in> set (absSeq ?d') \<longleftrightarrow> ((contents h)(k \<mapsto> obj)) k' = Some o'" for k' o'
    unfolding set absSeq_mem [OF s(1)] by (simp add: contents_def s_def)
  show "heapInv lessFn keyFn (h\<lparr>heapDat := ?d'\<rparr>)"
  proof (rule heapInvI)
    show "keyFn o' = Some k'" if "(k', o') \<in> set (absSeq (heapDat (h\<lparr>heapDat := ?d'\<rparr>)))" for k' o'
      using that k(1) heapInvD(3) [OF inv] contents_mem [OF ok] by (simp add: mem split: if_splits)
  qed (use heapInvD(4) [OF inv] ok' len' ord' in simp_all)
  show "contents (h\<lparr>heapDat := ?d'\<rparr>) = (contents h)(k \<mapsto> obj)" using ok' mem by (intro contents_eqI) simp_all
qed

text \<open>\<open>heap.Remove\<close>, and \<open>heap.Pop\<close> as the removal of index 0.\<close>

lemma remove_spec:
  assumes inv: "heapInv lessFn keyFn h" and i: "i < length (hdQueue (heapDat h))"
    and at: "absSeq (heapDat h) ! i = (k, obj)"
  defines "h' \<equiv> h\<lparr>heapDat := snd (goRemove lessFn i (heapDat h)),
                  metricRecorder := map_option (\<lambda>n. n - 1) (metricRecorder h)\<rparr>"
  shows "fst (goRemove lessFn i (heapDat h)) = Some obj" and "heapInv lessFn keyFn h'"
    and "contents h' = (contents h)(k := None)"
proof -
  define n where "n = length (hdQueue (heapDat h)) - 1"
  let ?d = "heapDat h"
  have n: "length (hdQueue ?d) = Suc n" using i by (simp add: n_def)
  let ?e = "fst (goDown lessFn (dataSwap i n ?d) i n)" and ?j = "snd (goDown lessFn (dataSwap i n ?d) i n)"
  define z where "z = (if n \<noteq> i then (if i < ?j then ?e else goUp lessFn ?e i) else ?d)"
  note ok = heapInvD(1) [OF inv] and ord = heapInvD(2) [OF inv]
  have rem: "goRemove lessFn i ?d = dataPop z" by (simp add: goRemove_def z_def Let_def split_beta n)
  have z: "dataOk z \<and> length (hdQueue z) = Suc n \<and> heapOrdered (lessKV lessFn) (absSeq z) n \<and>
      last (absSeq z) = (k, obj) \<and> mset (absSeq z) = mset (absSeq ?d)"
  proof (cases "n = i")
    case True
    then have "last (absSeq ?d) = absSeq ?d ! i" using n by (subst last_conv_nth) auto
    with True i ok ord at n show ?thesis by (auto simp: z_def heapOrdered_def)
  next
    case False
    with i have lt: "i < n" by (simp add: n)
    have sw: "dataOk (dataSwap i n ?d)" "absSeq (dataSwap i n ?d) = swap i n (absSeq ?d)"
      using ok i by (auto simp: dataSwap_simps n)
    have e: "dataOk ?e" "length (hdQueue ?e) = Suc n"
        "listDown (lessKV lessFn) (swap i n (absSeq ?d)) i n = (absSeq ?e, ?j)"
      using goDown_abs [OF sw(1), of n i lessFn] i lt by (simp_all add: sw(2) n prod_eq_iff)
    have "dataOk z" "length (hdQueue z) = Suc n"
      "absSeq z = (if i < ?j then absSeq ?e else listUp (lessKV lessFn) (absSeq ?e) i)"
      using e goUp_abs [of ?e i lessFn] lt False by (simp_all add: z_def)
    then show ?thesis using kv.listRemove_spec [OF ord _ lt e(3)] i at by (simp add: n)
  qed
  then have "hdQueue z \<noteq> []" by auto
  note pop = dataPop_abs [OF conjunct1 [OF z] this]
  show "fst (goRemove lessFn i ?d) = Some obj" using pop(1) z by (simp add: rem)
  have ok': "dataOk (heapDat h')" and abs: "absSeq (heapDat h') = butlast (absSeq z)"
    using pop by (simp_all add: h'_def rem)
  have len': "length (hdQueue (heapDat h')) = n" using arg_cong [OF abs, of length] z by simp
  have "absSeq z = absSeq (heapDat h') @ [(k, obj)]"
    using z abs by (metis append_butlast_last_id length_0_conv length_absSeq nat.distinct(1))
  then have ms: "mset (absSeq ?d) = add_mset (k, obj) (mset (absSeq (heapDat h')))"
    using z by (metis mset_append add_mset_add_single mset.simps)
  have "distinct (map fst (absSeq z))" using z distinct_absSeq by blast
  then have k: "(k, o') \<notin> set (absSeq (heapDat h'))" for o'
    using \<open>absSeq z = _\<close> by (auto simp: image_iff)
  have mem: "(k', o') \<in> set (absSeq (heapDat h')) \<longleftrightarrow> ((contents h)(k := None)) k' = Some o'" for k' o'
    using k [of o'] arg_cong [OF ms, of set_mset] by (auto simp: contents_mem [OF ok])
  have ord': "heapOrdered (lessKV lessFn) (absSeq (heapDat h')) n"
    using z kv.heapOrdered_take [of n "absSeq z"] by (simp add: abs butlast_conv_take)
  have rec: "metricRecorder h' = map_option (\<lambda>n. n - 1) (metricRecorder h)" by (simp add: h'_def)
  show "heapInv lessFn keyFn h'"
  proof (rule heapInvI [OF ok'])
    show "keyFn o' = Some k'" if "(k', o') \<in> set (absSeq (heapDat h'))" for k' o'
      using that heapInvD(3) [OF inv] arg_cong [OF ms, of set_mset] by auto
  qed (use heapInvD(4) [OF inv] ord' len' rec n in auto)
  show "contents h' = (contents h)(k := None)" using ok' mem by (intro contents_eqI)
qed

lemma goUp_root: "goUp lessFn d 0 = d"
  by (subst goUp.simps) simp

lemma goPop_remove:
  assumes "dataOk d" and "hdQueue d \<noteq> []"
  shows "goPop lessFn d = goRemove lessFn 0 d"
proof (cases "length (hdQueue d) - 1 = 0")
  case True
  obtain item where item: "mget (hdItems d) (hdQueue d ! 0) = Some item" "hiIndex item = 0"
    using dataOk_item [OF assms(1), of 0] assms(2) by auto
  have "item\<lparr>hiIndex := 0\<rparr> = item" using item(2) by simp
  then have "setIndex (hdQueue d ! 0) 0 (hdItems d) = hdItems d"
    using mput_same [OF item(1)] by (simp add: setIndex_def item(1))
  then have "dataSwap 0 0 d = d" using assms(2) by (simp add: dataSwap_def swap_def Let_def)
  moreover have "goDown lessFn d 0 0 = (d, 0)" by (subst goDown.simps) simp
  ultimately show ?thesis using True by (simp add: goPop_def goRemove_def Let_def)
next
  case False
  then show ?thesis by (simp add: goPop_def goRemove_def Let_def split_beta goUp_root)
qed

lemma heapPop_spec:
  assumes inv: "heapInv lessFn keyFn h" and "contents h k0 \<noteq> None"
  shows "\<exists>k obj h'. heapPop lessFn h = (Inr obj, h') \<and> heapInv lessFn keyFn h' \<and> contents h k = Some obj \<and>
     keyFn obj = Some k \<and> contents h' = (contents h)(k := None) \<and>
     (\<forall>k' obj'. contents h k' = Some obj' \<longrightarrow> \<not> lessFn obj' obj)"
proof -
  let ?d = "heapDat h"
  note ok = heapInvD(1) [OF inv] and ord = heapInvD(2) [OF inv]
  have ne: "hdQueue ?d \<noteq> []" using assms(2) ok by (auto simp: contents_def dataOk_def mkeys_def)
  obtain k obj where at: "absSeq ?d ! 0 = (k, obj)" by fastforce
  have "(k, obj) \<in> set (absSeq ?d)" using at ne nth_mem [of 0 "absSeq ?d"] by simp
  then have mem: "contents h k = Some obj" "keyFn obj = Some k"
    using contents_mem [OF ok] heapInvD(3) [OF inv] by blast+
  have min: "\<not> lessFn obj' obj" if "contents h k' = Some obj'" for k' obj'
  proof -
    obtain j where j: "j < length (absSeq ?d)" "absSeq ?d ! j = (k', obj')"
      using \<open>contents h k' = Some obj'\<close> contents_mem [OF ok] by (auto simp: in_set_conv_nth)
    then show ?thesis using kv.heapOrdered_root [OF ord, of j] at by (simp add: lessKV_def)
  qed
  have "0 < length (hdQueue ?d)" using ne by simp
  note rem = remove_spec [OF inv this at]
  show ?thesis
    using rem mem min ne goPop_remove [OF ok ne]
    by (intro exI [of _ k] exI [of _ obj]) (simp add: heapPop_def split_beta split: prod.split)
qed

lemma heapAdd_spec:
  assumes "heapInv lessFn keyFn h" and "keyFn obj = Some k"
  shows "\<exists>h'. heapAdd lessFn keyFn obj h = (h', None) \<and> heapInv lessFn keyFn h' \<and> contents h' = (contents h)(k \<mapsto> obj)"
  using fix_spec [OF assms] push_spec [OF assms] assms(2)
  by (cases "mget (hdItems (heapDat h)) k") (simp_all add: heapAdd_def)

lemma heapDelete_spec:
  assumes inv: "heapInv lessFn keyFn h" and k: "keyFn obj = Some k" and "contents h k \<noteq> None"
  shows "\<exists>h'. heapDelete lessFn keyFn obj h = (h', None) \<and> heapInv lessFn keyFn h' \<and>
     contents h' = (contents h)(k := None)"
proof -
  obtain item where item: "mget (hdItems (heapDat h)) k = Some item" using assms(3) by (auto simp: contents_def)
  note i = dataOk_index [OF heapInvD(1) [OF inv] item]
  then have "absSeq (heapDat h) ! hiIndex item = (k, hiObj item)" by (simp add: absSeq_def item)
  from remove_spec(2,3) [OF inv _ this] i item k show ?thesis by (simp add: heapDelete_def)
qed

lemma heapDelete_total:
  assumes "heapInv lessFn keyFn h" and "keyFn obj = Some k"
  shows "heapInv lessFn keyFn (fst (heapDelete lessFn keyFn obj h))"
    and "contents (fst (heapDelete lessFn keyFn obj h)) = (contents h)(k := None)"
    and "snd (heapDelete lessFn keyFn obj h) = None \<longleftrightarrow> contents h k \<noteq> None"
proof (atomize (full), cases "contents h k = None")
  case True
  then have "heapDelete lessFn keyFn obj h = (h, Some HeapNotFound)"
    using assms(2) by (simp add: heapDelete_def contents_def)
  moreover have "contents h = (contents h)(k := None)" using True by (simp add: fun_upd_idem)
  ultimately show "heapInv lessFn keyFn (fst (heapDelete lessFn keyFn obj h)) \<and>
      contents (fst (heapDelete lessFn keyFn obj h)) = (contents h)(k := None) \<and>
      (snd (heapDelete lessFn keyFn obj h) = None \<longleftrightarrow> contents h k \<noteq> None)"
    using assms(1) True by simp
next
  case False
  with heapDelete_spec [OF assms False] show "heapInv lessFn keyFn (fst (heapDelete lessFn keyFn obj h)) \<and>
      contents (fst (heapDelete lessFn keyFn obj h)) = (contents h)(k := None) \<and>
      (snd (heapDelete lessFn keyFn obj h) = None \<longleftrightarrow> contents h k \<noteq> None)"
    by auto
qed

lemma heapPop_peek:
  assumes inv: "heapInv lessFn keyFn h" and pop: "heapPop lessFn h = (Inr obj, h')"
  shows "heapPeek h = Some obj"
proof -
  let ?d = "heapDat h"
  have ne: "hdQueue ?d \<noteq> []" using pop by (auto simp: heapPop_def split: if_splits)
  then obtain item where item: "mget (hdItems ?d) (hdQueue ?d ! 0) = Some item"
      "absSeq ?d ! 0 = (hdQueue ?d ! 0, hiObj item)"
    using dataOk_item [OF heapInvD(1) [OF inv], of 0] by auto
  have "fst (goPop lessFn ?d) = Some (hiObj item)"
    using remove_spec(1) [OF inv _ item(2)] ne goPop_remove [OF heapInvD(1) [OF inv] ne] by simp
  then have "obj = hiObj item" using pop ne by (auto simp: heapPop_def split: prod.splits option.splits)
  then show ?thesis using item(1) ne by (simp add: heapPeek_def dataPeek_def hd_conv_nth)
qed

lemma heapLen_0_iff:
  assumes "heapInv lessFn keyFn h"
  shows "heapLen h = 0 \<longleftrightarrow> contents h = (\<lambda>_. None)"
proof -
  have "mkeys (hdItems (heapDat h)) = set (hdQueue (heapDat h))"
    using heapInvD(1) [OF assms] by (simp add: dataOk_def)
  then have "heapLen h = 0 \<longleftrightarrow> mkeys (hdItems (heapDat h)) = {}" unfolding heapLen_def by simp
  also have "\<dots> \<longleftrightarrow> (\<forall>k. k \<notin> mkeys (hdItems (heapDat h)))" by blast
  also have "\<dots> \<longleftrightarrow> (\<forall>k. contents h k = None)" unfolding mkeys_iff contents_def by simp
  finally show ?thesis by (simp add: fun_eq_iff)
qed

end

lemma heapPeek_None_iff: "dataOk (heapDat h) \<Longrightarrow> heapPeek h = None \<longleftrightarrow> heapLen h = 0"
  using dataOk_item [of "heapDat h" 0] by (auto simp: heapPeek_def dataPeek_def heapLen_def hd_conv_nth)

lemma heapGet_contents: "heapGet keyFn obj h = (case keyFn obj of None \<Rightarrow> Inl HeapKeyErr | Some k \<Rightarrow> Inr (contents h k))"
  by (simp add: heapGet_def heapGetByKey_def contents_def split: option.splits)

sublocale keyed_heap \<subseteq> keyed_queue lessFn keyFn "heapAdd lessFn keyFn" "heapDelete lessFn keyFn" "heapPop lessFn"
    heapGetByKey "heapInv lessFn keyFn"
proof
  have get: "(\<lambda>k. heapGetByKey k h) = contents h" "heapGetByKey k h = contents h k" for h :: "'a Heap" and k
    by (auto simp: heapGetByKey_def contents_def)
  show "\<exists>h'. heapAdd lessFn keyFn obj h = (h', None) \<and> heapInv lessFn keyFn h' \<and>
      (\<lambda>k. heapGetByKey k h') = (\<lambda>k. heapGetByKey k h)(k \<mapsto> obj)"
    if "heapInv lessFn keyFn h" "keyFn obj = Some k" for h obj k
    using heapAdd_spec [OF that] by (simp add: get)
  show "\<exists>h'. heapDelete lessFn keyFn obj h = (h', None) \<and> heapInv lessFn keyFn h' \<and>
      (\<lambda>k. heapGetByKey k h') = (\<lambda>k. heapGetByKey k h)(k := None)"
    if "heapInv lessFn keyFn h" "keyFn obj = Some k" "heapGetByKey k h \<noteq> None" for h obj k
    using heapDelete_spec [OF that(1,2)] that(3) by (simp add: get)
  show "heapDelete lessFn keyFn obj h = (h, Some HeapNotFound)"
    if "heapInv lessFn keyFn h" "keyFn obj = Some k" "heapGetByKey k h = None" for h obj k
    using that by (simp add: heapDelete_def heapGetByKey_def)
  show "\<exists>k' obj h'. heapPop lessFn h = (Inr obj, h') \<and> heapInv lessFn keyFn h' \<and> heapGetByKey k' h = Some obj \<and>
      keyFn obj = Some k' \<and> (\<lambda>k. heapGetByKey k h') = (\<lambda>k. heapGetByKey k h)(k' := None) \<and>
      (\<forall>k'' obj'. heapGetByKey k'' h = Some obj' \<longrightarrow> \<not> lessFn obj' obj)"
    if "heapInv lessFn keyFn h" "heapGetByKey k h \<noteq> None" for h k
    using heapPop_spec [OF that(1)] that(2) by (simp add: get)
  show "keyFn obj = Some k" if "heapInv lessFn keyFn h" "heapGetByKey k h = Some obj" for h obj k
    using that heapInvD(1,3) [OF that(1)] contents_mem [of h] by (simp add: get)
qed

lemma heapInv_new: "rec = None \<or> rec = Some 0 \<Longrightarrow> heapInv lessFn keyFn (NewWithRecorder rec)"
  by (auto simp: heapInv_def NewWithRecorder_def dataOk_def absSeq_def heapOrdered_def heapLen_def)

lemma contents_new [simp]: "contents (NewWithRecorder rec) = (\<lambda>_. None)"
  by (auto simp: contents_def NewWithRecorder_def)

lemma contents_get: "heapGetByKey k h = contents h k"
  by (simp add: heapGetByKey_def contents_def)

section \<open>Properties\<close>

text \<open>C34: popping a heap that is not empty returns a least object under the comparison, removes exactly that
  object, and keeps the invariant (the positions recorded in the items agree with the queue, keys are
  unique, the heap order holds, the gauge equals the length).\<close>

theorem heapPop_least:
  assumes "weak_order lessFn" and "heapInv lessFn keyFn h" and "contents h k0 \<noteq> None"
  shows "\<exists>k obj h'. heapPop lessFn h = (Inr obj, h') \<and> heapInv lessFn keyFn h' \<and> contents h k = Some obj \<and>
     contents h' = (contents h)(k := None) \<and> (\<forall>k' obj'. contents h k' = Some obj' \<longrightarrow> \<not> lessFn obj' obj)"
  using keyed_heap.heapPop_spec [OF keyed_heap.intro [OF assms(1)] assms(2,3)] by metis

theorem heapPop_least_witness:
  "\<exists>h'. heapPop (<) (fst (heapAdd (<) (\<lambda>n. Some (replicate n CHR ''a'')) (1 :: nat)
     (fst (heapAdd (<) (\<lambda>n. Some (replicate n CHR ''a'')) 2 (NewWithRecorder (Some 0)))))) = (Inr 1, h')"
proof -
  let ?key = "\<lambda>n :: nat. Some (replicate n CHR ''a'')"
  let ?h2 = "fst (heapAdd (<) ?key 2 (NewWithRecorder (Some 0)))" and ?less = "(<) :: nat \<Rightarrow> nat \<Rightarrow> bool"
  let ?h1 = "fst (heapAdd (<) ?key 1 ?h2)"
  have wo: "weak_order ?less" by unfold_locales auto
  note add = keyed_heap.heapAdd_spec [OF keyed_heap.intro [OF wo], of ?key]
  have 2: "heapInv ?less ?key ?h2 \<and> contents ?h2 = [''aa'' \<mapsto> 2]"
    using add [OF heapInv_new [of "Some 0"], of 2 "''aa''"] by (auto simp: numeral_2_eq_2)
  have 1: "heapInv ?less ?key ?h1 \<and> contents ?h1 = [''aa'' \<mapsto> 2, ''a'' \<mapsto> 1]"
    using add [of ?h2 1 "''a''"] 2 by auto
  from heapPop_least [OF wo, of ?key ?h1 "''a''"] 1 obtain k obj h' where
    p: "heapPop ?less ?h1 = (Inr obj, h')" "contents ?h1 k = Some obj" "\<forall>k' obj'. contents ?h1 k' = Some obj' \<longrightarrow> \<not> obj' < obj"
    by auto
  from p(2,3) 1 have "obj = 1" by (auto split: if_splits)
  with p(1) show ?thesis by blast
qed

text \<open>C35: adding (or updating) an object binds its key to it and deleting unbinds it, both without error
  and keeping the invariant; deleting an absent key reports that it was not found and changes nothing;
  \<open>AddIfNotPresent\<close> changes nothing for a key already bound.\<close>

theorem heap_add_delete:
  assumes "weak_order lessFn" and "heapInv lessFn keyFn h" and "keyFn obj = Some k"
  shows "(\<exists>h'. heapAdd lessFn keyFn obj h = (h', None) \<and> heapInv lessFn keyFn h' \<and> contents h' = (contents h)(k \<mapsto> obj)) \<and>
    (if contents h k = None then heapDelete lessFn keyFn obj h = (h, Some HeapNotFound) \<and>
        heapAddIfNotPresent lessFn keyFn obj h = heapAdd lessFn keyFn obj h
     else (\<exists>h'. heapDelete lessFn keyFn obj h = (h', None) \<and> heapInv lessFn keyFn h' \<and>
             contents h' = (contents h)(k := None)) \<and> heapAddIfNotPresent lessFn keyFn obj h = (h, None))"
proof -
  note kh = keyed_heap.intro [OF assms(1)]
  show ?thesis
    using keyed_heap.heapAdd_spec [OF kh assms(2,3)] keyed_heap.heapDelete_spec [OF kh assms(2,3)] assms(3)
    by (auto simp: heapDelete_def heapAddIfNotPresent_def heapAdd_def contents_def split: option.splits)
qed

theorem heap_add_delete_witness:
  "\<exists>h'. heapAdd (<) (\<lambda>n :: nat. Some (replicate n CHR ''a'')) 3 (NewWithRecorder None) = (h', None) \<and>
    contents h' = [''aaa'' \<mapsto> 3]"
proof -
  have "weak_order ((<) :: nat \<Rightarrow> nat \<Rightarrow> bool)" by unfold_locales auto
  from heap_add_delete [OF this heapInv_new [of None], of "\<lambda>n. Some (replicate n CHR ''a'')" 3 "''aaa''"]
  show ?thesis by (auto simp: numeral_3_eq_3)
qed

text \<open>Popping an empty heap is not an error value but an index panic.\<close>

lemma heapPop_empty: "fst (heapPop lessFn (NewWithRecorder rec)) = Inl HeapPanicIndex"
  by (simp add: heapPop_def NewWithRecorder_def)

end
