(* ===== verification/Labels.thy ===== *)
theory Labels
  imports ApiTypes
begin

text \<open>
  Label selectors (\<open>apimachinery/pkg/labels/selector.go\<close>, \<open>apimachinery/pkg/apis/meta/v1/helpers.go\<close>) and the
  matching of pods by affinity terms (\<open>pkg/scheduler/util/topologies.go\<close>). An error is \<open>None\<close>.
\<close>

section \<open>Model\<close>

datatype Operator = DoesNotExist | Equals | DoubleEquals | OpIn | NotEquals | NotIn | OpExists | GreaterThan | LessThan
  | GreaterThanEqual | LessThanEqual

text \<open>\<open>strconv.ParseInt(s, 10, 64)\<close>: an optional sign, at least one digit, and a value in range.\<close>

fun parseDigits :: "int \<Rightarrow> string \<Rightarrow> int option" where
  "parseDigits acc [] = Some acc"
| "parseDigits acc (c # s) =
     (if CHR ''0'' \<le> c \<and> c \<le> CHR ''9'' then parseDigits (10 * acc + (of_char c - 48)) s else None)"

definition parseNat :: "string \<Rightarrow> int option" where
  "parseNat s = (if s = [] then None else parseDigits 0 s)"

definition ParseInt :: "string \<Rightarrow> i64 option" where
  "ParseInt s =
     (let (neg, digits) = (case s of c # r \<Rightarrow> if c = CHR ''-'' then (True, r) else if c = CHR ''+'' then (False, r)
                                             else (False, s)
                           | [] \<Rightarrow> (False, s))
      in case parseNat digits of
           None \<Rightarrow> None
         | Some v \<Rightarrow> (let v = (if neg then - v else v) in
                      if - (2 ^ 63) \<le> v \<and> v < 2 ^ 63 then Some (word_of_int v) else None))"

definition IsValidLabelValue :: "string \<Rightarrow> bool" where
  "IsValidLabelValue value \<longleftrightarrow> length value \<le> 63 \<and> (value = [] \<or> matchesQualifiedName value)"

record Requirement =
  reqKey :: string
  reqOperator :: Operator
  reqValues :: "string list"

definition valuesAllowed :: "Operator \<Rightarrow> string list \<Rightarrow> bool" where
  "valuesAllowed op vals =
     (case op of
        OpIn \<Rightarrow> vals \<noteq> [] | NotIn \<Rightarrow> vals \<noteq> []
      | Equals \<Rightarrow> length vals = 1 | DoubleEquals \<Rightarrow> length vals = 1 | NotEquals \<Rightarrow> length vals = 1
      | OpExists \<Rightarrow> vals = [] | DoesNotExist \<Rightarrow> vals = []
      | GreaterThan \<Rightarrow> length vals = 1 \<and> list_all (\<lambda>v. ParseInt v \<noteq> None) vals
      | LessThan \<Rightarrow> length vals = 1 \<and> list_all (\<lambda>v. ParseInt v \<noteq> None) vals
      | _ \<Rightarrow> False)"

definition NewRequirement :: "string \<Rightarrow> Operator \<Rightarrow> string list \<Rightarrow> Requirement option" where
  "NewRequirement key op vals =
     (if \<not> IsQualifiedName key then None
      else if \<not> valuesAllowed op vals then None
      else if \<not> list_all IsValidLabelValue vals then None
      else Some \<lparr>reqKey = key, reqOperator = op, reqValues = vals\<rparr>)"

definition hasValue :: "Requirement \<Rightarrow> string \<Rightarrow> bool" where
  "hasValue r value = list_ex (\<lambda>v. v = value) (reqValues r)"

definition compareValues :: "Requirement \<Rightarrow> string \<Rightarrow> bool" where
  "compareValues r value =
     (case ParseInt value of
        None \<Rightarrow> False
      | Some lsValue \<Rightarrow>
          (case reqValues r of
             [v] \<Rightarrow> (case ParseInt v of
                       None \<Rightarrow> False
                     | Some rValue \<Rightarrow> (reqOperator r = GreaterThan \<and> sint rValue < sint lsValue) \<or>
                                      (reqOperator r = LessThan \<and> sint lsValue < sint rValue))
           | _ \<Rightarrow> False))"

definition reqMatches :: "labelmap \<Rightarrow> Requirement \<Rightarrow> bool" where
  "reqMatches ls r =
     (if reqOperator r \<in> {OpIn, Equals, DoubleEquals} then
        (case mget ls (reqKey r) of None \<Rightarrow> False | Some v \<Rightarrow> hasValue r v)
      else if reqOperator r \<in> {NotIn, NotEquals} then
        (case mget ls (reqKey r) of None \<Rightarrow> True | Some v \<Rightarrow> \<not> hasValue r v)
      else if reqOperator r = OpExists then mget ls (reqKey r) \<noteq> None
      else if reqOperator r = DoesNotExist then mget ls (reqKey r) = None
      else if reqOperator r \<in> {GreaterThan, LessThan} then
        (case mget ls (reqKey r) of None \<Rightarrow> False | Some v \<Rightarrow> compareValues r v)
      else False)"

datatype Selector = SelNothing | SelReqs "Requirement list"

text \<open>\<open>sort.Sort\<close> is not stable; the order of requirements with equal keys does not affect matching.\<close>

fun selAdd :: "Requirement \<Rightarrow> Selector \<Rightarrow> Selector" where
  "selAdd r SelNothing = SelNothing"
| "selAdd r (SelReqs rs) = SelReqs (sort_key reqKey (rs @ [r]))"

fun selMatches :: "labelmap \<Rightarrow> Selector \<Rightarrow> bool" where
  "selMatches ls SelNothing = False"
| "selMatches ls (SelReqs rs) = list_all (reqMatches ls) rs"

definition selectorOperator :: "string \<Rightarrow> Operator option" where
  "selectorOperator op =
     (if op = ''In'' then Some OpIn else if op = ''NotIn'' then Some NotIn
      else if op = ''Exists'' then Some OpExists else if op = ''DoesNotExist'' then Some DoesNotExist else None)"

definition exprRequirement :: "LabelSelectorRequirement \<Rightarrow> Requirement option" where
  "exprRequirement expr =
     (case selectorOperator (lsrOperator expr) of
        None \<Rightarrow> None
      | Some op \<Rightarrow> NewRequirement (lsrKey expr) op (lsrValues expr))"

fun addRequirements :: "Requirement option list \<Rightarrow> Selector \<Rightarrow> Selector option" where
  "addRequirements [] sel = Some sel"
| "addRequirements (None # rs) sel = None"
| "addRequirements (Some r # rs) sel = addRequirements rs (selAdd r sel)"

definition LabelSelectorAsSelector :: "LabelSelector option \<Rightarrow> Selector option" where
  "LabelSelectorAsSelector ps =
     (case ps of
        None \<Rightarrow> Some SelNothing
      | Some s \<Rightarrow>
          if lsMatchLabels s = [] \<and> lsMatchExpressions s = [] then Some (SelReqs [])
          else addRequirements
                 (map (\<lambda>(k, v). NewRequirement k Equals [v]) (lsMatchLabels s) @
                  map exprRequirement (lsMatchExpressions s)) (SelReqs []))"

section \<open>Matching pods (topologies.go)\<close>

definition GetNamespacesFromPodAffinityTerm :: "Pod \<Rightarrow> PodAffinityTerm \<Rightarrow> string list" where
  "GetNamespacesFromPodAffinityTerm pod term =
     (if patNamespaces term = [] then [podNamespace pod] else patNamespaces term)"

definition PodMatchesTermsNamespaceAndSelector :: "Pod \<Rightarrow> string list \<Rightarrow> Selector \<Rightarrow> bool" where
  "PodMatchesTermsNamespaceAndSelector pod namespaces selector =
     (if podNamespace pod \<notin> set namespaces then False
      else if \<not> selMatches (omLabels (podMeta pod)) selector then False
      else True)"

definition NodesHaveSameTopologyKey :: "Node \<Rightarrow> Node \<Rightarrow> string \<Rightarrow> bool" where
  "NodesHaveSameTopologyKey nodeA nodeB topologyKey =
     (if topologyKey = [] then False
      else (case (mget (omLabels (nodeMeta nodeA)) topologyKey, mget (omLabels (nodeMeta nodeB)) topologyKey) of
              (Some a, Some b) \<Rightarrow> a = b
            | _ \<Rightarrow> False))"

section \<open>What a label selector means\<close>

text \<open>The documented meaning of \<open>metav1.LabelSelector\<close>: nil selects nothing; otherwise every listed label has
  its value and every expression holds.\<close>

fun exprHolds :: "labelmap \<Rightarrow> LabelSelectorRequirement \<Rightarrow> bool" where
  "exprHolds ls e =
     (if lsrOperator e = ''In'' then (\<exists>v \<in> set (lsrValues e). mget ls (lsrKey e) = Some v)
      else if lsrOperator e = ''NotIn'' then (\<forall>v \<in> set (lsrValues e). mget ls (lsrKey e) \<noteq> Some v)
      else if lsrOperator e = ''Exists'' then mget ls (lsrKey e) \<noteq> None
      else mget ls (lsrKey e) = None)"

definition selectorHolds :: "LabelSelector option \<Rightarrow> labelmap \<Rightarrow> bool" where
  "selectorHolds ps ls =
     (case ps of
        None \<Rightarrow> False
      | Some s \<Rightarrow> (\<forall>(k, v) \<in> set (lsMatchLabels s). mget ls k = Some v) \<and>
                  (\<forall>e \<in> set (lsMatchExpressions s). exprHolds ls e))"

section \<open>Lemmas\<close>

lemma selMatches_selAdd:
  "selMatches ls (selAdd r sel) \<longleftrightarrow> selMatches ls sel \<and> (sel \<noteq> SelNothing \<longrightarrow> reqMatches ls r)"
  by (cases sel) (auto simp: list_all_iff)

lemma selAdd_reqs: "sel \<noteq> SelNothing \<Longrightarrow> selAdd r sel \<noteq> SelNothing"
  by (cases sel) auto

lemma addRequirements_matches:
  "addRequirements rs sel = Some sel' \<Longrightarrow> sel \<noteq> SelNothing \<Longrightarrow>
   selMatches ls sel' \<longleftrightarrow> selMatches ls sel \<and> (\<forall>r \<in> set rs. \<exists>q. r = Some q \<and> reqMatches ls q)"
  by (induction rs sel arbitrary: sel' rule: addRequirements.induct)
    (auto simp: selMatches_selAdd selAdd_reqs)

lemma addRequirements_all: "addRequirements rs sel = Some sel' \<Longrightarrow> r \<in> set rs \<Longrightarrow> \<exists>q. r = Some q"
  by (induction rs sel rule: addRequirements.induct) auto

lemma NewRequirement_Some:
  "NewRequirement key op vals = Some q \<Longrightarrow> q = \<lparr>reqKey = key, reqOperator = op, reqValues = vals\<rparr>"
  by (simp add: NewRequirement_def split: if_splits)

lemma label_requirement:
  "NewRequirement k Equals [v] = Some q \<Longrightarrow> reqMatches ls q \<longleftrightarrow> mget ls k = Some v"
  by (auto dest!: NewRequirement_Some simp: reqMatches_def hasValue_def split: option.splits)

lemma expr_requirement:
  assumes "exprRequirement e = Some q"
  shows "reqMatches ls q \<longleftrightarrow> exprHolds ls e"
proof -
  obtain op where op: "selectorOperator (lsrOperator e) = Some op"
      "NewRequirement (lsrKey e) op (lsrValues e) = Some q"
    using assms by (auto simp: exprRequirement_def split: option.splits)
  note q = NewRequirement_Some [OF op(2)]
  from op(1) show ?thesis
    by (auto simp: q selectorOperator_def reqMatches_def hasValue_def list_ex_iff split: if_splits option.splits)
qed

section \<open>Properties\<close>

text \<open>C36: a label selector that converts without error matches exactly the label sets it describes: each
  listed label with its value and every expression true, nothing for a nil selector, everything for an
  empty one.\<close>

theorem LabelSelectorAsSelector_correct:
  assumes "LabelSelectorAsSelector ps = Some sel"
  shows "selMatches ls sel \<longleftrightarrow> selectorHolds ps ls"
proof (cases ps)
  case None
  then show ?thesis using assms by (auto simp: LabelSelectorAsSelector_def selectorHolds_def)
next
  case (Some s)
  let ?rs = "map (\<lambda>(k, v). NewRequirement k Equals [v]) (lsMatchLabels s) @ map exprRequirement (lsMatchExpressions s)"
  have add: "addRequirements ?rs (SelReqs []) = Some sel"
    using assms Some by (auto simp: LabelSelectorAsSelector_def split: if_splits)
  note all = addRequirements_all [OF add]
  have lab: "(\<exists>q. NewRequirement k Equals [v] = Some q \<and> reqMatches ls q) \<longleftrightarrow> mget ls k = Some v"
    if "(k, v) \<in> set (lsMatchLabels s)" for k v
    using all [of "NewRequirement k Equals [v]"] that label_requirement by fastforce
  have ex: "(\<exists>q. exprRequirement e = Some q \<and> reqMatches ls q) \<longleftrightarrow> exprHolds ls e"
    if "e \<in> set (lsMatchExpressions s)" for e
    using all [of "exprRequirement e"] that expr_requirement by fastforce
  show ?thesis
    using addRequirements_matches [OF add, of ls] lab ex
    by (simp add: Some selectorHolds_def ball_Un split_beta)
qed

theorem LabelSelectorAsSelector_correct_witness:
  "\<exists>sel. LabelSelectorAsSelector (Some \<lparr>lsMatchLabels = [(''app'', ''web'')], lsMatchExpressions = []\<rparr>) = Some sel \<and>
    selMatches [(''app'', ''web''), (''x'', ''y'')] sel \<and> \<not> selMatches [(''app'', ''db'')] sel"
proof -
  let ?ps = "Some \<lparr>lsMatchLabels = [(''app'', ''web'')], lsMatchExpressions = []\<rparr>"
  have "LabelSelectorAsSelector ?ps \<noteq> None" by code_simp
  then obtain sel where sel: "LabelSelectorAsSelector ?ps = Some sel" by blast
  from LabelSelectorAsSelector_correct [OF sel] sel show ?thesis
    by (auto simp: selectorHolds_def)
qed

end
