(* ===== verification/NominatedPods.thy ===== *)
theory NominatedPods
  imports ApiTypes
begin

text \<open>
  The pods nominated to run on nodes (\<open>nominatedPodMap\<close> in
  \<open>pkg/scheduler/internal/queue/scheduling_queue.go\<close>): a map from node to list of pods and a map from pod
  uid to node. \<open>nomination\<close> is the abstract view: a partial function from uid to its node and pod.
\<close>

section \<open>Model\<close>

record nominatedPodMap =
  npPods :: "(string, Pod list) gomap"
  npToNode :: "(string, string) gomap"

definition newNominatedPodMap :: nominatedPodMap where
  "newNominatedPodMap = \<lparr>npPods = [], npToNode = []\<rparr>"

definition NominatedNodeName :: "Pod \<Rightarrow> string" where
  "NominatedNodeName pod = pstNominatedNodeName (podStatus pod)"

definition podsForNode :: "nominatedPodMap \<Rightarrow> string \<Rightarrow> Pod list" where
  "podsForNode npm node = (case mget (npPods npm) node of Some l \<Rightarrow> l | None \<Rightarrow> [])"

definition npDelete :: "Pod \<Rightarrow> nominatedPodMap \<Rightarrow> nominatedPodMap" where
  "npDelete p npm =
     (case mget (npToNode npm) (podUID p) of
        None \<Rightarrow> npm
      | Some nnn \<Rightarrow>
          (let l = podsForNode npm nnn;
               pods = (case find_idx (\<lambda>np. podUID np = podUID p) l of
                         None \<Rightarrow> npPods npm
                       | Some i \<Rightarrow> if remove_at i l = [] then mdel nnn (npPods npm)
                                   else mput nnn (remove_at i l) (npPods npm))
           in \<lparr>npPods = pods, npToNode = mdel (podUID p) (npToNode npm)\<rparr>))"

definition npAdd :: "Pod \<Rightarrow> string \<Rightarrow> nominatedPodMap \<Rightarrow> nominatedPodMap" where
  "npAdd p node npm =
     (let npm = npDelete p npm;
          nnn = (if node = [] then NominatedNodeName p else node)
      in if nnn = [] then npm
         else (let npm = npm\<lparr>npToNode := mput (podUID p) nnn (npToNode npm)\<rparr> in
               if list_ex (\<lambda>np. podUID np = podUID p) (podsForNode npm nnn) then npm
               else npm\<lparr>npPods := mput nnn (podsForNode npm nnn @ [p]) (npPods npm)\<rparr>))"

definition npUpdate :: "Pod \<Rightarrow> Pod \<Rightarrow> nominatedPodMap \<Rightarrow> nominatedPodMap" where
  "npUpdate oldPod newPod npm =
     (let node = (if NominatedNodeName oldPod = [] \<and> NominatedNodeName newPod = []
                      then (case mget (npToNode npm) (podUID oldPod) of Some nnn \<Rightarrow> nnn | None \<Rightarrow> [])
                      else [])
      in npAdd newPod node (npDelete oldPod npm))"

section \<open>Abstract view and invariant\<close>

definition nomination :: "nominatedPodMap \<Rightarrow> string \<Rightarrow> (string \<times> Pod) option" where
  "nomination npm uid =
     (case mget (npToNode npm) uid of
        None \<Rightarrow> None
      | Some n \<Rightarrow> map_option (\<lambda>p. (n, p)) (find (\<lambda>p. podUID p = uid) (podsForNode npm n)))"

definition npInv :: "nominatedPodMap \<Rightarrow> bool" where
  "npInv npm \<longleftrightarrow> gomap_wf (npPods npm) \<and> gomap_wf (npToNode npm) \<and>
     (\<forall>n l. mget (npPods npm) n = Some l \<longrightarrow> l \<noteq> []) \<and>
     (\<forall>n. distinct (map podUID (podsForNode npm n))) \<and>
     (\<forall>n p. p \<in> set (podsForNode npm n) \<longrightarrow> mget (npToNode npm) (podUID p) = Some n) \<and>
     (\<forall>uid n. mget (npToNode npm) uid = Some n \<longrightarrow> uid \<in> podUID ` set (podsForNode npm n))"

section \<open>Lemmas\<close>

lemma npInv_new: "npInv newNominatedPodMap"
  by (simp add: npInv_def newNominatedPodMap_def podsForNode_def)

lemma npInv_toNode: "npInv npm \<Longrightarrow> q \<in> set (podsForNode npm m) \<Longrightarrow> mget (npToNode npm) (podUID q) = Some m"
  unfolding npInv_def by blast

lemma find_unique:
  "p \<in> set l \<Longrightarrow> distinct (map podUID l) \<Longrightarrow> podUID p = uid \<Longrightarrow> find (\<lambda>q. podUID q = uid) l = Some p"
  by (induction l) (auto simp: image_iff)

text \<open>Under the invariant, a pod is nominated exactly when it is in the list of its node.\<close>

lemma nomination_iff:
  assumes "npInv npm"
  shows "nomination npm uid = Some (n, p) \<longleftrightarrow> p \<in> set (podsForNode npm n) \<and> podUID p = uid"
proof
  assume "nomination npm uid = Some (n, p)"
  then show "p \<in> set (podsForNode npm n) \<and> podUID p = uid"
    by (auto simp: nomination_def find_Some_iff split: option.splits)
next
  assume p: "p \<in> set (podsForNode npm n) \<and> podUID p = uid"
  then have "mget (npToNode npm) uid = Some n" using assms by (auto simp: npInv_def)
  moreover have "find (\<lambda>q. podUID q = uid) (podsForNode npm n) = Some p"
    using p assms by (intro find_unique) (auto simp: npInv_def)
  ultimately show "nomination npm uid = Some (n, p)" by (simp add: nomination_def)
qed

lemma nomination_eqI:
  assumes "npInv npm" and "\<And>n p. p \<in> set (podsForNode npm n) \<longleftrightarrow> f (podUID p) = Some (n, p)"
    and "\<And>uid n p. f uid = Some (n, p) \<Longrightarrow> podUID p = uid"
  shows "nomination npm = f"
proof
  fix uid
  have "nomination npm uid = Some x \<longleftrightarrow> f uid = Some x" for x
    using nomination_iff [OF assms(1), of uid "fst x" "snd x"] assms(2) [of "snd x" "fst x"] assms(3) [of uid "fst x" "snd x"]
    by auto
  then show "nomination npm uid = f uid" by (metis not_None_eq)
qed

lemma nomination_uid: "nomination npm uid = Some (n, p) \<Longrightarrow> podUID p = uid"
  by (auto simp: nomination_def find_Some_iff split: option.splits)

text \<open>\<open>delete\<close> removes the pod from the list of its node and nothing else.\<close>

lemma npDelete_absent: "mget (npToNode npm) (podUID p) = None \<Longrightarrow> npDelete p npm = npm"
  by (simp add: npDelete_def)

lemma remove_at_filter:
  "find_idx (\<lambda>x. f x = k) l = Some i \<Longrightarrow> distinct (map f l) \<Longrightarrow> remove_at i l = filter (\<lambda>x. f x \<noteq> k) l"
proof (induction l arbitrary: i)
  case (Cons x xs)
  show ?case
  proof (cases "f x = k")
    case True
    then have "filter (\<lambda>x. f x \<noteq> k) xs = xs" using Cons.prems(2) by (auto simp: filter_id_conv image_iff)
    with True Cons.prems show ?thesis by (auto simp: remove_at_def)
  next
    case False
    then obtain j where "find_idx (\<lambda>x. f x = k) xs = Some j" "i = Suc j" using Cons.prems by auto
    with False Cons show ?thesis by (simp add: remove_at_def)
  qed
qed simp

lemma podsForNode_delete:
  assumes inv: "npInv npm" and n: "mget (npToNode npm) (podUID p) = Some n"
  shows "podsForNode (npDelete p npm) m =
    (if m = n then filter (\<lambda>q. podUID q \<noteq> podUID p) (podsForNode npm n) else podsForNode npm m)"
proof -
  let ?l = "podsForNode npm n" and ?P = "\<lambda>q. podUID q = podUID p"
  have "podUID p \<in> podUID ` set ?l" using inv n by (auto simp: npInv_def)
  then have "find_idx ?P ?l \<noteq> None" unfolding find_idx_None by (metis imageE)
  then obtain i where i: "find_idx ?P ?l = Some i" by blast
  have "remove_at i ?l = filter (\<lambda>q. \<not> ?P q) ?l"
    using i inv by (intro remove_at_filter) (auto simp: npInv_def)
  then show ?thesis using n i by (simp add: npDelete_def Let_def podsForNode_def)
qed

lemma npDelete_toNode: "mget (npToNode (npDelete p npm)) uid = (if uid = podUID p then None else mget (npToNode npm) uid)"
  by (auto simp: npDelete_def Let_def split: option.splits)

lemma podsForNode_deleted:
  assumes "npInv npm"
  shows "q \<in> set (podsForNode (npDelete p npm) m) \<longleftrightarrow> q \<in> set (podsForNode npm m) \<and> podUID q \<noteq> podUID p"
proof (cases "mget (npToNode npm) (podUID p)")
  case None
  have "podUID q \<noteq> podUID p" if "q \<in> set (podsForNode npm m)"
    using npInv_toNode [OF assms that] None by (metis option.distinct(1))
  with None show ?thesis by (auto simp: npDelete_absent)
next
  case (Some n)
  have "podUID q \<noteq> podUID p" if "q \<in> set (podsForNode npm m)" "m \<noteq> n"
    using npInv_toNode [OF assms that(1)] Some that(2) by (metis option.inject)
  then show ?thesis using podsForNode_delete [OF assms Some, of m] by auto
qed

lemma npInv_delete: "npInv npm \<Longrightarrow> npInv (npDelete p npm)"
proof (cases "mget (npToNode npm) (podUID p)")
  case None
  then show "npInv npm \<Longrightarrow> ?thesis" by (simp add: npDelete_absent)
next
  case (Some n)
  assume inv: "npInv npm"
  let ?d = "npDelete p npm"
  have wf: "gomap_wf (npPods ?d)" "gomap_wf (npToNode ?d)"
    using inv by (auto simp: npInv_def npDelete_def Let_def split: option.splits)
  have ne: "l \<noteq> []" if "mget (npPods ?d) m = Some l" for m l
    using that inv by (auto simp: npInv_def npDelete_def Let_def split: option.splits if_splits)
  have "distinct (map podUID (podsForNode ?d m))" for m
    using inv podsForNode_delete [OF inv Some, of m] by (auto simp: npInv_def distinct_map_filter)
  moreover have "mget (npToNode ?d) (podUID q) = Some m" if "q \<in> set (podsForNode ?d m)" for m q
    using that inv by (auto simp: podsForNode_deleted [OF inv] npDelete_toNode npInv_def)
  moreover have "uid \<in> podUID ` set (podsForNode ?d m)" if "mget (npToNode ?d) uid = Some m" for uid m
  proof -
    from that have u: "mget (npToNode npm) uid = Some m" "uid \<noteq> podUID p"
      by (auto simp: npDelete_toNode split: if_splits)
    then obtain q where "q \<in> set (podsForNode npm m)" "podUID q = uid" using inv unfolding npInv_def by blast
    then show ?thesis using u(2) podsForNode_deleted [OF inv] by blast
  qed
  ultimately show ?thesis using wf ne unfolding npInv_def by blast
qed

lemma nomination_delete:
  assumes "npInv npm"
  shows "nomination (npDelete p npm) = (nomination npm)(podUID p := None)"
  using assms nomination_iff [OF assms] nomination_uid
  by (intro nomination_eqI npInv_delete) (auto simp: podsForNode_deleted split: if_splits)

text \<open>\<open>add\<close> after the delete: the uid is in no list, so the pod is appended.\<close>

lemma npAdd_eq:
  assumes "npInv npm"
  shows "npAdd p node npm =
    (let d = npDelete p npm; nnn = (if node = [] then NominatedNodeName p else node)
     in if nnn = [] then d
        else \<lparr>npPods = mput nnn (podsForNode d nnn @ [p]) (npPods d), npToNode = mput (podUID p) nnn (npToNode d)\<rparr>)"
proof -
  let ?d = "npDelete p npm"
  have "podUID q \<noteq> podUID p" if "q \<in> set (podsForNode ?d m)" for q m
    using that podsForNode_deleted [OF assms] by blast
  then have "\<not> list_ex (\<lambda>np. podUID np = podUID p) (podsForNode ?d m)" for m by (auto simp: list_ex_iff)
  moreover have "podsForNode (?d\<lparr>npToNode := t\<rparr>) m = podsForNode ?d m" for t m by (simp add: podsForNode_def)
  ultimately show ?thesis by (simp add: npAdd_def Let_def)
qed

lemma npInv_append:
  fixes p :: Pod and n :: string
  assumes inv: "npInv d" and new: "mget (npToNode d) (podUID p) = None"
  defines "e \<equiv> \<lparr>npPods = mput n (podsForNode d n @ [p]) (npPods d), npToNode = mput (podUID p) n (npToNode d)\<rparr>"
  shows "npInv e" and "nomination e = (nomination d)(podUID p \<mapsto> (n, p))"
proof -
  have l: "podsForNode e m = (if m = n then podsForNode d n @ [p] else podsForNode d m)" for m
    by (simp add: e_def podsForNode_def)
  have t: "mget (npToNode e) uid = (if uid = podUID p then Some n else mget (npToNode d) uid)" for uid
    by (auto simp: e_def)
  have fresh: "podUID q \<noteq> podUID p" if "q \<in> set (podsForNode d m)" for q m
    using npInv_toNode [OF inv that] new by (metis option.distinct(1))
  have "gomap_wf (npPods e)" "gomap_wf (npToNode e)" using inv by (auto simp: e_def npInv_def)
  moreover have "l \<noteq> []" if "mget (npPods e) m = Some l" for m l
    using that inv by (auto simp: e_def npInv_def split: if_splits)
  moreover have "distinct (map podUID (podsForNode e m))" for m
  proof -
    have "podUID p \<notin> podUID ` set (podsForNode d n)" using fresh by (metis imageE)
    then show ?thesis using inv by (simp add: l npInv_def)
  qed
  moreover have "mget (npToNode e) (podUID q) = Some m" if "q \<in> set (podsForNode e m)" for m q
    using that inv fresh by (auto simp: l t npInv_def split: if_splits)
  moreover have "uid \<in> podUID ` set (podsForNode e m)" if "mget (npToNode e) uid = Some m" for uid m
    using that inv unfolding l t npInv_def by (auto split: if_splits)
  ultimately show e: "npInv e" unfolding npInv_def by blast
  show "nomination e = (nomination d)(podUID p \<mapsto> (n, p))"
    using nomination_iff [OF inv] fresh nomination_uid
    by (intro nomination_eqI e) (auto simp: l split: if_splits)
qed

lemma nomination_add:
  fixes p :: Pod and node :: string
  assumes "npInv npm"
  defines "nnn \<equiv> if node = [] then NominatedNodeName p else node"
  shows "npInv (npAdd p node npm)"
    and "nomination (npAdd p node npm) =
      (nomination npm)(podUID p := (if nnn = [] then None else Some (nnn, p)))"
  using npInv_append [OF npInv_delete [OF assms(1), of p]] npInv_delete [OF assms(1), of p]
    nomination_delete [OF assms(1), of p]
  unfolding nnn_def by (auto simp: npAdd_eq [OF assms(1)] Let_def npDelete_toNode)

section \<open>Properties\<close>

text \<open>C31: the two maps of nominated pods always agree and hold each pod at most once: \<open>delete\<close> forgets
  exactly the pod, \<open>add\<close> nominates it to the given node (or the node in its status, or forgets it when there
  is neither) and moves it off any earlier node, and \<open>update\<close> keeps an in-memory nomination when neither
  version of the pod names a node.\<close>

theorem nominated_refine:
  assumes "npInv npm"
  shows "npInv (npDelete p npm) \<and> nomination (npDelete p npm) = (nomination npm)(podUID p := None) \<and>
    npInv (npAdd p node npm) \<and>
    nomination (npAdd p node npm) = (nomination npm)(podUID p :=
      (let n = (if node = [] then NominatedNodeName p else node) in if n = [] then None else Some (n, p))) \<and>
    npInv (npUpdate old new npm) \<and>
    nomination (npUpdate old new npm) = (nomination npm)(podUID old := None, podUID new :=
      (let n = (if NominatedNodeName new \<noteq> [] then NominatedNodeName new
                else if NominatedNodeName old \<noteq> [] then []
                else (case mget (npToNode npm) (podUID old) of Some n \<Rightarrow> n | None \<Rightarrow> []))
       in if n = [] then None else Some (n, new)))"
proof -
  note del = npInv_delete [OF assms] nomination_delete [OF assms]
  show ?thesis
    using del nomination_add [OF assms, of p node] nomination_add [OF del(1), of new]
    by (simp add: npUpdate_def Let_def split: option.splits)
qed

theorem nominated_refine_witness:
  "nomination (npAdd (zeroPod\<lparr>podMeta := zeroMeta\<lparr>omUID := ''u''\<rparr>\<rparr>) ''n2''
     (npAdd (zeroPod\<lparr>podMeta := zeroMeta\<lparr>omUID := ''u''\<rparr>\<rparr>) ''n1'' newNominatedPodMap)) ''u'' =
   Some (''n2'', zeroPod\<lparr>podMeta := zeroMeta\<lparr>omUID := ''u''\<rparr>\<rparr>)"
proof -
  let ?p = "zeroPod\<lparr>podMeta := zeroMeta\<lparr>omUID := ''u''\<rparr>\<rparr>"
  have "npInv (npAdd ?p ''n1'' newNominatedPodMap)"
    using nominated_refine [OF npInv_new, of ?p "''n1''"] by blast
  from nominated_refine [OF this, of ?p "''n2''"] show ?thesis by simp
qed

end
