(* ===== verification/SchedQueue.thy ===== *)
theory SchedQueue
  imports SchedHeap NominatedPods Labels
begin

text \<open>
  The scheduling queue (\<open>pkg/scheduler/internal/queue/scheduling_queue.go\<close>) with the queue sort plugin
  (\<open>framework/plugins/queuesort/priority_sort.go\<close>): pods wait in \<open>activeQ\<close>, \<open>podBackoffQ\<close> or \<open>unschedulableQ\<close>.
  Every operation runs under the queue's lock, so each is one function on the state. \<open>clk k\<close> is the \<open>k\<close>-th
  reading of the clock within an operation; times are nanoseconds as \<open>int\<close>, durations are \<open>int64\<close>. The
  number of \<open>cond.Broadcast\<close> calls is part of the state, and \<open>Pop\<close> on an empty open queue is the outcome
  \<open>PopBlocked\<close>. The incoming-pods metric is not modelled.
\<close>

section \<open>Model: pod infos and orders\<close>

record PodInfo =
  piPod :: Pod
  piTimestamp :: int
  piAttempts :: int
  piInitialAttemptTimestamp :: int

type_synonym LessFunc = "PodInfo \<Rightarrow> PodInfo \<Rightarrow> bool"

definition newPodInfoNoTimestamp :: "Pod \<Rightarrow> PodInfo" where
  "newPodInfoNoTimestamp pod =
     \<lparr>piPod = pod, piTimestamp = 0, piAttempts = 0, piInitialAttemptTimestamp = 0\<rparr>"

definition newPodInfo :: "int \<Rightarrow> Pod \<Rightarrow> PodInfo" where
  "newPodInfo now pod = \<lparr>piPod = pod, piTimestamp = now, piAttempts = 0, piInitialAttemptTimestamp = now\<rparr>"

definition podInfoKeyFunc :: "PodInfo \<Rightarrow> string option" where
  "podInfoKeyFunc pi = Some (MetaNamespaceKeyFunc (podMeta (piPod pi)))"

definition prioritySortLess :: LessFunc where
  "prioritySortLess pInfo1 pInfo2 =
     (let p1 = GetPodPriority (piPod pInfo1); p2 = GetPodPriority (piPod pInfo2)
      in sint p2 < sint p1 \<or> (p1 = p2 \<and> piTimestamp pInfo1 < piTimestamp pInfo2))"

fun backoffLoop :: "i64 \<Rightarrow> nat \<Rightarrow> i64 \<Rightarrow> i64" where
  "backoffLoop maxB 0 duration = duration"
| "backoffLoop maxB (Suc n) duration =
     (let duration = duration * 2 in if sint maxB < sint duration then maxB else backoffLoop maxB n duration)"

definition calculateBackoffDuration :: "i64 \<Rightarrow> i64 \<Rightarrow> PodInfo \<Rightarrow> i64" where
  "calculateBackoffDuration initB maxB pi = backoffLoop maxB (nat (piAttempts pi - 1)) initB"

definition getBackoffTime :: "i64 \<Rightarrow> i64 \<Rightarrow> PodInfo \<Rightarrow> int" where
  "getBackoffTime initB maxB pi = piTimestamp pi + sint (calculateBackoffDuration initB maxB pi)"

definition podsCompareBackoffCompleted :: "i64 \<Rightarrow> i64 \<Rightarrow> LessFunc" where
  "podsCompareBackoffCompleted initB maxB a b = (getBackoffTime initB maxB a < getBackoffTime initB maxB b)"

section \<open>Model: the unschedulable map\<close>

record UnschedulablePodsMap =
  upMap :: "(string, PodInfo) gomap"
  upRecorder :: "int option"

definition upAddOrUpdate :: "PodInfo \<Rightarrow> UnschedulablePodsMap \<Rightarrow> UnschedulablePodsMap" where
  "upAddOrUpdate pi u =
     (let podID = GetPodFullName (piPod pi) in
      \<lparr>upMap = mput podID pi (upMap u),
       upRecorder = (if mget (upMap u) podID = None then map_option (\<lambda>n. n + 1) (upRecorder u) else upRecorder u)\<rparr>)"

definition upDelete :: "Pod \<Rightarrow> UnschedulablePodsMap \<Rightarrow> UnschedulablePodsMap" where
  "upDelete pod u =
     (let podID = GetPodFullName pod in
      \<lparr>upMap = mdel podID (upMap u),
       upRecorder = (if mget (upMap u) podID \<noteq> None then map_option (\<lambda>n. n - 1) (upRecorder u) else upRecorder u)\<rparr>)"

definition upGet :: "Pod \<Rightarrow> UnschedulablePodsMap \<Rightarrow> PodInfo option" where
  "upGet pod u = mget (upMap u) (GetPodFullName pod)"

definition upClear :: "UnschedulablePodsMap \<Rightarrow> UnschedulablePodsMap" where
  "upClear u = \<lparr>upMap = [], upRecorder = map_option (\<lambda>_. 0) (upRecorder u)\<rparr>"

section \<open>Model: the queue\<close>

record PriorityQueue =
  pqInitialBackoff :: i64
  pqMaxBackoff :: i64
  pqActiveQ :: "PodInfo Heap"
  pqBackoffQ :: "PodInfo Heap"
  pqUnschedulableQ :: UnschedulablePodsMap
  pqNominated :: nominatedPodMap
  pqSchedulingCycle :: i64
  pqMoveRequestCycle :: i64
  pqClosed :: bool
  pqBroadcasts :: nat

datatype queueErr = QHeap heapErr | QInUnschedulable | QInActive | QInBackoff | QPanicNil | QPanicSelector

datatype popResult = Popped PodInfo | PopClosed | PopBlocked | PopErr heapErr

definition NewPriorityQueue :: "i64 \<Rightarrow> i64 \<Rightarrow> PriorityQueue" where
  "NewPriorityQueue initB maxB =
     \<lparr>pqInitialBackoff = initB, pqMaxBackoff = maxB, pqActiveQ = NewWithRecorder (Some 0),
      pqBackoffQ = NewWithRecorder (Some 0), pqUnschedulableQ = \<lparr>upMap = [], upRecorder = Some 0\<rparr>,
      pqNominated = newNominatedPodMap, pqSchedulingCycle = 0, pqMoveRequestCycle = - 1, pqClosed = False,
      pqBroadcasts = 0\<rparr>"

definition backoffLess :: "PriorityQueue \<Rightarrow> LessFunc" where
  "backoffLess p = podsCompareBackoffCompleted (pqInitialBackoff p) (pqMaxBackoff p)"

definition broadcast :: "PriorityQueue \<Rightarrow> PriorityQueue" where
  "broadcast p = p\<lparr>pqBroadcasts := Suc (pqBroadcasts p)\<rparr>"

definition isPodBackingoff :: "int \<Rightarrow> PriorityQueue \<Rightarrow> PodInfo \<Rightarrow> bool" where
  "isPodBackingoff now p pi = (now < getBackoffTime (pqInitialBackoff p) (pqMaxBackoff p) pi)"

definition pqAdd :: "LessFunc \<Rightarrow> clock \<Rightarrow> Pod \<Rightarrow> PriorityQueue \<Rightarrow> PriorityQueue \<times> queueErr option" where
  "pqAdd lessFn clk pod p =
     (let pInfo = newPodInfo (clk 0) pod in
      case heapAdd lessFn podInfoKeyFunc pInfo (pqActiveQ p) of
        (h, Some e) \<Rightarrow> (p\<lparr>pqActiveQ := h\<rparr>, Some (QHeap e))
      | (h, None) \<Rightarrow>
          (broadcast (p\<lparr>pqActiveQ := h,
              pqUnschedulableQ := (if upGet pod (pqUnschedulableQ p) \<noteq> None then upDelete pod (pqUnschedulableQ p)
                                   else pqUnschedulableQ p),
              pqBackoffQ := fst (heapDelete (backoffLess p) podInfoKeyFunc pInfo (pqBackoffQ p)),
              pqNominated := npAdd pod [] (pqNominated p)\<rparr>), None))"

definition AddUnschedulableIfNotPresent ::
    "clock \<Rightarrow> PodInfo \<Rightarrow> i64 \<Rightarrow> PriorityQueue \<Rightarrow> PriorityQueue \<times> queueErr option" where
  "AddUnschedulableIfNotPresent clk pInfo podSchedulingCycle p =
     (let pod = piPod pInfo in
      if upGet pod (pqUnschedulableQ p) \<noteq> None then (p, Some QInUnschedulable)
      else (let pInfo = pInfo\<lparr>piTimestamp := clk 0\<rparr> in
            if (case heapGet podInfoKeyFunc pInfo (pqActiveQ p) of Inr (Some _) \<Rightarrow> True | _ \<Rightarrow> False)
            then (p, Some QInActive)
            else if (case heapGet podInfoKeyFunc pInfo (pqBackoffQ p) of Inr (Some _) \<Rightarrow> True | _ \<Rightarrow> False)
            then (p, Some QInBackoff)
            else if sint podSchedulingCycle \<le> sint (pqMoveRequestCycle p) then
              (case heapAdd (backoffLess p) podInfoKeyFunc pInfo (pqBackoffQ p) of
                 (h, Some e) \<Rightarrow> (p\<lparr>pqBackoffQ := h\<rparr>, Some (QHeap e))
               | (h, None) \<Rightarrow> (p\<lparr>pqBackoffQ := h, pqNominated := npAdd pod [] (pqNominated p)\<rparr>, None))
            else (p\<lparr>pqUnschedulableQ := upAddOrUpdate pInfo (pqUnschedulableQ p),
                    pqNominated := npAdd pod [] (pqNominated p)\<rparr>, None)))"

text \<open>The loop of \<open>flushBackoffQCompleted\<close> pops one pod per round, so as many rounds as the backoff queue has
  pods reach its end.\<close>

fun flushBackoffLoop :: "LessFunc \<Rightarrow> clock \<Rightarrow> nat \<Rightarrow> nat \<Rightarrow> PriorityQueue \<Rightarrow> PriorityQueue" where
  "flushBackoffLoop lessFn clk 0 i p = p"
| "flushBackoffLoop lessFn clk (Suc n) i p =
     (case heapPeek (pqBackoffQ p) of
        None \<Rightarrow> p
      | Some rawPodInfo \<Rightarrow>
          if isPodBackingoff (clk i) p rawPodInfo then p
          else (case heapPop (backoffLess p) (pqBackoffQ p) of
                  (Inl _, h) \<Rightarrow> p\<lparr>pqBackoffQ := h\<rparr>
                | (Inr _, h) \<Rightarrow>
                    flushBackoffLoop lessFn clk n (Suc i)
                      (broadcast (p\<lparr>pqBackoffQ := h,
                         pqActiveQ := fst (heapAdd lessFn podInfoKeyFunc rawPodInfo (pqActiveQ p))\<rparr>))))"

definition flushBackoffQCompleted :: "LessFunc \<Rightarrow> clock \<Rightarrow> PriorityQueue \<Rightarrow> PriorityQueue" where
  "flushBackoffQCompleted lessFn clk p = flushBackoffLoop lessFn clk (heapLen (pqBackoffQ p)) 0 p"

fun movePodsLoop :: "LessFunc \<Rightarrow> clock \<Rightarrow> nat \<Rightarrow> PodInfo list \<Rightarrow> PriorityQueue \<Rightarrow> PriorityQueue" where
  "movePodsLoop lessFn clk i [] p = p"
| "movePodsLoop lessFn clk i (pInfo # pInfos) p =
     movePodsLoop lessFn clk (Suc i) pInfos
       (if isPodBackingoff (clk i) p pInfo then
          (case heapAdd (backoffLess p) podInfoKeyFunc pInfo (pqBackoffQ p) of
             (h, Some e) \<Rightarrow> p\<lparr>pqBackoffQ := h\<rparr>
           | (h, None) \<Rightarrow> p\<lparr>pqBackoffQ := h, pqUnschedulableQ := upDelete (piPod pInfo) (pqUnschedulableQ p)\<rparr>)
        else
          (case heapAdd lessFn podInfoKeyFunc pInfo (pqActiveQ p) of
             (h, Some e) \<Rightarrow> p\<lparr>pqActiveQ := h\<rparr>
           | (h, None) \<Rightarrow> p\<lparr>pqActiveQ := h, pqUnschedulableQ := upDelete (piPod pInfo) (pqUnschedulableQ p)\<rparr>))"

definition movePodsToActiveOrBackoffQueue :: "LessFunc \<Rightarrow> clock \<Rightarrow> PodInfo list \<Rightarrow> PriorityQueue \<Rightarrow> PriorityQueue" where
  "movePodsToActiveOrBackoffQueue lessFn clk podInfoList p =
     (let p = movePodsLoop lessFn clk 0 podInfoList p
      in broadcast (p\<lparr>pqMoveRequestCycle := pqSchedulingCycle p\<rparr>))"

definition MoveAllToActiveOrBackoffQueue :: "LessFunc \<Rightarrow> clock \<Rightarrow> PriorityQueue \<Rightarrow> PriorityQueue" where
  "MoveAllToActiveOrBackoffQueue lessFn clk p =
     (let unschedulablePods = map snd (upMap (pqUnschedulableQ p));
          p = movePodsToActiveOrBackoffQueue lessFn clk unschedulablePods p
      in broadcast (p\<lparr>pqMoveRequestCycle := pqSchedulingCycle p\<rparr>))"

text \<open>\<open>unschedulableQTimeInterval\<close> is one minute; \<open>time.Time.Sub\<close> saturates far beyond it.\<close>

definition flushUnschedulableQLeftover :: "LessFunc \<Rightarrow> clock \<Rightarrow> PriorityQueue \<Rightarrow> PriorityQueue" where
  "flushUnschedulableQLeftover lessFn clk p =
     (let currentTime = clk 0;
          podsToMove = filter (\<lambda>pInfo. 60 * 10 ^ 9 < currentTime - piTimestamp pInfo)
                         (map snd (upMap (pqUnschedulableQ p)))
      in if podsToMove \<noteq> [] then movePodsToActiveOrBackoffQueue lessFn (\<lambda>i. clk (Suc i)) podsToMove p else p)"

definition pqPop :: "LessFunc \<Rightarrow> PriorityQueue \<Rightarrow> PriorityQueue \<times> popResult" where
  "pqPop lessFn p =
     (if heapLen (pqActiveQ p) = 0 then (p, if pqClosed p then PopClosed else PopBlocked)
      else (case heapPop lessFn (pqActiveQ p) of
              (Inl e, h) \<Rightarrow> (p\<lparr>pqActiveQ := h\<rparr>, PopErr e)
            | (Inr pInfo, h) \<Rightarrow>
                (p\<lparr>pqActiveQ := h, pqSchedulingCycle := pqSchedulingCycle p + 1\<rparr>,
                 Popped (pInfo\<lparr>piAttempts := piAttempts pInfo + 1\<rparr>))))"

text \<open>\<open>reflect.DeepEqual\<close> ignores the order of map entries, so the maps of a pod are compared sorted by key.\<close>

definition canonMap :: "(string, 'v) gomap \<Rightarrow> (string, 'v) gomap" where
  "canonMap m = sort_key fst m"

definition canonContainer :: "Container \<Rightarrow> Container" where
  "canonContainer c = c\<lparr>cRequests := canonMap (cRequests c), cResourcesAllocated := canonMap (cResourcesAllocated c)\<rparr>"

definition canonVM :: "VirtualMachine \<Rightarrow> VirtualMachine" where
  "canonVM v = v\<lparr>vmRequests := canonMap (vmRequests v), vmResourcesAllocated := canonMap (vmResourcesAllocated v)\<rparr>"

definition canonTerm :: "PodAffinityTerm \<Rightarrow> PodAffinityTerm" where
  "canonTerm t = t\<lparr>patLabelSelector := map_option (\<lambda>s. s\<lparr>lsMatchLabels := canonMap (lsMatchLabels s)\<rparr>) (patLabelSelector t)\<rparr>"

definition canonAffinity :: "Affinity \<Rightarrow> Affinity" where
  "canonAffinity a = a\<lparr>affPodAffinity := map_option (map canonTerm) (affPodAffinity a),
                       affPodAntiAffinity := map_option (map canonTerm) (affPodAntiAffinity a)\<rparr>"

definition strip :: "Pod \<Rightarrow> Pod" where
  "strip pod =
     pod\<lparr>podMeta := (podMeta pod)\<lparr>omResourceVersion := [], omLabels := canonMap (omLabels (podMeta pod)),
                                omAnnotations := canonMap (omAnnotations (podMeta pod))\<rparr>,
         podSpec := (podSpec pod)\<lparr>psContainers := map canonContainer (psContainers (podSpec pod)),
                                psInitContainers := map canonContainer (psInitContainers (podSpec pod)),
                                psVirtualMachine := map_option canonVM (psVirtualMachine (podSpec pod)),
                                psOverhead := map_option canonMap (psOverhead (podSpec pod)),
                                psNodeSelector := canonMap (psNodeSelector (podSpec pod)),
                                psAffinity := map_option canonAffinity (psAffinity (podSpec pod))\<rparr>,
         podStatus := podStatus zeroPod\<rparr>"

definition isPodUpdated :: "Pod \<Rightarrow> Pod \<Rightarrow> bool" where
  "isPodUpdated oldPod newPod \<longleftrightarrow> strip oldPod \<noteq> strip newPod"

text \<open>\<open>updatePod\<close> writes the new pod into the \<open>PodInfo\<close> the queue points to. The backoff and unschedulable
  branches of \<open>Update\<close> remove that object first; in the active branch it is still stored under the key of
  the old pod, and \<open>heapPoke\<close> is the write through that pointer.\<close>

definition updatePod :: "PodInfo \<Rightarrow> Pod \<Rightarrow> PodInfo" where
  "updatePod oldPodInfo newPod = oldPodInfo\<lparr>piPod := newPod\<rparr>"

definition heapPoke :: "string \<Rightarrow> 'o \<Rightarrow> 'o Heap \<Rightarrow> 'o Heap" where
  "heapPoke key obj h =
     h\<lparr>heapDat := (heapDat h)\<lparr>hdItems :=
        (case mget (hdItems (heapDat h)) key of
           Some item \<Rightarrow> mput key (item\<lparr>hiObj := obj\<rparr>) (hdItems (heapDat h))
         | None \<Rightarrow> hdItems (heapDat h))\<rparr>\<rparr>"

definition heapFind :: "Pod \<Rightarrow> PodInfo Heap \<Rightarrow> PodInfo option" where
  "heapFind pod h = (case heapGet podInfoKeyFunc (newPodInfoNoTimestamp pod) h of Inr r \<Rightarrow> r | Inl _ \<Rightarrow> None)"

text \<open>The part of \<open>Update\<close> after the active and backoff queues were searched.\<close>

definition updateElsewhere :: "LessFunc \<Rightarrow> clock \<Rightarrow> Pod option \<Rightarrow> Pod \<Rightarrow> PriorityQueue \<Rightarrow> PriorityQueue \<times> queueErr option" where
  "updateElsewhere lessFn clk oldPod newPod p =
     (case upGet newPod (pqUnschedulableQ p) of
        Some usPodInfo \<Rightarrow>
          (case oldPod of
             None \<Rightarrow> (p, Some QPanicNil)
           | Some old \<Rightarrow>
               (let p = p\<lparr>pqNominated := npUpdate old newPod (pqNominated p)\<rparr> in
                if isPodUpdated old newPod then
                  (let p = p\<lparr>pqUnschedulableQ := upDelete (piPod usPodInfo) (pqUnschedulableQ p)\<rparr> in
                   case heapAdd lessFn podInfoKeyFunc (updatePod usPodInfo newPod) (pqActiveQ p) of
                     (h, None) \<Rightarrow> (broadcast (p\<lparr>pqActiveQ := h\<rparr>), None)
                   | (h, Some e) \<Rightarrow> (p\<lparr>pqActiveQ := h\<rparr>, Some (QHeap e)))
                else (p\<lparr>pqUnschedulableQ := upAddOrUpdate (updatePod usPodInfo newPod) (pqUnschedulableQ p)\<rparr>, None)))
      | None \<Rightarrow>
          (case heapAdd lessFn podInfoKeyFunc (newPodInfo (clk 0) newPod) (pqActiveQ p) of
             (h, None) \<Rightarrow> (broadcast (p\<lparr>pqActiveQ := h, pqNominated := npAdd newPod [] (pqNominated p)\<rparr>), None)
           | (h, Some e) \<Rightarrow> (p\<lparr>pqActiveQ := h\<rparr>, Some (QHeap e))))"

definition pqUpdate :: "LessFunc \<Rightarrow> clock \<Rightarrow> Pod option \<Rightarrow> Pod \<Rightarrow> PriorityQueue \<Rightarrow> PriorityQueue \<times> queueErr option" where
  "pqUpdate lessFn clk oldPod newPod p =
     (case oldPod of
        None \<Rightarrow> updateElsewhere lessFn clk oldPod newPod p
      | Some old \<Rightarrow>
          (case heapFind old (pqActiveQ p) of
             Some oldPodInfo \<Rightarrow>
               (let pInfo = updatePod oldPodInfo newPod in
                case heapUpdate lessFn podInfoKeyFunc pInfo
                       (heapPoke (MetaNamespaceKeyFunc (podMeta old)) pInfo (pqActiveQ p)) of
                  (h, e) \<Rightarrow> (p\<lparr>pqNominated := npUpdate old newPod (pqNominated p), pqActiveQ := h\<rparr>, map_option QHeap e))
           | None \<Rightarrow>
               (case heapFind old (pqBackoffQ p) of
                  Some oldPodInfo \<Rightarrow>
                    (let p = p\<lparr>pqNominated := npUpdate old newPod (pqNominated p),
                               pqBackoffQ := fst (heapDelete (backoffLess p) podInfoKeyFunc oldPodInfo (pqBackoffQ p))\<rparr>
                     in case heapAdd lessFn podInfoKeyFunc (updatePod oldPodInfo newPod) (pqActiveQ p) of
                          (h, None) \<Rightarrow> (broadcast (p\<lparr>pqActiveQ := h\<rparr>), None)
                        | (h, Some e) \<Rightarrow> (p\<lparr>pqActiveQ := h\<rparr>, Some (QHeap e)))
                | None \<Rightarrow> updateElsewhere lessFn clk oldPod newPod p)))"

definition pqDelete :: "LessFunc \<Rightarrow> Pod \<Rightarrow> PriorityQueue \<Rightarrow> PriorityQueue" where
  "pqDelete lessFn pod p =
     (let p = p\<lparr>pqNominated := npDelete pod (pqNominated p)\<rparr> in
      case heapDelete lessFn podInfoKeyFunc (newPodInfoNoTimestamp pod) (pqActiveQ p) of
        (h, None) \<Rightarrow> p\<lparr>pqActiveQ := h\<rparr>
      | (h, Some _) \<Rightarrow>
          p\<lparr>pqActiveQ := h,
            pqBackoffQ := fst (heapDelete (backoffLess p) podInfoKeyFunc (newPodInfoNoTimestamp pod) (pqBackoffQ p)),
            pqUnschedulableQ := upDelete pod (pqUnschedulableQ p)\<rparr>)"

text \<open>A selector that does not convert is nil, and matching with it panics when the namespace matches; \<open>None\<close>
  is that panic.\<close>

fun anyTermMatches :: "Pod \<Rightarrow> Pod \<Rightarrow> PodAffinityTerm list \<Rightarrow> bool option" where
  "anyTermMatches pod up [] = Some False"
| "anyTermMatches pod up (t # ts) =
     (let namespaces = GetNamespacesFromPodAffinityTerm up t in
      case LabelSelectorAsSelector (patLabelSelector t) of
        Some selector \<Rightarrow> if PodMatchesTermsNamespaceAndSelector pod namespaces selector then Some True
                         else anyTermMatches pod up ts
      | None \<Rightarrow> if podNamespace pod \<in> set namespaces then None else anyTermMatches pod up ts)"

definition podAffinityTerms :: "Pod \<Rightarrow> PodAffinityTerm list" where
  "podAffinityTerms up =
     (case psAffinity (podSpec up) of
        None \<Rightarrow> []
      | Some a \<Rightarrow> (case affPodAffinity a of None \<Rightarrow> [] | Some terms \<Rightarrow> terms))"

fun matchingAffinity :: "Pod \<Rightarrow> PodInfo list \<Rightarrow> PodInfo list option" where
  "matchingAffinity pod [] = Some []"
| "matchingAffinity pod (pInfo # pInfos) =
     (case anyTermMatches pod (piPod pInfo) (podAffinityTerms (piPod pInfo)) of
        None \<Rightarrow> None
      | Some b \<Rightarrow> map_option (\<lambda>r. if b then pInfo # r else r) (matchingAffinity pod pInfos))"

definition getUnschedulablePodsWithMatchingAffinityTerm :: "Pod \<Rightarrow> PriorityQueue \<Rightarrow> PodInfo list option" where
  "getUnschedulablePodsWithMatchingAffinityTerm pod p = matchingAffinity pod (map snd (upMap (pqUnschedulableQ p)))"

definition AssignedPodAdded :: "LessFunc \<Rightarrow> clock \<Rightarrow> Pod \<Rightarrow> PriorityQueue \<Rightarrow> PriorityQueue \<times> queueErr option" where
  "AssignedPodAdded lessFn clk pod p =
     (case getUnschedulablePodsWithMatchingAffinityTerm pod p of
        None \<Rightarrow> (p, Some QPanicSelector)
      | Some l \<Rightarrow> (movePodsToActiveOrBackoffQueue lessFn clk l p, None))"

definition AssignedPodUpdated :: "LessFunc \<Rightarrow> clock \<Rightarrow> Pod \<Rightarrow> PriorityQueue \<Rightarrow> PriorityQueue \<times> queueErr option" where
  "AssignedPodUpdated lessFn clk pod p =
     (case getUnschedulablePodsWithMatchingAffinityTerm pod p of
        None \<Rightarrow> (p, Some QPanicSelector)
      | Some l \<Rightarrow> (movePodsToActiveOrBackoffQueue lessFn clk l p, None))"

definition PendingPods :: "PriorityQueue \<Rightarrow> Pod list" where
  "PendingPods p =
     map piPod (heapList (pqActiveQ p)) @ map piPod (heapList (pqBackoffQ p)) @
     map (\<lambda>(_, pInfo). piPod pInfo) (upMap (pqUnschedulableQ p))"

definition NominatedPodsForNode :: "PriorityQueue \<Rightarrow> string \<Rightarrow> Pod list" where
  "NominatedPodsForNode p node = podsForNode (pqNominated p) node"

definition pqClose :: "PriorityQueue \<Rightarrow> PriorityQueue" where
  "pqClose p = broadcast (p\<lparr>pqClosed := True\<rparr>)"

definition DeleteNominatedPodIfExists :: "Pod \<Rightarrow> PriorityQueue \<Rightarrow> PriorityQueue" where
  "DeleteNominatedPodIfExists pod p = p\<lparr>pqNominated := npDelete pod (pqNominated p)\<rparr>"

definition UpdateNominatedPodForNode :: "Pod \<Rightarrow> string \<Rightarrow> PriorityQueue \<Rightarrow> PriorityQueue" where
  "UpdateNominatedPodForNode pod node p = p\<lparr>pqNominated := npAdd pod node (pqNominated p)\<rparr>"

definition NumUnschedulablePods :: "PriorityQueue \<Rightarrow> nat" where
  "NumUnschedulablePods p = length (upMap (pqUnschedulableQ p))"

section \<open>Invariant\<close>

text \<open>Names as the API server admits them: a tenant and a namespace are present, and no part contains the
  separators of the two keys.\<close>

definition namePart :: "string \<Rightarrow> bool" where
  "namePart s \<longleftrightarrow> s \<noteq> [] \<and> CHR ''/'' \<notin> set s \<and> CHR ''_'' \<notin> set s"

definition podNamed :: "Pod \<Rightarrow> bool" where
  "podNamed pod \<longleftrightarrow> namePart (podName pod) \<and> namePart (podNamespace pod) \<and> namePart (podTenant pod)"

definition podKey :: "Pod \<Rightarrow> string" where
  "podKey pod = MetaNamespaceKeyFunc (podMeta pod)"

definition unschedulable :: "UnschedulablePodsMap \<Rightarrow> string \<Rightarrow> PodInfo option" where
  "unschedulable u key = find (\<lambda>pi. podKey (piPod pi) = key) (map snd (upMap u))"

definition upInv :: "UnschedulablePodsMap \<Rightarrow> bool" where
  "upInv u \<longleftrightarrow> gomap_wf (upMap u) \<and> (\<forall>(k, pi) \<in> set (upMap u). k = GetPodFullName (piPod pi) \<and> podNamed (piPod pi)) \<and>
     (case upRecorder u of Some n \<Rightarrow> n = int (length (upMap u)) | None \<Rightarrow> True)"

text \<open>A pod is in at most one of the three queues.\<close>

definition queueInv :: "LessFunc \<Rightarrow> PriorityQueue \<Rightarrow> bool" where
  "queueInv lessFn p \<longleftrightarrow>
     heapInv lessFn podInfoKeyFunc (pqActiveQ p) \<and> heapInv (backoffLess p) podInfoKeyFunc (pqBackoffQ p) \<and>
     upInv (pqUnschedulableQ p) \<and> npInv (pqNominated p) \<and>
     (\<forall>k pi. contents (pqActiveQ p) k = Some pi \<longrightarrow> podNamed (piPod pi)) \<and>
     (\<forall>k pi. contents (pqBackoffQ p) k = Some pi \<longrightarrow> podNamed (piPod pi)) \<and>
     (\<forall>k. contents (pqActiveQ p) k \<noteq> None \<longrightarrow> contents (pqBackoffQ p) k = None \<and> unschedulable (pqUnschedulableQ p) k = None) \<and>
     (\<forall>k. contents (pqBackoffQ p) k \<noteq> None \<longrightarrow> unschedulable (pqUnschedulableQ p) k = None)"

text \<open>The abstract queue: where each pod waits, by key.\<close>

datatype place = Active | Backoff | Unschedulable

definition placeOf :: "PodInfo option \<Rightarrow> PodInfo option \<Rightarrow> PodInfo option \<Rightarrow> (place \<times> PodInfo) option" where
  "placeOf a b u =
     (case a of Some pi \<Rightarrow> Some (Active, pi)
      | None \<Rightarrow> (case b of Some pi \<Rightarrow> Some (Backoff, pi) | None \<Rightarrow> map_option (Pair Unschedulable) u))"

definition absQ :: "PriorityQueue \<Rightarrow> string \<Rightarrow> (place \<times> PodInfo) option" where
  "absQ p k = placeOf (contents (pqActiveQ p) k) (contents (pqBackoffQ p) k) (unschedulable (pqUnschedulableQ p) k)"

section \<open>Keys\<close>

lemma podKey_inj:
  assumes "podNamed p" and "podNamed q"
  shows "podKey p = podKey q \<longleftrightarrow> podName p = podName q \<and> podNamespace p = podNamespace q \<and> podTenant p = podTenant q"
proof
  assume "podKey p = podKey q"
  then show "podName p = podName q \<and> podNamespace p = podNamespace q \<and> podTenant p = podTenant q"
    using split_key [of "podMeta p"] split_key [of "podMeta q"] assms
    by (auto simp: podNamed_def namePart_def podKey_def)
qed (simp add: podKey_def MetaNamespaceKeyFunc_def Let_def)

lemma strSplit_fullName:
  "podNamed p \<Longrightarrow> strSplit CHR ''_'' (GetPodFullName p) = [podName p, podNamespace p, podTenant p]"
  by (simp add: GetPodFullName_def podNamed_def namePart_def strSplit_append strSplit_no_sep)

lemma fullName_inj:
  assumes "podNamed p" and "podNamed q"
  shows "GetPodFullName p = GetPodFullName q \<longleftrightarrow> podKey p = podKey q"
proof
  assume "GetPodFullName p = GetPodFullName q"
  then have "[podName p, podNamespace p, podTenant p] = [podName q, podNamespace q, podTenant q]"
    using strSplit_fullName [OF assms(1)] strSplit_fullName [OF assms(2)] by metis
  then show "podKey p = podKey q" using podKey_inj [OF assms] by simp
next
  assume "podKey p = podKey q"
  then have "podName p = podName q" "podNamespace p = podNamespace q" "podTenant p = podTenant q"
    using podKey_inj [OF assms] by blast+
  then show "GetPodFullName p = GetPodFullName q" unfolding GetPodFullName_def by simp
qed

section \<open>The unschedulable map by key\<close>

lemma upInv_mem: "upInv u \<Longrightarrow> (k, pi) \<in> set (upMap u) \<Longrightarrow> k = GetPodFullName (piPod pi) \<and> podNamed (piPod pi)"
  by (auto simp: upInv_def)

lemma upInv_get: "upInv u \<Longrightarrow> mget (upMap u) k = Some pi \<longleftrightarrow> (k, pi) \<in> set (upMap u)"
  by (auto simp: upInv_def mget_iff_mem)

lemma upInv_snd:
  assumes "upInv u" and "pi \<in> snd ` set (upMap u)"
  shows "mget (upMap u) (GetPodFullName (piPod pi)) = Some pi" and "podNamed (piPod pi)"
proof -
  from assms(2) obtain k where k: "(k, pi) \<in> set (upMap u)" by (auto simp: image_iff)
  with upInv_mem [OF assms(1) k] upInv_get [OF assms(1)]
  show "mget (upMap u) (GetPodFullName (piPod pi)) = Some pi" "podNamed (piPod pi)" by simp_all
qed

lemma unschedulable_iff:
  assumes "upInv u"
  shows "unschedulable u key = Some pi \<longleftrightarrow> podKey (piPod pi) = key \<and> pi \<in> snd ` set (upMap u)"
proof -
  let ?l = "map snd (upMap u)" and ?P = "\<lambda>pi. podKey (piPod pi) = key"
  note snd = upInv_snd [OF assms]
  have uniq: "pi = pj" if "pi \<in> set ?l" "pj \<in> set ?l" "?P pi" "?P pj" for pi pj
  proof -
    have "GetPodFullName (piPod pi) = GetPodFullName (piPod pj)"
      using that snd(2) fullName_inj [of "piPod pi" "piPod pj"] by simp
    moreover have "mget (upMap u) (GetPodFullName (piPod pi)) = Some pi"
      "mget (upMap u) (GetPodFullName (piPod pj)) = Some pj"
      using that(1,2) by (auto intro: snd(1))
    ultimately show ?thesis by (metis option.inject)
  qed
  have "unschedulable u key = Some pi" if "?P pi" "pi \<in> set ?l"
  proof -
    have "find ?P ?l \<noteq> None" using that by (auto simp: find_None_iff)
    then obtain pj where pj: "find ?P ?l = Some pj" by blast
    then have "pi = pj" using find_SomeD [OF pj] that by (intro uniq) blast+
    with pj show ?thesis by (simp only: unschedulable_def)
  qed
  moreover have "?P pi \<and> pi \<in> set ?l" if "unschedulable u key = Some pi"
    using that find_SomeD [of ?P ?l pi] by (simp add: unschedulable_def)
  ultimately show ?thesis by auto
qed

lemma unschedulable_get:
  assumes "upInv u" and "podNamed pod"
  shows "upGet pod u = unschedulable u (podKey pod)"
proof -
  have "upGet pod u = Some pi \<longleftrightarrow> unschedulable u (podKey pod) = Some pi" for pi
  proof
    assume "upGet pod u = Some pi"
    then have "(GetPodFullName pod, pi) \<in> set (upMap u)" by (simp add: upGet_def upInv_get [OF assms(1)])
    with upInv_mem [OF assms(1) this] show "unschedulable u (podKey pod) = Some pi"
      using fullName_inj [OF assms(2), of "piPod pi"] by (force simp: unschedulable_iff [OF assms(1)] image_iff)
  next
    assume "unschedulable u (podKey pod) = Some pi"
    then have pi: "podKey (piPod pi) = podKey pod" "pi \<in> snd ` set (upMap u)"
      by (auto simp: unschedulable_iff [OF assms(1)])
    with upInv_snd [OF assms(1) pi(2)] fullName_inj [OF _ assms(2), of "piPod pi"]
    show "upGet pod u = Some pi" by (simp add: upGet_def)
  qed
  then show ?thesis by (metis not_None_eq)
qed

lemma unschedulable_eqI:
  assumes "upInv u" and "\<And>key pi. podKey (piPod pi) = key \<and> pi \<in> snd ` set (upMap u) \<longleftrightarrow> f key = Some pi"
  shows "unschedulable u = f"
proof
  fix key
  have "unschedulable u key = Some pi \<longleftrightarrow> f key = Some pi" for pi
    by (rule trans [OF unschedulable_iff [OF assms(1)] assms(2)])
  then show "unschedulable u key = f key" by (metis not_None_eq)
qed

lemma upInv_snd_iff:
  assumes "upInv u"
  shows "pi \<in> snd ` set (upMap u) \<longleftrightarrow> (GetPodFullName (piPod pi), pi) \<in> set (upMap u)"
proof
  assume "pi \<in> snd ` set (upMap u)"
  then obtain k where "(k, pi) \<in> set (upMap u)" by (auto simp: image_iff)
  with upInv_mem [OF assms this] show "(GetPodFullName (piPod pi), pi) \<in> set (upMap u)" by simp
qed (rule image_eqI [of _ snd], simp_all)

lemma upDelete_inv: "upInv u \<Longrightarrow> upInv (upDelete pod u)"
proof -
  assume u: "upInv u"
  have wf: "gomap_wf (upMap u)" using u by (simp add: upInv_def)
  have "int (length (upMap u) - Suc 0) = int (length (upMap u)) - 1" if "mget (upMap u) k = Some v" for k v
    using that by (cases "upMap u") auto
  then show ?thesis using u wf
    by (auto simp: upInv_def upDelete_def Let_def length_mdel set_mdel split: option.splits)
qed

lemma upAddOrUpdate_inv: "upInv u \<Longrightarrow> podNamed (piPod pi) \<Longrightarrow> upInv (upAddOrUpdate pi u)"
  by (auto simp: upInv_def upAddOrUpdate_def Let_def length_mput set_mput split: option.splits if_splits)

lemma upDelete_view:
  assumes "upInv u" and "podNamed pod"
  shows "unschedulable (upDelete pod u) = (unschedulable u)(podKey pod := None)"
proof (rule unschedulable_eqI [OF upDelete_inv [OF assms(1)]])
  fix key pi
  have wf: "gomap_wf (upMap u)" using assms(1) by (simp add: upInv_def)
  have "pi \<in> snd ` set (upMap (upDelete pod u)) \<longleftrightarrow>
      pi \<in> snd ` set (upMap u) \<and> GetPodFullName (piPod pi) \<noteq> GetPodFullName pod"
    unfolding upInv_snd_iff [OF assms(1)] upInv_snd_iff [OF upDelete_inv [OF assms(1)]]
    by (simp add: upDelete_def Let_def set_mdel [OF wf])
  moreover have "GetPodFullName (piPod pi) = GetPodFullName pod \<longleftrightarrow> podKey (piPod pi) = podKey pod"
    if "pi \<in> snd ` set (upMap u)"
    using fullName_inj upInv_snd(2) [OF assms(1) that] assms(2) by blast
  ultimately show "podKey (piPod pi) = key \<and> pi \<in> snd ` set (upMap (upDelete pod u)) \<longleftrightarrow>
      ((unschedulable u)(podKey pod := None)) key = Some pi"
    using unschedulable_iff [OF assms(1), of key pi] by (metis fun_upd_apply option.distinct(1))
qed

lemma upAddOrUpdate_view:
  assumes "upInv u" and "podNamed (piPod pi)"
  shows "unschedulable (upAddOrUpdate pi u) = (unschedulable u)(podKey (piPod pi) \<mapsto> pi)"
proof (rule unschedulable_eqI [OF upAddOrUpdate_inv [OF assms]])
  fix key pj
  have wf: "gomap_wf (upMap u)" using assms(1) by (simp add: upInv_def)
  have "pj \<in> snd ` set (upMap (upAddOrUpdate pi u)) \<longleftrightarrow>
      (if GetPodFullName (piPod pj) = GetPodFullName (piPod pi) then pj = pi else pj \<in> snd ` set (upMap u))"
    unfolding upInv_snd_iff [OF assms(1)] upInv_snd_iff [OF upAddOrUpdate_inv [OF assms]]
    by (simp add: upAddOrUpdate_def Let_def set_mput [OF wf])
  moreover have "GetPodFullName (piPod pj) = GetPodFullName (piPod pi) \<longleftrightarrow> podKey (piPod pj) = podKey (piPod pi)"
    if "pj \<in> snd ` set (upMap u)"
    using fullName_inj upInv_snd(2) [OF assms(1) that] assms(2) by blast
  moreover have "GetPodFullName (piPod pj) = GetPodFullName (piPod pi)" if "pj = pi" using that by simp
  ultimately show "podKey (piPod pj) = key \<and> pj \<in> snd ` set (upMap (upAddOrUpdate pi u)) \<longleftrightarrow>
      ((unschedulable u)(podKey (piPod pi) \<mapsto> pi)) key = Some pj"
    using unschedulable_iff [OF assms(1), of key pj] by (metis fun_upd_apply option.inject)
qed

section \<open>One operation, one key\<close>

text \<open>An operation that changes what the three queues hold for a single key, leaving it in at most one of
  them, keeps the invariant and is an update of the abstract queue at that key.\<close>

lemma queue_upd:
  assumes inv: "queueInv lessFn p"
    and heaps: "heapInv lessFn podInfoKeyFunc (pqActiveQ p')" "heapInv (backoffLess p') podInfoKeyFunc (pqBackoffQ p')"
    and maps: "upInv (pqUnschedulableQ p')" "npInv (pqNominated p')"
    and A: "contents (pqActiveQ p') = (contents (pqActiveQ p))(k := a)"
    and B: "contents (pqBackoffQ p') = (contents (pqBackoffQ p))(k := b)"
    and U: "unschedulable (pqUnschedulableQ p') = (unschedulable (pqUnschedulableQ p))(k := u)"
    and names: "\<And>pi. a = Some pi \<Longrightarrow> podNamed (piPod pi)" "\<And>pi. b = Some pi \<Longrightarrow> podNamed (piPod pi)"
    and one: "a \<noteq> None \<Longrightarrow> b = None \<and> u = None" "b \<noteq> None \<Longrightarrow> u = None"
  shows "queueInv lessFn p' \<and> absQ p' = (absQ p)(k := placeOf a b u)"
proof -
  have "absQ p' = (absQ p)(k := placeOf a b u)" by (rule ext) (simp add: absQ_def A B U)
  moreover have "queueInv lessFn p'"
    using inv heaps maps names one unfolding queueInv_def A B U by (auto split: if_splits)
  ultimately show ?thesis by simp
qed

lemma queueInv_cong:
  assumes "queueInv lessFn p" and "pqActiveQ p' = pqActiveQ p" and "pqBackoffQ p' = pqBackoffQ p"
    and "pqUnschedulableQ p' = pqUnschedulableQ p" and "npInv (pqNominated p')" and "backoffLess p' = backoffLess p"
  shows "queueInv lessFn p' \<and> absQ p' = absQ p"
  using assms by (simp add: queueInv_def absQ_def [abs_def])

lemma absQ_places:
  assumes "queueInv lessFn p"
  shows "absQ p k = Some (Active, pi) \<longleftrightarrow> contents (pqActiveQ p) k = Some pi"
    and "absQ p k = Some (Backoff, pi) \<longleftrightarrow> contents (pqBackoffQ p) k = Some pi"
    and "absQ p k = Some (Unschedulable, pi) \<longleftrightarrow> unschedulable (pqUnschedulableQ p) k = Some pi"
  using assms by (auto simp: queueInv_def absQ_def placeOf_def split: option.splits)

lemma podInfoKeyFunc_key: "podInfoKeyFunc pi = Some (podKey (piPod pi))"
  by (simp add: podInfoKeyFunc_def podKey_def)

lemma backoffLess_weak: "weak_order (backoffLess p)"
  by unfold_locales (auto simp: backoffLess_def podsCompareBackoffCompleted_def)

lemma prioritySortLess_weak: "weak_order prioritySortLess"
proof
  fix x y z
  show "prioritySortLess x y \<Longrightarrow> \<not> prioritySortLess y x"
    by (auto simp: prioritySortLess_def Let_def)
  show "\<not> prioritySortLess y x \<Longrightarrow> \<not> prioritySortLess z y \<Longrightarrow> \<not> prioritySortLess z x"
    by (auto simp: prioritySortLess_def Let_def sint_eq_iff)
qed

interpretation bq: keyed_heap "backoffLess p" podInfoKeyFunc for p
  by (intro keyed_heap.intro backoffLess_weak)

interpretation aq: keyed_heap prioritySortLess podInfoKeyFunc
  by (intro keyed_heap.intro prioritySortLess_weak)

end
