(* ===== verification/QueueSpec.thy ===== *)
theory QueueSpec
  imports SchedQueue
begin

text \<open>
  What the scheduling queue promises, for any comparison of the queue sort plugin that is a strict weak order:
  every operation of \<open>scheduling_queue.go\<close> as an update of the abstract queue \<^const>\<open>absQ\<close> (which of the
  three queues each pod waits in), and the step relation of the queue with its invariant, the wake-ups of
  \<open>Pop\<close> and the bookkeeping of scheduling cycles.
\<close>

section \<open>The step relation\<close>

text \<open>One call on the queue; pods handed to it have proper names, an update is an update of the same pod, and
  a pod that comes back as unschedulable carries the name it was popped with.\<close>

inductive queueStep :: "LessFunc \<Rightarrow> PriorityQueue \<Rightarrow> PriorityQueue \<Rightarrow> bool" for lessFn where
  step_add: "podNamed pod \<Longrightarrow> queueStep lessFn p (fst (pqAdd lessFn clk pod p))"
| step_unschedulable: "podNamed (piPod pi) \<Longrightarrow> queueStep lessFn p (fst (AddUnschedulableIfNotPresent clk pi cycle p))"
| step_pop: "queueStep lessFn p (fst (pqPop lessFn p))"
| step_update: "podNamed old \<Longrightarrow> podNamed new \<Longrightarrow> podKey old = podKey new \<Longrightarrow>
    queueStep lessFn p (fst (pqUpdate lessFn clk (Some old) new p))"
| step_delete: "podNamed pod \<Longrightarrow> queueStep lessFn p (pqDelete lessFn pod p)"
| step_assigned: "queueStep lessFn p (fst (AssignedPodAdded lessFn clk pod p))"
| step_move_all: "queueStep lessFn p (MoveAllToActiveOrBackoffQueue lessFn clk p)"
| step_flush_backoff: "queueStep lessFn p (flushBackoffQCompleted lessFn clk p)"
| step_flush_leftover: "queueStep lessFn p (flushUnschedulableQLeftover lessFn clk p)"
| step_nominate: "queueStep lessFn p (UpdateNominatedPodForNode pod node p)"
| step_denominate: "queueStep lessFn p (DeleteNominatedPodIfExists pod p)"
| step_close: "queueStep lessFn p (pqClose p)"

text \<open>The steps taken while the cycle counter is below its largest value.\<close>

definition cycleStep :: "LessFunc \<Rightarrow> PriorityQueue \<Rightarrow> PriorityQueue \<Rightarrow> bool" where
  "cycleStep lessFn p p' \<longleftrightarrow> queueStep lessFn p p' \<and> sint (pqSchedulingCycle p) < 2 ^ 63 - 1"

definition samplePod :: Pod where
  "samplePod = zeroPod\<lparr>podMeta := zeroMeta\<lparr>omName := ''web'', omNamespace := ''default'', omTenant := ''system'', omUID := ''u''\<rparr>\<rparr>"

inductive_cases queueStepE: "queueStep lessFn p p'"

text \<open>Where a pod leaves the unschedulable map to.\<close>

definition movedTo :: "int \<Rightarrow> PriorityQueue \<Rightarrow> PodInfo \<Rightarrow> place" where
  "movedTo now p pi = (if isPodBackingoff now p pi then Backoff else Active)"

definition moveOut :: "(PodInfo \<Rightarrow> bool) \<Rightarrow> int \<Rightarrow> PriorityQueue \<Rightarrow> (place \<times> PodInfo) option \<Rightarrow> (place \<times> PodInfo) option" where
  "moveOut P now p w =
     (case w of Some (Unschedulable, pi) \<Rightarrow> if P pi then Some (movedTo now p pi, pi) else w | _ \<Rightarrow> w)"

section \<open>Operations on the abstract queue\<close>

lemma queueInv_parts:
  assumes "queueInv lessFn p"
  shows "heapInv lessFn podInfoKeyFunc (pqActiveQ p)" and "heapInv (backoffLess p) podInfoKeyFunc (pqBackoffQ p)"
    and "upInv (pqUnschedulableQ p)" and "npInv (pqNominated p)"
  using assms by (simp_all add: queueInv_def)

lemma backoffLess_upd [simp]:
  "backoffLess (p\<lparr>pqActiveQ := a\<rparr>) = backoffLess p" "backoffLess (p\<lparr>pqBackoffQ := a\<rparr>) = backoffLess p"
  "backoffLess (p\<lparr>pqUnschedulableQ := u\<rparr>) = backoffLess p" "backoffLess (p\<lparr>pqNominated := n\<rparr>) = backoffLess p"
  "backoffLess (p\<lparr>pqSchedulingCycle := c\<rparr>) = backoffLess p" "backoffLess (p\<lparr>pqMoveRequestCycle := c\<rparr>) = backoffLess p"
  "backoffLess (p\<lparr>pqClosed := cl\<rparr>) = backoffLess p" "backoffLess (broadcast p) = backoffLess p"
  by (simp_all add: backoffLess_def broadcast_def)

lemma broadcast_simps [simp]:
  "pqActiveQ (broadcast p) = pqActiveQ p" "pqBackoffQ (broadcast p) = pqBackoffQ p"
  "pqUnschedulableQ (broadcast p) = pqUnschedulableQ p" "pqNominated (broadcast p) = pqNominated p"
  "pqInitialBackoff (broadcast p) = pqInitialBackoff p" "pqMaxBackoff (broadcast p) = pqMaxBackoff p"
  "pqSchedulingCycle (broadcast p) = pqSchedulingCycle p" "pqMoveRequestCycle (broadcast p) = pqMoveRequestCycle p"
  "pqBroadcasts (broadcast p) = Suc (pqBroadcasts p)" "pqClosed (broadcast p) = pqClosed p"
  by (simp_all add: broadcast_def)

lemma absQ_None:
  assumes "absQ p k = None"
  shows "contents (pqActiveQ p) k = None" and "contents (pqBackoffQ p) k = None"
    and "unschedulable (pqUnschedulableQ p) k = None"
  using assms by (auto simp: absQ_def placeOf_def split: option.splits)

lemma placeOf_simps [simp]:
  "placeOf (Some pi) b u = Some (Active, pi)" "placeOf None (Some pi) u = Some (Backoff, pi)"
  "placeOf None None (Some pi) = Some (Unschedulable, pi)" "placeOf None None None = None"
  by (simp_all add: placeOf_def)

lemma keys_new [simp]: "podInfoKeyFunc (newPodInfo t pod) = Some (podKey pod)"
  "podInfoKeyFunc (newPodInfoNoTimestamp pod) = Some (podKey pod)"
  "podInfoKeyFunc (pi\<lparr>piTimestamp := t\<rparr>) = Some (podKey (piPod pi))"
  "podInfoKeyFunc (updatePod pi pod) = Some (podKey pod)"
  "piPod (newPodInfo t pod) = pod" "piPod (updatePod pi pod) = pod"
  by (simp_all add: podInfoKeyFunc_key newPodInfo_def newPodInfoNoTimestamp_def updatePod_def)

lemma heapAdd_poke: "keyFn obj = Some k \<Longrightarrow> heapAdd lessFn keyFn obj (heapPoke k obj h) = heapAdd lessFn keyFn obj h"
  by (cases "mget (hdItems (heapDat h)) k") (simp_all add: heapAdd_def heapPoke_def mput_mput)

lemma heapFind_contents: "heapFind pod h = contents h (podKey pod)"
  by (simp add: heapFind_def heapGet_contents)

lemma npInv_update: "npInv npm \<Longrightarrow> npInv (npUpdate old new npm)"
  by (simp add: npUpdate_def Let_def nomination_add(1) npInv_delete)

lemma movePodsLoop_frame [simp]:
  "pqInitialBackoff (movePodsLoop lessFn clk i l p) = pqInitialBackoff p"
  "pqMaxBackoff (movePodsLoop lessFn clk i l p) = pqMaxBackoff p"
  "pqSchedulingCycle (movePodsLoop lessFn clk i l p) = pqSchedulingCycle p"
  "pqMoveRequestCycle (movePodsLoop lessFn clk i l p) = pqMoveRequestCycle p"
  "pqBroadcasts (movePodsLoop lessFn clk i l p) = pqBroadcasts p"
  "pqNominated (movePodsLoop lessFn clk i l p) = pqNominated p"
  by (induction l arbitrary: i p) (auto split: prod.splits option.splits)

lemma movedTo_params:
  "pqInitialBackoff p' = pqInitialBackoff p \<Longrightarrow> pqMaxBackoff p' = pqMaxBackoff p \<Longrightarrow> movedTo now p' pi = movedTo now p pi"
  by (simp add: movedTo_def isPodBackingoff_def)

lemma unschedulable_list:
  assumes "upInv u"
  shows "distinct (map (podKey \<circ> piPod) (map snd (upMap u)))"
    and "pi \<in> set (map snd (upMap u)) \<Longrightarrow> unschedulable u (podKey (piPod pi)) = Some pi"
proof -
  show "unschedulable u (podKey (piPod pi)) = Some pi" if "pi \<in> set (map snd (upMap u))" for pi
    using that unschedulable_iff [OF assms] by simp
  have "distinct (map fst (upMap u))" using assms by (simp add: upInv_def gomap_wf_def)
  moreover have "map fst (upMap u) = map (GetPodFullName \<circ> piPod) (map snd (upMap u))"
    using upInv_mem [OF assms] by (auto simp: list_eq_iff_nth_eq dest!: nth_mem)
  ultimately have "distinct (map (GetPodFullName \<circ> piPod) (map snd (upMap u)))" by simp
  moreover have "inj_on (podKey \<circ> piPod) (set (map snd (upMap u)))"
    using unschedulable_iff [OF assms] by (intro inj_onI) (metis comp_apply list.set_map option.inject)
  ultimately show "distinct (map (podKey \<circ> piPod) (map snd (upMap u)))"
    by (simp only: distinct_map) 
qed

lemma matchingAffinity_filter:
  "matchingAffinity pod l = Some r \<Longrightarrow>
     r = filter (\<lambda>x. anyTermMatches pod (piPod x) (podAffinityTerms (piPod x)) = Some True) l"
  by (induction l arbitrary: r) (auto split: option.splits if_splits)

lemma heapLen_card:
  assumes "dataOk (heapDat h)"
  shows "heapLen h = card (dom (contents h))" and "finite (dom (contents h))"
proof -
  have "dom (contents h) = set (hdQueue (heapDat h))" "distinct (hdQueue (heapDat h))"
    using assms unfolding dataOk_def contents_def by (auto simp: mkeys_iff)
  then show "heapLen h = card (dom (contents h))" "finite (dom (contents h))"
    by (simp_all add: heapLen_def distinct_card)
qed

lemma movePods_frame [simp]:
  "pqBroadcasts (movePodsToActiveOrBackoffQueue lessFn clk l p) = Suc (pqBroadcasts p)"
  "pqSchedulingCycle (movePodsToActiveOrBackoffQueue lessFn clk l p) = pqSchedulingCycle p"
  "pqMoveRequestCycle (movePodsToActiveOrBackoffQueue lessFn clk l p) = pqSchedulingCycle p"
  by (simp_all add: movePodsToActiveOrBackoffQueue_def Let_def)

lemma flushBackoffLoop_frame [simp]:
  "pqSchedulingCycle (flushBackoffLoop lessFn clk n i p) = pqSchedulingCycle p"
  "pqMoveRequestCycle (flushBackoffLoop lessFn clk n i p) = pqMoveRequestCycle p"
  by (induction n arbitrary: i p) (auto split: option.splits prod.splits sum.splits)

lemma flushBackoffLoop_broadcasts:
  "pqBroadcasts p \<le> pqBroadcasts (flushBackoffLoop lessFn clk n i p) \<and>
   (pqBroadcasts (flushBackoffLoop lessFn clk n i p) = pqBroadcasts p \<longrightarrow>
      pqActiveQ (flushBackoffLoop lessFn clk n i p) = pqActiveQ p)"
proof (induction n arbitrary: i p)
  case (Suc n)
  show ?case
  proof (cases "heapPop (backoffLess p) (pqBackoffQ p)")
    case (Pair r h)
    have IH: "pqBroadcasts p < pqBroadcasts (flushBackoffLoop lessFn clk n (Suc i) (broadcast (p\<lparr>pqBackoffQ := h, pqActiveQ := a\<rparr>)))" for a
      using Suc.IH [of "broadcast (p\<lparr>pqBackoffQ := h, pqActiveQ := a\<rparr>)" "Suc i"] by simp
    show ?thesis using Pair
      by (cases r) (auto split: option.split simp: less_imp_le [OF IH] less_imp_neq [OF IH, symmetric])
  qed
qed simp

text \<open>Every step keeps the scheduling cycle or counts one pop, and keeps the move request cycle or sets it to
  the scheduling cycle.\<close>

lemma step_cycles:
  assumes "queueStep lessFn p p'"
  shows "(pqSchedulingCycle p' = pqSchedulingCycle p \<or> pqSchedulingCycle p' = pqSchedulingCycle p + 1) \<and>
    (pqMoveRequestCycle p' = pqMoveRequestCycle p \<or>
     pqMoveRequestCycle p' = pqSchedulingCycle p \<and> pqSchedulingCycle p' = pqSchedulingCycle p)"
  using assms
  by cases (auto simp: pqAdd_def AddUnschedulableIfNotPresent_def pqPop_def pqUpdate_def updateElsewhere_def pqDelete_def
    AssignedPodAdded_def MoveAllToActiveOrBackoffQueue_def flushBackoffQCompleted_def flushUnschedulableQLeftover_def
    UpdateNominatedPodForNode_def DeleteNominatedPodIfExists_def pqClose_def Let_def
    split: prod.splits option.splits sum.splits if_splits)

lemma cycleSteps_mono:
  assumes "(cycleStep lessFn)\<^sup>*\<^sup>* p p'" and "sint (pqMoveRequestCycle p) \<le> sint (pqSchedulingCycle p)"
  shows "sint (pqMoveRequestCycle p') \<le> sint (pqSchedulingCycle p') \<and>
    sint (pqSchedulingCycle p) \<le> sint (pqSchedulingCycle p') \<and> sint (pqMoveRequestCycle p) \<le> sint (pqMoveRequestCycle p')"
  using assms(1)
proof (induction rule: rtranclp_induct)
  case (step q r)
  have "sint (pqSchedulingCycle q + 1) = sint (pqSchedulingCycle q) + 1" if "sint (pqSchedulingCycle q) < 2 ^ 63 - 1"
    using that sint64_ge [of "pqSchedulingCycle q"] by (simp add: sint_plus64_cases)
  then show ?case using step.IH step.hyps(2) step_cycles [of lessFn q r] by (auto simp: cycleStep_def)
qed (use assms(2) in simp)

text \<open>The interface of the queue sort plugin: its comparison is a strict weak order.\<close>

locale queue_sort = keyed_heap lessFn podInfoKeyFunc for lessFn :: LessFunc
begin

lemma pqAdd_spec:
  assumes inv: "queueInv lessFn p" and named: "podNamed pod"
  shows "\<exists>p'. pqAdd lessFn clk pod p = (p', None) \<and> queueInv lessFn p' \<and>
    absQ p' = (absQ p)(podKey pod \<mapsto> (Active, newPodInfo (clk 0) pod)) \<and>
    pqBroadcasts p' = Suc (pqBroadcasts p) \<and> pqSchedulingCycle p' = pqSchedulingCycle p \<and>
    pqMoveRequestCycle p' = pqMoveRequestCycle p"
proof -
  note parts = queueInv_parts [OF inv]
  let ?pi = "newPodInfo (clk 0) pod"
  obtain h where h: "heapAdd lessFn podInfoKeyFunc ?pi (pqActiveQ p) = (h, None)"
      "heapInv lessFn podInfoKeyFunc h" "contents h = (contents (pqActiveQ p))(podKey pod \<mapsto> ?pi)"
    using heapAdd_spec [OF parts(1), of ?pi] by auto
  let ?p' = "fst (pqAdd lessFn clk pod p)"
  have p': "pqUnschedulableQ ?p' = (if upGet pod (pqUnschedulableQ p) \<noteq> None then upDelete pod (pqUnschedulableQ p) else pqUnschedulableQ p)"
    "pqActiveQ ?p' = h" "pqBackoffQ ?p' = fst (heapDelete (backoffLess p) podInfoKeyFunc ?pi (pqBackoffQ p))"
    "pqNominated ?p' = npAdd pod [] (pqNominated p)" "backoffLess ?p' = backoffLess p"
    by (simp_all add: pqAdd_def Let_def h(1))
  have U: "unschedulable (pqUnschedulableQ ?p') = (unschedulable (pqUnschedulableQ p))(podKey pod := None)"
    unfolding p' using upDelete_view [OF parts(3) named] unschedulable_get [OF parts(3) named]
    by (simp add: fun_upd_idem)
  have "queueInv lessFn ?p' \<and> absQ ?p' = (absQ p)(podKey pod := placeOf (Some ?pi) None None)"
  proof (rule queue_upd [OF inv])
    show "upInv (pqUnschedulableQ ?p')" unfolding p' using upDelete_inv [OF parts(3)] parts(3) by simp
  qed (use h(2,3) bq.heapDelete_total [OF parts(2), of ?pi] nomination_add(1) [OF parts(4)] named U in \<open>simp_all add: p'\<close>)
  then show ?thesis by (simp add: pqAdd_def Let_def h(1))
qed

lemma AddUnschedulable_spec:
  assumes inv: "queueInv lessFn p" and named: "podNamed (piPod pi)"
  defines "k \<equiv> podKey (piPod pi)"
  shows "case absQ p k of
      Some (pl, _) \<Rightarrow> AddUnschedulableIfNotPresent clk pi cycle p =
        (p, Some (case pl of Active \<Rightarrow> QInActive | Backoff \<Rightarrow> QInBackoff | Unschedulable \<Rightarrow> QInUnschedulable))
    | None \<Rightarrow> \<exists>p'. AddUnschedulableIfNotPresent clk pi cycle p = (p', None) \<and> queueInv lessFn p' \<and>
        absQ p' = (absQ p)(k \<mapsto> (if sint cycle \<le> sint (pqMoveRequestCycle p) then Backoff else Unschedulable,
                                 pi\<lparr>piTimestamp := clk 0\<rparr>))"
proof -
  note parts = queueInv_parts [OF inv]
  let ?pi = "pi\<lparr>piTimestamp := clk 0\<rparr>"
  have get: "heapGet podInfoKeyFunc ?pi h = Inr (contents h k)" for h
    by (simp add: heapGet_contents k_def)
  have un: "upGet (piPod pi) (pqUnschedulableQ p) = unschedulable (pqUnschedulableQ p) k"
    unfolding k_def by (rule unschedulable_get [OF parts(3) named])
  note op = AddUnschedulableIfNotPresent_def Let_def get un
  show ?thesis
  proof (cases "absQ p k")
    case (Some plpi)
    then show ?thesis using inv
      by (auto simp: op absQ_def placeOf_def queueInv_def split: option.splits)
  next
    case None
    note no = absQ_None [OF None]
    obtain h where h: "heapAdd (backoffLess p) podInfoKeyFunc ?pi (pqBackoffQ p) = (h, None)"
        "heapInv (backoffLess p) podInfoKeyFunc h" "contents h = (contents (pqBackoffQ p))(k \<mapsto> ?pi)"
      using bq.heapAdd_spec [OF parts(2), of ?pi k] by (auto simp: k_def)
    let ?p' = "fst (AddUnschedulableIfNotPresent clk pi cycle p)" and ?c = "sint cycle \<le> sint (pqMoveRequestCycle p)"
    have p': "pqActiveQ ?p' = pqActiveQ p" "pqBackoffQ ?p' = (if ?c then h else pqBackoffQ p)"
      "pqUnschedulableQ ?p' = (if ?c then pqUnschedulableQ p else upAddOrUpdate ?pi (pqUnschedulableQ p))"
      "pqNominated ?p' = npAdd (piPod pi) [] (pqNominated p)" "backoffLess ?p' = backoffLess p"
      by (simp_all add: op no h(1))
    have "queueInv lessFn ?p' \<and> absQ ?p' = (absQ p)(k := placeOf None (if ?c then Some ?pi else None) (if ?c then None else Some ?pi))"
    proof (rule queue_upd [OF inv])
      show "podNamed (piPod pj)" if "(if ?c then Some ?pi else None) = Some pj" for pj
        using that named by (auto split: if_splits)
    qed (use h(2,3) upAddOrUpdate_inv [OF parts(3), of ?pi] upAddOrUpdate_view [OF parts(3), of ?pi]
           nomination_add(1) [OF parts(4)] named no parts in \<open>simp_all add: p' fun_upd_idem k_def split: if_splits\<close>)
    moreover have "AddUnschedulableIfNotPresent clk pi cycle p = (?p', None)" by (simp add: op no h(1))
    ultimately show ?thesis using None by (auto split: if_splits)
  qed
qed

lemma pqPop_spec:
  assumes inv: "queueInv lessFn p" and "absQ p k0 = Some (Active, pi0)"
  shows "\<exists>k pi p'. pqPop lessFn p = (p', Popped (pi\<lparr>piAttempts := piAttempts pi + 1\<rparr>)) \<and> queueInv lessFn p' \<and>
    absQ p k = Some (Active, pi) \<and> k = podKey (piPod pi) \<and> absQ p' = (absQ p)(k := None) \<and>
    pqSchedulingCycle p' = pqSchedulingCycle p + 1 \<and> pqMoveRequestCycle p' = pqMoveRequestCycle p \<and>
    (\<forall>k' pi'. absQ p k' = Some (Active, pi') \<longrightarrow> \<not> lessFn pi' pi)"
proof -
  note parts = queueInv_parts [OF inv] and places = absQ_places [OF inv]
  have ne: "contents (pqActiveQ p) k0 \<noteq> None" using assms(2) places by simp
  from heapPop_spec [OF parts(1) ne] obtain k pi h where
    h: "heapPop lessFn (pqActiveQ p) = (Inr pi, h)" "heapInv lessFn podInfoKeyFunc h"
      "contents (pqActiveQ p) k = Some pi" "podInfoKeyFunc pi = Some k"
      "contents h = (contents (pqActiveQ p))(k := None)"
      "\<forall>k' pi'. contents (pqActiveQ p) k' = Some pi' \<longrightarrow> \<not> lessFn pi' pi"
    by - (elim exE conjE, rule that, assumption+)
  have len: "heapLen (pqActiveQ p) \<noteq> 0" using heapLen_0_iff [OF parts(1)] ne by auto
  define p' where "p' = p\<lparr>pqActiveQ := h, pqSchedulingCycle := pqSchedulingCycle p + 1\<rparr>"
  have pop: "pqPop lessFn p = (p', Popped (pi\<lparr>piAttempts := piAttempts pi + 1\<rparr>))"
    using len by (simp add: pqPop_def h(1) p'_def)
  have no: "contents (pqBackoffQ p) k = None" "unschedulable (pqUnschedulableQ p) k = None"
    using inv h(3) by (auto simp: queueInv_def)
  have "queueInv lessFn p' \<and> absQ p' = (absQ p)(k := placeOf None None None)"
    by (rule queue_upd [OF inv]) (use h(2,5) parts no in \<open>simp_all add: p'_def fun_upd_idem\<close>)
  moreover have "k = podKey (piPod pi)" using h(4) by (simp add: podInfoKeyFunc_key)
  moreover have "absQ p k = Some (Active, pi)" using h(3) places by simp
  moreover have "\<forall>k' pi'. absQ p k' = Some (Active, pi') \<longrightarrow> \<not> lessFn pi' pi" using h(6) places(1) by simp
  ultimately show ?thesis using pop by (intro exI [of _ k] exI [of _ pi] exI [of _ p']) (simp add: p'_def)
qed

lemma pqPop_none:
  assumes inv: "queueInv lessFn p" and "\<And>k pi. absQ p k \<noteq> Some (Active, pi)"
  shows "pqPop lessFn p = (p, if pqClosed p then PopClosed else PopBlocked)"
proof -
  have "contents (pqActiveQ p) k = None" for k using assms(2) absQ_places(1) [OF inv] by (metis not_None_eq)
  then have "heapLen (pqActiveQ p) = 0" using heapLen_0_iff [OF queueInv_parts(1) [OF inv]] by auto
  then show ?thesis by (simp add: pqPop_def)
qed

lemma pqDelete_spec:
  assumes inv: "queueInv lessFn p" and named: "podNamed pod"
  shows "queueInv lessFn (pqDelete lessFn pod p) \<and> absQ (pqDelete lessFn pod p) = (absQ p)(podKey pod := None)"
proof -
  note parts = queueInv_parts [OF inv]
  let ?k = "podKey pod" and ?p' = "pqDelete lessFn pod p" and ?pi = "newPodInfoNoTimestamp pod"
  let ?a = "contents (pqActiveQ p) ?k"
  note del = heapDelete_total [OF parts(1), of ?pi ?k] and bdel = bq.heapDelete_total [OF parts(2), of ?pi ?k]
  have p': "pqActiveQ ?p' = fst (heapDelete lessFn podInfoKeyFunc ?pi (pqActiveQ p))"
    "pqBackoffQ ?p' = (if ?a = None then fst (heapDelete (backoffLess p) podInfoKeyFunc ?pi (pqBackoffQ p)) else pqBackoffQ p)"
    "pqUnschedulableQ ?p' = (if ?a = None then upDelete pod (pqUnschedulableQ p) else pqUnschedulableQ p)"
    "pqNominated ?p' = npDelete pod (pqNominated p)" "backoffLess ?p' = backoffLess p"
    using del(3) by (auto simp: pqDelete_def Let_def split: prod.splits option.splits)
  have no: "?a \<noteq> None \<Longrightarrow> contents (pqBackoffQ p) ?k = None \<and> unschedulable (pqUnschedulableQ p) ?k = None"
    using inv by (auto simp: queueInv_def)
  have "queueInv lessFn ?p' \<and> absQ ?p' = (absQ p)(?k := placeOf None None None)"
    by (rule queue_upd [OF inv])
      (use del bdel parts no upDelete_inv [OF parts(3)] upDelete_view [OF parts(3) named] npInv_delete [OF parts(4)]
       in \<open>simp_all add: p' fun_upd_idem split: if_splits\<close>)
  then show ?thesis by simp
qed

text \<open>Every branch that makes a pod active adds it to the active queue, with the other two no longer holding it.\<close>

lemma to_active:
  assumes inv: "queueInv lessFn p" and named: "podNamed (piPod pi)" and k: "podKey (piPod pi) = k"
    and bo: "heapInv (backoffLess p) podInfoKeyFunc b" "contents b = (contents (pqBackoffQ p))(k := None)"
    and un: "upInv u" "unschedulable u = (unschedulable (pqUnschedulableQ p))(k := None)" and np: "npInv n"
    and p': "\<And>h. heapAdd lessFn podInfoKeyFunc pi (pqActiveQ p) = (h, None) \<Longrightarrow>
      pqActiveQ p' = h \<and> pqBackoffQ p' = b \<and> pqUnschedulableQ p' = u \<and> pqNominated p' = n \<and> backoffLess p' = backoffLess p"
  shows "queueInv lessFn p' \<and> absQ p' = (absQ p)(k \<mapsto> (Active, pi))"
proof -
  note parts = queueInv_parts [OF inv]
  obtain h where h: "heapAdd lessFn podInfoKeyFunc pi (pqActiveQ p) = (h, None)"
      "heapInv lessFn podInfoKeyFunc h" "contents h = (contents (pqActiveQ p))(k \<mapsto> pi)"
    using heapAdd_spec [OF parts(1), of pi k] by (auto simp: k podInfoKeyFunc_key)
  have "queueInv lessFn p' \<and> absQ p' = (absQ p)(k := placeOf (Some pi) None None)"
    by (rule queue_upd [OF inv]) (use h(2,3) bo un np p' [OF h(1)] named in simp_all)
  then show ?thesis by simp
qed

lemma heapAdd_None:
  assumes "heapInv lessFn podInfoKeyFunc h"
  obtains h' where "heapAdd lessFn podInfoKeyFunc pi h = (h', None)"
  using heapAdd_spec [OF assms, of pi] by (auto simp: podInfoKeyFunc_key)

lemma pqUpdate_active:
  assumes inv: "queueInv lessFn p" and named: "podNamed new" and k: "podKey old = podKey new"
    and a: "absQ p (podKey new) = Some (Active, pi)"
  shows "\<exists>p'. pqUpdate lessFn clk (Some old) new p = (p', None) \<and> queueInv lessFn p' \<and>
    absQ p' = (absQ p)(podKey new \<mapsto> (Active, updatePod pi new))"
proof -
  note parts = queueInv_parts [OF inv]
  let ?k = "podKey new" and ?pi = "updatePod pi new"
  have c: "contents (pqActiveQ p) ?k = Some pi" using a absQ_places [OF inv] by simp
  have no: "contents (pqBackoffQ p) ?k = None" "unschedulable (pqUnschedulableQ p) ?k = None"
    using inv c by (auto simp: queueInv_def)
  obtain h where h: "heapAdd lessFn podInfoKeyFunc ?pi (pqActiveQ p) = (h, None)" using heapAdd_None [OF parts(1)] .
  define p' where "p' = p\<lparr>pqNominated := npUpdate old new (pqNominated p), pqActiveQ := h\<rparr>"
  have "pqUpdate lessFn clk (Some old) new p = (p', None)"
    using heapAdd_poke [of podInfoKeyFunc ?pi ?k lessFn "pqActiveQ p"] h k
    by (simp add: pqUpdate_def heapFind_contents c [unfolded podKey_def] Let_def heapUpdate_def p'_def podKey_def)
  moreover have "queueInv lessFn p' \<and> absQ p' = (absQ p)(?k \<mapsto> (Active, ?pi))"
    by (rule to_active [OF inv])
      (use h named no parts npInv_update [OF parts(4)] in \<open>auto simp: p'_def fun_upd_idem\<close>)
  ultimately show ?thesis by blast
qed

lemma pqUpdate_backoff:
  assumes inv: "queueInv lessFn p" and named: "podNamed new" and k: "podKey old = podKey new"
    and b: "absQ p (podKey new) = Some (Backoff, pi)"
  shows "\<exists>p'. pqUpdate lessFn clk (Some old) new p = (p', None) \<and> queueInv lessFn p' \<and>
    absQ p' = (absQ p)(podKey new \<mapsto> (Active, updatePod pi new)) \<and> pqBroadcasts p' = Suc (pqBroadcasts p)"
proof -
  note parts = queueInv_parts [OF inv]
  let ?k = "podKey new" and ?pi = "updatePod pi new"
  have c: "contents (pqBackoffQ p) ?k = Some pi" using b absQ_places [OF inv] by simp
  have no: "contents (pqActiveQ p) ?k = None" "unschedulable (pqUnschedulableQ p) ?k = None"
    using inv c by (auto simp: queueInv_def)
  have pk: "podInfoKeyFunc pi = Some ?k"
    using bq.get_key [OF parts(2)] c by (simp add: contents_get)
  obtain h where h: "heapAdd lessFn podInfoKeyFunc ?pi (pqActiveQ p) = (h, None)" using heapAdd_None [OF parts(1)] .
  define p' where "p' = broadcast (p\<lparr>pqNominated := npUpdate old new (pqNominated p),
     pqBackoffQ := fst (heapDelete (backoffLess p) podInfoKeyFunc pi (pqBackoffQ p)), pqActiveQ := h\<rparr>)"
  have "pqUpdate lessFn clk (Some old) new p = (p', None)"
    by (simp add: pqUpdate_def heapFind_contents k c no Let_def h p'_def)
  moreover have "queueInv lessFn p' \<and> absQ p' = (absQ p)(?k \<mapsto> (Active, ?pi))"
    by (rule to_active [OF inv])
      (use h named no parts npInv_update [OF parts(4)] bq.heapDelete_total [OF parts(2) pk]
       in \<open>auto simp: p'_def fun_upd_idem\<close>)
  moreover have "pqBroadcasts p' = Suc (pqBroadcasts p)" by (simp add: p'_def)
  ultimately show ?thesis by blast
qed

lemma pqUpdate_unschedulable:
  assumes inv: "queueInv lessFn p" and named: "podNamed new" and k: "podKey old = podKey new"
    and u: "absQ p (podKey new) = Some (Unschedulable, pi)"
  shows "\<exists>p'. pqUpdate lessFn clk (Some old) new p = (p', None) \<and> queueInv lessFn p' \<and>
    absQ p' = (absQ p)(podKey new \<mapsto> (if isPodUpdated old new then Active else Unschedulable, updatePod pi new)) \<and>
    pqBroadcasts p' = pqBroadcasts p + (if isPodUpdated old new then 1 else 0)"
proof -
  note parts = queueInv_parts [OF inv]
  let ?k = "podKey new" and ?pi = "updatePod pi new" and ?np = "npUpdate old new (pqNominated p)"
  have c: "unschedulable (pqUnschedulableQ p) ?k = Some pi" using u absQ_places [OF inv] by simp
  have no: "contents (pqActiveQ p) ?k = None" "contents (pqBackoffQ p) ?k = None"
    using inv c by (auto simp: queueInv_def)
  have pk: "podKey (piPod pi) = ?k" "podNamed (piPod pi)"
    using c unschedulable_iff [OF parts(3)] upInv_snd(2) [OF parts(3)] by auto
  have get: "upGet new (pqUnschedulableQ p) = Some pi" using unschedulable_get [OF parts(3) named] c by simp
  show ?thesis
  proof (cases "isPodUpdated old new")
    case True
    obtain h where h: "heapAdd lessFn podInfoKeyFunc ?pi (pqActiveQ p) = (h, None)" using heapAdd_None [OF parts(1)] .
    define p' where "p' = broadcast (p\<lparr>pqNominated := ?np,
        pqUnschedulableQ := upDelete (piPod pi) (pqUnschedulableQ p), pqActiveQ := h\<rparr>)"
    have "pqUpdate lessFn clk (Some old) new p = (p', None)"
      by (simp add: pqUpdate_def updateElsewhere_def heapFind_contents k no get Let_def True h p'_def)
    moreover have "queueInv lessFn p' \<and> absQ p' = (absQ p)(?k \<mapsto> (Active, ?pi))"
      by (rule to_active [OF inv])
        (use h named no parts npInv_update [OF parts(4)] upDelete_inv [OF parts(3)] upDelete_view [OF parts(3) pk(2)]
         in \<open>auto simp: p'_def fun_upd_idem pk(1)\<close>)
    moreover have "pqBroadcasts p' = Suc (pqBroadcasts p)" by (simp add: p'_def)
    ultimately show ?thesis using True by simp
  next
    case False
    define p' where "p' = p\<lparr>pqNominated := ?np, pqUnschedulableQ := upAddOrUpdate ?pi (pqUnschedulableQ p)\<rparr>"
    have "pqUpdate lessFn clk (Some old) new p = (p', None)"
      by (simp add: pqUpdate_def updateElsewhere_def heapFind_contents k no get Let_def False p'_def)
    moreover have "queueInv lessFn p' \<and> absQ p' = (absQ p)(?k := placeOf None None (Some ?pi))"
      by (rule queue_upd [OF inv])
        (use named no parts npInv_update [OF parts(4)] upAddOrUpdate_inv [OF parts(3), of ?pi]
           upAddOrUpdate_view [OF parts(3), of ?pi] in \<open>simp_all add: p'_def fun_upd_idem\<close>)
    ultimately show ?thesis using False by (simp add: p'_def)
  qed
qed

lemma pqUpdate_absent:
  assumes inv: "queueInv lessFn p" and named: "podNamed new" and k: "podKey old = podKey new"
    and none: "absQ p (podKey new) = None"
  shows "\<exists>p'. pqUpdate lessFn clk (Some old) new p = (p', None) \<and> queueInv lessFn p' \<and>
    absQ p' = (absQ p)(podKey new \<mapsto> (Active, newPodInfo (clk 0) new)) \<and> pqBroadcasts p' = Suc (pqBroadcasts p)"
proof -
  note parts = queueInv_parts [OF inv] and no = absQ_None [OF none]
  let ?k = "podKey new" and ?pi = "newPodInfo (clk 0) new"
  have get: "upGet new (pqUnschedulableQ p) = None" using unschedulable_get [OF parts(3) named] no by simp
  obtain h where h: "heapAdd lessFn podInfoKeyFunc ?pi (pqActiveQ p) = (h, None)" using heapAdd_None [OF parts(1)] .
  define p' where "p' = broadcast (p\<lparr>pqActiveQ := h, pqNominated := npAdd new [] (pqNominated p)\<rparr>)"
  have "pqUpdate lessFn clk (Some old) new p = (p', None)"
    by (simp add: pqUpdate_def updateElsewhere_def heapFind_contents k no get Let_def h p'_def)
  moreover have "queueInv lessFn p' \<and> absQ p' = (absQ p)(?k \<mapsto> (Active, ?pi))"
    by (rule to_active [OF inv])
      (use h named no parts nomination_add(1) [OF parts(4)] in \<open>auto simp: p'_def fun_upd_idem\<close>)
  moreover have "pqBroadcasts p' = Suc (pqBroadcasts p)" by (simp add: p'_def)
  ultimately show ?thesis by blast
qed

lemma pqUpdate_spec:
  assumes "queueInv lessFn p" and "podNamed new" and "podKey old = podKey new"
  shows "\<exists>p'. pqUpdate lessFn clk (Some old) new p = (p', None) \<and> queueInv lessFn p' \<and>
    absQ p' = (absQ p)(podKey new \<mapsto>
      (case absQ p (podKey new) of
         None \<Rightarrow> (Active, newPodInfo (clk 0) new)
       | Some (pl, pi) \<Rightarrow> (if pl = Unschedulable \<and> \<not> isPodUpdated old new then Unschedulable else Active, updatePod pi new)))"
proof (cases "absQ p (podKey new)")
  case None
  then show ?thesis using pqUpdate_absent [OF assms None, of clk] by auto
next
  case (Some plpi)
  obtain pl pi where "plpi = (pl, pi)" by fastforce
  with Some show ?thesis
    using pqUpdate_active [OF assms, of pi clk] pqUpdate_backoff [OF assms, of pi clk]
      pqUpdate_unschedulable [OF assms, of pi clk]
    by (cases pl) auto
qed

lemma movePod_spec:
  fixes clk :: clock and i :: nat
  assumes inv: "queueInv lessFn p" and u: "absQ p (podKey (piPod pi)) = Some (Unschedulable, pi)"
  defines "p' \<equiv> movePodsLoop lessFn clk i [pi] p"
  shows "queueInv lessFn p' \<and> absQ p' = (absQ p)(podKey (piPod pi) \<mapsto> (movedTo (clk i) p pi, pi))"
proof -
  note parts = queueInv_parts [OF inv]
  let ?k = "podKey (piPod pi)"
  have c: "unschedulable (pqUnschedulableQ p) ?k = Some pi" using u absQ_places [OF inv] by simp
  have no: "contents (pqActiveQ p) ?k = None" "contents (pqBackoffQ p) ?k = None"
    using inv c by (auto simp: queueInv_def)
  have named: "podNamed (piPod pi)" using c unschedulable_iff [OF parts(3)] upInv_snd(2) [OF parts(3)] by auto
  note del = upDelete_inv [OF parts(3)] upDelete_view [OF parts(3) named]
  show ?thesis
  proof (cases "isPodBackingoff (clk i) p pi")
    case True
    obtain h where h: "heapAdd (backoffLess p) podInfoKeyFunc pi (pqBackoffQ p) = (h, None)"
        "heapInv (backoffLess p) podInfoKeyFunc h" "contents h = (contents (pqBackoffQ p))(?k \<mapsto> pi)"
      using bq.heapAdd_spec [OF parts(2), of pi ?k] by (auto simp: podInfoKeyFunc_key)
    have "queueInv lessFn p' \<and> absQ p' = (absQ p)(?k := placeOf None (Some pi) None)"
      by (rule queue_upd [OF inv])
        (use h parts no named del True in \<open>simp_all add: p'_def fun_upd_idem\<close>)
    then show ?thesis using True by (simp add: movedTo_def)
  next
    case False
    obtain h where h: "heapAdd lessFn podInfoKeyFunc pi (pqActiveQ p) = (h, None)" using heapAdd_None [OF parts(1)] .
    have "queueInv lessFn p' \<and> absQ p' = (absQ p)(?k \<mapsto> (Active, pi))"
      by (rule to_active [OF inv])
        (use h parts no named del False in \<open>auto simp: p'_def fun_upd_idem\<close>)
    then show ?thesis using False by (simp add: movedTo_def)
  qed
qed

lemma movePodsLoop_spec:
  assumes "queueInv lessFn p" and "distinct (map (podKey \<circ> piPod) l)"
    and "\<And>pi. pi \<in> set l \<Longrightarrow> absQ p (podKey (piPod pi)) = Some (Unschedulable, pi)"
  shows "queueInv lessFn (movePodsLoop lessFn clk i l p) \<and>
    (\<forall>j < length l. absQ (movePodsLoop lessFn clk i l p) (podKey (piPod (l ! j))) = Some (movedTo (clk (i + j)) p (l ! j), l ! j)) \<and>
    (\<forall>k. k \<notin> podKey ` piPod ` set l \<longrightarrow> absQ (movePodsLoop lessFn clk i l p) k = absQ p k)"
  using assms
proof (induction l arbitrary: i p)
  case (Cons x l)
  let ?p1 = "movePodsLoop lessFn clk i [x] p" and ?kx = "podKey (piPod x)"
  have one: "queueInv lessFn ?p1" "absQ ?p1 = (absQ p)(?kx \<mapsto> (movedTo (clk i) p x, x))"
    using movePod_spec [OF Cons.prems(1), of x clk i] Cons.prems(3) [of x] by auto
  have x: "?kx \<notin> podKey ` piPod ` set l" using Cons.prems(2) by (auto simp: image_iff)
  have prems: "absQ ?p1 (podKey (piPod pi)) = Some (Unschedulable, pi)" if "pi \<in> set l" for pi
  proof -
    have "podKey (piPod pi) \<noteq> ?kx" using x that by (metis imageI)
    then show ?thesis using Cons.prems(3) [of pi] that by (simp add: one(2) del: movePodsLoop.simps)
  qed
  have dist: "distinct (map (podKey \<circ> piPod) l)" using Cons.prems(2) by (simp add: comp_def)
  note IH = Cons.IH [OF one(1) dist prems, where i = "Suc i"]
  have eq: "movePodsLoop lessFn clk i (x # l) p = movePodsLoop lessFn clk (Suc i) l ?p1" by simp
  have mv: "movedTo now ?p1 pi = movedTo now p pi" for now pi by (rule movedTo_params) (rule movePodsLoop_frame)+
  have at: "absQ (movePodsLoop lessFn clk i (x # l) p) (podKey (piPod ((x # l) ! j))) =
      Some (movedTo (clk (i + j)) p ((x # l) ! j), (x # l) ! j)" if "j < length (x # l)" for j
  proof (cases j)
    case 0
    then show ?thesis unfolding eq using IH x by (simp add: one(2) del: movePodsLoop.simps)
  next
    case (Suc j')
    then show ?thesis unfolding eq using IH that by (simp add: mv del: movePodsLoop.simps)
  qed
  have "absQ (movePodsLoop lessFn clk i (x # l) p) k = absQ p k" if "k \<notin> podKey ` piPod ` set (x # l)" for k
    unfolding eq using IH that by (simp add: one(2) del: movePodsLoop.simps)
  then show ?case using at IH unfolding eq by blast
qed simp

lemma movePods_spec:
  fixes clk :: clock and P :: "PodInfo \<Rightarrow> bool"
  assumes inv: "queueInv lessFn p"
  defines "p' \<equiv> movePodsToActiveOrBackoffQueue lessFn clk (filter P (map snd (upMap (pqUnschedulableQ p)))) p"
  shows "queueInv lessFn p' \<and> (\<forall>k. \<exists>j. absQ p' k = moveOut P (clk j) p (absQ p k))"
proof -
  note parts = queueInv_parts [OF inv] and places = absQ_places [OF inv]
  let ?l = "filter P (map snd (upMap (pqUnschedulableQ p)))"
  define q where "q = movePodsLoop lessFn clk 0 ?l p"
  note ul = unschedulable_list [OF parts(3)]
  have "distinct (map (podKey \<circ> piPod) ?l)" using ul(1) by (rule distinct_map_filter)
  moreover have mem: "absQ p (podKey (piPod pi)) = Some (Unschedulable, pi)" if "pi \<in> set ?l" for pi
    using that ul(2) [of pi] places(3) by simp
  ultimately have q: "queueInv lessFn q"
      "\<forall>j < length ?l. absQ q (podKey (piPod (?l ! j))) = Some (movedTo (clk (0 + j)) p (?l ! j), ?l ! j)"
      "\<forall>k. k \<notin> podKey ` piPod ` set ?l \<longrightarrow> absQ q k = absQ p k"
    using movePodsLoop_spec [OF inv, of ?l clk 0] unfolding q_def by blast+
  have p': "queueInv lessFn p' \<and> absQ p' = absQ q"
    by (rule queueInv_cong [OF q(1)])
      (use queueInv_parts(4) [OF q(1)] in \<open>simp_all add: p'_def movePodsToActiveOrBackoffQueue_def Let_def q_def\<close>)
  have "\<exists>j. absQ q k = moveOut P (clk j) p (absQ p k)" for k
  proof (cases "k \<in> podKey ` piPod ` set ?l")
    case True
    then obtain j where j: "j < length ?l" "k = podKey (piPod (?l ! j))" by (auto simp: in_set_conv_nth simp del: set_filter)
    have "?l ! j \<in> set ?l" using j(1) by (rule nth_mem)
    then have "P (?l ! j)" and "absQ p k = Some (Unschedulable, ?l ! j)" using mem j(2) by auto
    then show ?thesis using q(2) j by (auto simp: moveOut_def)
  next
    case False
    have "\<not> P pi" if "absQ p k = Some (Unschedulable, pi)" for pi
    proof -
      have "podKey (piPod pi) = k \<and> pi \<in> snd ` set (upMap (pqUnschedulableQ p))"
        using that places(3) unschedulable_iff [OF parts(3)] by simp
      then show ?thesis using False by auto
    qed
    then have "moveOut P (clk 0) p (absQ p k) = absQ p k"
      by (auto simp: moveOut_def split: option.split place.split)
    then show ?thesis using q(3) False by metis
  qed
  with p' show ?thesis by simp
qed

lemma MoveAll_spec:
  fixes clk :: clock
  assumes inv: "queueInv lessFn p"
  defines "p' \<equiv> MoveAllToActiveOrBackoffQueue lessFn clk p"
  shows "queueInv lessFn p' \<and> (\<forall>k. \<exists>j. absQ p' k = moveOut (\<lambda>_. True) (clk j) p (absQ p k))"
proof -
  let ?q = "movePodsToActiveOrBackoffQueue lessFn clk (map snd (upMap (pqUnschedulableQ p))) p"
  have q: "queueInv lessFn ?q" "\<forall>k. \<exists>j. absQ ?q k = moveOut (\<lambda>_. True) (clk j) p (absQ p k)"
    using movePods_spec [OF inv, of clk "\<lambda>_. True"] by simp_all
  have "queueInv lessFn p' \<and> absQ p' = absQ ?q"
    by (rule queueInv_cong [OF q(1)])
      (use queueInv_parts(4) [OF q(1)] in \<open>simp_all add: p'_def MoveAllToActiveOrBackoffQueue_def Let_def\<close>)
  with q(2) show ?thesis by simp
qed

lemma flushLeftover_spec:
  assumes inv: "queueInv lessFn p"
  shows "queueInv lessFn (flushUnschedulableQLeftover lessFn clk p) \<and>
    (\<forall>k. \<exists>j. absQ (flushUnschedulableQLeftover lessFn clk p) k =
       moveOut (\<lambda>pi. 60 * 10 ^ 9 < clk 0 - piTimestamp pi) (clk j) p (absQ p k))"
proof -
  let ?P = "\<lambda>pi. 60 * 10 ^ 9 < clk 0 - piTimestamp pi"
  let ?l = "filter ?P (map snd (upMap (pqUnschedulableQ p)))"
  show ?thesis
  proof (cases "?l = []")
    case True
    have "\<not> ?P pi" if "absQ p k = Some (Unschedulable, pi)" for k pi
    proof -
      have "pi \<in> snd ` set (upMap (pqUnschedulableQ p))"
        using that absQ_places(3) [OF inv] unschedulable_iff [OF queueInv_parts(3) [OF inv]] by simp
      then show ?thesis using True by (auto simp: filter_empty_conv)
    qed
    then have "moveOut ?P (clk 0) p (absQ p k) = absQ p k" for k
      by (auto simp: moveOut_def split: option.split place.split)
    then have "\<forall>k. \<exists>j. absQ p k = moveOut ?P (clk j) p (absQ p k)" by metis
    then show ?thesis unfolding flushUnschedulableQLeftover_def Let_def using True inv by simp
  next
    case False
    have "queueInv lessFn (movePodsToActiveOrBackoffQueue lessFn (\<lambda>i. clk (Suc i)) ?l p) \<and>
        (\<forall>k. \<exists>j. absQ (movePodsToActiveOrBackoffQueue lessFn (\<lambda>i. clk (Suc i)) ?l p) k = moveOut ?P (clk (Suc j)) p (absQ p k))"
      by (rule movePods_spec [OF inv, of "\<lambda>i. clk (Suc i)" ?P])
    then show ?thesis unfolding flushUnschedulableQLeftover_def Let_def using False by (simp only: if_True not_False_eq_True) blast
  qed
qed

lemma backoff_min:
  assumes inv: "queueInv lessFn p" and "heapPeek (pqBackoffQ p) = Some raw"
  shows "\<exists>h. heapPop (backoffLess p) (pqBackoffQ p) = (Inr raw, h) \<and> heapInv (backoffLess p) podInfoKeyFunc h \<and>
    contents (pqBackoffQ p) (podKey (piPod raw)) = Some raw \<and>
    contents h = (contents (pqBackoffQ p))(podKey (piPod raw) := None) \<and>
    (\<forall>k pi. contents (pqBackoffQ p) k = Some pi \<longrightarrow> \<not> backoffLess p pi raw)"
proof -
  note parts = queueInv_parts [OF inv]
  have ok: "dataOk (heapDat (pqBackoffQ p))" by (rule bq.heapInvD(1) [OF parts(2)])
  have "heapLen (pqBackoffQ p) \<noteq> 0" using assms(2) heapPeek_None_iff [OF ok] by auto
  then obtain k0 where "contents (pqBackoffQ p) k0 \<noteq> None"
    using bq.heapLen_0_iff [OF parts(2)] by (auto simp: fun_eq_iff)
  from bq.heapPop_spec [OF parts(2) this] obtain pi h k where
    h: "heapPop (backoffLess p) (pqBackoffQ p) = (Inr pi, h)" "heapInv (backoffLess p) podInfoKeyFunc h"
      "contents (pqBackoffQ p) k = Some pi" "podInfoKeyFunc pi = Some k"
      "contents h = (contents (pqBackoffQ p))(k := None)"
      "\<forall>k' pi'. contents (pqBackoffQ p) k' = Some pi' \<longrightarrow> \<not> backoffLess p pi' pi"
    by - (elim exE conjE, rule that, assumption+)
  have "raw = pi" using bq.heapPop_peek [OF parts(2) h(1)] assms(2) by simp
  moreover have "k = podKey (piPod pi)" using h(4) by (simp add: podInfoKeyFunc_key)
  ultimately show ?thesis using h by blast
qed

text \<open>The flush stops at a reading of the clock at which every pod left is still backing off, and moves only
  pods whose backoff was over.\<close>

lemma flushBackoffLoop_spec:
  assumes "queueInv lessFn p" and "heapLen (pqBackoffQ p) \<le> n"
  shows "queueInv lessFn (flushBackoffLoop lessFn clk n i p) \<and>
    (\<exists>j. \<forall>k pi. absQ (flushBackoffLoop lessFn clk n i p) k = Some (Backoff, pi) \<longrightarrow> isPodBackingoff (clk j) p pi) \<and>
    (\<forall>k. absQ (flushBackoffLoop lessFn clk n i p) k = absQ p k \<or>
       (\<exists>pi j. absQ p k = Some (Backoff, pi) \<and> \<not> isPodBackingoff (clk j) p pi \<and>
          absQ (flushBackoffLoop lessFn clk n i p) k = Some (Active, pi)))"
  using assms
proof (induction n arbitrary: i p)
  case 0
  then have "contents (pqBackoffQ p) = (\<lambda>_. None)" using bq.heapLen_0_iff [OF queueInv_parts(2) [OF 0(1)]] by simp
  then show ?case using 0(1) absQ_places(2) [OF 0(1)] by simp
next
  case (Suc n)
  note inv = Suc.prems(1)
  note parts = queueInv_parts [OF inv] and places = absQ_places [OF inv]
  show ?case
  proof (cases "heapPeek (pqBackoffQ p)")
    case None
    then have "heapLen (pqBackoffQ p) = 0" using heapPeek_None_iff [OF bq.heapInvD(1) [OF parts(2)]] by simp
    then have "contents (pqBackoffQ p) = (\<lambda>_. None)" using bq.heapLen_0_iff [OF parts(2)] by simp
    then show ?thesis using None inv places(2) by simp
  next
    case (Some raw)
    let ?k = "podKey (piPod raw)"
    from backoff_min [OF inv Some] obtain h where
      h: "heapPop (backoffLess p) (pqBackoffQ p) = (Inr raw, h)" "heapInv (backoffLess p) podInfoKeyFunc h"
        "contents (pqBackoffQ p) ?k = Some raw" "contents h = (contents (pqBackoffQ p))(?k := None)"
        "\<forall>k pi. contents (pqBackoffQ p) k = Some pi \<longrightarrow> \<not> backoffLess p pi raw"
      by - (elim exE conjE, rule that, assumption+)
    show ?thesis
    proof (cases "isPodBackingoff (clk i) p raw")
      case True
      have "isPodBackingoff (clk i) p pi" if "contents (pqBackoffQ p) k = Some pi" for k pi
      proof -
        have "\<not> backoffLess p pi raw" using h(5) that by simp
        with True show ?thesis by (simp add: isPodBackingoff_def backoffLess_def podsCompareBackoffCompleted_def)
      qed
      then have "\<exists>j. \<forall>k pi. absQ p k = Some (Backoff, pi) \<longrightarrow> isPodBackingoff (clk j) p pi" using places(2) by metis
      then show ?thesis using True Some inv by simp
    next
      case False
      define p1 where "p1 = broadcast (p\<lparr>pqBackoffQ := h,
          pqActiveQ := fst (heapAdd lessFn podInfoKeyFunc raw (pqActiveQ p))\<rparr>)"
      have eq: "flushBackoffLoop lessFn clk (Suc n) i p = flushBackoffLoop lessFn clk n (Suc i) p1"
        using Some False h(1) by (simp add: p1_def)
      have no: "unschedulable (pqUnschedulableQ p) ?k = None" and named: "podNamed (piPod raw)"
        using inv h(3) by (auto simp: queueInv_def)
      have p1: "queueInv lessFn p1 \<and> absQ p1 = (absQ p)(?k \<mapsto> (Active, raw))"
        by (rule to_active [OF inv]) (use h(2,4) named no parts in \<open>auto simp: p1_def fun_upd_idem\<close>)
      have bo: "isPodBackingoff now p1 pi = isPodBackingoff now p pi" for now pi
        by (simp add: p1_def isPodBackingoff_def)
      have "dom (contents h) = dom (contents (pqBackoffQ p)) - {?k}" using h(4) by auto
      moreover have "?k \<in> dom (contents (pqBackoffQ p))" using h(3) by auto
      ultimately have "heapLen (pqBackoffQ p1) \<le> n"
        using Suc.prems(2) heapLen_card [OF bq.heapInvD(1) [OF h(2)]] heapLen_card [OF bq.heapInvD(1) [OF parts(2)]]
        by (simp add: p1_def card_Diff_singleton)
      note IH = Suc.IH [OF conjunct1 [OF p1] this, of "Suc i", unfolded bo]
      have raw: "absQ p ?k = Some (Backoff, raw)" using h(3) places(2) by simp
      have "absQ (flushBackoffLoop lessFn clk (Suc n) i p) k = absQ p k \<or>
         (\<exists>pi j. absQ p k = Some (Backoff, pi) \<and> \<not> isPodBackingoff (clk j) p pi \<and>
          absQ (flushBackoffLoop lessFn clk (Suc n) i p) k = Some (Active, pi))" for k
      proof (cases "k = ?k")
        case True
        then have "absQ p1 k = Some (Active, raw)" using p1 by simp
        then have "absQ (flushBackoffLoop lessFn clk (Suc n) i p) k = Some (Active, raw)"
          using spec [OF conjunct2 [OF conjunct2 [OF IH]], of k] unfolding eq by simp
        with True False raw show ?thesis by blast
      next
        case False
        then have "absQ p1 k = absQ p k" using p1 by simp
        then show ?thesis using spec [OF conjunct2 [OF conjunct2 [OF IH]], of k] unfolding eq by simp
      qed
      then show ?thesis using IH unfolding eq by blast
    qed
  qed
qed

lemma flushBackoff_spec:
  assumes "queueInv lessFn p"
  shows "queueInv lessFn (flushBackoffQCompleted lessFn clk p) \<and>
    (\<exists>j. \<forall>k pi. absQ (flushBackoffQCompleted lessFn clk p) k = Some (Backoff, pi) \<longrightarrow> isPodBackingoff (clk j) p pi) \<and>
    (\<forall>k. absQ (flushBackoffQCompleted lessFn clk p) k = absQ p k \<or>
       (\<exists>pi j. absQ p k = Some (Backoff, pi) \<and> \<not> isPodBackingoff (clk j) p pi \<and>
          absQ (flushBackoffQCompleted lessFn clk p) k = Some (Active, pi)))"
  unfolding flushBackoffQCompleted_def by (rule flushBackoffLoop_spec [OF assms]) simp

lemma assigned_spec:
  assumes "queueInv lessFn p"
  shows "queueInv lessFn (fst (AssignedPodAdded lessFn clk pod p))"
  using movePods_spec [OF assms] matchingAffinity_filter
  by (fastforce simp: AssignedPodAdded_def getUnschedulablePodsWithMatchingAffinityTerm_def assms split: option.split)

lemma step_inv:
  assumes "queueStep lessFn p p'" and inv: "queueInv lessFn p"
  shows "queueInv lessFn p'"
  using assms(1)
proof cases
  case (step_add pod clk)
  then show ?thesis using pqAdd_spec [OF inv, of pod clk] by auto
next
  case (step_unschedulable pi clk cycle)
  then show ?thesis using AddUnschedulable_spec [OF inv, of pi clk cycle] inv
    by (auto split: option.splits)
next
  case step_pop
  show ?thesis
  proof (cases "\<exists>k pi. absQ p k = Some (Active, pi)")
    case True
    then show ?thesis using pqPop_spec [OF inv] step_pop by fastforce
  next
    case False
    then show ?thesis using pqPop_none [OF inv] step_pop inv by auto
  qed
next
  case (step_update old new clk)
  then show ?thesis using pqUpdate_spec [OF inv, of new old clk] by auto
next
  case (step_delete pod)
  then show ?thesis using pqDelete_spec [OF inv] by simp
next
  case (step_assigned clk pod)
  then show ?thesis using assigned_spec [OF inv] by simp
next
  case (step_move_all clk)
  then show ?thesis using MoveAll_spec [OF inv] by simp
next
  case (step_flush_backoff clk)
  then show ?thesis using flushBackoff_spec [OF inv] by simp
next
  case (step_flush_leftover clk)
  then show ?thesis using flushLeftover_spec [OF inv] by simp
qed (auto simp: UpdateNominatedPodForNode_def DeleteNominatedPodIfExists_def pqClose_def nomination_add(1) npInv_delete
  queueInv_parts(4) [OF inv] intro!: queueInv_cong [OF inv, THEN conjunct1])

lemma steps_inv:
  assumes "(queueStep lessFn)\<^sup>*\<^sup>* p p'" and "queueInv lessFn p"
  shows "queueInv lessFn p'"
  using assms by (induction rule: rtranclp_induct) (auto intro: step_inv)

lemma active_empty_iff:
  assumes inv: "queueInv lessFn p"
  shows "heapLen (pqActiveQ p) = 0 \<longleftrightarrow> (\<forall>k pi. absQ p k \<noteq> Some (Active, pi))"
proof -
  have "heapLen (pqActiveQ p) = 0 \<longleftrightarrow> (\<forall>k. contents (pqActiveQ p) k = None)"
    using heapLen_0_iff [OF queueInv_parts(1) [OF inv]] by (simp add: fun_eq_iff)
  then show ?thesis using absQ_places(1) [OF inv] by (metis not_None_eq)
qed

text \<open>A step that makes an empty active queue non-empty broadcasts, so a blocked \<open>Pop\<close> is woken.\<close>

lemma step_wakes:
  assumes "queueStep lessFn p p'" and inv: "queueInv lessFn p"
    and empty: "heapLen (pqActiveQ p) = 0" and some: "heapLen (pqActiveQ p') \<noteq> 0"
  shows "pqBroadcasts p < pqBroadcasts p'"
proof -
  note inv' = step_inv [OF assms(1) inv]
  have no: "absQ p k \<noteq> Some (Active, pi)" for k pi using empty active_empty_iff [OF inv] by blast
  obtain k pi where act: "absQ p' k = Some (Active, pi)" using some active_empty_iff [OF inv'] by auto
  show ?thesis using assms(1)
  proof cases
    case (step_add pod clk)
    then show ?thesis using pqAdd_spec [OF inv, of pod clk] by auto
  next
    case (step_unschedulable pi' clk cycle)
    then show ?thesis using AddUnschedulable_spec [OF inv, of pi' clk cycle] act no [of k pi]
      by (auto split: option.splits if_splits)
  next
    case step_pop
    then show ?thesis using act no pqPop_none [OF inv] by auto
  next
    case (step_update old new clk)
    note up = inv step_update(3,4)
    show ?thesis
    proof (cases "absQ p (podKey new)")
      case None
      then show ?thesis using pqUpdate_absent [OF up None, of clk] step_update(1) by auto
    next
      case (Some w)
      obtain pl pi' where w: "w = (pl, pi')" by fastforce
      show ?thesis
        using Some no pqUpdate_backoff [OF up, of pi' clk] pqUpdate_unschedulable [OF up, of pi' clk] step_update(1) act
        unfolding w by (cases pl) (auto split: if_splits)
    qed
  next
    case (step_delete pod)
    then show ?thesis using pqDelete_spec [OF inv, of pod] act no [of k pi] by (auto split: if_splits)
  next
    case (step_flush_backoff clk)
    then show ?thesis
      using flushBackoffLoop_broadcasts [of p lessFn clk "heapLen (pqBackoffQ p)" 0] empty some
      by (auto simp: flushBackoffQCompleted_def le_less)
  qed (use act no in \<open>auto simp: AssignedPodAdded_def MoveAllToActiveOrBackoffQueue_def flushUnschedulableQLeftover_def
     UpdateNominatedPodForNode_def DeleteNominatedPodIfExists_def pqClose_def absQ_def Let_def split: option.splits if_splits\<close>)
qed

end

interpretation qs: queue_sort prioritySortLess
  by (intro queue_sort.intro aq.keyed_heap_axioms)

lemma queueInv_new: "queueInv lessFn (NewPriorityQueue initB maxB)"
  by (simp add: queueInv_def NewPriorityQueue_def heapInv_new npInv_new upInv_def unschedulable_def)

lemma absQ_new: "absQ (NewPriorityQueue initB maxB) = (\<lambda>_. None)"
  by (rule ext) (simp add: absQ_def NewPriorityQueue_def unschedulable_def)

lemmas queue_sortI = queue_sort.intro [OF keyed_heap.intro]

lemma backoffLoop_spec:
  assumes "0 < sint d" and "sint d \<le> sint maxB" and "sint maxB < 2 ^ 62"
  shows "sint (backoffLoop maxB n d) = min (sint d * 2 ^ n) (sint maxB)"
  using assms(1,2)
proof (induction n arbitrary: d)
  case (Suc n)
  have two: "sint (2 :: i64) = 2" by simp
  have dbl: "sint (d * 2) = sint d * 2"
    using Suc.prems assms(3) sint_times64 [of d 2] unfolding two by simp
  show ?case
  proof (cases "sint maxB < sint (d * 2)")
    case True
    moreover have "sint d * 2 \<le> sint d * 2 ^ Suc n" using Suc.prems(1) by simp
    ultimately show ?thesis using dbl by (simp add: min_def del: power_Suc)
  next
    case False
    then have "sint (backoffLoop maxB n (d * 2)) = min (sint (d * 2) * 2 ^ n) (sint maxB)"
      using Suc.prems dbl by (intro Suc.IH) auto
    then show ?thesis using False by (simp add: dbl Let_def mult.assoc)
  qed
qed simp

lemma NewPriorityQueue_fields [simp]:
  "pqClosed (NewPriorityQueue initB maxB) = False" "pqSchedulingCycle (NewPriorityQueue initB maxB) = 0"
  "pqMoveRequestCycle (NewPriorityQueue initB maxB) = - 1" "pqBroadcasts (NewPriorityQueue initB maxB) = 0"
  "heapLen (pqActiveQ (NewPriorityQueue initB maxB)) = 0"
  by (simp_all add: NewPriorityQueue_def NewWithRecorder_def heapLen_def)

lemma samplePod_named: "podNamed samplePod"
  by (simp add: samplePod_def zeroPod_def zeroMeta_def podNamed_def namePart_def)

section \<open>Properties\<close>



text \<open>C22: \<open>AddUnschedulableIfNotPresent\<close> refuses a pod that is already queued, with the error of the queue
  that holds it and without any change; otherwise the pod waits, with a fresh timestamp, in the backoff queue
  when a move request came in since the pod's scheduling cycle, and in the unschedulable map when not.\<close>

theorem AddUnschedulable_places:
  assumes "weak_order lessFn" and "queueInv lessFn p" and "podNamed (piPod pi)"
  shows "case absQ p (podKey (piPod pi)) of
      Some (pl, _) \<Rightarrow> AddUnschedulableIfNotPresent clk pi cycle p =
        (p, Some (case pl of Active \<Rightarrow> QInActive | Backoff \<Rightarrow> QInBackoff | Unschedulable \<Rightarrow> QInUnschedulable))
    | None \<Rightarrow> \<exists>p'. AddUnschedulableIfNotPresent clk pi cycle p = (p', None) \<and> queueInv lessFn p' \<and>
        absQ p' = (absQ p)(podKey (piPod pi) \<mapsto>
          (if sint cycle \<le> sint (pqMoveRequestCycle p) then Backoff else Unschedulable, pi\<lparr>piTimestamp := clk 0\<rparr>))"
  by (rule queue_sort.AddUnschedulable_spec [OF queue_sortI [OF assms(1)] assms(2,3)])

theorem AddUnschedulable_places_witness:
  "\<exists>p'. AddUnschedulableIfNotPresent (\<lambda>_. 7) (newPodInfo 5 samplePod) 0 (NewPriorityQueue 1 10) = (p', None) \<and>
     absQ p' (podKey samplePod) = Some (Unschedulable, (newPodInfo 5 samplePod)\<lparr>piTimestamp := 7\<rparr>)"
  using AddUnschedulable_places [OF prioritySortLess_weak queueInv_new, of "newPodInfo 5 samplePod" "\<lambda>_. 7" 0 1 10]
    samplePod_named
  by (auto simp: absQ_new)

text \<open>C21: \<open>Pop\<close> hands out a pod no other active pod precedes, counts the attempt and the scheduling cycle, and
  removes exactly that pod; with no active pod it blocks, or reports that the queue is closed, and changes
  nothing.\<close>

theorem pop_best:
  assumes "weak_order lessFn" and "queueInv lessFn p"
  shows "if \<exists>k pi. absQ p k = Some (Active, pi) then
      \<exists>k pi p'. pqPop lessFn p = (p', Popped (pi\<lparr>piAttempts := piAttempts pi + 1\<rparr>)) \<and> queueInv lessFn p' \<and>
        absQ p k = Some (Active, pi) \<and> k = podKey (piPod pi) \<and> absQ p' = (absQ p)(k := None) \<and>
        pqSchedulingCycle p' = pqSchedulingCycle p + 1 \<and>
        (\<forall>k' pi'. absQ p k' = Some (Active, pi') \<longrightarrow> \<not> lessFn pi' pi)
    else pqPop lessFn p = (p, if pqClosed p then PopClosed else PopBlocked)"
proof (cases "\<exists>k pi. absQ p k = Some (Active, pi)")
  case True
  then obtain k0 pi0 where "absQ p k0 = Some (Active, pi0)" by blast
  from queue_sort.pqPop_spec [OF queue_sortI [OF assms(1)] assms(2) this] True show ?thesis by metis
next
  case False
  then show ?thesis using queue_sort.pqPop_none [OF queue_sortI [OF assms(1)] assms(2)] by auto
qed

theorem pop_best_witness:
  "\<exists>p'. pqPop prioritySortLess (fst (pqAdd prioritySortLess (\<lambda>_. 5) samplePod (NewPriorityQueue 1 10))) =
     (p', Popped ((newPodInfo 5 samplePod)\<lparr>piAttempts := 1\<rparr>))"
proof -
  from qs.pqAdd_spec [OF queueInv_new samplePod_named, of "\<lambda>_. 5" 1 10] obtain p where
    p: "pqAdd prioritySortLess (\<lambda>_. 5) samplePod (NewPriorityQueue 1 10) = (p, None)" "queueInv prioritySortLess p"
      "absQ p = [podKey samplePod \<mapsto> (Active, newPodInfo 5 samplePod)]"
    by (auto simp: absQ_new)
  then show ?thesis
    using pop_best [OF prioritySortLess_weak p(2)] by (auto simp: newPodInfo_def split: if_splits)
qed

text \<open>C7: every state the queue reaches from \<open>NewPriorityQueue\<close> by its operations satisfies the invariant: both
  heaps are ordered with their indexes and gauges right, the unschedulable map is keyed by its pods, the
  nominations agree, and no pod is in two queues.\<close>

theorem queue_reachable_inv:
  assumes "weak_order lessFn" and "(queueStep lessFn)\<^sup>*\<^sup>* (NewPriorityQueue initB maxB) p"
  shows "queueInv lessFn p"
  by (rule queue_sort.steps_inv [OF queue_sortI [OF assms(1)] assms(2) queueInv_new])

theorem queue_reachable_inv_witness:
  "queueInv prioritySortLess (fst (pqPop prioritySortLess (fst (pqAdd prioritySortLess (\<lambda>_. 5) samplePod (NewPriorityQueue 1 10)))))"
proof (rule queue_reachable_inv [OF prioritySortLess_weak])
  let ?q = "NewPriorityQueue 1 10" and ?step = "queueStep prioritySortLess"
  have "?step ?q (fst (pqAdd prioritySortLess (\<lambda>_. 5) samplePod ?q))" by (rule step_add [OF samplePod_named])
  then have "?step\<^sup>*\<^sup>* ?q (fst (pqAdd prioritySortLess (\<lambda>_. 5) samplePod ?q))" by (rule r_into_rtranclp)
  then show "?step\<^sup>*\<^sup>* ?q (fst (pqPop prioritySortLess (fst (pqAdd prioritySortLess (\<lambda>_. 5) samplePod ?q))))"
    by (rule rtranclp.rtrancl_into_rtrancl) (rule step_pop)
qed

text \<open>C15: a step that makes an empty active queue non-empty broadcasts on the queue's condition, so a \<open>Pop\<close>
  waiting on it is woken whenever there is something to pop.\<close>

theorem queue_wakes:
  assumes "weak_order lessFn" and "queueInv lessFn p" and "queueStep lessFn p p'"
    and "heapLen (pqActiveQ p) = 0" and "heapLen (pqActiveQ p') \<noteq> 0"
  shows "pqBroadcasts p < pqBroadcasts p'"
  by (rule queue_sort.step_wakes [OF queue_sortI [OF assms(1)] assms(3,2,4,5)])

theorem queue_wakes_witness:
  "0 < pqBroadcasts (fst (pqAdd prioritySortLess (\<lambda>_. 5) samplePod (NewPriorityQueue 1 10)))"
proof -
  let ?q = "NewPriorityQueue 1 10" and ?p' = "fst (pqAdd prioritySortLess (\<lambda>_. 5) samplePod (NewPriorityQueue 1 10))"
  have "queueInv prioritySortLess ?p'" "absQ ?p' (podKey samplePod) = Some (Active, newPodInfo 5 samplePod)"
    using qs.pqAdd_spec [OF queueInv_new samplePod_named, of "\<lambda>_. 5" 1 10] by auto
  then have "heapLen (pqActiveQ ?p') \<noteq> 0" using qs.active_empty_iff by blast
  with queue_wakes [OF prioritySortLess_weak queueInv_new step_add [OF samplePod_named], of 1 10 "\<lambda>_. 5"]
  show ?thesis by simp
qed



text \<open>C23: the backoff of a pod is the initial backoff doubled once per attempt after the first, cut at the
  maximum, and always between the two; with a maximum below \<open>2\<^sup>6\<^sup>2\<close> nanoseconds the doubling never overflows.\<close>

theorem backoff_bounds:
  assumes "0 < sint initB" and "sint initB \<le> sint maxB" and "sint maxB < 2 ^ 62"
  shows "sint (calculateBackoffDuration initB maxB pi) = min (sint initB * 2 ^ nat (piAttempts pi - 1)) (sint maxB) \<and>
    sint initB \<le> sint (calculateBackoffDuration initB maxB pi) \<and>
    sint (calculateBackoffDuration initB maxB pi) \<le> sint maxB"
proof -
  have "sint initB * 1 \<le> sint initB * 2 ^ nat (piAttempts pi - 1)" using assms(1) by (intro mult_left_mono) auto
  then show ?thesis using backoffLoop_spec [OF assms] assms(2) by (simp add: calculateBackoffDuration_def)
qed

theorem backoff_bounds_witness:
  "sint (calculateBackoffDuration 1000000000 10000000000 ((newPodInfo 0 samplePod)\<lparr>piAttempts := 3\<rparr>)) = 4000000000"
  using backoff_bounds [of 1000000000 10000000000 "(newPodInfo 0 samplePod)\<lparr>piAttempts := 3\<rparr>"] by simp

text \<open>A backoff maximum of \<open>2\<^sup>6\<^sup>2\<close> nanoseconds or more lets the doubling overflow to a negative duration, which
  is not cut.\<close>

lemma backoff_overflow:
  "sint (calculateBackoffDuration (2 ^ 62) maxInt64 ((newPodInfo 0 samplePod)\<lparr>piAttempts := 2\<rparr>)) = - (2 ^ 63)"
  by (simp add: calculateBackoffDuration_def numeral_eq_Suc maxInt64_def)

end
