(* ===== verification/WorkQueue.thy ===== *)
theory WorkQueue
  imports Prelude
begin

text \<open>
  The work queue of the controllers (\<open>client-go/util/workqueue/queue.go\<close>), and the system of workers that get
  items from it, process them and report them done while other goroutines add items. Every method holds the
  queue's mutex, so each is one step. \<open>wqSignals\<close> counts the wake-ups sent to waiting workers; a \<open>Get\<close> that has
  to wait is the outcome \<open>GetBlocked\<close>. The metrics are not modelled.
\<close>

section \<open>Model\<close>

record 'a WorkQueue =
  wqQueue :: "'a list"
  wqDirty :: "'a set"
  wqProcessing :: "'a set"
  wqShuttingDown :: bool
  wqSignals :: nat

definition newQueue :: "'a WorkQueue" where
  "newQueue = \<lparr>wqQueue = [], wqDirty = {}, wqProcessing = {}, wqShuttingDown = False, wqSignals = 0\<rparr>"

definition wqSignal :: "'a WorkQueue \<Rightarrow> 'a WorkQueue" where
  "wqSignal q = q\<lparr>wqSignals := Suc (wqSignals q)\<rparr>"

definition wqAdd :: "'a \<Rightarrow> 'a WorkQueue \<Rightarrow> 'a WorkQueue" where
  "wqAdd item q =
     (if wqShuttingDown q then q
      else if item \<in> wqDirty q then q
      else (let q = q\<lparr>wqDirty := insert item (wqDirty q)\<rparr> in
            if item \<in> wqProcessing q then q
            else wqSignal (q\<lparr>wqQueue := wqQueue q @ [item]\<rparr>)))"

definition wqLen :: "'a WorkQueue \<Rightarrow> nat" where
  "wqLen q = length (wqQueue q)"

datatype 'a getResult = Got 'a | GetShutdown | GetBlocked

definition wqGet :: "'a WorkQueue \<Rightarrow> 'a WorkQueue \<times> 'a getResult" where
  "wqGet q =
     (case wqQueue q of
        [] \<Rightarrow> (q, if wqShuttingDown q then GetShutdown else GetBlocked)
      | item # rest \<Rightarrow>
          (q\<lparr>wqQueue := rest, wqProcessing := insert item (wqProcessing q), wqDirty := wqDirty q - {item}\<rparr>, Got item))"

definition wqDone :: "'a \<Rightarrow> 'a WorkQueue \<Rightarrow> 'a WorkQueue" where
  "wqDone item q =
     (let q = q\<lparr>wqProcessing := wqProcessing q - {item}\<rparr> in
      if item \<in> wqDirty q then wqSignal (q\<lparr>wqQueue := wqQueue q @ [item]\<rparr>) else q)"

definition wqShutDown :: "'a WorkQueue \<Rightarrow> 'a WorkQueue" where
  "wqShutDown q = wqSignal (q\<lparr>wqShuttingDown := True\<rparr>)"

definition ShuttingDown :: "'a WorkQueue \<Rightarrow> bool" where
  "ShuttingDown q = wqShuttingDown q"

section \<open>Workers\<close>

text \<open>Each worker holds the item it is processing, if any; a worker calls \<open>Done\<close> with the item it got.\<close>

type_synonym ('w, 'a) sys = "'a WorkQueue \<times> ('w \<Rightarrow> 'a option)"

datatype ('w, 'a) wqEvent = EvAdd 'a | EvGet 'w | EvDone 'w | EvShutDown

fun sysStep :: "('w, 'a) wqEvent \<Rightarrow> ('w, 'a) sys \<Rightarrow> ('w, 'a) sys" where
  "sysStep (EvAdd item) (q, held) = (wqAdd item q, held)"
| "sysStep (EvGet w) (q, held) =
     (if held w \<noteq> None then (q, held)
      else (case wqGet q of (q', Got item) \<Rightarrow> (q', held(w \<mapsto> item)) | (q', _) \<Rightarrow> (q', held)))"
| "sysStep (EvDone w) (q, held) =
     (case held w of None \<Rightarrow> (q, held) | Some item \<Rightarrow> (wqDone item q, held(w := None)))"
| "sysStep EvShutDown (q, held) = (wqShutDown q, held)"

definition sysRun :: "('w, 'a) wqEvent list \<Rightarrow> ('w, 'a) sys \<Rightarrow> ('w, 'a) sys" where
  "sysRun evs s = fold sysStep evs s"

definition sysInit :: "('w, 'a) sys" where
  "sysInit = (newQueue, \<lambda>_. None)"

text \<open>The item an event hands out, and the items a run hands out.\<close>

fun sysGot :: "('w, 'a) wqEvent \<Rightarrow> ('w, 'a) sys \<Rightarrow> 'a option" where
  "sysGot (EvGet w) (q, held) =
     (if held w \<noteq> None then None else (case wqGet q of (_, Got item) \<Rightarrow> Some item | _ \<Rightarrow> None))"
| "sysGot ev s = None"

fun sysGets :: "('w, 'a) wqEvent list \<Rightarrow> ('w, 'a) sys \<Rightarrow> 'a list" where
  "sysGets [] s = []"
| "sysGets (ev # evs) s =
     (case sysGot ev s of None \<Rightarrow> sysGets evs (sysStep ev s) | Some x \<Rightarrow> x # sysGets evs (sysStep ev s))"

section \<open>Invariant\<close>

text \<open>The comment of the struct, and what makes it work: the queue holds exactly the dirty items that are not
  being processed, once each; what is being processed is what the workers hold, and no two hold the same.\<close>

fun sysInv :: "('w, 'a) sys \<Rightarrow> bool" where
  "sysInv (q, held) \<longleftrightarrow>
     distinct (wqQueue q) \<and> set (wqQueue q) = wqDirty q - wqProcessing q \<and> wqProcessing q = ran held \<and>
     inj_on held (dom held)"

lemma sysInv_init: "sysInv sysInit"
  by (simp add: sysInit_def newQueue_def)

lemma ran_clear:
  assumes "inj_on held (dom held)" and "held w = Some x"
  shows "ran (held(w := None)) = ran held - {x}"
proof -
  have "held v \<noteq> Some x" if "v \<noteq> w" for v using assms that by (auto simp: inj_on_def dom_def)
  then show ?thesis using assms(2) by (auto simp: ran_def) (metis option.inject)
qed

lemma inj_clear: "inj_on held (dom held) \<Longrightarrow> inj_on (held(w := None)) (dom (held(w := None)))"
  by (auto simp: inj_on_def)

lemma inj_set: "inj_on held (dom held) \<Longrightarrow> x \<notin> ran held \<Longrightarrow> held w = None \<Longrightarrow> inj_on (held(w \<mapsto> x)) (dom (held(w \<mapsto> x)))"
  by (auto simp: inj_on_def ran_def)

lemma sysInv_step: "sysInv s \<Longrightarrow> sysInv (sysStep ev s)"
proof (cases s; cases ev)
  fix q held w
  assume inv: "sysInv s" and s: "s = (q, held)" and ev: "ev = EvGet w"
  show "sysInv (sysStep ev s)"
  proof (cases "wqQueue q")
    case (Cons x rest)
    have x: "x \<in> wqDirty q" "x \<notin> ran held" using inv s Cons by auto
    show ?thesis
    proof (cases "held w")
      case None
      have "set rest = set (wqQueue q) - {x}" using inv s Cons by auto
      then show ?thesis using inv s ev Cons None x inj_set [of held x w] by (auto simp: wqGet_def)
    qed (use inv s ev in simp)
  qed (use inv s ev in \<open>auto simp: wqGet_def\<close>)
next
  fix q held w
  assume inv: "sysInv s" and s: "s = (q, held)" and ev: "ev = EvDone w"
  show "sysInv (sysStep ev s)"
  proof (cases "held w")
    case (Some x)
    then have "x \<in> wqProcessing q" using inv s by (auto simp: ran_def)
    then show ?thesis using inv s ev Some ran_clear [of held w x] inj_clear [of held w]
      by (auto simp: wqDone_def Let_def wqSignal_def)
  qed (use inv s ev in simp)
qed (auto simp: wqAdd_def wqSignal_def wqShutDown_def Let_def)

lemma sysRun_simps [simp]: "sysRun [] s = s" "sysRun (ev # evs) s = sysRun evs (sysStep ev s)"
  by (simp_all add: sysRun_def)

lemma sysInv_run: "sysInv s \<Longrightarrow> sysInv (sysRun evs s)"
  by (induction evs arbitrary: s) (simp_all del: sysInv.simps add: sysInv_step)

section \<open>Order and completeness\<close>

lemma sysStep_queue:
  "\<exists>new. (case sysGot ev s of None \<Rightarrow> [] | Some x \<Rightarrow> [x]) @ wqQueue (fst (sysStep ev s)) = wqQueue (fst s) @ new \<and>
     wqSignals (fst s) + length new \<le> wqSignals (fst (sysStep ev s))"
proof (cases s; cases ev)
  fix q held w assume "s = (q, held)" "ev = EvGet w"
  then show ?thesis by (cases "wqQueue q") (auto simp: wqGet_def)
qed (auto simp: wqAdd_def wqDone_def wqShutDown_def wqSignal_def Let_def split: option.split)

text \<open>The items handed out are, in order, the items queued at the start and then the ones appended since; each
  append woke a worker.\<close>

lemma sysGets_fifo:
  "\<exists>new. sysGets evs s @ wqQueue (fst (sysRun evs s)) = wqQueue (fst s) @ new \<and>
     wqSignals (fst s) + length new \<le> wqSignals (fst (sysRun evs s))"
proof (induction evs arbitrary: s)
  case (Cons ev evs)
  from sysStep_queue [of ev s] obtain n1 where
    n1: "(case sysGot ev s of None \<Rightarrow> [] | Some x \<Rightarrow> [x]) @ wqQueue (fst (sysStep ev s)) = wqQueue (fst s) @ n1"
      "wqSignals (fst s) + length n1 \<le> wqSignals (fst (sysStep ev s))" by blast
  from Cons.IH [of "sysStep ev s"] obtain n2 where
    n2: "sysGets evs (sysStep ev s) @ wqQueue (fst (sysRun evs (sysStep ev s))) = wqQueue (fst (sysStep ev s)) @ n2"
      "wqSignals (fst (sysStep ev s)) + length n2 \<le> wqSignals (fst (sysRun evs (sysStep ev s)))" by blast
  have "sysGets (ev # evs) s @ wqQueue (fst (sysRun (ev # evs) s)) = wqQueue (fst s) @ (n1 @ n2)"
    using n1(1) n2(1) by (cases "sysGot ev s") (simp_all flip: append_assoc)
  then show ?case using n1(2) n2(2) by (intro exI [of _ "n1 @ n2"]) simp
qed simp

lemma sysStep_dirty: "x \<in> wqDirty (fst s) \<Longrightarrow> x \<in> wqDirty (fst (sysStep ev s)) \<or> sysGot ev s = Some x"
proof (cases s; cases ev)
  fix q held w assume "x \<in> wqDirty (fst s)" "s = (q, held)" "ev = EvGet w"
  then show ?thesis by (cases "wqQueue q") (auto simp: wqGet_def)
qed (auto simp: wqAdd_def wqDone_def wqShutDown_def wqSignal_def Let_def split: option.split)

lemma sysRun_dirty: "x \<in> wqDirty (fst s) \<Longrightarrow> x \<in> wqDirty (fst (sysRun evs s)) \<or> x \<in> set (sysGets evs s)"
proof (induction evs arbitrary: s)
  case (Cons ev evs)
  show ?case using Cons.IH [of "sysStep ev s"] sysStep_dirty [OF Cons.prems, of ev] by (auto split: option.split)
qed simp

section \<open>Properties\<close>

text \<open>C19: whatever the workers and the adders do, and in whatever order, no item is processed by two workers at
  a time, and the queue holds each dirty item that is not being processed exactly once and nothing else.\<close>

theorem wq_exclusive:
  "let (q, held) = sysRun evs sysInit in
     (\<forall>w v x. held w = Some x \<and> held v = Some x \<longrightarrow> w = v) \<and> wqProcessing q = ran held \<and>
     distinct (wqQueue q) \<and> set (wqQueue q) = wqDirty q - wqProcessing q"
  using sysInv_run [OF sysInv_init, of evs] by (auto simp: inj_on_def dom_def split: prod.split)

theorem wq_exclusive_witness:
  "let (q, held) = sysRun [EvAdd 7, EvGet True, EvAdd 7, EvGet False, EvDone True, EvGet False] sysInit in
     held False = Some (7 :: nat) \<and> held True = None \<and> wqQueue q = []"
  using wq_exclusive [of "[EvAdd (7 :: nat), EvGet True, EvAdd 7, EvGet False, EvDone True, EvGet False]"]
  by (simp add: sysInit_def newQueue_def wqAdd_def wqGet_def wqDone_def wqSignal_def Let_def)

text \<open>C20: an added item is not lost: in any reachable state that is not shutting down, an added item stays dirty
  until it is handed out; a dirty item is queued or held by a worker whose \<open>Done\<close> queues it; and an item
  queued behind \<open>i\<close> others is the next but \<open>i\<close> item handed out, with a wake-up for every append.\<close>

theorem wq_no_lost_add:
  assumes "sysRun evs0 sysInit = (q, held)" and "\<not> wqShuttingDown q" and "wqAdd x q = q'"
  shows "(x \<in> wqDirty (fst (sysRun evs (q', held))) \<or> x \<in> set (sysGets evs (q', held))) \<and>
    (x \<in> set (wqQueue q') \<or> (\<exists>w. held w = Some x \<and> x \<in> set (wqQueue (fst (sysStep (EvDone w) (q', held)))))) \<and>
    (\<forall>i < length (wqQueue q'). i < length (sysGets evs (q', held)) \<longrightarrow> sysGets evs (q', held) ! i = wqQueue q' ! i) \<and>
    wqSignals q' + length (sysGets evs (q', held)) + length (wqQueue (fst (sysRun evs (q', held)))) \<le>
      wqSignals (fst (sysRun evs (q', held))) + length (wqQueue q')"
proof -
  have inv: "sysInv (q', held)"
    using sysInv_step [OF sysInv_run [OF sysInv_init, of evs0], of "EvAdd x"] assms(1,3) by simp
  have x: "x \<in> wqDirty q'" using assms(2,3) by (auto simp: wqAdd_def wqSignal_def Let_def)
  have "x \<in> set (wqQueue q') \<or> (\<exists>w. held w = Some x)" using inv x by (auto simp: ran_def)
  then have "x \<in> set (wqQueue q') \<or> (\<exists>w. held w = Some x \<and> x \<in> set (wqQueue (fst (sysStep (EvDone w) (q', held)))))"
    using x by (auto simp: wqDone_def wqSignal_def Let_def)
  moreover obtain new where new: "sysGets evs (q', held) @ wqQueue (fst (sysRun evs (q', held))) = wqQueue q' @ new"
      "wqSignals q' + length new \<le> wqSignals (fst (sysRun evs (q', held)))"
    using sysGets_fifo [of evs "(q', held)"] by auto
  moreover have "sysGets evs (q', held) ! i = wqQueue q' ! i"
    if "i < length (wqQueue q')" "i < length (sysGets evs (q', held))" for i
    using arg_cong [OF new(1), of "\<lambda>l. l ! i"] that by (simp add: nth_append)
  moreover have "length (sysGets evs (q', held)) + length (wqQueue (fst (sysRun evs (q', held)))) =
      length (wqQueue q') + length new"
    using arg_cong [OF new(1), of length] by simp
  ultimately show ?thesis using sysRun_dirty [of x "(q', held)" evs] x by auto
qed

theorem wq_no_lost_add_witness:
  "wqAdd (7 :: nat) newQueue = \<lparr>wqQueue = [7], wqDirty = {7}, wqProcessing = {}, wqShuttingDown = False, wqSignals = 1\<rparr> \<and>
   7 \<in> wqDirty (fst (sysRun [EvGet True] (wqAdd 7 newQueue, \<lambda>_. None))) \<union> set (sysGets [EvGet True] (wqAdd 7 newQueue, \<lambda>_. None))"
  using wq_no_lost_add [of "[]" newQueue "\<lambda>_. None" "7 :: nat" "wqAdd 7 newQueue" "[EvGet True]"]
  by (simp add: sysInit_def newQueue_def wqAdd_def wqSignal_def wqGet_def)

end
