(* ===== verification/NodeTree.thy ===== *)
theory NodeTree
  imports ApiTypes "HOL-Library.Multiset"
begin

text \<open>
  The tree of node names by zone that gives the scheduler its node order
  (\<open>pkg/scheduler/internal/cache/node_tree.go\<close>). The loop of \<open>next\<close> is a partial function, so a loop that never
  ends would be \<open>None\<close>; following a nil pointer is \<open>TreePanic\<close>.
\<close>

section \<open>Model\<close>

record nodeArray =
  naNodes :: "string list"
  naLastIndex :: nat

record nodeTree =
  ntTree :: "(string, nodeArray) gomap"
  ntZones :: "string list"
  ntZoneIndex :: nat
  ntNumNodes :: int

datatype treeErr = NodeNotFound | TreePanic

definition arrayNext :: "nodeArray \<Rightarrow> nodeArray \<times> string \<times> bool" where
  "arrayNext na =
     (if naNodes na = [] then (na, [], False)
      else if length (naNodes na) \<le> naLastIndex na then (na, [], True)
      else (na\<lparr>naLastIndex := Suc (naLastIndex na)\<rparr>, naNodes na ! naLastIndex na, False))"

definition ntAddNode :: "Node \<Rightarrow> nodeTree \<Rightarrow> nodeTree" where
  "ntAddNode n nt =
     (let zone = GetZoneKey n; name = omName (nodeMeta n) in
      case mget (ntTree nt) zone of
        Some na \<Rightarrow>
          if list_ex (\<lambda>x. x = name) (naNodes na) then nt
          else nt\<lparr>ntTree := mput zone (na\<lparr>naNodes := naNodes na @ [name]\<rparr>) (ntTree nt), ntNumNodes := ntNumNodes nt + 1\<rparr>
      | None \<Rightarrow>
          nt\<lparr>ntZones := ntZones nt @ [zone], ntTree := mput zone \<lparr>naNodes = [name], naLastIndex = 0\<rparr> (ntTree nt),
             ntNumNodes := ntNumNodes nt + 1\<rparr>)"

definition newNodeTree :: "Node list \<Rightarrow> nodeTree" where
  "newNodeTree nodes = fold ntAddNode nodes \<lparr>ntTree = [], ntZones = [], ntZoneIndex = 0, ntNumNodes = 0\<rparr>"

definition removeZone :: "string \<Rightarrow> nodeTree \<Rightarrow> nodeTree" where
  "removeZone zone nt =
     (let nt = nt\<lparr>ntTree := mdel zone (ntTree nt)\<rparr> in
      case find_idx (\<lambda>z. z = zone) (ntZones nt) of
        Some i \<Rightarrow> nt\<lparr>ntZones := remove_at i (ntZones nt)\<rparr>
      | None \<Rightarrow> nt)"

definition ntRemoveNode :: "Node \<Rightarrow> nodeTree \<Rightarrow> nodeTree \<times> treeErr option" where
  "ntRemoveNode n nt =
     (let zone = GetZoneKey n; name = omName (nodeMeta n) in
      case mget (ntTree nt) zone of
        None \<Rightarrow> (nt, Some NodeNotFound)
      | Some na \<Rightarrow>
          (case find_idx (\<lambda>x. x = name) (naNodes na) of
             None \<Rightarrow> (nt, Some NodeNotFound)
           | Some i \<Rightarrow>
               (let nodes = remove_at i (naNodes na);
                    nt = nt\<lparr>ntTree := mput zone (na\<lparr>naNodes := nodes\<rparr>) (ntTree nt)\<rparr>;
                    nt = (if nodes = [] then removeZone zone nt else nt)
                in (nt\<lparr>ntNumNodes := ntNumNodes nt - 1\<rparr>, None))))"

definition ntUpdateNode :: "Node option \<Rightarrow> Node \<Rightarrow> nodeTree \<Rightarrow> nodeTree \<times> treeErr option" where
  "ntUpdateNode old new nt =
     (let oldZone = (case old of Some n \<Rightarrow> GetZoneKey n | None \<Rightarrow> []); newZone = GetZoneKey new in
      if oldZone = newZone then (nt, None)
      else (case old of
              None \<Rightarrow> (nt, Some TreePanic)
            | Some n \<Rightarrow> (ntAddNode new (fst (ntRemoveNode n nt)), None)))"

definition resetExhausted :: "nodeTree \<Rightarrow> nodeTree" where
  "resetExhausted nt =
     nt\<lparr>ntTree := map (\<lambda>(z, na). (z, na\<lparr>naLastIndex := 0\<rparr>)) (ntTree nt), ntZoneIndex := 0\<rparr>"

partial_function (option) nextLoop :: "nat \<Rightarrow> nodeTree \<Rightarrow> (nodeTree \<times> (treeErr + string)) option" where
  "nextLoop numExhaustedZones nt =
     (let nt = nt\<lparr>ntZoneIndex := (if length (ntZones nt) \<le> ntZoneIndex nt then 0 else ntZoneIndex nt)\<rparr>;
          zone = ntZones nt ! ntZoneIndex nt;
          nt = nt\<lparr>ntZoneIndex := Suc (ntZoneIndex nt)\<rparr>
      in case mget (ntTree nt) zone of
           None \<Rightarrow> Some (nt, Inl TreePanic)
         | Some na \<Rightarrow>
             (case arrayNext na of
                (na', name, exhausted) \<Rightarrow>
                  (let nt = nt\<lparr>ntTree := mput zone na' (ntTree nt)\<rparr> in
                   if exhausted then
                     nextLoop (Suc numExhaustedZones)
                       (if length (ntZones nt) \<le> Suc numExhaustedZones then resetExhausted nt else nt)
                   else Some (nt, Inr name))))"

declare nextLoop.simps [code]

definition ntNext :: "nodeTree \<Rightarrow> (nodeTree \<times> (treeErr + string)) option" where
  "ntNext nt = (if ntZones nt = [] then Some (nt, Inr []) else nextLoop 0 nt)"

text \<open>The pass over the tree that \<open>updateNodeInfoSnapshotList\<close> makes: so many calls of \<open>next\<close>.\<close>

fun ntPass :: "nat \<Rightarrow> nodeTree \<Rightarrow> (nodeTree \<times> string list) option" where
  "ntPass 0 nt = Some (nt, [])"
| "ntPass (Suc n) nt =
     (case ntNext nt of
        Some (nt, Inr name) \<Rightarrow> map_option (\<lambda>(nt, names). (nt, name # names)) (ntPass n nt)
      | _ \<Rightarrow> None)"

section \<open>Invariant and view\<close>

definition zoneNodes :: "nodeTree \<Rightarrow> string \<Rightarrow> string list" where
  "zoneNodes nt z = (case mget (ntTree nt) z of Some na \<Rightarrow> naNodes na | None \<Rightarrow> [])"

definition remaining :: "nodeTree \<Rightarrow> string \<Rightarrow> string list" where
  "remaining nt z = (case mget (ntTree nt) z of Some na \<Rightarrow> drop (naLastIndex na) (naNodes na) | None \<Rightarrow> [])"

definition treeNodes :: "nodeTree \<Rightarrow> string list" where
  "treeNodes nt = concat (map (zoneNodes nt) (ntZones nt))"

definition treeInv :: "nodeTree \<Rightarrow> bool" where
  "treeInv nt \<longleftrightarrow> gomap_wf (ntTree nt) \<and> distinct (ntZones nt) \<and> mkeys (ntTree nt) = set (ntZones nt) \<and>
     (\<forall>z \<in> set (ntZones nt). zoneNodes nt z \<noteq> [] \<and> distinct (zoneNodes nt z)) \<and>
     ntNumNodes nt = int (length (treeNodes nt))"

definition treePairs :: "nodeTree \<Rightarrow> (string \<times> string) set" where
  "treePairs nt = {(z, x). x \<in> set (zoneNodes nt z)}"

text \<open>One node of a zone handed out.\<close>

definition advance :: "string \<Rightarrow> nodeTree \<Rightarrow> nodeTree \<Rightarrow> bool" where
  "advance z nt nt' \<longleftrightarrow>
     (\<exists>na. mget (ntTree nt) z = Some na \<and> naLastIndex na < length (naNodes na) \<and>
        ntTree nt' = mput z (na\<lparr>naLastIndex := Suc (naLastIndex na)\<rparr>) (ntTree nt)) \<and>
     ntZones nt' = ntZones nt \<and> ntNumNodes nt' = ntNumNodes nt"

text \<open>A node of the given name and zone.\<close>

definition zonedNode :: "string \<Rightarrow> string \<Rightarrow> Node" where
  "zonedNode zone name = zeroNode\<lparr>nodeMeta := zeroMeta\<lparr>omName := name, omLabels := [(''topology.kubernetes.io/zone'', zone)]\<rparr>\<rparr>"

section \<open>Adding and removing nodes\<close>

lemma zoneNodes_mput [simp]:
  "zoneNodes (nt\<lparr>ntTree := mput z na (ntTree nt)\<rparr>) = (zoneNodes nt)(z := naNodes na)"
  by (rule ext) (simp add: zoneNodes_def)

lemma zoneNodes_frame [simp]:
  "zoneNodes (nt\<lparr>ntZones := zs\<rparr>) = zoneNodes nt" "zoneNodes (nt\<lparr>ntZoneIndex := i\<rparr>) = zoneNodes nt"
  "zoneNodes (nt\<lparr>ntNumNodes := n\<rparr>) = zoneNodes nt"
  by (simp_all add: zoneNodes_def fun_eq_iff)

lemma zoneNodes_mdel [simp]: "zoneNodes (nt\<lparr>ntTree := mdel z (ntTree nt)\<rparr>) = (zoneNodes nt)(z := [])"
  by (rule ext) (simp add: zoneNodes_def)

lemma zoneNodes_absent: "treeInv nt \<Longrightarrow> z \<notin> set (ntZones nt) \<Longrightarrow> zoneNodes nt z = []"
  by (auto simp: treeInv_def zoneNodes_def mkeys_iff split: option.splits)

lemma length_treeNodes: "length (treeNodes nt) = (\<Sum>z \<leftarrow> ntZones nt. length (zoneNodes nt z))"
  by (simp add: treeNodes_def length_concat comp_def)

lemma sum_list_upd:
  fixes f :: "'z \<Rightarrow> 'b list"
  assumes "distinct zs" and "z \<in> set zs"
  shows "(\<Sum>y \<leftarrow> zs. length ((f(z := l)) y)) + length (f z) = (\<Sum>y \<leftarrow> zs. length (f y)) + length l"
proof -
  let ?rest = "\<Sum>y \<in> set zs - {z}. length (f y)"
  have "(\<Sum>y \<in> set zs. length ((f(z := l)) y)) = length l + ?rest"
    by (subst sum.remove [of _ z]) (use assms(2) in auto)
  moreover have "(\<Sum>y \<in> set zs. length (f y)) = length (f z) + ?rest"
    by (subst sum.remove [of _ z]) (use assms(2) in auto)
  ultimately show ?thesis using assms(1) by (simp only: sum_list_distinct_conv_sum_set)
qed

lemma treeInvI:
  assumes "gomap_wf (ntTree nt')" and "distinct (ntZones nt')" and "mkeys (ntTree nt') = set (ntZones nt')"
    and "\<And>z. z \<in> set (ntZones nt') \<Longrightarrow> zoneNodes nt' z \<noteq> [] \<and> distinct (zoneNodes nt' z)"
    and "ntNumNodes nt' = int (\<Sum>z \<leftarrow> ntZones nt'. length (zoneNodes nt' z))"
  shows "treeInv nt'"
  using assms by (simp add: treeInv_def length_treeNodes)

lemma treeInvD:
  assumes "treeInv nt"
  shows "gomap_wf (ntTree nt)" and "distinct (ntZones nt)" and "mkeys (ntTree nt) = set (ntZones nt)"
    and "\<And>z. z \<in> set (ntZones nt) \<Longrightarrow> zoneNodes nt z \<noteq> [] \<and> distinct (zoneNodes nt z)"
    and "ntNumNodes nt = int (\<Sum>z \<leftarrow> ntZones nt. length (zoneNodes nt z))"
  using assms by (simp_all add: treeInv_def length_treeNodes)

text \<open>A tree whose node lists are replaced zone by zone.\<close>

lemma treeInv_zone:
  assumes inv: "treeInv nt" and z: "mget (ntTree nt) z = Some na" and l: "naNodes na' \<noteq> []" "distinct (naNodes na')"
    and num: "ntNumNodes nt' = ntNumNodes nt + int (length (naNodes na')) - int (length (naNodes na))"
    and nt': "ntTree nt' = mput z na' (ntTree nt)" "ntZones nt' = ntZones nt"
  shows "treeInv nt'" and "zoneNodes nt' = (zoneNodes nt)(z := naNodes na')"
proof -
  note d = treeInvD [OF inv]
  have zin: "z \<in> set (ntZones nt)" unfolding d(3) [symmetric] by (simp add: mkeys_iff z)
  show zn: "zoneNodes nt' = (zoneNodes nt)(z := naNodes na')" by (rule ext) (simp add: zoneNodes_def nt')
  have "zoneNodes nt z = naNodes na" by (simp add: zoneNodes_def z)
  then have "(\<Sum>y \<leftarrow> ntZones nt. length (zoneNodes nt' y)) + length (naNodes na) =
      (\<Sum>y \<leftarrow> ntZones nt. length (zoneNodes nt y)) + length (naNodes na')"
    using sum_list_upd [OF d(2) zin, of "zoneNodes nt" "naNodes na'"] unfolding zn by simp
  then show "treeInv nt'"
    using d zin l num by (intro treeInvI) (auto simp: nt' zn)
qed

lemma ntAddNode_spec:
  fixes n :: Node
  assumes inv: "treeInv nt"
  defines "z \<equiv> GetZoneKey n" and "name \<equiv> omName (nodeMeta n)"
  shows "treeInv (ntAddNode n nt)" and "zoneNodes (ntAddNode n nt) =
    (zoneNodes nt)(z := if name \<in> set (zoneNodes nt z) then zoneNodes nt z else zoneNodes nt z @ [name])"
proof (atomize (full), cases "mget (ntTree nt) z")
  note d = treeInvD [OF inv]
  case None
  then have new: "z \<notin> set (ntZones nt)" "zoneNodes nt z = []" unfolding d(3) [symmetric] by (simp_all add: mkeys_iff zoneNodes_def)
  have eq: "ntAddNode n nt = nt\<lparr>ntZones := ntZones nt @ [z], ntTree := mput z \<lparr>naNodes = [name], naLastIndex = 0\<rparr> (ntTree nt),
      ntNumNodes := ntNumNodes nt + 1\<rparr>"
    using None by (simp add: ntAddNode_def Let_def z_def name_def)
  have zn: "zoneNodes (ntAddNode n nt) = (zoneNodes nt)(z := [name])" by (rule ext) (simp add: eq zoneNodes_def)
  have f: "ntZones (ntAddNode n nt) = ntZones nt @ [z]" "ntNumNodes (ntAddNode n nt) = ntNumNodes nt + 1"
    "ntTree (ntAddNode n nt) = mput z \<lparr>naNodes = [name], naLastIndex = 0\<rparr> (ntTree nt)" by (simp_all add: eq)
  have same: "map (\<lambda>y. length (((zoneNodes nt)(z := [name])) y)) (ntZones nt) = map (\<lambda>y. length (zoneNodes nt y)) (ntZones nt)"
    using new(1) by (intro map_cong) auto
  have "treeInv (ntAddNode n nt)"
  proof (rule treeInvI)
    show "ntNumNodes (ntAddNode n nt) = int (\<Sum>y \<leftarrow> ntZones (ntAddNode n nt). length (zoneNodes (ntAddNode n nt) y))"
      unfolding zn f d(5) by (simp add: same del: fun_upd_apply) simp
  qed (use d new in \<open>auto simp: zn f\<close>)
  then show "treeInv (ntAddNode n nt) \<and> zoneNodes (ntAddNode n nt) =
      (zoneNodes nt)(z := if name \<in> set (zoneNodes nt z) then zoneNodes nt z else zoneNodes nt z @ [name])"
    using zn new by simp
next
  note d = treeInvD [OF inv]
  case (Some na)
  then have zn: "zoneNodes nt z = naNodes na" "z \<in> set (ntZones nt)"
    unfolding d(3) [symmetric] by (simp_all add: mkeys_iff zoneNodes_def)
  show "treeInv (ntAddNode n nt) \<and> zoneNodes (ntAddNode n nt) =
      (zoneNodes nt)(z := if name \<in> set (zoneNodes nt z) then zoneNodes nt z else zoneNodes nt z @ [name])"
  proof (cases "name \<in> set (naNodes na)")
    case True
    then have "ntAddNode n nt = nt"
      using Some by (auto simp: ntAddNode_def Let_def list_ex_iff z_def name_def)
    then show ?thesis using True inv zn by (simp add: fun_upd_idem)
  next
    case False
    then have eq: "ntAddNode n nt = nt\<lparr>ntTree := mput z (na\<lparr>naNodes := naNodes na @ [name]\<rparr>) (ntTree nt), ntNumNodes := ntNumNodes nt + 1\<rparr>"
      using Some by (auto simp: ntAddNode_def Let_def list_ex_iff z_def name_def)
    have "distinct (naNodes na @ [name])" using d(4) [OF zn(2)] zn(1) False by simp
    then show ?thesis
      using treeInv_zone [OF inv Some, of "na\<lparr>naNodes := naNodes na @ [name]\<rparr>" "ntAddNode n nt"] False zn
      by (simp add: eq)
  qed
qed

lemma remove_at_find: "find_idx (\<lambda>y. y = x) xs = Some i \<Longrightarrow> remove_at i xs = remove1 x xs"
proof (induction xs arbitrary: i)
  case (Cons a xs)
  then show ?case by (auto simp: remove_at_def split: if_splits)
qed simp

lemma find_idx_mem: "find_idx (\<lambda>y. y = x) xs = None \<longleftrightarrow> x \<notin> set xs"
  by (auto simp: find_idx_None)

lemma removeZone_eq:
  "removeZone z nt = nt\<lparr>ntTree := mdel z (ntTree nt), ntZones := remove1 z (ntZones nt)\<rparr>"
proof (cases "find_idx (\<lambda>y. y = z) (ntZones nt)")
  case None
  then have "remove1 z (ntZones nt) = ntZones nt" by (simp add: find_idx_mem remove1_idem)
  then show ?thesis using None by (simp add: removeZone_def Let_def)
next
  case (Some i)
  then show ?thesis by (simp add: removeZone_def Let_def remove_at_find)
qed

lemma ntRemoveNode_spec:
  fixes n :: Node
  assumes inv: "treeInv nt"
  defines "z \<equiv> GetZoneKey n" and "name \<equiv> omName (nodeMeta n)"
  shows "if name \<in> set (zoneNodes nt z) then
      snd (ntRemoveNode n nt) = None \<and> treeInv (fst (ntRemoveNode n nt)) \<and>
      zoneNodes (fst (ntRemoveNode n nt)) = (zoneNodes nt)(z := remove1 name (zoneNodes nt z))
    else ntRemoveNode n nt = (nt, Some NodeNotFound)"
proof (cases "name \<in> set (zoneNodes nt z)")
  case False
  then show ?thesis using find_idx_mem [of name]
    by (auto simp: ntRemoveNode_def Let_def z_def name_def zoneNodes_def split: option.splits) (metis option.distinct(1))
next
  case True
  note d = treeInvD [OF inv]
  obtain na where na: "mget (ntTree nt) z = Some na" using True by (cases "mget (ntTree nt) z") (auto simp: zoneNodes_def)
  then have zn: "zoneNodes nt z = naNodes na" "z \<in> set (ntZones nt)"
    unfolding d(3) [symmetric] by (simp_all add: mkeys_iff zoneNodes_def)
  then obtain i where i: "find_idx (\<lambda>x. x = name) (naNodes na) = Some i"
    using True find_idx_mem [of name "naNodes na"] by (cases "find_idx (\<lambda>x. x = name) (naNodes na)") auto
  let ?l = "remove1 name (naNodes na)" and ?nt = "fst (ntRemoveNode n nt)"
  have len: "length (naNodes na) = Suc (length ?l)"
    using True zn(1) length_pos_if_in_set [of name "naNodes na"] by (simp add: length_remove1)
  have dl: "distinct ?l" using d(4) [OF zn(2)] zn(1) by (simp add: distinct_remove1)
  have ok: "snd (ntRemoveNode n nt) = None" using na i by (simp add: ntRemoveNode_def Let_def z_def name_def)
  show ?thesis
  proof (cases "?l = []")
    case False
    have "?nt = nt\<lparr>ntTree := mput z (na\<lparr>naNodes := ?l\<rparr>) (ntTree nt), ntNumNodes := ntNumNodes nt - 1\<rparr>"
      using na i False by (simp add: ntRemoveNode_def Let_def remove_at_find z_def name_def)
    then have "treeInv ?nt \<and> zoneNodes ?nt = (zoneNodes nt)(z := ?l)"
      using treeInv_zone [OF inv na, of "na\<lparr>naNodes := ?l\<rparr>" ?nt] False dl len by simp
    then show ?thesis using True ok zn(1) by simp
  next
    case nil: True
    have eq: "?nt = nt\<lparr>ntTree := mdel z (mput z (na\<lparr>naNodes := []\<rparr>) (ntTree nt)), ntZones := remove1 z (ntZones nt),
        ntNumNodes := ntNumNodes nt - 1\<rparr>"
      using na i nil by (simp add: ntRemoveNode_def Let_def remove_at_find removeZone_eq z_def name_def)
    have zn': "zoneNodes ?nt = (zoneNodes nt)(z := [])" by (rule ext) (simp add: eq zoneNodes_def)
    have f: "ntZones ?nt = remove1 z (ntZones nt)" "ntNumNodes ?nt = ntNumNodes nt - 1"
      "mkeys (ntTree ?nt) = mkeys (ntTree nt) - {z}" "gomap_wf (ntTree ?nt)" using d(1) by (auto simp: eq)
    have "(\<Sum>y \<leftarrow> remove1 z (ntZones nt). length (zoneNodes ?nt y)) + 1 = (\<Sum>y \<leftarrow> ntZones nt. length (zoneNodes nt y))"
    proof -
      have "(\<Sum>y \<leftarrow> remove1 z (ntZones nt). length (zoneNodes ?nt y)) = (\<Sum>y \<in> set (ntZones nt) - {z}. length (zoneNodes nt y))"
        using d(2) by (simp add: sum_list_distinct_conv_sum_set distinct_remove1 set_remove1_eq zn')
      moreover have "(\<Sum>y \<in> set (ntZones nt). length (zoneNodes nt y)) = length (zoneNodes nt z) + (\<Sum>y \<in> set (ntZones nt) - {z}. length (zoneNodes nt y))"
        using zn(2) by (simp add: sum.remove)
      ultimately show ?thesis using d(2) len nil zn(1) by (simp add: sum_list_distinct_conv_sum_set)
    qed
    then have num: "ntNumNodes ?nt = int (\<Sum>y \<leftarrow> ntZones ?nt. length (zoneNodes ?nt y))" unfolding f d(5) by linarith
    have "treeInv ?nt"
      by (rule treeInvI [OF _ _ _ _ num]) (use d f in \<open>auto simp: zn' distinct_remove1 set_remove1_eq\<close>)
    then show ?thesis using True ok zn(1) zn' nil by simp
  qed
qed

section \<open>Iteration\<close>

lemma nextLoop_hit:
  assumes inv: "treeInv nt" and i: "i = (if length (ntZones nt) \<le> ntZoneIndex nt then 0 else ntZoneIndex nt)"
    and ne: "ntZones nt \<noteq> []" and rem: "remaining nt (ntZones nt ! i) = x # xs"
  shows "\<exists>nt'. nextLoop ex nt = Some (nt', Inr x) \<and> advance (ntZones nt ! i) nt nt'"
proof -
  let ?z = "ntZones nt ! i"
  obtain na where na: "mget (ntTree nt) ?z = Some na" "drop (naLastIndex na) (naNodes na) = x # xs"
    using rem by (auto simp: remaining_def split: option.splits)
  then have lt: "naLastIndex na < length (naNodes na)" and "naNodes na ! naLastIndex na = x"
    by (metis drop_all leI list.discI, metis hd_drop_conv_nth drop_all leI list.discI list.sel(1))
  then have "arrayNext na = (na\<lparr>naLastIndex := Suc (naLastIndex na)\<rparr>, x, False)" by (auto simp: arrayNext_def)
  then show ?thesis using na(1) lt
    by (subst nextLoop.simps) (simp add: Let_def advance_def flip: i)
qed

lemma nextLoop_miss:
  assumes inv: "treeInv nt" and i: "i = (if length (ntZones nt) \<le> ntZoneIndex nt then 0 else ntZoneIndex nt)"
    and ne: "ntZones nt \<noteq> []" and rem: "remaining nt (ntZones nt ! i) = []"
  shows "nextLoop ex nt = nextLoop (Suc ex)
    (if length (ntZones nt) \<le> Suc ex then resetExhausted (nt\<lparr>ntZoneIndex := Suc i\<rparr>) else nt\<lparr>ntZoneIndex := Suc i\<rparr>)"
proof -
  let ?z = "ntZones nt ! i"
  have "?z \<in> set (ntZones nt)" using ne i by (intro nth_mem) auto
  then obtain na where na: "mget (ntTree nt) ?z = Some na" "naNodes na \<noteq> []"
    using treeInvD(3,4) [OF inv] by (fastforce simp: mkeys_iff zoneNodes_def split: option.splits)
  then have "length (naNodes na) \<le> naLastIndex na" using rem by (simp add: remaining_def)
  then have "arrayNext na = (na, [], True)" using na(2) by (simp add: arrayNext_def)
  moreover have "nt\<lparr>ntZoneIndex := Suc i, ntTree := ntTree nt\<rparr> = nt\<lparr>ntZoneIndex := Suc i\<rparr>" by simp
  ultimately show ?thesis using na(1)
    by (subst nextLoop.simps) (simp add: Let_def mput_same flip: i)
qed

lemma treeInv_index [simp]: "treeInv (nt\<lparr>ntZoneIndex := i\<rparr>) = treeInv nt"
  by (simp add: treeInv_def treeNodes_def)

lemma remaining_index [simp]: "remaining (nt\<lparr>ntZoneIndex := i\<rparr>) = remaining nt"
  by (rule ext) (simp add: remaining_def)

lemma nextLoop_finds:
  assumes "treeInv nt" and "i = (if length (ntZones nt) \<le> ntZoneIndex nt then 0 else ntZoneIndex nt)"
    and "ntZones nt \<noteq> []" and "remaining nt (ntZones nt ! ((i + j) mod length (ntZones nt))) \<noteq> []"
    and "ex + j < length (ntZones nt)"
  shows "\<exists>nt' z x xs. nextLoop ex nt = Some (nt', Inr x) \<and> z \<in> set (ntZones nt) \<and> remaining nt z = x # xs \<and> advance z nt nt'"
  using assms
proof (induction j arbitrary: ex nt i)
  case 0
  have "i < length (ntZones nt)" using 0(2,3) by auto
  then have "remaining nt (ntZones nt ! i) \<noteq> []" using 0(4) by simp
  then obtain x xs where "remaining nt (ntZones nt ! i) = x # xs" by (auto simp: neq_Nil_conv)
  from nextLoop_hit [OF 0(1-3) this] this show ?case using \<open>i < _\<close> by (metis nth_mem)
next
  case (Suc j)
  let ?n = "length (ntZones nt)"
  have i: "i < ?n" using Suc.prems(2,3) by auto
  show ?case
  proof (cases "remaining nt (ntZones nt ! i)")
    case (Cons x xs)
    from nextLoop_hit [OF Suc.prems(1-3) this] this show ?thesis using i by (metis nth_mem)
  next
    case Nil
    let ?nt1 = "nt\<lparr>ntZoneIndex := Suc i\<rparr>" and ?i1 = "if ?n \<le> Suc i then 0 else Suc i"
    have eq: "nextLoop ex nt = nextLoop (Suc ex) ?nt1"
      using nextLoop_miss [OF Suc.prems(1-3) Nil, of ex] Suc.prems(5) by simp
    have "(?i1 + j) mod ?n = (i + Suc j) mod ?n" using i mod_add_self1 [of "Suc i" j] by (auto simp: not_less_eq_eq le_Suc_eq)
    then have "\<exists>nt' z x xs. nextLoop (Suc ex) ?nt1 = Some (nt', Inr x) \<and> z \<in> set (ntZones ?nt1) \<and>
        remaining ?nt1 z = x # xs \<and> advance z ?nt1 nt'"
      using Suc.prems by (intro Suc.IH [where i = ?i1]) simp_all
    then show ?thesis unfolding eq by (simp add: advance_def)
  qed
qed

lemma ntNext_finds:
  assumes inv: "treeInv nt" and z: "z \<in> set (ntZones nt)" and rem: "remaining nt z \<noteq> []"
  shows "\<exists>nt' z x xs. ntNext nt = Some (nt', Inr x) \<and> z \<in> set (ntZones nt) \<and> remaining nt z = x # xs \<and> advance z nt nt'"
proof -
  let ?n = "length (ntZones nt)"
  define i where "i = (if ?n \<le> ntZoneIndex nt then 0 else ntZoneIndex nt)"
  obtain k where k: "k < ?n" "ntZones nt ! k = z" using z by (auto simp: in_set_conv_nth)
  have ne: "ntZones nt \<noteq> []" using z by auto
  then have i: "i < ?n" by (auto simp: i_def)
  have "(i + (k + (?n - i)) mod ?n) mod ?n = k" using i k(1) by (simp add: mod_simps)
  then have "remaining nt (ntZones nt ! ((i + (k + (?n - i)) mod ?n) mod ?n)) \<noteq> []" using rem k(2) by simp
  moreover have "0 + (k + (?n - i)) mod ?n < ?n" using ne by simp
  ultimately show ?thesis using nextLoop_finds [OF inv i_def ne] ne by (simp add: ntNext_def)
qed

lemma mget_map_snd: "mget (map (\<lambda>(k, v). (k, f v)) m) k = map_option f (mget m k)"
  by (induction m) auto

lemma reset_facts:
  assumes "treeInv nt"
  shows "treeInv (resetExhausted nt)" and "zoneNodes (resetExhausted nt) = zoneNodes nt"
    and "remaining (resetExhausted nt) = zoneNodes nt" and "ntZones (resetExhausted nt) = ntZones nt"
    and "ntNumNodes (resetExhausted nt) = ntNumNodes nt"
proof -
  show z: "zoneNodes (resetExhausted nt) = zoneNodes nt"
    by (rule ext) (simp add: zoneNodes_def resetExhausted_def mget_map_snd split: option.split)
  show "remaining (resetExhausted nt) = zoneNodes nt"
    by (rule ext) (simp add: zoneNodes_def remaining_def resetExhausted_def mget_map_snd split: option.split)
  show f: "ntZones (resetExhausted nt) = ntZones nt" "ntNumNodes (resetExhausted nt) = ntNumNodes nt"
    by (simp_all add: resetExhausted_def)
  have "map fst (ntTree (resetExhausted nt)) = map fst (ntTree nt)" by (auto simp: resetExhausted_def)
  then have "gomap_wf (ntTree (resetExhausted nt)) = gomap_wf (ntTree nt)" "mkeys (ntTree (resetExhausted nt)) = mkeys (ntTree nt)"
    by (simp add: gomap_wf_def, metis mkeys_def list.set_map)
  then show "treeInv (resetExhausted nt)" using assms by (simp add: treeInv_def z f treeNodes_def)
qed

lemma advance_facts:
  assumes inv: "treeInv nt" and adv: "advance z nt nt'"
  shows "treeInv nt'" and "zoneNodes nt' = zoneNodes nt" and "remaining nt' = (remaining nt)(z := tl (remaining nt z))"
proof -
  obtain na where na: "mget (ntTree nt) z = Some na" "ntTree nt' = mput z (na\<lparr>naLastIndex := Suc (naLastIndex na)\<rparr>) (ntTree nt)"
    and f: "ntZones nt' = ntZones nt" "ntNumNodes nt' = ntNumNodes nt"
    using adv by (auto simp: advance_def)
  have "z \<in> set (ntZones nt)" using na(1) treeInvD(3) [OF inv] by (metis mkeys_iff option.distinct(1))
  from treeInvD(4) [OF inv this] have "naNodes na \<noteq> [] \<and> distinct (naNodes na)" using na(1) by (simp add: zoneNodes_def)
  then have "treeInv nt'" "zoneNodes nt' = (zoneNodes nt)(z := naNodes na)"
    using treeInv_zone [OF inv na(1), of "na\<lparr>naLastIndex := Suc (naLastIndex na)\<rparr>" nt'] na(2) f by auto
  moreover have "zoneNodes nt z = naNodes na" using na(1) by (simp add: zoneNodes_def)
  ultimately show "treeInv nt'" "zoneNodes nt' = zoneNodes nt" by (simp_all add: fun_upd_idem)
  show "remaining nt' = (remaining nt)(z := tl (remaining nt z))"
    by (rule ext) (simp add: remaining_def na tl_drop drop_Suc)
qed

lemma nextLoop_exhausted:
  assumes "treeInv nt" and "ntZones nt \<noteq> []" and "\<And>z. z \<in> set (ntZones nt) \<Longrightarrow> remaining nt z = []"
    and "ex < length (ntZones nt)"
  shows "\<exists>nt' x. nextLoop ex nt = Some (nt', Inr x) \<and> treeInv nt' \<and> zoneNodes nt' = zoneNodes nt \<and> ntZones nt' = ntZones nt \<and> x \<in> set (treeNodes nt)"
  using assms
proof (induction "length (ntZones nt) - ex" arbitrary: ex nt)
  case (Suc k)
  define i where "i = (if length (ntZones nt) \<le> ntZoneIndex nt then 0 else ntZoneIndex nt)"
  have "i < length (ntZones nt)" using Suc.prems(2) by (auto simp: i_def)
  then have rem: "remaining nt (ntZones nt ! i) = []" using Suc.prems(3) by simp
  let ?nt1 = "nt\<lparr>ntZoneIndex := Suc i\<rparr>"
  note miss = nextLoop_miss [OF Suc.prems(1) i_def Suc.prems(2) rem, of ex]
  show ?case
  proof (cases "length (ntZones nt) \<le> Suc ex")
    case False
    then have "\<exists>nt' x. nextLoop (Suc ex) ?nt1 = Some (nt', Inr x) \<and> treeInv nt' \<and> zoneNodes nt' = zoneNodes ?nt1 \<and>
        ntZones nt' = ntZones ?nt1 \<and> x \<in> set (treeNodes ?nt1)"
      using Suc.hyps(2) Suc.prems by (intro Suc.hyps(1)) auto
    then show ?thesis using miss False by (simp add: treeNodes_def)
  next
    case True
    let ?r = "resetExhausted ?nt1" and ?z = "ntZones nt ! 0"
    have r: "treeInv ?r" "zoneNodes ?r = zoneNodes nt" "remaining ?r = zoneNodes nt" "ntZones ?r = ntZones nt"
      using reset_facts [of ?nt1] Suc.prems(1) by simp_all
    have z: "?z \<in> set (ntZones nt)" using Suc.prems(2) by simp
    then obtain x xs where x: "remaining ?r ?z = x # xs" using treeInvD(4) [OF Suc.prems(1) z] r(3) by (metis neq_Nil_conv)
    have "0 = (if length (ntZones ?r) \<le> ntZoneIndex ?r then 0 else ntZoneIndex ?r)" by (simp add: resetExhausted_def)
    from nextLoop_hit [OF r(1) this, of x xs "Suc ex"] x r(4) Suc.prems(2)
    obtain nt' where nt': "nextLoop (Suc ex) ?r = Some (nt', Inr x)" "advance ?z ?r nt'" by auto
    have "x \<in> set (zoneNodes nt ?z)" using x r(3) by simp
    then have "x \<in> set (treeNodes nt)" using z by (auto simp: treeNodes_def)
    moreover have "ntZones nt' = ntZones nt" using nt'(2) r(4) by (simp add: advance_def)
    ultimately show ?thesis using nt' advance_facts [OF r(1) nt'(2)] r miss True by simp
  qed
qed simp

lemma ntNext_total:
  assumes inv: "treeInv nt" and ne: "ntZones nt \<noteq> []"
  shows "\<exists>nt' x. ntNext nt = Some (nt', Inr x) \<and> treeInv nt' \<and> zoneNodes nt' = zoneNodes nt \<and> ntZones nt' = ntZones nt \<and> x \<in> set (treeNodes nt)"
proof (cases "\<exists>z \<in> set (ntZones nt). remaining nt z \<noteq> []")
  case True
  then obtain z0 where "z0 \<in> set (ntZones nt)" "remaining nt z0 \<noteq> []" by blast
  from ntNext_finds [OF inv this] obtain nt' z x xs where
    n: "ntNext nt = Some (nt', Inr x)" "z \<in> set (ntZones nt)" "remaining nt z = x # xs" "advance z nt nt'" by blast
  have "x \<in> set (zoneNodes nt z)" using n(3)
    by (auto simp: remaining_def zoneNodes_def split: option.splits) (metis in_set_dropD list.set_intros(1))
  then have "x \<in> set (treeNodes nt)" using n(2) by (auto simp: treeNodes_def)
  then show ?thesis using n(1,4) advance_facts [OF inv n(4)] by (auto simp: advance_def)
next
  case False
  then show ?thesis using nextLoop_exhausted [OF inv ne, of 0] ne by (simp add: ntNext_def)
qed

lemma mset_concat_take:
  assumes "distinct zs" and "z \<in> set zs" and "f z = x # xs"
  shows "mset (concat (map f zs)) = add_mset x (mset (concat (map (f(z := xs)) zs)))"
proof -
  obtain as bs where zs: "zs = as @ z # bs" using assms(2) by (meson split_list)
  have m: "map (f(z := xs)) as = map f as" "map (f(z := xs)) bs = map f bs" using assms(1) zs by (auto intro!: map_cong)
  show ?thesis using assms(3) by (simp add: zs m del: fun_upd_apply) simp
qed

lemma ntPass_remaining:
  assumes "treeInv nt" and "length (concat (map (remaining nt) (ntZones nt))) = n"
  shows "\<exists>nt' names. ntPass n nt = Some (nt', names) \<and> treeInv nt' \<and> zoneNodes nt' = zoneNodes nt \<and>
    mset names = mset (concat (map (remaining nt) (ntZones nt)))"
  using assms
proof (induction n arbitrary: nt)
  case (Suc n)
  have "concat (map (remaining nt) (ntZones nt)) \<noteq> []" using Suc.prems(2) by (metis list.size(3) nat.distinct(1))
  then obtain z0 where "z0 \<in> set (ntZones nt)" "remaining nt z0 \<noteq> []" by auto
  from ntNext_finds [OF Suc.prems(1) this] obtain nt1 z x xs where
    n: "ntNext nt = Some (nt1, Inr x)" "z \<in> set (ntZones nt)" "remaining nt z = x # xs" "advance z nt nt1" by blast
  note adv = advance_facts [OF Suc.prems(1) n(4)]
  have zs: "ntZones nt1 = ntZones nt" using n(4) by (simp add: advance_def)
  have rem: "remaining nt1 = (remaining nt)(z := xs)" using adv(3) n(3) by simp
  note take = mset_concat_take [OF treeInvD(2) [OF Suc.prems(1)] n(2), of "remaining nt", OF n(3)]
  have "length (concat (map (remaining nt1) (ntZones nt1))) = n"
    using arg_cong [OF take, of size] Suc.prems(2) unfolding zs rem by simp
  from Suc.IH [OF adv(1) this] obtain nt' names where
    p: "ntPass n nt1 = Some (nt', names)" "treeInv nt'" "zoneNodes nt' = zoneNodes nt1"
      "mset names = mset (concat (map (remaining nt1) (ntZones nt1)))" by blast
  have "mset (x # names) = mset (concat (map (remaining nt) (ntZones nt)))" using p(4) take unfolding zs rem by simp
  then show ?case using n(1) p(1-3) adv(2) by simp
qed simp

lemma treeInv_new: "treeInv (newNodeTree nodes)"
proof -
  have "treeInv (fold ntAddNode nodes nt)" if "treeInv nt" for nt
    using that by (induction nodes arbitrary: nt) (simp_all add: ntAddNode_spec(1))
  then show ?thesis unfolding newNodeTree_def by (simp add: treeInv_def treeNodes_def)
qed

lemma zoneNodes_zone: "treeInv nt \<Longrightarrow> x \<in> set (zoneNodes nt z) \<Longrightarrow> z \<in> set (ntZones nt)"
  by (metis zoneNodes_absent empty_iff list.set(1))

section \<open>Properties\<close>

lemma treePairs_add:
  assumes "treeInv nt"
  shows "treeInv (ntAddNode n nt)" and "treePairs (ntAddNode n nt) = insert (GetZoneKey n, nodeName n) (treePairs nt)"
  using ntAddNode_spec [OF assms, of n] by (auto simp: treePairs_def split: if_splits)

lemma treePairs_remove:
  assumes "treeInv nt"
  shows "if (GetZoneKey n, nodeName n) \<in> treePairs nt then
       snd (ntRemoveNode n nt) = None \<and> treeInv (fst (ntRemoveNode n nt)) \<and>
       treePairs (fst (ntRemoveNode n nt)) = treePairs nt - {(GetZoneKey n, nodeName n)}
     else ntRemoveNode n nt = (nt, Some NodeNotFound)"
proof (cases "(GetZoneKey n, nodeName n) \<in> treePairs nt")
  case True
  then have x: "nodeName n \<in> set (zoneNodes nt (GetZoneKey n))" by (simp add: treePairs_def)
  then have "distinct (zoneNodes nt (GetZoneKey n))"
    using treeInvD(4) [OF assms(1) zoneNodes_zone [OF assms(1) x]] by simp
  then show ?thesis using ntRemoveNode_spec [OF assms(1), of n] x
    by (auto simp: treePairs_def set_remove1_eq split: if_splits)
next
  case False
  then show ?thesis using ntRemoveNode_spec [OF assms(1), of n] by (simp add: treePairs_def)
qed

lemma treePairs_update:
  assumes "treeInv nt"
  shows "snd (ntUpdateNode (Some m) n nt) = None" and "treeInv (fst (ntUpdateNode (Some m) n nt))"
    and "treePairs (fst (ntUpdateNode (Some m) n nt)) =
      (if GetZoneKey m = GetZoneKey n then treePairs nt
       else insert (GetZoneKey n, nodeName n) (treePairs nt - {(GetZoneKey m, nodeName m)}))"
proof -
  have r: "treeInv (fst (ntRemoveNode m nt)) \<and> treePairs (fst (ntRemoveNode m nt)) = treePairs nt - {(GetZoneKey m, nodeName m)}"
    using treePairs_remove [OF assms, of m] assms by (cases "(GetZoneKey m, nodeName m) \<in> treePairs nt") auto
  then have "treeInv (fst (ntRemoveNode m nt))" ..
  note a = treePairs_add [OF this, of n]
  show "snd (ntUpdateNode (Some m) n nt) = None" by (simp add: ntUpdateNode_def Let_def)
  show "treeInv (fst (ntUpdateNode (Some m) n nt))" using a assms by (simp add: ntUpdateNode_def Let_def)
  show "treePairs (fst (ntUpdateNode (Some m) n nt)) = (if GetZoneKey m = GetZoneKey n then treePairs nt
       else insert (GetZoneKey n, nodeName n) (treePairs nt - {(GetZoneKey m, nodeName m)}))"
    using a r by (simp add: ntUpdateNode_def Let_def)
qed

text \<open>C26: the tree is the set of (zone, node) pairs, and counts them: adding puts the node in its zone once,
  removing takes it out and drops an empty zone, or reports that it was not there; an update moves the node
  when its zone changed, and leaves the tree alone when it did not.\<close>

theorem nodeTree_refine:
  assumes "treeInv nt"
  shows "treeInv (ntAddNode n nt) \<and> treePairs (ntAddNode n nt) = insert (GetZoneKey n, nodeName n) (treePairs nt) \<and>
    (if (GetZoneKey n, nodeName n) \<in> treePairs nt then
       snd (ntRemoveNode n nt) = None \<and> treeInv (fst (ntRemoveNode n nt)) \<and>
       treePairs (fst (ntRemoveNode n nt)) = treePairs nt - {(GetZoneKey n, nodeName n)}
     else ntRemoveNode n nt = (nt, Some NodeNotFound)) \<and>
    snd (ntUpdateNode (Some m) n nt) = None \<and> treeInv (fst (ntUpdateNode (Some m) n nt)) \<and>
    treePairs (fst (ntUpdateNode (Some m) n nt)) =
      (if GetZoneKey m = GetZoneKey n then treePairs nt
       else insert (GetZoneKey n, nodeName n) (treePairs nt - {(GetZoneKey m, nodeName m)}))"
  using treePairs_add [OF assms, of n] treePairs_remove [OF assms, of n] treePairs_update [OF assms, of m n] by blast

theorem nodeTree_refine_witness:
  "snd (ntRemoveNode zeroNode (newNodeTree [])) = Some NodeNotFound \<and>
   treePairs (ntAddNode zeroNode (newNodeTree [])) = {(GetZoneKey zeroNode, nodeName zeroNode)}"
  using nodeTree_refine [OF treeInv_new [of "[]"], of zeroNode zeroNode] by (simp add: newNodeTree_def treePairs_def zoneNodes_def)

text \<open>C27: \<open>next\<close> always returns: the loop over exhausted zones ends, without a panic, at a node of the tree, and
  the tree keeps its nodes.\<close>

theorem next_returns:
  assumes "treeInv nt" and "ntZones nt \<noteq> []"
  shows "\<exists>nt' x. ntNext nt = Some (nt', Inr x) \<and> x \<in> set (treeNodes nt) \<and> treeInv nt' \<and> zoneNodes nt' = zoneNodes nt"
  using ntNext_total [OF assms] by blast

theorem next_returns_witness:
  "\<exists>nt'. ntNext (newNodeTree [zeroNode]) = Some (nt', Inr [])"
proof -
  have t: "newNodeTree [zeroNode] = \<lparr>ntTree = [([], \<lparr>naNodes = [[]], naLastIndex = 0\<rparr>)], ntZones = [[]], ntZoneIndex = 0, ntNumNodes = 1\<rparr>"
    by (simp add: newNodeTree_def ntAddNode_def GetZoneKey_def labelGet_def zeroNode_def zeroMeta_def Let_def)
  show ?thesis using next_returns [OF treeInv_new [of "[zeroNode]"]] by (auto simp: t treeNodes_def zoneNodes_def)
qed

text \<open>C28: from a reset tree, as many calls of \<open>next\<close> as there are nodes list every node exactly once.\<close>

theorem pass_complete:
  assumes "treeInv nt"
  shows "\<exists>nt' names. ntPass (nat (ntNumNodes nt)) (resetExhausted nt) = Some (nt', names) \<and>
    mset names = mset (treeNodes nt) \<and> treeInv nt' \<and> zoneNodes nt' = zoneNodes nt"
proof -
  note r = reset_facts [OF assms]
  have all: "concat (map (remaining (resetExhausted nt)) (ntZones (resetExhausted nt))) = treeNodes nt"
    by (simp add: r treeNodes_def)
  have "length (treeNodes nt) = nat (ntNumNodes nt)" using assms by (simp add: treeInv_def)
  then show ?thesis using ntPass_remaining [OF r(1), unfolded all] by (auto simp: r(2))
qed

theorem pass_complete_witness:
  "\<exists>nt' names. ntPass 1 (resetExhausted (newNodeTree [zonedNode ''z'' ''a''])) = Some (nt', names) \<and> mset names = {#''a''#}"
proof -
  have "ntNumNodes (newNodeTree [zonedNode ''z'' ''a'']) = 1" "treeNodes (newNodeTree [zonedNode ''z'' ''a'']) = [''a'']"
    by code_simp+
  then show ?thesis using pass_complete [OF treeInv_new, of "[zonedNode ''z'' ''a'']"] by auto
qed

text \<open>Without the reset a pass need not be complete: when a node of a new zone joins after a pass over two nodes
  of one zone, the next pass of three calls lists the new node twice and one of the old nodes not at all.\<close>

lemma stale_pass:
  "map_option snd (ntPass 3 (ntAddNode (zonedNode ''z2'' ''c'')
     (fst (the (ntPass 2 (newNodeTree [zonedNode ''z1'' ''a'', zonedNode ''z1'' ''b'']))))))
   = Some [''c'', ''a'', ''c'']"
  by code_simp

end
