(* ===== verification/NodeList.thy ===== *)
theory NodeList
  imports NodeInfo
begin

text \<open>
  The doubly linked list of node infos in the scheduler cache (\<open>pkg/scheduler/internal/cache/cache.go\<close>), most
  recently updated first. The items are objects with an address in a store, \<open>nlNodes\<close> is the map
  \<open>cache.nodes\<close> from node name to item, and every pointer write of the source is a write to the store.
\<close>

section \<open>Model\<close>

record nodeInfoListItem =
  liInfo :: NodeInfo
  liNext :: "nat option"
  liPrev :: "nat option"

record nodeList =
  nlItems :: "nat \<Rightarrow> nodeInfoListItem option"
  nlNodes :: "(string, nat) gomap"
  nlHead :: "nat option"
  nlFresh :: nat

definition newNodeList :: nodeList where
  "newNodeList = \<lparr>nlItems = (\<lambda>_. None), nlNodes = [], nlHead = None, nlFresh = 0\<rparr>"

text \<open>Reading and writing the fields of an item.\<close>

definition getNext :: "nat \<Rightarrow> nodeList \<Rightarrow> nat option" where
  "getNext a l = (case nlItems l a of Some it \<Rightarrow> liNext it | None \<Rightarrow> None)"

definition getPrev :: "nat \<Rightarrow> nodeList \<Rightarrow> nat option" where
  "getPrev a l = (case nlItems l a of Some it \<Rightarrow> liPrev it | None \<Rightarrow> None)"

definition updItem :: "nat \<Rightarrow> (nodeInfoListItem \<Rightarrow> nodeInfoListItem) \<Rightarrow> nodeList \<Rightarrow> nodeList" where
  "updItem a f l = l\<lparr>nlItems := (nlItems l)(a := map_option f (nlItems l a))\<rparr>"

definition setNext :: "nat \<Rightarrow> nat option \<Rightarrow> nodeList \<Rightarrow> nodeList" where
  "setNext a v = updItem a (liNext_update (\<lambda>_. v))"

definition setPrev :: "nat \<Rightarrow> nat option \<Rightarrow> nodeList \<Rightarrow> nodeList" where
  "setPrev a v = updItem a (liPrev_update (\<lambda>_. v))"

text \<open>\<open>newNodeInfoListItem\<close>, stored under a name; and the node info a name leads to.\<close>

definition newNodeInfoListItem :: "string \<Rightarrow> NodeInfo \<Rightarrow> nodeList \<Rightarrow> nodeList" where
  "newNodeInfoListItem name ni l =
     l\<lparr>nlItems := (nlItems l)(nlFresh l \<mapsto> \<lparr>liInfo = ni, liNext = None, liPrev = None\<rparr>),
       nlNodes := mput name (nlFresh l) (nlNodes l), nlFresh := Suc (nlFresh l)\<rparr>"

definition nlInfo :: "nodeList \<Rightarrow> string \<Rightarrow> NodeInfo option" where
  "nlInfo l name =
     (case mget (nlNodes l) name of Some a \<Rightarrow> map_option liInfo (nlItems l a) | None \<Rightarrow> None)"

definition nlSetInfo :: "string \<Rightarrow> NodeInfo \<Rightarrow> nodeList \<Rightarrow> nodeList" where
  "nlSetInfo name ni l =
     (case mget (nlNodes l) name of Some a \<Rightarrow> updItem a (liInfo_update (\<lambda>_. ni)) l | None \<Rightarrow> l)"

text \<open>The first two statements of both list operations take the item out of the chain.\<close>

definition unlink :: "nat \<Rightarrow> nodeList \<Rightarrow> nodeList" where
  "unlink ni l =
     (let l = (case getPrev ni l of Some p \<Rightarrow> setNext p (getNext ni l) l | None \<Rightarrow> l)
      in case getNext ni l of Some n \<Rightarrow> setPrev n (getPrev ni l) l | None \<Rightarrow> l)"

text \<open>The last statements of \<open>moveNodeInfoToHead\<close> put it in front.\<close>

definition linkHead :: "nat \<Rightarrow> nodeList \<Rightarrow> nodeList" where
  "linkHead ni l =
     (let l = (case nlHead l of Some h \<Rightarrow> setPrev h (Some ni) l | None \<Rightarrow> l);
          l = setNext ni (nlHead l) l;
          l = setPrev ni None l
      in l\<lparr>nlHead := Some ni\<rparr>)"

definition moveNodeInfoToHead :: "string \<Rightarrow> nodeList \<Rightarrow> nodeList" where
  "moveNodeInfoToHead name l =
     (case mget (nlNodes l) name of
        None \<Rightarrow> l
      | Some ni \<Rightarrow>
          if Some ni = nlHead l then l else linkHead ni (unlink ni l))"

definition removeNodeInfoFromList :: "string \<Rightarrow> nodeList \<Rightarrow> nodeList" where
  "removeNodeInfoFromList name l =
     (case mget (nlNodes l) name of
        None \<Rightarrow> l
      | Some ni \<Rightarrow>
          (let l = unlink ni l;
               l = (if Some ni = nlHead l then l\<lparr>nlHead := getNext ni l\<rparr> else l)
           in l\<lparr>nlNodes := mdel name (nlNodes l)\<rparr>))"

text \<open>The walk \<open>for node := cache.headNode; node != nil; node = node.next\<close>, for so many steps.\<close>

fun walk :: "nat \<Rightarrow> nat option \<Rightarrow> nodeList \<Rightarrow> nat list" where
  "walk 0 p l = []"
| "walk (Suc n) None l = []"
| "walk (Suc n) (Some a) l = a # walk n (getNext a l) l"

section \<open>The list the pointers form\<close>

text \<open>\<open>seg m p h as t\<close>: starting at \<open>h\<close>, with predecessor \<open>p\<close>, the items are \<open>as\<close>, and the last one points to \<open>t\<close>.\<close>

fun seg :: "(nat \<Rightarrow> nodeInfoListItem option) \<Rightarrow> nat option \<Rightarrow> nat option \<Rightarrow> nat list \<Rightarrow> nat option \<Rightarrow> bool" where
  "seg m p h [] t \<longleftrightarrow> h = t"
| "seg m p h (a # as) t \<longleftrightarrow>
     h = Some a \<and> (case m a of Some it \<Rightarrow> liPrev it = p \<and> seg m (Some a) (liNext it) as t | None \<Rightarrow> False)"

definition addrs :: "nodeList \<Rightarrow> string list \<Rightarrow> nat list" where
  "addrs l ns = map (\<lambda>n. the (mget (nlNodes l) n)) ns"

definition listInv :: "nodeList \<Rightarrow> string list \<Rightarrow> bool" where
  "listInv l ns \<longleftrightarrow> gomap_wf (nlNodes l) \<and> distinct ns \<and> mkeys (nlNodes l) = set ns \<and> distinct (addrs l ns) \<and>
     seg (nlItems l) None (nlHead l) (addrs l ns) None \<and> (\<forall>a \<in> dom (nlItems l). a < nlFresh l)"

definition infos :: "nodeList \<Rightarrow> nat \<Rightarrow> NodeInfo option" where
  "infos l a = map_option liInfo (nlItems l a)"

section \<open>Segments\<close>

lemma seg_append:
  "seg m p h (as @ bs) t \<longleftrightarrow> (\<exists>mid. seg m p h as mid \<and> seg m (if as = [] then p else Some (last as)) mid bs t)"
  by (induction as arbitrary: p h) (auto split: option.splits)

lemma seg_frame: "(\<And>x. x \<in> set as \<Longrightarrow> m' x = m x) \<Longrightarrow> seg m' p h as t = seg m p h as t"
  by (induction as arbitrary: p h) (auto split: option.splits)

lemma seg_dom: "seg m p h as t \<Longrightarrow> set as \<subseteq> dom m"
  by (induction as arbitrary: p h) (auto split: option.splits)

lemma seg_first: "seg m p h as t \<Longrightarrow> h = (if as = [] then t else Some (hd as))"
  by (cases as) auto

text \<open>Redirecting the end of a segment, and its start.\<close>

lemma seg_setNext:
  assumes "seg m p h (as @ [a]) t" and "a \<notin> set as"
  shows "seg (m(a := map_option (liNext_update (\<lambda>_. t')) (m a))) p h (as @ [a]) t'"
proof -
  let ?m = "m(a := map_option (liNext_update (\<lambda>_. t')) (m a))"
  obtain mid where mid: "seg m p h as mid" "seg m (if as = [] then p else Some (last as)) mid [a] t"
    using assms(1) unfolding seg_append by blast
  have "seg ?m p h as mid = seg m p h as mid" by (rule seg_frame) (use assms(2) in auto)
  then have "seg ?m p h as mid" using mid(1) by simp
  moreover have "seg ?m (if as = [] then p else Some (last as)) mid [a] t'" using mid(2) by (auto split: option.splits)
  ultimately show ?thesis unfolding seg_append by blast
qed

lemma seg_setPrev:
  assumes "seg m p h (a # as) t" and "a \<notin> set as"
  shows "seg (m(a := map_option (liPrev_update (\<lambda>_. p')) (m a))) p' h (a # as) t"
proof -
  have "seg (m(a := x)) q h' as t = seg m q h' as t" for x q h' using assms(2) by (intro seg_frame) auto
  then show ?thesis using assms(1) by (cases "m a") simp_all
qed

lemma seg_info: "seg (m(a := map_option (liInfo_update f) (m a))) p h as t = seg m p h as t"
  by (induction as arbitrary: p h) (auto split: option.splits)

section \<open>Link writes keep everything else\<close>

lemma setNext_frame [simp]:
  "nlHead (setNext a v l) = nlHead l" "nlNodes (setNext a v l) = nlNodes l" "nlFresh (setNext a v l) = nlFresh l"
  "infos (setNext a v l) = infos l" "dom (nlItems (setNext a v l)) = dom (nlItems l)"
  "nlItems (setNext a v l) = (nlItems l)(a := map_option (liNext_update (\<lambda>_. v)) (nlItems l a))"
  by (auto simp: setNext_def updItem_def infos_def fun_eq_iff option.map_comp comp_def)

lemma setPrev_frame [simp]:
  "nlHead (setPrev a v l) = nlHead l" "nlNodes (setPrev a v l) = nlNodes l" "nlFresh (setPrev a v l) = nlFresh l"
  "infos (setPrev a v l) = infos l" "dom (nlItems (setPrev a v l)) = dom (nlItems l)"
  "nlItems (setPrev a v l) = (nlItems l)(a := map_option (liPrev_update (\<lambda>_. v)) (nlItems l a))"
  by (auto simp: setPrev_def updItem_def infos_def fun_eq_iff option.map_comp comp_def)

lemma unlink_frame [simp]:
  "nlHead (unlink a l) = nlHead l" "nlNodes (unlink a l) = nlNodes l" "nlFresh (unlink a l) = nlFresh l"
  "infos (unlink a l) = infos l" "dom (nlItems (unlink a l)) = dom (nlItems l)"
  unfolding unlink_def Let_def by (simp_all split: option.split del: setNext_frame(6) setPrev_frame(6))

lemma seg_links:
  assumes "seg (nlItems l) None h (as @ a # bs) None"
  shows "getPrev a l = (if as = [] then None else Some (last as))"
    and "getNext a l = (if bs = [] then None else Some (hd bs))" and "nlItems l a \<noteq> None"
proof -
  obtain mid where mid: "seg (nlItems l) (if as = [] then None else Some (last as)) mid (a # bs) None"
    using assms unfolding seg_append by blast
  then obtain it where it: "nlItems l a = Some it" "liPrev it = (if as = [] then None else Some (last as))"
      "seg (nlItems l) (Some a) (liNext it) bs None"
    by (cases "nlItems l a") auto
  then show "getPrev a l = (if as = [] then None else Some (last as))"
    "getNext a l = (if bs = [] then None else Some (hd bs))" "nlItems l a \<noteq> None"
    using seg_first [OF it(3)] by (simp_all add: getPrev_def getNext_def)
qed

lemma unlink_seg:
  assumes s: "seg (nlItems l) None h (as @ a # bs) None" and d: "distinct (as @ a # bs)"
  shows "seg (nlItems (unlink a l)) None (if as = [] then getNext a l else h) (as @ bs) None"
    and "nlItems (unlink a l) a = nlItems l a"
proof -
  note links = seg_links [OF s]
  let ?p = "if as = [] then None else Some (last as)" and ?n = "if bs = [] then None else Some (hd bs)"
  define l1 where "l1 = (case ?p of Some p \<Rightarrow> setNext p ?n l | None \<Rightarrow> l)"
  obtain it where it: "nlItems l a = Some it" "liNext it = ?n" using links by (auto simp: getNext_def)
  have la: "last as \<notin> set bs \<and> last as \<noteq> a" if "as \<noteq> []" using d last_in_set [OF that] by auto
  have segs: "seg (nlItems l) None h as (Some a)" "seg (nlItems l) (Some a) ?n bs None"
    using s it unfolding seg_append by auto
  have a1: "nlItems l1 a = nlItems l a" using la by (auto simp: l1_def)
  have as1: "seg (nlItems l1) None (if as = [] then ?n else h) as ?n"
  proof (cases as rule: rev_cases)
    case (snoc as' p)
    then show ?thesis using seg_setNext [of "nlItems l" None h as' p "Some a" ?n] segs(1) d by (simp add: l1_def)
  qed (simp add: l1_def)
  have bs1: "seg (nlItems l1) (Some a) ?n bs None"
  proof -
    have "seg (nlItems l1) (Some a) ?n bs None = seg (nlItems l) (Some a) ?n bs None"
      by (rule seg_frame) (use la in \<open>auto simp: l1_def\<close>)
    then show ?thesis using segs(2) by simp
  qed
  have eq: "unlink a l = (case ?n of Some n \<Rightarrow> setPrev n ?p l1 | None \<Rightarrow> l1)"
    unfolding unlink_def Let_def links(1,2) l1_def [symmetric]
    using a1 links by (simp add: getNext_def getPrev_def)
  show "nlItems (unlink a l) a = nlItems l a" using a1 d unfolding eq by (auto simp: hd_in_set)
  have as2: "seg (nlItems (unlink a l)) None (if as = [] then ?n else h) as ?n"
  proof -
    have "seg (nlItems (unlink a l)) None (if as = [] then ?n else h) as ?n = seg (nlItems l1) None (if as = [] then ?n else h) as ?n"
      by (rule seg_frame) (use d in \<open>cases bs; auto simp: eq\<close>)
    then show ?thesis using as1 by simp
  qed
  have bs2: "seg (nlItems (unlink a l)) ?p ?n bs None"
  proof (cases bs)
    case (Cons n bs')
    then show ?thesis using seg_setPrev [of "nlItems l1" "Some a" ?n n bs' None ?p] bs1 d by (simp add: eq)
  qed simp
  show "seg (nlItems (unlink a l)) None (if as = [] then getNext a l else h) (as @ bs) None"
    unfolding seg_append links(2) using as2 bs2 by blast
qed

lemma linkHead_frame [simp]:
  "nlHead (linkHead a l) = Some a" "nlNodes (linkHead a l) = nlNodes l" "nlFresh (linkHead a l) = nlFresh l"
  "infos (linkHead a l) = infos l" "dom (nlItems (linkHead a l)) = dom (nlItems l)"
proof -
  have [simp]: "infos (l\<lparr>nlHead := h\<rparr>) = infos l" for l h by (rule ext) (simp add: infos_def)
  show "nlHead (linkHead a l) = Some a" "nlNodes (linkHead a l) = nlNodes l" "nlFresh (linkHead a l) = nlFresh l"
    "infos (linkHead a l) = infos l" "dom (nlItems (linkHead a l)) = dom (nlItems l)"
    unfolding linkHead_def Let_def by (auto split: option.split simp del: setNext_frame(6) setPrev_frame(6))
qed

lemma linkHead_seg:
  assumes s: "seg (nlItems l) None (nlHead l) as None" and d: "a \<notin> set as" "distinct as" and it: "nlItems l a \<noteq> None"
  shows "seg (nlItems (linkHead a l)) None (Some a) (a # as) None"
proof -
  obtain it0 where it0: "nlItems l a = Some it0" using it by blast
  define l1 where "l1 = (case nlHead l of Some h \<Rightarrow> setPrev h (Some a) l | None \<Rightarrow> l)"
  have h: "nlHead l = (if as = [] then None else Some (hd as))" by (rule seg_first [OF s])
  have s1: "seg (nlItems l1) (Some a) (nlHead l) as None"
  proof (cases as)
    case (Cons b bs)
    then show ?thesis using seg_setPrev [of "nlItems l" None "nlHead l" b bs None "Some a"] s d(2) by (simp add: l1_def h)
  qed (use s in simp)
  have a1: "nlItems l1 a = Some it0" using it0 d(1) h hd_in_set [of as] by (auto simp: l1_def)
  have "nlHead l1 = nlHead l" by (simp add: l1_def split: option.split)
  then have m: "nlItems (linkHead a l) = (nlItems l1)(a \<mapsto> it0\<lparr>liNext := nlHead l, liPrev := None\<rparr>)"
    unfolding linkHead_def Let_def l1_def [symmetric] by (simp add: a1)
  have "seg (nlItems (linkHead a l)) (Some a) (nlHead l) as None = seg (nlItems l1) (Some a) (nlHead l) as None"
    by (rule seg_frame) (use d(1) in \<open>auto simp: m\<close>)
  then show ?thesis using s1 by (simp add: m)
qed

lemma nlInfo_infos: "nlInfo l n = (case mget (nlNodes l) n of Some a \<Rightarrow> infos l a | None \<Rightarrow> None)"
  by (simp add: nlInfo_def infos_def split: option.split)

lemma listInvD:
  assumes "listInv l ns"
  shows "gomap_wf (nlNodes l)" and "distinct ns" and "mkeys (nlNodes l) = set ns" and "distinct (addrs l ns)"
    and "seg (nlItems l) None (nlHead l) (addrs l ns) None" and "\<And>a. a \<in> dom (nlItems l) \<Longrightarrow> a < nlFresh l"
  using assms by (simp_all add: listInv_def)

lemma listInv_addr:
  assumes inv: "listInv l ns" and n: "n \<in> set ns"
  obtains a as bs xs ys where "mget (nlNodes l) n = Some a" and "addrs l ns = as @ a # bs" and "ns = xs @ n # ys"
    and "as = addrs l xs" and "bs = addrs l ys" and "remove1 n ns = xs @ ys"
proof -
  obtain a where a: "mget (nlNodes l) n = Some a"
    using n listInvD(3) [OF inv] by (metis mkeys_iff option.exhaust)
  obtain xs ys where ns: "ns = xs @ n # ys" using n by (meson split_list)
  moreover have "remove1 n ns = xs @ ys" using listInvD(2) [OF inv] ns by (simp add: remove1_append)
  moreover have "addrs l ns = addrs l xs @ a # addrs l ys" using ns a by (simp add: addrs_def)
  ultimately show thesis using a that by blast
qed

lemma moveToHead_spec:
  assumes inv: "listInv l ns" and n: "n \<in> set ns"
  shows "listInv (moveNodeInfoToHead n l) (n # remove1 n ns)" and "nlInfo (moveNodeInfoToHead n l) = nlInfo l"
proof -
  obtain a as bs xs ys where a: "mget (nlNodes l) n = Some a" "addrs l ns = as @ a # bs" "ns = xs @ n # ys"
    "as = addrs l xs" "bs = addrs l ys" "remove1 n ns = xs @ ys" using listInv_addr [OF inv n] .
  note d = listInvD [OF inv]
  show "nlInfo (moveNodeInfoToHead n l) = nlInfo l"
    by (rule ext) (simp add: nlInfo_infos moveNodeInfoToHead_def a(1) split: option.split)
  show "listInv (moveNodeInfoToHead n l) (n # remove1 n ns)"
  proof (cases "Some a = nlHead l")
    case True
    have "as = []" using seg_first [OF d(5)] a(2) True d(4) by (cases as) auto
    then have "xs = []" using a(4) by (simp add: addrs_def)
    moreover have "moveNodeInfoToHead n l = l" using True [symmetric] by (simp add: moveNodeInfoToHead_def a(1))
    ultimately show ?thesis using a(3,6) inv by simp
  next
    case False
    have s: "seg (nlItems l) None (nlHead l) (as @ a # bs) None" and di: "distinct (as @ a # bs)" using d a(2) by auto
    have "as \<noteq> []" using seg_first [OF s] False by (cases as) auto
    note u = unlink_seg [OF s di]
    have "seg (nlItems (linkHead a (unlink a l))) None (Some a) (a # as @ bs) None"
      using u \<open>as \<noteq> []\<close> di seg_links(3) [OF s] by (intro linkHead_seg) auto
    then show ?thesis using d di a
      by (simp add: listInv_def moveNodeInfoToHead_def False addrs_def)
  qed
qed

lemma moveToHead_new:
  fixes ni :: NodeInfo
  assumes inv: "listInv l ns" and n: "n \<notin> set ns"
  defines "l' \<equiv> moveNodeInfoToHead n (newNodeInfoListItem n ni l)"
  shows "listInv l' (n # ns)" and "nlInfo l' = (nlInfo l)(n \<mapsto> ni)"
proof -
  note d = listInvD [OF inv]
  let ?l1 = "newNodeInfoListItem n ni l" and ?a = "nlFresh l"
  have fresh: "?a \<notin> dom (nlItems l)" using d(6) by auto
  have in_dom: "set (addrs l ns) \<subseteq> dom (nlItems l)" by (rule seg_dom [OF d(5)])
  have hd: "nlHead l \<noteq> Some ?a"
    using seg_first [OF d(5)] in_dom fresh hd_in_set [of "addrs l ns"] by (metis option.distinct(1) option.inject subsetD)
  have nodes1: "mget (nlNodes ?l1) n = Some ?a" and head1: "nlHead ?l1 = nlHead l" by (simp_all add: newNodeInfoListItem_def)
  have un: "unlink ?a ?l1 = ?l1" by (simp add: unlink_def newNodeInfoListItem_def getPrev_def getNext_def)
  have addrs: "addrs ?l1 ns = addrs l ns" using n by (auto simp: addrs_def newNodeInfoListItem_def)
  have "seg (nlItems ?l1) None (nlHead l) (addrs l ns) None = seg (nlItems l) None (nlHead l) (addrs l ns) None"
    by (rule seg_frame) (use in_dom fresh in \<open>auto simp: newNodeInfoListItem_def\<close>)
  then have s1: "seg (nlItems ?l1) None (nlHead ?l1) (addrs l ns) None" using d(5) by (simp add: newNodeInfoListItem_def)
  have l': "l' = linkHead ?a ?l1" unfolding l'_def moveNodeInfoToHead_def using hd un
    by (simp add: nodes1 head1)
  have "seg (nlItems l') None (Some ?a) (?a # addrs l ns) None"
    unfolding l' using s1 fresh in_dom d(4) by (intro linkHead_seg) (auto simp: newNodeInfoListItem_def)
  moreover have "addrs l' (n # ns) = ?a # addrs l ns"
    using addrs by (simp add: l' addrs_def newNodeInfoListItem_def)
  moreover have "dom (nlItems l') = insert ?a (dom (nlItems l))" "nlFresh l' = Suc ?a"
    by (auto simp: l' newNodeInfoListItem_def)
  ultimately show "listInv l' (n # ns)"
    using d n fresh in_dom by (auto simp: listInv_def l' newNodeInfoListItem_def less_Suc_eq)
  show "nlInfo l' = (nlInfo l)(n \<mapsto> ni)"
  proof (rule ext)
    fix m
    have "mget (nlNodes l) m \<noteq> Some ?a"
    proof
      assume m: "mget (nlNodes l) m = Some ?a"
      then have "m \<in> set ns" using d(3) by (metis mkeys_iff option.distinct(1))
      then have "?a \<in> set (addrs l ns)" using m by (force simp: addrs_def)
      then show False using in_dom fresh by auto
    qed
    then show "nlInfo l' m = ((nlInfo l)(n \<mapsto> ni)) m"
      by (auto simp: l' nlInfo_infos newNodeInfoListItem_def infos_def split: option.split)
  qed
qed

lemma removeFromList_spec:
  assumes inv: "listInv l ns" and n: "n \<in> set ns"
  shows "listInv (removeNodeInfoFromList n l) (remove1 n ns)"
    and "nlInfo (removeNodeInfoFromList n l) = (nlInfo l)(n := None)"
proof -
  obtain a as bs xs ys where a: "mget (nlNodes l) n = Some a" "addrs l ns = as @ a # bs" "ns = xs @ n # ys"
    "as = addrs l xs" "bs = addrs l ys" "remove1 n ns = xs @ ys" using listInv_addr [OF inv n] .
  note d = listInvD [OF inv]
  have s: "seg (nlItems l) None (nlHead l) (as @ a # bs) None" and di: "distinct (as @ a # bs)" using d a(2) by auto
  note u = unlink_seg [OF s di]
  let ?l' = "removeNodeInfoFromList n l" and ?u = "unlink a l"
  have hd: "Some a = nlHead l \<longleftrightarrow> as = []" using seg_first [OF s] di by (cases as) auto
  have nx: "getNext a ?u = getNext a l" using u(2) by (simp add: getNext_def)
  have f: "nlItems ?l' = nlItems ?u" "nlNodes ?l' = mdel n (nlNodes l)" "nlFresh ?l' = nlFresh l"
      "nlHead ?l' = (if as = [] then getNext a l else nlHead l)"
    using hd by (auto simp: removeNodeInfoFromList_def a(1) Let_def nx)
  have ad: "addrs ?l' (remove1 n ns) = as @ bs"
    unfolding a(6) using d(2) by (auto simp: addrs_def f a(3,4,5))
  show "listInv ?l' (remove1 n ns)"
    using d u(1) di ad unlink_frame(5) [of a l]
    by (auto simp: listInv_def f ad distinct_remove1 set_remove1_eq simp del: unlink_frame(5))
  have "infos ?l' = infos ?u" by (rule ext) (simp only: infos_def f)
  then have "infos ?l' = infos l" by simp
  then show "nlInfo ?l' = (nlInfo l)(n := None)" by (auto simp: fun_eq_iff nlInfo_infos f split: option.split)
qed

lemma setInfo_spec:
  assumes inv: "listInv l ns" and n: "n \<in> set ns"
  shows "listInv (nlSetInfo n ni l) ns" and "nlInfo (nlSetInfo n ni l) = (nlInfo l)(n \<mapsto> ni)"
proof -
  obtain a as bs xs ys where a: "mget (nlNodes l) n = Some a" "addrs l ns = as @ a # bs" "ns = xs @ n # ys"
    "as = addrs l xs" "bs = addrs l ys" "remove1 n ns = xs @ ys" using listInv_addr [OF inv n] .
  note d = listInvD [OF inv]
  have f: "nlItems (nlSetInfo n ni l) = (nlItems l)(a := map_option (liInfo_update (\<lambda>_. ni)) (nlItems l a))"
    "nlNodes (nlSetInfo n ni l) = nlNodes l" "nlHead (nlSetInfo n ni l) = nlHead l" "nlFresh (nlSetInfo n ni l) = nlFresh l"
    by (simp_all add: nlSetInfo_def a(1) updItem_def)
  have "dom (nlItems (nlSetInfo n ni l)) = dom (nlItems l)" by (auto simp: f)
  then show "listInv (nlSetInfo n ni l) ns"
    using d by (auto simp: listInv_def f addrs_def seg_info simp del: fun_upd_apply)
  have "a \<in> dom (nlItems l)" using seg_dom [OF d(5)] a(2) by auto
  moreover have "mget (nlNodes l) m \<noteq> Some a" if "m \<noteq> n" for m
  proof
    assume m: "mget (nlNodes l) m = Some a"
    then have "m \<in> set ns" using d(3) by (metis mkeys_iff option.distinct(1))
    then have "m \<in> set xs \<union> set ys" using a(3) that by auto
    then have "a \<in> set as \<union> set bs" using m by (force simp: a(4,5) addrs_def)
    then show False using d(4) a(2) by auto
  qed
  ultimately show "nlInfo (nlSetInfo n ni l) = (nlInfo l)(n \<mapsto> ni)"
    by (auto simp: fun_eq_iff nlInfo_def f a(1) split: option.split)
qed

lemma listInv_info: "listInv l ns \<Longrightarrow> nlInfo l n \<noteq> None \<longleftrightarrow> n \<in> set ns"
proof
  assume inv: "listInv l ns"
  show "n \<in> set ns" if "nlInfo l n \<noteq> None"
    using that listInvD(3) [OF inv] by (metis mkeys_iff nlInfo_def option.simps(4))
  show "nlInfo l n \<noteq> None" if n: "n \<in> set ns"
  proof -
    obtain a as bs xs ys where a: "mget (nlNodes l) n = Some a" "addrs l ns = as @ a # bs" "ns = xs @ n # ys"
      "as = addrs l xs" "bs = addrs l ys" "remove1 n ns = xs @ ys" using listInv_addr [OF inv n] .
    have "a \<in> dom (nlItems l)" using seg_dom [OF listInvD(5) [OF inv]] a(2) by auto
    then show ?thesis using a(1) by (auto simp: nlInfo_def)
  qed
qed

lemma listInv_new: "listInv newNodeList []"
  by (simp add: listInv_def newNodeList_def addrs_def)

lemma walk_seg: "seg (nlItems l) p h as None \<Longrightarrow> length as \<le> n \<Longrightarrow> walk n h l = as"
proof (induction as arbitrary: p h n)
  case (Cons a as)
  then obtain m where "n = Suc m" by (cases n) auto
  with Cons show ?case by (auto simp: getNext_def split: option.splits)
next
  case Nil
  then show ?case by (cases n) auto
qed

lemma absent_node: "listInv l ns \<Longrightarrow> n \<notin> set ns \<Longrightarrow> mget (nlNodes l) n = None"
  using listInvD(3) by (metis mkeys_iff)

section \<open>Properties\<close>

text \<open>C29: the pointers of \<open>cache.nodes\<close> implement a list of names without repetition, most recently updated first:
  walking from the head visits the items of the list in order and ends; \<open>moveNodeInfoToHead\<close> moves a name to the
  front and links a new item in front; \<open>removeNodeInfoFromList\<close> takes a name out; a name that is not there
  changes nothing, and no operation touches the node info of another name.\<close>

theorem nodeList_refine:
  assumes "listInv l ns"
  shows "walk (length ns) (nlHead l) l = addrs l ns \<and>
    (n \<in> set ns \<longrightarrow> listInv (moveNodeInfoToHead n l) (n # remove1 n ns) \<and> nlInfo (moveNodeInfoToHead n l) = nlInfo l \<and>
       listInv (removeNodeInfoFromList n l) (remove1 n ns) \<and> nlInfo (removeNodeInfoFromList n l) = (nlInfo l)(n := None)) \<and>
    (n \<notin> set ns \<longrightarrow> moveNodeInfoToHead n l = l \<and> removeNodeInfoFromList n l = l \<and>
       listInv (moveNodeInfoToHead n (newNodeInfoListItem n ni l)) (n # ns) \<and>
       nlInfo (moveNodeInfoToHead n (newNodeInfoListItem n ni l)) = (nlInfo l)(n \<mapsto> ni))"
proof -
  have "walk (length ns) (nlHead l) l = addrs l ns"
    by (rule walk_seg [OF listInvD(5) [OF assms]]) (simp add: addrs_def)
  moreover have "moveNodeInfoToHead n l = l \<and> removeNodeInfoFromList n l = l" if "n \<notin> set ns"
    using absent_node [OF assms that] by (simp add: moveNodeInfoToHead_def removeNodeInfoFromList_def)
  ultimately show ?thesis
    using moveToHead_spec [OF assms, of n] removeFromList_spec [OF assms, of n] moveToHead_new [OF assms, of n ni] by blast
qed

theorem nodeList_refine_witness:
  "listInv (moveNodeInfoToHead ''a'' (newNodeInfoListItem ''a'' (emptyNodeInfo 1) newNodeList)) [''a''] \<and>
   walk 0 (nlHead newNodeList) newNodeList = []"
  using nodeList_refine [OF listInv_new, of "''a''" "emptyNodeInfo 1"] by simp

end
