(* ===== verification/SchedCache.thy ===== *)
theory SchedCache
  imports NodeList NodeTree Labels
begin

text \<open>
  The scheduler cache (\<open>pkg/scheduler/internal/cache/cache.go\<close>): assumed and added pods, node infos in the linked
  list of \<open>NodeList\<close>, the node tree, and image states. Every operation holds the cache's mutex. The generation
  counter is the package variable of \<open>nodeinfo\<close>. Times are nanoseconds; \<open>klog.Fatalf\<close> is the error \<open>CacheFatal\<close>,
  a nil dereference inside a node info or the tree is their panic.
\<close>

section \<open>Model\<close>

record podState =
  stPod :: Pod
  stDeadline :: "int option"
  stBindingFinished :: bool

record imageState =
  isSize :: i64
  isNodes :: "string list"

record schedulerCache =
  scTTL :: i64
  scAssumedPods :: "(string, bool) gomap"
  scPodStates :: "(string, podState) gomap"
  scList :: nodeList
  scTree :: nodeTree
  scImageStates :: "(string, imageState) gomap"
  scGeneration :: int

datatype cacheErr = CacheNoKey | CachePresent | CacheWrongNode | CacheNotAssumed | CacheAlreadyAdded | CacheNotAdded
  | CacheNotFound | CacheFatal | CachePanic | CacheNodeErr nodeInfoErr | CacheTreeErr treeErr | CacheListerErr

text \<open>Errors that are logged and ignored differ from a panic, which is not.\<close>

definition isPanic :: "cacheErr option \<Rightarrow> bool" where
  "isPanic e = (e = Some (CacheNodeErr PanicNilNode) \<or> e = Some CachePanic)"

type_synonym cacheRes = "schedulerCache \<times> cacheErr option"

definition newSchedulerCache :: "i64 \<Rightarrow> schedulerCache" where
  "newSchedulerCache ttl =
     \<lparr>scTTL = ttl, scAssumedPods = [], scPodStates = [], scList = newNodeList, scTree = newNodeTree [],
      scImageStates = [], scGeneration = 0\<rparr>"

definition isAssumed :: "string \<Rightarrow> schedulerCache \<Rightarrow> bool" where
  "isAssumed key c = (case mget (scAssumedPods c) key of Some b \<Rightarrow> b | None \<Rightarrow> False)"

text \<open>The update of a node info through its item, with the generation counter.\<close>

definition putInfo :: "string \<Rightarrow> NodeInfo \<times> int \<Rightarrow> schedulerCache \<Rightarrow> schedulerCache" where
  "putInfo name = (\<lambda>(ni, g) c. c\<lparr>scList := nlSetInfo name ni (scList c), scGeneration := g\<rparr>)"

definition newItem :: "features \<Rightarrow> string \<Rightarrow> schedulerCache \<Rightarrow> schedulerCache" where
  "newItem f name c =
     (let (ni, g) = NewNodeInfo f [] (scGeneration c)
      in c\<lparr>scList := newNodeInfoListItem name ni (scList c), scGeneration := g\<rparr>)"

definition toHead :: "string \<Rightarrow> schedulerCache \<Rightarrow> schedulerCache" where
  "toHead name c = c\<lparr>scList := moveNodeInfoToHead name (scList c)\<rparr>"

definition cacheAddPod :: "features \<Rightarrow> Pod \<Rightarrow> schedulerCache \<Rightarrow> schedulerCache" where
  "cacheAddPod f pod c =
     (let name = podNodeName pod;
          c = (if nlInfo (scList c) name = None then newItem f name c else c)
      in case nlInfo (scList c) name of
           None \<Rightarrow> c
         | Some ni \<Rightarrow> toHead name (putInfo name (addPod f pod (scGeneration c) ni) c))"

definition cacheRemovePod :: "features \<Rightarrow> Pod \<Rightarrow> schedulerCache \<Rightarrow> cacheRes" where
  "cacheRemovePod f pod c =
     (case nlInfo (scList c) (podNodeName pod) of
        None \<Rightarrow> (c, None)
      | Some ni \<Rightarrow>
          (case removePod f pod (scGeneration c) ni of
             (ni', g, Some e) \<Rightarrow> (putInfo (podNodeName pod) (ni', g) c, Some (CacheNodeErr e))
           | (ni', g, None) \<Rightarrow> (toHead (podNodeName pod) (putInfo (podNodeName pod) (ni', g) c), None)))"

definition cacheUpdatePod :: "features \<Rightarrow> Pod \<Rightarrow> Pod \<Rightarrow> schedulerCache \<Rightarrow> cacheRes" where
  "cacheUpdatePod f oldPod newPod c =
     (if nlInfo (scList c) (podNodeName newPod) = None then (c, None)
      else if pstPhase (podStatus newPod) = ''NoSchedule'' \<and> pstPhase (podStatus oldPod) = ''NoSchedule'' then (c, None)
      else (case cacheRemovePod f oldPod c of
              (c, Some e) \<Rightarrow> (c, Some e)
            | (c, None) \<Rightarrow>
                if pstPhase (podStatus oldPod) = ''Running'' \<and> pstPhase (podStatus newPod) = ''NoSchedule'' then
                  (case GetPodKey newPod of
                     None \<Rightarrow> (c, Some CacheNoKey)
                   | Some key \<Rightarrow> (c\<lparr>scPodStates := mdel key (scPodStates c)\<rparr>, None))
                else (cacheAddPod f newPod c, None)))"

definition AssumePod :: "features \<Rightarrow> Pod \<Rightarrow> schedulerCache \<Rightarrow> cacheRes" where
  "AssumePod f pod c =
     (case GetPodKey pod of
        None \<Rightarrow> (c, Some CacheNoKey)
      | Some key \<Rightarrow>
          if mget (scPodStates c) key \<noteq> None then (c, Some CachePresent)
          else (let c = cacheAddPod f pod c in
                (c\<lparr>scPodStates := mput key \<lparr>stPod = pod, stDeadline = None, stBindingFinished = False\<rparr> (scPodStates c),
                   scAssumedPods := mput key True (scAssumedPods c)\<rparr>, None)))"

definition finishBinding :: "Pod \<Rightarrow> int \<Rightarrow> schedulerCache \<Rightarrow> cacheRes" where
  "finishBinding pod now c =
     (case GetPodKey pod of
        None \<Rightarrow> (c, Some CacheNoKey)
      | Some key \<Rightarrow>
          (case mget (scPodStates c) key of
             Some currState \<Rightarrow>
               if isAssumed key c then
                 (c\<lparr>scPodStates := mput key (currState\<lparr>stBindingFinished := True, stDeadline := Some (now + sint (scTTL c))\<rparr>)
                      (scPodStates c)\<rparr>, None)
               else (c, None)
           | None \<Rightarrow> (c, None)))"

definition ForgetPod :: "features \<Rightarrow> Pod \<Rightarrow> schedulerCache \<Rightarrow> cacheRes" where
  "ForgetPod f pod c =
     (case GetPodKey pod of
        None \<Rightarrow> (c, Some CacheNoKey)
      | Some key \<Rightarrow>
          (case mget (scPodStates c) key of
             None \<Rightarrow> (c, Some CacheNotAssumed)
           | Some currState \<Rightarrow>
               if podNodeName (stPod currState) \<noteq> podNodeName pod then (c, Some CacheWrongNode)
               else if isAssumed key c then
                 (case cacheRemovePod f pod c of
                    (c, Some e) \<Rightarrow> (c, Some e)
                  | (c, None) \<Rightarrow> (c\<lparr>scAssumedPods := mdel key (scAssumedPods c), scPodStates := mdel key (scPodStates c)\<rparr>, None))
               else (c, Some CacheNotAssumed)))"

definition AddPod :: "features \<Rightarrow> Pod \<Rightarrow> schedulerCache \<Rightarrow> cacheRes" where
  "AddPod f pod c =
     (case GetPodKey pod of
        None \<Rightarrow> (c, Some CacheNoKey)
      | Some key \<Rightarrow>
          (case mget (scPodStates c) key of
             Some currState \<Rightarrow>
               if isAssumed key c then
                 (case (if podNodeName (stPod currState) \<noteq> podNodeName pod then
                          (case cacheRemovePod f (stPod currState) c of
                             (c, e) \<Rightarrow> if isPanic e then (c, e) else (cacheAddPod f pod c, None))
                        else (c, None)) of
                    (c, Some e) \<Rightarrow> (c, Some e)
                  | (c, None) \<Rightarrow>
                      (c\<lparr>scAssumedPods := mdel key (scAssumedPods c),
                         scPodStates := mput key (currState\<lparr>stDeadline := None, stPod := pod\<rparr>) (scPodStates c)\<rparr>, None))
               else (c, Some CacheAlreadyAdded)
           | None \<Rightarrow>
               (let c = cacheAddPod f pod c in
                (c\<lparr>scPodStates := mput key \<lparr>stPod = pod, stDeadline = None, stBindingFinished = False\<rparr> (scPodStates c)\<rparr>,
                 None))))"

text \<open>\<open>UpdatePod\<close> writes the new pod into the state object, which \<open>updatePod\<close> may have taken out of the map.\<close>

definition UpdatePod :: "features \<Rightarrow> Pod \<Rightarrow> Pod \<Rightarrow> schedulerCache \<Rightarrow> cacheRes" where
  "UpdatePod f oldPod newPod c =
     (case GetPodKey oldPod of
        None \<Rightarrow> (c, Some CacheNoKey)
      | Some key \<Rightarrow>
          (case mget (scPodStates c) key of
             None \<Rightarrow> (c, Some CacheNotAdded)
           | Some currState \<Rightarrow>
               if isAssumed key c then (c, Some CacheNotAdded)
               else if podNodeName (stPod currState) \<noteq> podNodeName newPod \<and> psVirtualMachine (podSpec newPod) = None
               then (c, Some CacheFatal)
               else (case cacheUpdatePod f oldPod newPod c of
                       (c, Some e) \<Rightarrow> (c, Some e)
                     | (c, None) \<Rightarrow>
                         (if mget (scPodStates c) key = None then c
                          else c\<lparr>scPodStates := mput key (currState\<lparr>stPod := newPod\<rparr>) (scPodStates c)\<rparr>, None))))"

definition RemovePod :: "features \<Rightarrow> Pod \<Rightarrow> schedulerCache \<Rightarrow> cacheRes" where
  "RemovePod f pod c =
     (case GetPodKey pod of
        None \<Rightarrow> (c, Some CacheNoKey)
      | Some key \<Rightarrow>
          (case mget (scPodStates c) key of
             None \<Rightarrow> (c, Some CacheNotFound)
           | Some currState \<Rightarrow>
               if isAssumed key c then (c, Some CacheNotFound)
               else if podNodeName (stPod currState) \<noteq> podNodeName pod then (c, Some CacheFatal)
               else (case cacheRemovePod f (stPod currState) c of
                       (c, Some e) \<Rightarrow> (c, Some e)
                     | (c, None) \<Rightarrow> (c\<lparr>scPodStates := mdel key (scPodStates c)\<rparr>, None))))"

definition IsAssumedPod :: "Pod \<Rightarrow> schedulerCache \<Rightarrow> cacheErr + bool" where
  "IsAssumedPod pod c = (case GetPodKey pod of None \<Rightarrow> Inl CacheNoKey | Some key \<Rightarrow> Inr (isAssumed key c))"

definition GetPod :: "Pod \<Rightarrow> schedulerCache \<Rightarrow> cacheErr + Pod" where
  "GetPod pod c =
     (case GetPodKey pod of
        None \<Rightarrow> Inl CacheNoKey
      | Some key \<Rightarrow> (case mget (scPodStates c) key of None \<Rightarrow> Inl CacheNotFound | Some st \<Rightarrow> Inr (stPod st)))"

section \<open>Model: image states\<close>

definition nodeImages :: "Node \<Rightarrow> (string \<times> i64) list" where
  "nodeImages node = concat (map (\<lambda>image. map (\<lambda>name. (name, ciSizeBytes image)) (ciNames image)) (nstImages (nodeStatus node)))"

definition createImageStateSummary :: "imageState \<Rightarrow> ImageStateSummary" where
  "createImageStateSummary state = \<lparr>issSize = isSize state, issNumNodes = length (isNodes state)\<rparr>"

definition addImage :: "string \<Rightarrow> string \<times> i64 \<Rightarrow>
    (string, imageState) gomap \<times> (string, ImageStateSummary) gomap \<Rightarrow> (string, imageState) gomap \<times> (string, ImageStateSummary) gomap" where
  "addImage node = (\<lambda>(name, size) (images, newSum).
     let state = (case mget images name of
                    None \<Rightarrow> \<lparr>isSize = size, isNodes = [node]\<rparr>
                  | Some state \<Rightarrow> state\<lparr>isNodes := List.insert node (isNodes state)\<rparr>)
     in (mput name state images,
         if mget newSum name = None then mput name (createImageStateSummary state) newSum else newSum))"

definition addNodeImageStates :: "Node \<Rightarrow> (string, imageState) gomap \<Rightarrow>
    (string, imageState) gomap \<times> (string, ImageStateSummary) gomap" where
  "addNodeImageStates node images = fold (addImage (nodeName node)) (nodeImages node) (images, [])"

definition removeImage :: "string \<Rightarrow> string \<times> i64 \<Rightarrow> (string, imageState) gomap \<Rightarrow> (string, imageState) gomap" where
  "removeImage node = (\<lambda>(name, _) images.
     case mget images name of
       None \<Rightarrow> images
     | Some state \<Rightarrow>
         (let nodes = removeAll node (isNodes state) in
          if nodes = [] then mdel name images else mput name (state\<lparr>isNodes := nodes\<rparr>) images))"

definition removeNodeImageStates :: "Node option \<Rightarrow> (string, imageState) gomap \<Rightarrow> (string, imageState) gomap" where
  "removeNodeImageStates node images =
     (case node of None \<Rightarrow> images | Some node \<Rightarrow> fold (removeImage (nodeName node)) (nodeImages node) images)"

section \<open>Model: nodes\<close>

text \<open>The end of \<open>AddNode\<close> and \<open>UpdateNode\<close>: the image states and the node object, on the node's info.\<close>

definition installNode :: "features \<Rightarrow> Node \<Rightarrow> schedulerCache \<Rightarrow> schedulerCache" where
  "installNode f node c =
     (case nlInfo (scList c) (nodeName node) of
        None \<Rightarrow> c
      | Some ni \<Rightarrow>
          (let (images, newSum) = addNodeImageStates node (scImageStates c)
           in putInfo (nodeName node) (SetNode f node (scGeneration c) (ni\<lparr>niImageStates := newSum\<rparr>))
                (c\<lparr>scImageStates := images\<rparr>)))"

text \<open>A new item for a node, with the resource provider it belongs to.\<close>

definition newNodeItem :: "features \<Rightarrow> string \<Rightarrow> string \<Rightarrow> schedulerCache \<Rightarrow> cacheRes" where
  "newNodeItem f name resourceProviderId c =
     (let (ni, g) = NewNodeInfo f [] (scGeneration c); c = c\<lparr>scGeneration := g\<rparr> in
      case SetResourceProviderId resourceProviderId ni of
        (ni, Some PanicNilNode) \<Rightarrow> (c, Some (CacheNodeErr PanicNilNode))
      | (ni, _) \<Rightarrow> (c\<lparr>scList := newNodeInfoListItem name ni (scList c)\<rparr>, None))"

definition dropImages :: "string \<Rightarrow> schedulerCache \<Rightarrow> schedulerCache" where
  "dropImages name c =
     c\<lparr>scImageStates := removeNodeImageStates (case nlInfo (scList c) name of Some ni \<Rightarrow> niNode ni | None \<Rightarrow> None)
                         (scImageStates c)\<rparr>"

definition cacheAddNode :: "features \<Rightarrow> Node \<Rightarrow> string \<Rightarrow> schedulerCache \<Rightarrow> cacheRes" where
  "cacheAddNode f node resourceProviderId c =
     (let name = nodeName node in
      case (if nlInfo (scList c) name = None then newNodeItem f name resourceProviderId c else (dropImages name c, None)) of
        (c, Some e) \<Rightarrow> (c, Some e)
      | (c, None) \<Rightarrow>
          (let c = toHead name c
           in (installNode f node (c\<lparr>scTree := ntAddNode node (scTree c)\<rparr>), None)))"

datatype listerRes = Found Node | ListerNotFound | ListerError

fun GetNodeFromNodelisters :: "(string, string \<Rightarrow> listerRes) gomap \<Rightarrow> string \<Rightarrow> (Node \<times> string) option" where
  "GetNodeFromNodelisters [] name = None"
| "GetNodeFromNodelisters ((rpId, nodeLister) # ls) name =
     (case nodeLister name of
        Found node \<Rightarrow> Some (node, rpId)
      | ListerNotFound \<Rightarrow> GetNodeFromNodelisters ls name
      | ListerError \<Rightarrow> None)"

definition cacheUpdateNode :: "features \<Rightarrow> Node option \<Rightarrow> Node \<Rightarrow> (string, string \<Rightarrow> listerRes) gomap \<Rightarrow> schedulerCache \<Rightarrow> cacheRes" where
  "cacheUpdateNode f oldNode newNode nodeListers c =
     (let name = nodeName newNode in
      case (if nlInfo (scList c) name = None then
              (case GetNodeFromNodelisters nodeListers name of
                 None \<Rightarrow> (c\<lparr>scGeneration := scGeneration c + 1\<rparr>, Some CacheListerErr)
               | Some (_, resourceProviderId) \<Rightarrow>
                   (case newNodeItem f name resourceProviderId c of
                      (c, Some e) \<Rightarrow> (c, Some e)
                    | (c, None) \<Rightarrow> (c\<lparr>scTree := ntAddNode newNode (scTree c)\<rparr>, None)))
            else (dropImages name c, None)) of
        (c, Some e) \<Rightarrow> (c, Some e)
      | (c, None) \<Rightarrow>
          (let c = toHead name c
           in case ntUpdateNode oldNode newNode (scTree c) of
                (t, Some e) \<Rightarrow> (c\<lparr>scTree := t\<rparr>, Some (CacheTreeErr e))
              | (t, None) \<Rightarrow> (installNode f newNode (c\<lparr>scTree := t\<rparr>), None)))"

definition cacheRemoveNode :: "Node \<Rightarrow> schedulerCache \<Rightarrow> cacheRes" where
  "cacheRemoveNode node c =
     (let name = nodeName node in
      if nlInfo (scList c) name = None then (c, Some CacheNotFound)
      else (let c = c\<lparr>scList := removeNodeInfoFromList name (scList c)\<rparr> in
            case ntRemoveNode node (scTree c) of
              (t, Some e) \<Rightarrow> (c\<lparr>scTree := t\<rparr>, Some (CacheTreeErr e))
            | (t, None) \<Rightarrow>
                (c\<lparr>scTree := t, scImageStates := removeNodeImageStates (Some node) (scImageStates c)\<rparr>, None)))"

definition expirePod :: "features \<Rightarrow> string \<Rightarrow> podState \<Rightarrow> schedulerCache \<Rightarrow> cacheRes" where
  "expirePod f key ps c =
     (case cacheRemovePod f (stPod ps) c of
        (c, Some e) \<Rightarrow> (c, Some e)
      | (c, None) \<Rightarrow> (c\<lparr>scAssumedPods := mdel key (scAssumedPods c), scPodStates := mdel key (scPodStates c)\<rparr>, None))"

fun cleanupLoop :: "features \<Rightarrow> int \<Rightarrow> string list \<Rightarrow> schedulerCache \<Rightarrow> cacheRes" where
  "cleanupLoop f now [] c = (c, None)"
| "cleanupLoop f now (key # keys) c =
     (case mget (scPodStates c) key of
        None \<Rightarrow> (c, Some CacheFatal)
      | Some ps \<Rightarrow>
          if \<not> stBindingFinished ps then cleanupLoop f now keys c
          else (case stDeadline ps of
                  None \<Rightarrow> (c, Some CachePanic)
                | Some deadline \<Rightarrow>
                    if deadline < now then
                      (case expirePod f key ps c of
                         (c, e) \<Rightarrow> if isPanic e then (c, e) else cleanupLoop f now keys c)
                    else cleanupLoop f now keys c))"

definition cleanupAssumedPods :: "features \<Rightarrow> int \<Rightarrow> schedulerCache \<Rightarrow> cacheRes" where
  "cleanupAssumedPods f now c = cleanupLoop f now (map fst (scAssumedPods c)) c"

definition GetNodeInfo :: "string \<Rightarrow> schedulerCache \<Rightarrow> cacheErr + Node option" where
  "GetNodeInfo name c = (case nlInfo (scList c) name of None \<Rightarrow> Inl CacheNotFound | Some ni \<Rightarrow> Inr (niNode ni))"

definition cacheFilteredList :: "(Pod \<Rightarrow> bool) \<Rightarrow> Selector \<Rightarrow> schedulerCache \<Rightarrow> Pod list" where
  "cacheFilteredList podFilter selector c =
     concat (map (\<lambda>(name, _). case nlInfo (scList c) name of
                     None \<Rightarrow> []
                   | Some ni \<Rightarrow> filter (\<lambda>pod. podFilter pod \<and> selMatches (omLabels (podMeta pod)) selector) (niPods ni))
              (nlNodes (scList c)))"

definition Dump :: "schedulerCache \<Rightarrow> (string, NodeInfo) gomap \<times> (string, bool) gomap" where
  "Dump c =
     (List.map_filter (\<lambda>(name, _). map_option (\<lambda>ni. (name, nodeInfoClone ni)) (nlInfo (scList c) name)) (nlNodes (scList c)),
      scAssumedPods c)"

end
