(* ===== verification/CacheSpec.thy ===== *)
theory CacheSpec
  imports SchedCache
begin

text \<open>
  What the scheduler cache promises: its invariant, its step relation, and the lemmas by which every
  operation keeps the invariant. The invariant ties the three views together: the linked list and the
  generations in its order, the node infos with the sums over their pods, and the states of the pods.
\<close>

section \<open>Invariant\<close>

abbreviation cacheInfo :: "schedulerCache \<Rightarrow> string \<Rightarrow> NodeInfo option" where
  "cacheInfo c \<equiv> nlInfo (scList c)"

text \<open>A pod on a node has a state with the same uid and specification, so it is on one node only.\<close>

definition podOn :: "(string \<Rightarrow> podState option) \<Rightarrow> string \<Rightarrow> Pod \<Rightarrow> bool" where
  "podOn states n p \<longleftrightarrow> podUID p \<noteq> [] \<and> podNodeName p = n \<and>
     (case states (podUID p) of Some st \<Rightarrow> podSpec (stPod st) = podSpec p | None \<Rightarrow> False)"

definition nodeOk :: "features \<Rightarrow> (string \<Rightarrow> podState option) \<Rightarrow> string \<Rightarrow> NodeInfo \<Rightarrow> bool" where
  "nodeOk f states n ni \<longleftrightarrow> nodeInfoInv f ni \<and> distinct (map podUID (niPods ni)) \<and> list_all (podOn states n) (niPods ni)"

definition infosOk :: "features \<Rightarrow> (string \<Rightarrow> NodeInfo option) \<Rightarrow> (string \<Rightarrow> podState option) \<Rightarrow> bool" where
  "infosOk f im states \<longleftrightarrow> (\<forall>n ni. im n = Some ni \<longrightarrow> nodeOk f states n ni)"

definition statesOk :: "schedulerCache \<Rightarrow> bool" where
  "statesOk c \<longleftrightarrow> gomap_wf (scPodStates c) \<and> gomap_wf (scAssumedPods c) \<and>
     (\<forall>key st. mget (scPodStates c) key = Some st \<longrightarrow> podUID (stPod st) = key \<and> key \<noteq> []) \<and>
     (\<forall>key b. mget (scAssumedPods c) key = Some b \<longrightarrow>
        b \<and> (\<exists>st. mget (scPodStates c) key = Some st \<and> (stBindingFinished st \<longrightarrow> stDeadline st \<noteq> None)))"

definition gensOk :: "(string \<Rightarrow> NodeInfo option) \<Rightarrow> int \<Rightarrow> string list \<Rightarrow> bool" where
  "gensOk im g ns \<longleftrightarrow>
     sorted_wrt (\<lambda>m n. niGeneration (the (im n)) < niGeneration (the (im m))) ns \<and>
     (\<forall>n ni. im n = Some ni \<longrightarrow> niGeneration ni \<le> g)"

definition cacheInvL :: "features \<Rightarrow> schedulerCache \<Rightarrow> string list \<Rightarrow> bool" where
  "cacheInvL f c ns \<longleftrightarrow> listInv (scList c) ns \<and> treeInv (scTree c) \<and> gensOk (cacheInfo c) (scGeneration c) ns \<and>
     infosOk f (cacheInfo c) (mget (scPodStates c)) \<and> statesOk c"

definition cacheInv :: "features \<Rightarrow> schedulerCache \<Rightarrow> bool" where
  "cacheInv f c \<longleftrightarrow> (\<exists>ns. cacheInvL f c ns)"

text \<open>The pod an event carries is the pod the cache knows under its uid.\<close>

definition sameSpec :: "schedulerCache \<Rightarrow> Pod \<Rightarrow> bool" where
  "sameSpec c pod \<longleftrightarrow>
     (case mget (scPodStates c) (podUID pod) of Some st \<Rightarrow> podSpec (stPod st) = podSpec pod | None \<Rightarrow> True)"

text \<open>The node objects of the cached nodes; the tree has exactly these nodes, each in its zone.\<close>

definition cacheNode :: "schedulerCache \<Rightarrow> string \<Rightarrow> Node option" where
  "cacheNode c n = (case cacheInfo c n of Some ni \<Rightarrow> niNode ni | None \<Rightarrow> None)"

definition treeSync :: "schedulerCache \<Rightarrow> bool" where
  "treeSync c \<longleftrightarrow> (\<forall>n nd. cacheNode c n = Some nd \<longrightarrow> nodeName nd = n) \<and>
     treePairs (scTree c) = {(GetZoneKey nd, n) | n nd. cacheNode c n = Some nd}"

definition sameNodes :: "schedulerCache \<Rightarrow> schedulerCache \<Rightarrow> bool" where
  "sameNodes c c' \<longleftrightarrow> scTree c' = scTree c \<and> cacheNode c' = cacheNode c"

text \<open>What changes gets a generation that is newer than every generation so far.\<close>

definition genStep :: "schedulerCache \<Rightarrow> schedulerCache \<Rightarrow> bool" where
  "genStep c c' \<longleftrightarrow> scGeneration c \<le> scGeneration c' \<and>
     (\<forall>n ni'. cacheInfo c' n = Some ni' \<longrightarrow> cacheInfo c n = Some ni' \<or> scGeneration c < niGeneration ni')"

definition keyAbsent :: "(string \<Rightarrow> NodeInfo option) \<Rightarrow> string \<Rightarrow> bool" where
  "keyAbsent im key \<longleftrightarrow> (\<forall>n ni. im n = Some ni \<longrightarrow> key \<notin> podUID ` set (niPods ni))"

text \<open>The item a node event works on: the cached one, or a new one in front of the list.\<close>

definition nodeItem :: "features \<Rightarrow> string \<Rightarrow> NodeInfo \<Rightarrow> schedulerCache \<Rightarrow> schedulerCache \<Rightarrow> bool" where
  "nodeItem f n ni c c1 \<longleftrightarrow> scPodStates c1 = scPodStates c \<and> scAssumedPods c1 = scAssumedPods c \<and> nodeInfoInv f ni \<and>
     scGeneration c \<le> scGeneration c1 \<and>
     (if cacheInfo c n = None then scList c1 = newNodeInfoListItem n ni (scList c) \<and> niPods ni = []
      else scList c1 = scList c \<and> cacheInfo c n = Some ni)"

section \<open>Node infos\<close>

lemma infosOkD: "infosOk f im states \<Longrightarrow> im n = Some ni \<Longrightarrow> nodeOk f states n ni"
  by (simp add: infosOk_def)

lemma infosOk_upd: "infosOk f im states \<Longrightarrow> nodeOk f states n ni \<Longrightarrow> infosOk f (im(n \<mapsto> ni)) states"
  by (simp add: infosOk_def)

lemma infosOk_none: "infosOk f im states \<Longrightarrow> infosOk f (im(n := None)) states"
  by (simp add: infosOk_def)

lemma nodeOk_pod: "nodeOk f states n ni \<Longrightarrow> p \<in> set (niPods ni) \<Longrightarrow> podOn states n p"
  by (auto simp: nodeOk_def list_all_iff)

lemma podOn_state: "podOn states n p \<Longrightarrow> \<exists>st. states (podUID p) = Some st \<and> podSpec (stPod st) = podSpec p"
  by (auto simp: podOn_def split: option.splits)

lemma keyAbsentD: "keyAbsent im key \<Longrightarrow> im n = Some ni \<Longrightarrow> p \<in> set (niPods ni) \<Longrightarrow> podUID p \<noteq> key"
  by (auto simp: keyAbsent_def)

lemma infosOk_unknown:
  assumes "infosOk f im states" and "states key = None"
  shows "keyAbsent im key"
  unfolding keyAbsent_def
proof (intro allI impI notI)
  fix n ni assume ni: "im n = Some ni" and "key \<in> podUID ` set (niPods ni)"
  then obtain p where "p \<in> set (niPods ni)" "podUID p = key" by blast
  with podOn_state [OF nodeOk_pod [OF infosOkD [OF assms(1) ni] this(1)]] assms(2) show False by simp
qed

lemma podOn_other: "podOn states n p \<Longrightarrow> podUID p \<noteq> key \<Longrightarrow> podOn (states(key := x)) n p"
  by (simp add: podOn_def)

lemma infosOk_state:
  assumes "infosOk f im states" and "keyAbsent im key"
  shows "infosOk f im (states(key := x))"
  unfolding infosOk_def
proof (intro allI impI)
  fix n ni assume ni: "im n = Some ni"
  note ok = infosOkD [OF assms(1) ni]
  have "podOn (states(key := x)) n p" if "p \<in> set (niPods ni)" for p
    by (rule podOn_other [OF nodeOk_pod [OF ok that] keyAbsentD [OF assms(2) ni that]])
  then show "nodeOk f (states(key := x)) n ni" using ok by (simp add: nodeOk_def list_all_iff)
qed

lemma infosOk_states_cong:
  assumes "infosOk f im states"
    and "\<And>key st. states key = Some st \<Longrightarrow> \<exists>st'. states' key = Some st' \<and> podSpec (stPod st') = podSpec (stPod st)"
  shows "infosOk f im states'"
  unfolding infosOk_def
proof (intro allI impI)
  fix n ni assume ni: "im n = Some ni"
  note ok = infosOkD [OF assms(1) ni]
  have "podOn states' n p" if "p \<in> set (niPods ni)" for p
  proof -
    have on: "podOn states n p" by (rule nodeOk_pod [OF ok that])
    then obtain st where "states (podUID p) = Some st" "podSpec (stPod st) = podSpec p" using podOn_state by blast
    with assms(2) on show ?thesis by (fastforce simp: podOn_def)
  qed
  then show "nodeOk f states' n ni" using ok by (simp add: nodeOk_def list_all_iff)
qed

lemma infosOk_pods:
  assumes "infosOk f im states" and "im n = Some ni \<or> niPods ni = []"
    and "nodeInfoInv f ni'" and "niPods ni' = niPods ni"
  shows "infosOk f (im(n \<mapsto> ni')) states"
proof (rule infosOk_upd [OF assms(1)])
  show "nodeOk f states n ni'" using assms(2-4) infosOkD [OF assms(1), of n ni] by (auto simp: nodeOk_def)
qed

lemma infosOk_add:
  assumes ok: "infosOk f im states" and abs: "keyAbsent im (podUID pod)" and uid: "podUID pod \<noteq> []"
    and n: "podNodeName pod = n" and ni: "im n = Some ni \<or> (im n = None \<and> ni = emptyNodeInfo g0)"
    and st: "podSpec (stPod st) = podSpec pod"
  shows "infosOk f (im(n \<mapsto> fst (addPod f pod g ni))) (states(podUID pod \<mapsto> st))"
proof -
  let ?states = "states(podUID pod \<mapsto> st)"
  have ok1: "infosOk f im ?states" by (rule infosOk_state [OF ok abs])
  have ni1: "nodeOk f ?states n ni"
    using ni infosOkD [OF ok1, of n ni] nodeInfoInv_empty [of f g0] by (auto simp: nodeOk_def emptyNodeInfo_def)
  have new: "podUID pod \<notin> podUID ` set (niPods ni)"
    using ni abs by (auto simp: keyAbsent_def emptyNodeInfo_def)
  have "podOn ?states n pod" using uid n st by (simp add: podOn_def)
  then have "nodeOk f ?states n (fst (addPod f pod g ni))"
    using ni1 new nodeInfoInv_addPod [of f ni pod g] by (simp add: nodeOk_def)
  then show ?thesis by (rule infosOk_upd [OF ok1])
qed

lemma removePod_cong:
  "podUID pod' = podUID pod \<Longrightarrow> podSpec pod' = podSpec pod \<Longrightarrow> removePod f pod' g n = removePod f pod g n"
proof -
  assume same: "podUID pod' = podUID pod" "podSpec pod' = podSpec pod"
  have "GetPodKey pod' = GetPodKey pod" "calculateResource f pod' = calculateResource f pod"
    "UpdateUsedPorts pod' False h = UpdateUsedPorts pod False h" for h
    using same by (simp_all add: GetPodKey_def calculateResource_def UpdateUsedPorts_def podPorts_def)
  then show ?thesis by (simp only: removePod_def)
qed

lemma infosOk_one:
  assumes "infosOk f im states" and "states key = Some st" and "im n = Some ni" and "key \<in> podUID ` set (niPods ni)"
  shows "n = podNodeName (stPod st)"
proof -
  obtain p where p: "p \<in> set (niPods ni)" "podUID p = key" using assms(4) by blast
  have on: "podOn states n p" by (rule nodeOk_pod [OF infosOkD [OF assms(1,3)] p(1)])
  with assms(2) p(2) show ?thesis by (simp add: podOn_def)
qed

lemma keyAbsent_node:
  assumes "infosOk f im states" and "states key = Some st"
    and "\<And>ni. im (podNodeName (stPod st)) = Some ni \<Longrightarrow> key \<notin> podUID ` set (niPods ni)"
  shows "keyAbsent im key"
  unfolding keyAbsent_def using infosOk_one [OF assms(1,2)] assms(3) by blast

lemma removePod_absent:
  assumes "nodeOk f states n ni" and "podUID pod \<notin> podUID ` set (niPods ni)" and "podUID pod \<noteq> []"
  shows "removePod f pod g ni = (ni, g, Some (if niNode ni = None then PanicNilNode else ErrNoPod))"
proof -
  have "mset (niPodsWithAffinity ni) = mset (filter hasPodAffinityConstraints (niPods ni))"
    using assms(1) by (simp add: nodeOk_def nodeInfoInv_def)
  then have sub: "set (niPodsWithAffinity ni) \<subseteq> set (niPods ni)" using mset_eq_setD by fastforce
  have "find_idx (\<lambda>p. GetPodKey p = Some (podUID pod)) (niPodsWithAffinity ni) = None"
    "find_idx (\<lambda>p. GetPodKey p = Some (podUID pod)) (niPods ni) = None"
    using assms(2) sub by (auto intro!: find_idx_absent) (metis image_eqI subsetD)+
  then show ?thesis using assms(3) by (simp add: removePod_def GetPodKey_def)
qed

lemma infosOk_remove:
  assumes ok: "infosOk f im states" and ni: "im n = Some ni" and st: "states key = Some st"
    and pod: "podSpec pod = podSpec (stPod st)" "podUID pod = key" "podNodeName pod = n" and mem: "key \<in> podUID ` set (niPods ni)"
  obtains ni' where "removePod f pod g ni = (ni', g + 1, None)" and "niGeneration ni' = g + 1" and "niNode ni' = niNode ni"
    and "infosOk f (im(n \<mapsto> ni')) states" and "keyAbsent (im(n \<mapsto> ni')) key"
    and "\<exists>p \<in> set (niPods ni). podUID p = key \<and> podSpec p = podSpec pod \<and> mset (niPods ni') = mset (niPods ni) - {#p#}"
proof -
  note nok = infosOkD [OF ok ni]
  obtain p where p: "p \<in> set (niPods ni)" "podUID p = key" using mem by blast
  have on: "podOn states n p" by (rule nodeOk_pod [OF nok p(1)])
  then have spec: "podSpec p = podSpec pod" "key \<noteq> []" using st pod p(2) by (auto simp: podOn_def)
  have nok': "nodeInfoInv f ni" "distinct (map podUID (niPods ni))" "list_all (podOn states n) (niPods ni)"
    using nok by (simp_all add: nodeOk_def)
  have "podUID p \<noteq> []" using p(2) spec(2) by simp
  from removePod_tracked [OF nok'(1) p(1) this nok'(2), of g] obtain ni' where
    r: "removePod f p g ni = (ni', g + 1, None)" "nodeInfoInv f ni'" "mset (niPods ni') = mset (niPods ni) - {#p#}"
      "niGeneration ni' = g + 1" "niNode ni' = niNode ni" by metis
  have rp: "removePod f pod g ni = (ni', g + 1, None)"
    using r(1) removePod_cong [of pod p f g ni] p(2) pod(2) spec(1) by simp
  have "mset (niPods ni) = add_mset p (mset (niPods ni'))" using r(3) p(1) by simp
  then have "image_mset podUID (mset (niPods ni)) = add_mset key (image_mset podUID (mset (niPods ni')))" using p(2) by simp
  then have ms: "mset (map podUID (niPods ni)) = mset (key # map podUID (niPods ni'))" by simp
  have d: "distinct (key # map podUID (niPods ni'))" using nok'(2) mset_eq_imp_distinct_iff [OF ms] by simp
  have sub: "set (niPods ni') \<subseteq> set (niPods ni)" using r(3) by (metis diff_subset_eq_self set_mset_mono set_mset_mset)
  have "nodeOk f states n ni'" using r(2) d nok'(3) sub by (auto simp: nodeOk_def list_all_iff)
  then have inf: "infosOk f (im(n \<mapsto> ni')) states" by (rule infosOk_upd [OF ok])
  have "keyAbsent (im(n \<mapsto> ni')) key"
    by (rule keyAbsent_node [OF inf st]) (use d pod in auto)
  then show thesis using that rp r(3-5) inf p spec(1) by blast
qed

section \<open>Generations and the list\<close>

lemma sorted_wrt_remove1: "distinct ns \<Longrightarrow> sorted_wrt P ns \<Longrightarrow> sorted_wrt P (remove1 n ns)"
  by (simp add: distinct_remove1_removeAll removeAll_filter_not_eq sorted_wrt_filter)

lemma gensOk_le: "gensOk im g ns \<Longrightarrow> im n = Some ni \<Longrightarrow> niGeneration ni \<le> g"
  by (simp add: gensOk_def)

lemma gensOk_touch:
  assumes ok: "gensOk im g ns" and d: "distinct ns" and some: "\<And>m. m \<in> set ns \<Longrightarrow> im m \<noteq> None"
    and gen: "niGeneration ni' = g'" "g < g'"
  shows "gensOk (im(n \<mapsto> ni')) g' (n # remove1 n ns)"
proof -
  let ?R = "\<lambda>im m k. niGeneration (the (im k)) < niGeneration (the (im m))" and ?im = "im(n \<mapsto> ni')"
  have mem: "m \<in> set ns \<and> m \<noteq> n" if "m \<in> set (remove1 n ns)" for m using that d by simp
  have lt: "?R ?im n m" if m: "m \<in> set (remove1 n ns)" for m
  proof -
    obtain mi where mi: "im m = Some mi" using some mem [OF m] by blast
    then show ?thesis using gensOk_le [OF ok mi] gen mem [OF m] by simp
  qed
  have "sorted_wrt (?R im) (remove1 n ns)"
    using ok d by (simp add: gensOk_def sorted_wrt_remove1)
  then have "sorted_wrt (?R ?im) (remove1 n ns)"
    by (rule sorted_wrt_mono_rel [rotated]) (drule mem, drule mem, simp)
  then have "sorted_wrt (?R ?im) (n # remove1 n ns)" using lt by simp
  moreover have "niGeneration mi \<le> g'" if "?im m = Some mi" for m mi
    using that gensOk_le [OF ok, of m mi] gen by (simp split: if_splits)
  ultimately show ?thesis unfolding gensOk_def by blast
qed

lemma gensOk_remove:
  assumes ok: "gensOk im g ns" and "distinct ns"
  shows "gensOk (im(n := None)) g (remove1 n ns)"
proof -
  let ?R = "\<lambda>im m k. niGeneration (the (im k)) < niGeneration (the (im m))" and ?im = "im(n := None)"
  have "sorted_wrt (?R im) (remove1 n ns)" using assms by (simp add: gensOk_def sorted_wrt_remove1)
  have mem: "m \<noteq> n" if "m \<in> set (remove1 n ns)" for m using that assms(2) by simp
  from \<open>sorted_wrt (?R im) (remove1 n ns)\<close> have "sorted_wrt (?R ?im) (remove1 n ns)"
    by (rule sorted_wrt_mono_rel [rotated]) (drule mem, drule mem, simp)
  moreover have "niGeneration mi \<le> g" if "?im m = Some mi" for m mi
    using that gensOk_le [OF ok, of m mi] by (simp split: if_splits)
  ultimately show ?thesis unfolding gensOk_def by blast
qed

lemma gensOk_mono: "gensOk im g ns \<Longrightarrow> g \<le> g' \<Longrightarrow> gensOk im g' ns"
  unfolding gensOk_def by (meson order_trans)

lemma setInfo_new: "nlSetInfo n ni' (newNodeInfoListItem n ni l) = newNodeInfoListItem n ni' l"
  by (simp add: nlSetInfo_def newNodeInfoListItem_def updItem_def)

lemma info_new: "nlInfo (newNodeInfoListItem n ni l) n = Some ni"
  by (simp add: nlInfo_def newNodeInfoListItem_def)

lemma moveToHead_nodes [simp]: "nlNodes (moveNodeInfoToHead n l) = nlNodes l"
  by (simp add: moveNodeInfoToHead_def split: option.split)

text \<open>A node info replaced by a newer one, in front.\<close>

lemma replace_head:
  assumes inv: "listInv l ns"
  shows "if n \<in> set ns then
      listInv (moveNodeInfoToHead n (nlSetInfo n ni l)) (n # remove1 n ns) \<and>
      nlInfo (moveNodeInfoToHead n (nlSetInfo n ni l)) = (nlInfo l)(n \<mapsto> ni) \<and>
      listInv (nlSetInfo n ni (moveNodeInfoToHead n l)) (n # remove1 n ns) \<and>
      nlInfo (nlSetInfo n ni (moveNodeInfoToHead n l)) = (nlInfo l)(n \<mapsto> ni)
    else
      listInv (moveNodeInfoToHead n (newNodeInfoListItem n ni l)) (n # remove1 n ns) \<and>
      nlInfo (moveNodeInfoToHead n (newNodeInfoListItem n ni l)) = (nlInfo l)(n \<mapsto> ni) \<and>
      listInv (nlSetInfo n ni (moveNodeInfoToHead n (newNodeInfoListItem n ni0 l))) (n # remove1 n ns) \<and>
      nlInfo (nlSetInfo n ni (moveNodeInfoToHead n (newNodeInfoListItem n ni0 l))) = (nlInfo l)(n \<mapsto> ni)"
proof (cases "n \<in> set ns")
  case True
  note s = setInfo_spec [OF inv True, of ni] and m = moveToHead_spec [OF inv True]
  have "n \<in> set (n # remove1 n ns)" by simp
  from moveToHead_spec [OF s(1) True] s(2) setInfo_spec [OF m(1) this, of ni] m(2) True show ?thesis by simp
next
  case False
  have r: "remove1 n ns = ns" using False by (rule remove1_idem)
  note m = moveToHead_new [OF inv False, of ni] and m0 = moveToHead_new [OF inv False, of ni0]
  have "n \<in> set (n # ns)" by simp
  from m setInfo_spec [OF m0(1) this, of ni] m0(2) False r show ?thesis by simp
qed

lemma cacheInvLD:
  assumes "cacheInvL f c ns"
  shows "listInv (scList c) ns" and "treeInv (scTree c)" and "gensOk (cacheInfo c) (scGeneration c) ns"
    and "infosOk f (cacheInfo c) (mget (scPodStates c))" and "statesOk c"
  using assms by (simp_all add: cacheInvL_def)

lemma touch_inv:
  assumes inv: "cacheInvL f c ns" and list: "listInv (scList c') (n # remove1 n ns)"
    and info: "cacheInfo c' = (cacheInfo c)(n \<mapsto> ni')" and gen: "niGeneration ni' = scGeneration c'" "scGeneration c < scGeneration c'"
    and tree: "treeInv (scTree c')" and ok: "infosOk f ((cacheInfo c)(n \<mapsto> ni')) (mget (scPodStates c'))" and st: "statesOk c'"
  shows "cacheInvL f c' (n # remove1 n ns)"
proof -
  note d = cacheInvLD [OF inv]
  have "gensOk ((cacheInfo c)(n \<mapsto> ni')) (scGeneration c') (n # remove1 n ns)"
    by (rule gensOk_touch [OF d(3) listInvD(2) [OF d(1)] _ gen]) (use listInv_info [OF d(1)] in blast)
  then show ?thesis using list info tree ok st by (simp add: cacheInvL_def)
qed

section \<open>Pods on nodes\<close>

lemma toHead_fields [simp]:
  "scList (toHead n c) = moveNodeInfoToHead n (scList c)" "scGeneration (toHead n c) = scGeneration c"
  "scTree (toHead n c) = scTree c" "scPodStates (toHead n c) = scPodStates c" "scAssumedPods (toHead n c) = scAssumedPods c"
  "scImageStates (toHead n c) = scImageStates c" "scTTL (toHead n c) = scTTL c"
  by (simp_all add: toHead_def)

lemma putInfo_fields [simp]:
  "scList (putInfo n x c) = nlSetInfo n (fst x) (scList c)" "scGeneration (putInfo n x c) = snd x"
  "scTree (putInfo n x c) = scTree c" "scPodStates (putInfo n x c) = scPodStates c" "scAssumedPods (putInfo n x c) = scAssumedPods c"
  "scImageStates (putInfo n x c) = scImageStates c" "scTTL (putInfo n x c) = scTTL c"
  by (simp_all add: putInfo_def split_beta)

lemma statesOk_cong: "scPodStates c' = scPodStates c \<Longrightarrow> scAssumedPods c' = scAssumedPods c \<Longrightarrow> statesOk c' = statesOk c"
  by (simp only: statesOk_def)

lemma NewNodeInfo_nil: "NewNodeInfo f [] g = (emptyNodeInfo (g + 1), g + 1)"
  by (simp add: NewNodeInfo_def Let_def nextGeneration_def)

lemma cacheAddPod_facts:
  fixes pod :: Pod and f :: features
  assumes inv: "listInv (scList c) ns"
  defines "n \<equiv> podNodeName pod" and "c' \<equiv> cacheAddPod f pod c"
  obtains ni g where "cacheInfo c n = Some ni \<or> (cacheInfo c n = None \<and> ni = emptyNodeInfo (scGeneration c + 1))"
    and "scGeneration c \<le> g" and "scGeneration c' = g + 1" and "listInv (scList c') (n # remove1 n ns)"
    and "cacheInfo c' = (cacheInfo c)(n \<mapsto> fst (addPod f pod g ni))"
    and "scTree c' = scTree c" and "scPodStates c' = scPodStates c" and "scAssumedPods c' = scAssumedPods c"
proof (cases "cacheInfo c n")
  case None
  let ?g = "scGeneration c + 1" and ?ni = "emptyNodeInfo (scGeneration c + 1)"
  have "n \<notin> set ns" using None listInv_info [OF inv, of n] by simp
  then have r: "listInv (moveNodeInfoToHead n (newNodeInfoListItem n (fst (addPod f pod ?g ?ni)) (scList c))) (n # remove1 n ns)"
      "nlInfo (moveNodeInfoToHead n (newNodeInfoListItem n (fst (addPod f pod ?g ?ni)) (scList c))) = (cacheInfo c)(n \<mapsto> fst (addPod f pod ?g ?ni))"
    using replace_head [OF inv, of n "fst (addPod f pod ?g ?ni)"] by simp_all
  have c': "c' = toHead n (putInfo n (addPod f pod ?g ?ni) (c\<lparr>scList := newNodeInfoListItem n ?ni (scList c), scGeneration := ?g\<rparr>))"
    using None by (simp add: c'_def cacheAddPod_def n_def newItem_def NewNodeInfo_nil Let_def info_new)
  show thesis by (rule that [of ?ni ?g]) (use None r in \<open>simp_all add: c' setInfo_new\<close>)
next
  case (Some ni)
  have "n \<in> set ns" using Some listInv_info [OF inv, of n] by simp
  then have r: "listInv (moveNodeInfoToHead n (nlSetInfo n (fst (addPod f pod (scGeneration c) ni)) (scList c))) (n # remove1 n ns)"
      "nlInfo (moveNodeInfoToHead n (nlSetInfo n (fst (addPod f pod (scGeneration c) ni)) (scList c))) = (cacheInfo c)(n \<mapsto> fst (addPod f pod (scGeneration c) ni))"
    using replace_head [OF inv, of n "fst (addPod f pod (scGeneration c) ni)"] by simp_all
  have c': "c' = toHead n (putInfo n (addPod f pod (scGeneration c) ni) c)"
    using Some by (simp add: c'_def cacheAddPod_def n_def Let_def)
  show thesis by (rule that [of ni "scGeneration c"]) (use Some r in \<open>simp_all add: c'\<close>)
qed

lemma mget_upd: "mget (mput k v m) = (mget m)(k \<mapsto> v)" "mget (mdel k m) = (mget m)(k := None)"
  by (auto simp: fun_eq_iff)

lemma add_inv:
  assumes inv: "cacheInvL f c ns" and abs: "keyAbsent (cacheInfo c) (podUID pod)" and uid: "podUID pod \<noteq> []"
    and spec: "podSpec (stPod st) = podSpec pod"
    and c'': "scList c'' = scList (cacheAddPod f pod c)" "scGeneration c'' = scGeneration (cacheAddPod f pod c)"
      "scTree c'' = scTree c" "scPodStates c'' = mput (podUID pod) st (scPodStates c)" and ok: "statesOk c''"
  shows "cacheInv f c''"
proof -
  note d = cacheInvLD [OF inv]
  let ?n = "podNodeName pod"
  obtain ni g where a: "cacheInfo c ?n = Some ni \<or> (cacheInfo c ?n = None \<and> ni = emptyNodeInfo (scGeneration c + 1))"
      "scGeneration c \<le> g" "scGeneration (cacheAddPod f pod c) = g + 1" "listInv (scList (cacheAddPod f pod c)) (?n # remove1 ?n ns)"
      "cacheInfo (cacheAddPod f pod c) = (cacheInfo c)(?n \<mapsto> fst (addPod f pod g ni))"
    using cacheAddPod_facts [OF d(1), of pod f] by metis
  have "cacheInvL f c'' (?n # remove1 ?n ns)"
  proof (rule touch_inv [OF inv])
    show "infosOk f ((cacheInfo c)(?n \<mapsto> fst (addPod f pod g ni))) (mget (scPodStates c''))"
      unfolding c''(4) mget_upd by (rule infosOk_add [OF d(4) abs uid refl a(1) spec])
  qed (use a d(2) ok c'' in \<open>simp_all\<close>)
  then show ?thesis unfolding cacheInv_def by blast
qed

lemma remove_inv:
  assumes inv: "cacheInvL f c ns" and st: "mget (scPodStates c) (podUID pod) = Some st" and spec: "podSpec (stPod st) = podSpec pod"
  obtains c' e ns' where "cacheRemovePod f pod c = (c', e)" and "cacheInvL f c' ns'"
    and "scPodStates c' = scPodStates c" and "scAssumedPods c' = scAssumedPods c" and "scTree c' = scTree c"
    and "keyAbsent (cacheInfo c') (podUID pod)"
proof -
  note d = cacheInvLD [OF inv]
  let ?n = "podNodeName pod" and ?key = "podUID pod"
  have key: "?key \<noteq> []" using d(5) st by (auto simp: statesOk_def)
  show thesis
  proof (cases "cacheInfo c ?n")
    case None
    have "keyAbsent (cacheInfo c) ?key" by (rule keyAbsent_node [OF d(4) st]) (use None spec in auto)
    then show thesis using that [of c None ns] None inv by (simp add: cacheRemovePod_def)
  next
    case (Some ni)
    have n: "?n \<in> set ns" using Some listInv_info [OF d(1), of ?n] by simp
    show thesis
    proof (cases "?key \<in> podUID ` set (niPods ni)")
      case True
      obtain ni' where r: "removePod f pod (scGeneration c) ni = (ni', scGeneration c + 1, None)" "niGeneration ni' = scGeneration c + 1"
          "infosOk f ((cacheInfo c)(?n \<mapsto> ni')) (mget (scPodStates c))" "keyAbsent ((cacheInfo c)(?n \<mapsto> ni')) ?key"
        using infosOk_remove [OF d(4) Some st spec [symmetric] refl refl True, of "scGeneration c"] by metis
      let ?c' = "toHead ?n (putInfo ?n (ni', scGeneration c + 1) c)"
      have eq: "cacheRemovePod f pod c = (?c', None)" using Some r(1) by (simp add: cacheRemovePod_def)
      have h: "listInv (scList ?c') (?n # remove1 ?n ns)" "cacheInfo ?c' = (cacheInfo c)(?n \<mapsto> ni')"
        using replace_head [OF d(1), of ?n ni'] n by simp_all
      have "cacheInvL f ?c' (?n # remove1 ?n ns)"
        by (rule touch_inv [OF inv h]) (use r d(2,5) statesOk_cong [of ?c' c] in simp_all)
      then show thesis using that [OF eq] r(4) h(2) by simp
    next
      case False
      let ?c' = "putInfo ?n (ni, scGeneration c) c"
      obtain e where "removePod f pod (scGeneration c) ni = (ni, scGeneration c, Some e)"
        using removePod_absent [OF infosOkD [OF d(4) Some] False key] by blast
      then have eq: "cacheRemovePod f pod c = (?c', Some (CacheNodeErr e))" using Some by (simp add: cacheRemovePod_def)
      have same: "cacheInfo ?c' = cacheInfo c" "listInv (scList ?c') ns"
        using setInfo_spec [OF d(1) n, of ni] Some by (simp_all add: fun_upd_idem)
      then have "cacheInvL f ?c' ns" using d statesOk_cong [of ?c' c] by (simp add: cacheInvL_def)
      moreover have "keyAbsent (cacheInfo c) ?key" by (rule keyAbsent_node [OF d(4) st]) (use Some False spec in auto)
      ultimately show thesis using that [OF eq] same by simp
    qed
  qed
qed

section \<open>Pod states\<close>

lemma statesOkD:
  assumes "statesOk c"
  shows "gomap_wf (scPodStates c)" and "gomap_wf (scAssumedPods c)"
    and "mget (scPodStates c) key = Some st \<Longrightarrow> podUID (stPod st) = key \<and> key \<noteq> []"
    and "mget (scAssumedPods c) key = Some b \<Longrightarrow>
      b \<and> (\<exists>st. mget (scPodStates c) key = Some st \<and> (stBindingFinished st \<longrightarrow> stDeadline st \<noteq> None))"
  using assms unfolding statesOk_def by blast+

lemma isAssumed_iff: "statesOk c \<Longrightarrow> isAssumed key c \<longleftrightarrow> mget (scAssumedPods c) key \<noteq> None"
  using statesOkD(4) [of c key] by (auto simp: isAssumed_def split: option.splits)

lemma statesOk_put:
  assumes ok: "statesOk c" and key: "podUID (stPod st) = key" "key \<noteq> []"
    and st: "scPodStates c' = mput key st (scPodStates c)"
    and as: "scAssumedPods c' = scAssumedPods c \<or> scAssumedPods c' = mput key True (scAssumedPods c) \<or>
      scAssumedPods c' = mdel key (scAssumedPods c)"
    and dl: "mget (scAssumedPods c') key \<noteq> None \<Longrightarrow> stBindingFinished st \<Longrightarrow> stDeadline st \<noteq> None"
  shows "statesOk c'"
  unfolding statesOk_def
proof (intro conjI allI impI)
  note d = statesOkD [OF ok]
  show "gomap_wf (scPodStates c')" "gomap_wf (scAssumedPods c')" using d(1,2) st as by auto
  show "podUID (stPod s) = k" "k \<noteq> []" if "mget (scPodStates c') k = Some s" for k s
    using that d(3) [of k s] key st by (auto split: if_splits)
  fix k b assume kb: "mget (scAssumedPods c') k = Some b"
  have old: "mget (scAssumedPods c) k = Some b" if "k \<noteq> key" using kb as that by (auto split: if_splits)
  have bt: "b" if "k = key" using kb as that d(4) [of key b] by (auto split: if_splits)
  show "b" using old bt d(4) [of k b] by blast
  show "\<exists>s. mget (scPodStates c') k = Some s \<and> (stBindingFinished s \<longrightarrow> stDeadline s \<noteq> None)"
  proof (cases "k = key")
    case True
    then show ?thesis using dl kb st by auto
  next
    case False
    then show ?thesis using d(4) [OF old] st by auto
  qed
qed

lemma statesOk_del:
  assumes ok: "statesOk c" and st: "scPodStates c' = mdel key (scPodStates c)"
    and as: "scAssumedPods c' = mdel key (scAssumedPods c) \<or> (scAssumedPods c' = scAssumedPods c \<and> mget (scAssumedPods c) key = None)"
  shows "statesOk c'"
  unfolding statesOk_def
proof (intro conjI allI impI)
  note d = statesOkD [OF ok]
  show "gomap_wf (scPodStates c')" "gomap_wf (scAssumedPods c')" using d(1,2) st as by auto
  show "podUID (stPod s) = k" "k \<noteq> []" if "mget (scPodStates c') k = Some s" for k s
    using that d(3) [of k s] st by (auto split: if_splits)
  fix k b assume kb: "mget (scAssumedPods c') k = Some b"
  have old: "mget (scAssumedPods c) k = Some b" "k \<noteq> key" using kb as by (auto split: if_splits)
  show "b" using d(4) [OF old(1)] by blast
  show "\<exists>s. mget (scPodStates c') k = Some s \<and> (stBindingFinished s \<longrightarrow> stDeadline s \<noteq> None)"
    using d(4) [OF old(1)] st old(2) by auto
qed

text \<open>An operation that only touches the state of one pod.\<close>

lemma state_inv:
  assumes inv: "cacheInvL f c ns" and same: "scList c' = scList c" "scGeneration c' = scGeneration c" "scTree c' = scTree c"
    and ok: "infosOk f (cacheInfo c) (mget (scPodStates c'))" "statesOk c'"
  shows "cacheInv f c'"
  unfolding cacheInv_def using cacheInvLD [OF inv] same ok by (intro exI [of _ ns]) (simp add: cacheInvL_def)

lemma cacheInvE:
  assumes "cacheInv f c"
  obtains ns where "cacheInvL f c ns"
  using assms by (auto simp: cacheInv_def)

lemma uid_key: "GetPodKey pod = Some key \<longleftrightarrow> podUID pod = key \<and> key \<noteq> []"
  by (auto simp: GetPodKey_def)

lemma AssumePod_inv:
  assumes inv: "cacheInv f c"
  shows "cacheInv f (fst (AssumePod f pod c))"
proof (cases "podUID pod = [] \<or> mget (scPodStates c) (podUID pod) \<noteq> None")
  case True
  then show ?thesis using inv by (auto simp: AssumePod_def GetPodKey_def)
next
  case False
  obtain ns where L: "cacheInvL f c ns" using inv by (rule cacheInvE)
  note d = cacheInvLD [OF L]
  let ?st = "\<lparr>stPod = pod, stDeadline = None, stBindingFinished = False\<rparr>" and ?c' = "fst (AssumePod f pod c)"
  have f: "scPodStates (cacheAddPod f pod c) = scPodStates c" "scAssumedPods (cacheAddPod f pod c) = scAssumedPods c"
    "scTree (cacheAddPod f pod c) = scTree c"
    by (rule cacheAddPod_facts [OF d(1), of pod f]; simp)+
  have c': "?c' = (cacheAddPod f pod c)\<lparr>scPodStates := mput (podUID pod) ?st (scPodStates c),
      scAssumedPods := mput (podUID pod) True (scAssumedPods c)\<rparr>"
    using False by (simp add: AssumePod_def GetPodKey_def Let_def f)
  show ?thesis
  proof (rule add_inv [OF L, where st = ?st])
    show "keyAbsent (cacheInfo c) (podUID pod)" using infosOk_unknown [OF d(4)] False by simp
    show "statesOk ?c'" by (rule statesOk_put [OF d(5), of ?st "podUID pod"]) (use False in \<open>simp_all add: c'\<close>)
  qed (use False in \<open>simp_all add: c' f\<close>)
qed

lemma finishBinding_inv:
  assumes inv: "cacheInv f c"
  shows "cacheInv f (fst (finishBinding pod now c))"
proof (cases "mget (scPodStates c) (podUID pod)")
  case None
  then show ?thesis using inv by (simp add: finishBinding_def GetPodKey_def)
next
  case (Some st)
  obtain ns where L: "cacheInvL f c ns" using inv by (rule cacheInvE)
  note d = cacheInvLD [OF L]
  let ?st = "st\<lparr>stBindingFinished := True, stDeadline := Some (now + sint (scTTL c))\<rparr>"
  let ?c' = "c\<lparr>scPodStates := mput (podUID pod) ?st (scPodStates c)\<rparr>"
  have key: "podUID (stPod st) = podUID pod" "podUID pod \<noteq> []" using statesOkD(3) [OF d(5) Some] by auto
  have "cacheInv f ?c'"
  proof (rule state_inv [OF L])
    show "infosOk f (cacheInfo c) (mget (scPodStates ?c'))"
      by (rule infosOk_states_cong [OF d(4)]) (use Some in auto)
    show "statesOk ?c'" by (rule statesOk_put [OF d(5), of ?st "podUID pod"]) (use key in simp_all)
  qed simp_all
  then show ?thesis using inv Some key by (simp add: finishBinding_def GetPodKey_def)
qed

text \<open>Removing a pod from its node and from the states.\<close>

lemma remove_state_inv:
  assumes inv: "cacheInvL f c ns" and st: "mget (scPodStates c) (podUID pod) = Some st" and spec: "podSpec (stPod st) = podSpec pod"
    and key: "key = podUID pod" and as: "A = mdel key (scAssumedPods c) \<or> (A = scAssumedPods c \<and> mget (scAssumedPods c) key = None)"
    and c': "cacheRemovePod f pod c = (c1, e)"
  shows "cacheInv f c1" and "cacheInv f (c1\<lparr>scAssumedPods := A, scPodStates := mdel key (scPodStates c)\<rparr>)"
    and "scPodStates c1 = scPodStates c" and "scAssumedPods c1 = scAssumedPods c"
proof -
  obtain ns' where r: "cacheInvL f c1 ns'" "scPodStates c1 = scPodStates c" "scAssumedPods c1 = scAssumedPods c"
      "keyAbsent (cacheInfo c1) (podUID pod)"
    using remove_inv [OF inv st spec] c' by (metis prod.inject)
  show "cacheInv f c1" using r(1) by (auto simp: cacheInv_def)
  show "scPodStates c1 = scPodStates c" "scAssumedPods c1 = scAssumedPods c" by fact+
  note d = cacheInvLD [OF r(1)]
  let ?c2 = "c1\<lparr>scAssumedPods := A, scPodStates := mdel key (scPodStates c)\<rparr>"
  show "cacheInv f ?c2"
  proof (rule state_inv [OF r(1)])
    show "infosOk f (cacheInfo c1) (mget (scPodStates ?c2))"
    proof -
      have "mget (scPodStates ?c2) = (mget (scPodStates c1))(podUID pod := None)" by (rule ext) (simp add: r(2) key)
      then show ?thesis using infosOk_state [OF d(4) r(4), of None] by simp
    qed
    show "statesOk ?c2" by (rule statesOk_del [OF d(5), of _ key]) (use as r(2,3) in auto)
  qed simp_all
qed

lemma ForgetPod_inv:
  assumes inv: "cacheInv f c" and same: "sameSpec c pod"
  shows "cacheInv f (fst (ForgetPod f pod c))"
proof (cases "mget (scPodStates c) (podUID pod)")
  case None
  then show ?thesis using inv by (simp add: ForgetPod_def GetPodKey_def)
next
  case (Some st)
  obtain ns where L: "cacheInvL f c ns" using inv by (rule cacheInvE)
  obtain c1 e where r: "cacheRemovePod f pod c = (c1, e)" by fastforce
  have spec: "podSpec (stPod st) = podSpec pod" using same Some by (simp add: sameSpec_def)
  note s = remove_state_inv [OF L Some spec refl disjI1 [OF refl] r]
  show ?thesis using inv Some r s by (simp add: ForgetPod_def GetPodKey_def split: option.split)
qed

lemma RemovePod_inv:
  assumes inv: "cacheInv f c"
  shows "cacheInv f (fst (RemovePod f pod c))"
proof (cases "mget (scPodStates c) (podUID pod)")
  case None
  then show ?thesis using inv by (simp add: RemovePod_def GetPodKey_def)
next
  case (Some st)
  obtain ns where L: "cacheInvL f c ns" using inv by (rule cacheInvE)
  note d = cacheInvLD [OF L]
  obtain c1 e where r: "cacheRemovePod f (stPod st) c = (c1, e)" by fastforce
  have key: "podUID (stPod st) = podUID pod" using statesOkD(3) [OF d(5) Some] by simp
  then have Some': "mget (scPodStates c) (podUID (stPod st)) = Some st" using Some by simp
  show ?thesis
  proof (cases "isAssumed (podUID pod) c")
    case True
    then show ?thesis using inv Some by (simp add: RemovePod_def GetPodKey_def)
  next
    case False
    then have "mget (scAssumedPods c) (podUID pod) = None" using isAssumed_iff [OF d(5)] by simp
    then have "scAssumedPods c = mdel (podUID pod) (scAssumedPods c) \<or>
        (scAssumedPods c = scAssumedPods c \<and> mget (scAssumedPods c) (podUID pod) = None)" by simp
    note s = remove_state_inv [OF L Some' refl key [symmetric] this r]
    have eq: "c1\<lparr>scAssumedPods := scAssumedPods c, scPodStates := mdel (podUID pod) (scPodStates c)\<rparr> =
        c1\<lparr>scPodStates := mdel (podUID pod) (scPodStates c1)\<rparr>" using s(3,4) by simp
    have "cacheInv f (c1\<lparr>scPodStates := mdel (podUID pod) (scPodStates c1)\<rparr>)" using s(2) unfolding eq .
    then show ?thesis using inv Some r s(1) False by (simp add: RemovePod_def GetPodKey_def split: option.split)
  qed
qed

lemma AddPod_inv:
  assumes inv: "cacheInv f c"
    and same: "\<And>st. mget (scPodStates c) (podUID pod) = Some st \<Longrightarrow> podNodeName (stPod st) = podNodeName pod \<Longrightarrow> podSpec (stPod st) = podSpec pod"
  shows "cacheInv f (fst (AddPod f pod c))"
proof -
  obtain ns where L: "cacheInvL f c ns" using inv by (rule cacheInvE)
  note d = cacheInvLD [OF L]
  have frame: "scPodStates (cacheAddPod f pod c') = scPodStates c'" "scAssumedPods (cacheAddPod f pod c') = scAssumedPods c'"
    "scTree (cacheAddPod f pod c') = scTree c'" if "listInv (scList c') ns'" for c' ns'
    by (rule cacheAddPod_facts [OF that, of pod f]; simp)+
  consider "podUID pod = []" | "podUID pod \<noteq> []" "mget (scPodStates c) (podUID pod) = None"
    | st where "podUID pod \<noteq> []" "mget (scPodStates c) (podUID pod) = Some st" by fastforce
  then show ?thesis
  proof cases
    case 1
    then show ?thesis using inv by (simp add: AddPod_def GetPodKey_def)
  next
    case 2
    let ?st = "\<lparr>stPod = pod, stDeadline = None, stBindingFinished = False\<rparr>" and ?c' = "fst (AddPod f pod c)"
    note fr = frame [OF d(1)]
    have c': "?c' = (cacheAddPod f pod c)\<lparr>scPodStates := mput (podUID pod) ?st (scPodStates c)\<rparr>"
      using 2 by (simp add: AddPod_def GetPodKey_def Let_def fr)
    show ?thesis
    proof (rule add_inv [OF L, where st = ?st])
      show "keyAbsent (cacheInfo c) (podUID pod)" using infosOk_unknown [OF d(4)] 2 by simp
      show "statesOk ?c'" by (rule statesOk_put [OF d(5), of ?st "podUID pod"]) (use 2 in \<open>simp_all add: c' fr\<close>)
    qed (use 2 in \<open>simp_all add: c' fr\<close>)
  next
    case (3 st)
    let ?st = "st\<lparr>stDeadline := None, stPod := pod\<rparr>"
    have key: "podUID (stPod st) = podUID pod" using statesOkD(3) [OF d(5) 3(2)] by simp
    show ?thesis
    proof (cases "isAssumed (podUID pod) c \<and> podNodeName (stPod st) \<noteq> podNodeName pod")
      case True
      have st': "mget (scPodStates c) (podUID (stPod st)) = Some st" using 3(2) key by simp
      from remove_inv [OF L this refl] obtain c1 e ns' where
        r: "cacheRemovePod f (stPod st) c = (c1, e)" "cacheInvL f c1 ns'" "scPodStates c1 = scPodStates c"
          "scAssumedPods c1 = scAssumedPods c" "scTree c1 = scTree c" "keyAbsent (cacheInfo c1) (podUID pod)"
        using key by metis
      note d1 = cacheInvLD [OF r(2)]
      note fr = frame [OF d1(1)]
      let ?c' = "(cacheAddPod f pod c1)\<lparr>scAssumedPods := mdel (podUID pod) (scAssumedPods c1),
          scPodStates := mput (podUID pod) ?st (scPodStates c1)\<rparr>"
      have "cacheInv f ?c'"
      proof (rule add_inv [OF r(2,6), where st = ?st])
        show "statesOk ?c'" by (rule statesOk_put [OF d1(5), of ?st "podUID pod"]) (use 3 in simp_all)
      qed (use 3 fr in simp_all)
      moreover have "cacheInv f c1" using r(2) by (auto simp: cacheInv_def)
      ultimately show ?thesis using True 3 r(1) fr by (simp add: AddPod_def GetPodKey_def isPanic_def split: option.split)
    next
      case False
      let ?c' = "c\<lparr>scAssumedPods := mdel (podUID pod) (scAssumedPods c), scPodStates := mput (podUID pod) ?st (scPodStates c)\<rparr>"
      have "cacheInv f ?c'" if "isAssumed (podUID pod) c"
      proof (rule state_inv [OF L])
        have "podSpec (stPod st) = podSpec pod" using same [OF 3(2)] False that by simp
        then show "infosOk f (cacheInfo c) (mget (scPodStates ?c'))"
          using 3(2) by (intro infosOk_states_cong [OF d(4)]) auto
        show "statesOk ?c'" by (rule statesOk_put [OF d(5), of ?st "podUID pod"]) (use 3 in simp_all)
      qed simp_all
      then show ?thesis using False 3 inv by (auto simp: AddPod_def GetPodKey_def)
    qed
  qed
qed

lemma put_state_inv:
  assumes L: "cacheInvL f c ns" and st: "mget (scPodStates c) key = Some st" and pod: "podUID pod = key"
    and spec: "podSpec pod = podSpec (stPod st) \<or> keyAbsent (cacheInfo c) key"
  shows "cacheInv f (c\<lparr>scPodStates := mput key (st\<lparr>stPod := pod\<rparr>) (scPodStates c)\<rparr>)"
proof (rule state_inv [OF L])
  note d = cacheInvLD [OF L]
  let ?st = "st\<lparr>stPod := pod\<rparr>" and ?c' = "c\<lparr>scPodStates := mput key (st\<lparr>stPod := pod\<rparr>) (scPodStates c)\<rparr>"
  have key: "key \<noteq> []" using statesOkD(3) [OF d(5) st] by simp
  show "infosOk f (cacheInfo c) (mget (scPodStates ?c'))"
  proof (cases "podSpec pod = podSpec (stPod st)")
    case True
    then show ?thesis using st by (intro infosOk_states_cong [OF d(4)]) auto
  next
    case False
    have "mget (scPodStates ?c') = (mget (scPodStates c))(key \<mapsto> ?st)" by (rule ext) simp
    then show ?thesis using infosOk_state [OF d(4), of key "Some ?st"] spec False by simp
  qed
  have dl: "stBindingFinished st \<Longrightarrow> stDeadline st \<noteq> None" if "mget (scAssumedPods c) key \<noteq> None"
    using that statesOkD(4) [OF d(5), of key] st by auto
  show "statesOk ?c'" by (rule statesOk_put [OF d(5), of ?st key]) (use key pod dl in auto)
qed simp_all

lemma UpdatePod_inv:
  assumes inv: "cacheInv f c" and uid: "podUID new = podUID old" and same: "sameSpec c old"
    and loc: "podNodeName new = podNodeName old \<or> cacheInfo c (podNodeName new) \<noteq> None"
    and skip: "pstPhase (podStatus new) = ''NoSchedule'' \<Longrightarrow> pstPhase (podStatus old) = ''NoSchedule'' \<Longrightarrow> podSpec new = podSpec old"
  shows "cacheInv f (fst (UpdatePod f old new c))"
proof -
  obtain ns where L: "cacheInvL f c ns" using inv by (rule cacheInvE)
  note d = cacheInvLD [OF L]
  let ?key = "podUID old"
  show ?thesis
  proof (cases "mget (scPodStates c) ?key")
    case None
    then show ?thesis using inv by (simp add: UpdatePod_def GetPodKey_def)
  next
    case (Some st)
    have key: "?key \<noteq> []" "podUID (stPod st) = ?key" using statesOkD(3) [OF d(5) Some] by auto
    have spec: "podSpec (stPod st) = podSpec old" using same Some by (simp add: sameSpec_def)
    let ?bad = "isAssumed ?key c \<or> (podNodeName (stPod st) \<noteq> podNodeName new \<and> psVirtualMachine (podSpec new) = None)"
    let ?put = "\<lambda>c'. c'\<lparr>scPodStates := mput ?key (st\<lparr>stPod := new\<rparr>) (scPodStates c')\<rparr>"
    have up: "UpdatePod f old new c = (case cacheUpdatePod f old new c of (c', Some e) \<Rightarrow> (c', Some e)
        | (c', None) \<Rightarrow> (if mget (scPodStates c') ?key = None then c' else ?put c', None))" if "\<not> ?bad"
      using that Some key by (auto simp: UpdatePod_def GetPodKey_def)
    have not_assumed: "mget (scAssumedPods c) ?key = None" if "\<not> ?bad" using that isAssumed_iff [OF d(5)] by blast
    consider "?bad" | "\<not> ?bad" "cacheInfo c (podNodeName new) = None"
      | "\<not> ?bad" "cacheInfo c (podNodeName new) \<noteq> None" "pstPhase (podStatus new) = ''NoSchedule''" "pstPhase (podStatus old) = ''NoSchedule''"
      | "\<not> ?bad" "cacheInfo c (podNodeName new) \<noteq> None"
        "\<not> (pstPhase (podStatus new) = ''NoSchedule'' \<and> pstPhase (podStatus old) = ''NoSchedule'')" by blast
    then show ?thesis
    proof cases
      case 1
      then show ?thesis using Some key inv by (auto simp: UpdatePod_def GetPodKey_def)
    next
      case 2
      then have "podNodeName new = podNodeName (stPod st)" using loc spec by auto
      then have "keyAbsent (cacheInfo c) ?key" using 2(2) by (intro keyAbsent_node [OF d(4) Some]) simp
      then show ?thesis using put_state_inv [OF L Some uid] up [OF 2(1)] 2(2) Some by (simp add: cacheUpdatePod_def)
    next
      case 3
      then show ?thesis using put_state_inv [OF L Some uid] up [OF 3(1)] skip spec Some by (simp add: cacheUpdatePod_def)
    next
      case 4
      from remove_inv [OF L Some spec] obtain c1 e ns' where
        r: "cacheRemovePod f old c = (c1, e)" "cacheInvL f c1 ns'" "scPodStates c1 = scPodStates c"
          "scAssumedPods c1 = scAssumedPods c" "scTree c1 = scTree c" "keyAbsent (cacheInfo c1) ?key" .
      note d1 = cacheInvLD [OF r(2)]
      have c1: "cacheInv f c1" using r(2) by (auto simp: cacheInv_def)
      show ?thesis
      proof (cases "e = None \<and> \<not> (pstPhase (podStatus old) = ''Running'' \<and> pstPhase (podStatus new) = ''NoSchedule'')")
        case True
        have fr: "scPodStates (cacheAddPod f new c1) = scPodStates c1" "scAssumedPods (cacheAddPod f new c1) = scAssumedPods c1"
            "scTree (cacheAddPod f new c1) = scTree c1"
          by (rule cacheAddPod_facts [OF d1(1), of new f]; simp)+
        let ?c' = "?put (cacheAddPod f new c1)"
        have "cacheInv f ?c'"
        proof (rule add_inv [OF r(2), where st = "st\<lparr>stPod := new\<rparr>" and pod = new])
          show "statesOk ?c'"
            by (rule statesOk_put [OF d1(5), of "st\<lparr>stPod := new\<rparr>" ?key])
              (use key uid fr r(4) not_assumed [OF 4(1)] in simp_all)
        qed (use r(6) uid key fr in simp_all)
        moreover have "cacheUpdatePod f old new c = (cacheAddPod f new c1, None)" using 4 r(1) True by (auto simp: cacheUpdatePod_def)
        ultimately show ?thesis using up [OF 4(1)] fr r(3) Some by simp
      next
        case False
        note del = remove_state_inv(2) [OF L Some spec refl _ r(1), of "scAssumedPods c"]
        have "cacheInv f (c1\<lparr>scPodStates := mdel ?key (scPodStates c1)\<rparr>)"
          using del not_assumed [OF 4(1)] r(3,4) by (metis schedulerCache.surjective schedulerCache.update_convs(2))
        then show ?thesis using up [OF 4(1)] False 4 r(1) c1 uid key
          by (auto simp: cacheUpdatePod_def GetPodKey_def split: option.splits)
      qed
    qed
  qed
qed

section \<open>Nodes\<close>

lemma SetNode_fields [simp]:
  "niPods (fst (SetNode f node g ni)) = niPods ni" "niGeneration (fst (SetNode f node g ni)) = g + 1"
  "snd (SetNode f node g ni) = g + 1" "niNode (fst (SetNode f node g ni)) = Some node"
proof -
  have "niPods (fold setCondition cs n) = niPods n \<and> niNode (fold setCondition cs n) = niNode n" for cs n
    by (induction cs arbitrary: n) (auto simp: setCondition_def)
  then show "niPods (fst (SetNode f node g ni)) = niPods ni" "niGeneration (fst (SetNode f node g ni)) = g + 1"
    "snd (SetNode f node g ni) = g + 1" "niNode (fst (SetNode f node g ni)) = Some node"
    by (simp_all add: SetNode_def Let_def nextGeneration_def)
qed

lemma nodeItem_head:
  assumes inv: "listInv (scList c) ns" and item: "nodeItem f n ni c c1"
  shows "listInv (nlSetInfo n ni' (moveNodeInfoToHead n (scList c1))) (n # remove1 n ns)"
    and "nlInfo (nlSetInfo n ni' (moveNodeInfoToHead n (scList c1))) = (cacheInfo c)(n \<mapsto> ni')"
    and "nlInfo (moveNodeInfoToHead n (scList c1)) n = Some ni"
proof (atomize (full), cases "cacheInfo c n")
  case None
  then have "n \<notin> set ns" using listInv_info [OF inv, of n] by simp
  then show "listInv (nlSetInfo n ni' (moveNodeInfoToHead n (scList c1))) (n # remove1 n ns) \<and>
      nlInfo (nlSetInfo n ni' (moveNodeInfoToHead n (scList c1))) = (cacheInfo c)(n \<mapsto> ni') \<and>
      nlInfo (moveNodeInfoToHead n (scList c1)) n = Some ni"
    using replace_head [OF inv, of n ni' ni] moveToHead_new [OF inv, of n ni] item None by (simp add: nodeItem_def)
next
  case (Some ni0)
  then have "n \<in> set ns" using listInv_info [OF inv, of n] by simp
  then show "listInv (nlSetInfo n ni' (moveNodeInfoToHead n (scList c1))) (n # remove1 n ns) \<and>
      nlInfo (nlSetInfo n ni' (moveNodeInfoToHead n (scList c1))) = (cacheInfo c)(n \<mapsto> ni') \<and>
      nlInfo (moveNodeInfoToHead n (scList c1)) n = Some ni"
    using replace_head [OF inv, of n ni'] moveToHead_spec [OF inv, of n] item Some by (simp add: nodeItem_def)
qed

lemma install_inv:
  assumes inv: "cacheInvL f c ns" and item: "nodeItem f (nodeName node) ni c c1" and t: "treeInv t"
  defines "c' \<equiv> installNode f node ((toHead (nodeName node) c1)\<lparr>scTree := t\<rparr>)"
  shows "cacheInv f c'" and "scTree c' = t" and "scPodStates c' = scPodStates c"
    and "\<exists>ni'. cacheInfo c' = (cacheInfo c)(nodeName node \<mapsto> ni') \<and> niNode ni' = Some node \<and> niPods ni' = niPods ni"
    and "genStep c c'"
proof -
  note d = cacheInvLD [OF inv]
  let ?n = "nodeName node"
  obtain images newSum where im: "addNodeImageStates node (scImageStates c1) = (images, newSum)" by fastforce
  let ?new = "SetNode f node (scGeneration c1) (ni\<lparr>niImageStates := newSum\<rparr>)"
  note h = nodeItem_head [OF d(1) item]
  have c': "c' = putInfo ?n ?new (((toHead ?n c1)\<lparr>scTree := t\<rparr>)\<lparr>scImageStates := images\<rparr>)"
    using h(3) im by (simp add: c'_def installNode_def)
  have list: "listInv (scList c') (?n # remove1 ?n ns)" "cacheInfo c' = (cacheInfo c)(?n \<mapsto> fst ?new)"
    using h(1,2) [of "fst ?new"] by (simp_all add: c')
  have i: "scPodStates c1 = scPodStates c" "scAssumedPods c1 = scAssumedPods c" "nodeInfoInv f ni"
      "scGeneration c \<le> scGeneration c1" "cacheInfo c ?n = Some ni \<or> niPods ni = []"
    using item by (auto simp: nodeItem_def split: if_splits)
  have "nodeInfoInv f (ni\<lparr>niImageStates := newSum\<rparr>)" using i(3) by (simp add: nodeInfoInv_def)
  then have "infosOk f ((cacheInfo c)(?n \<mapsto> fst ?new)) (mget (scPodStates c))"
    by (intro infosOk_pods [OF d(4) i(5)] nodeInfoInv_SetNode) simp_all
  then have "cacheInvL f c' (?n # remove1 ?n ns)"
    by (intro touch_inv [OF inv list]) (use i t d(5) statesOk_cong [of c' c] in \<open>simp_all add: c'\<close>)
  then show "cacheInv f c'" unfolding cacheInv_def by blast
  show "scTree c' = t" "scPodStates c' = scPodStates c" using i(1) by (simp_all add: c')
  show "\<exists>ni'. cacheInfo c' = (cacheInfo c)(?n \<mapsto> ni') \<and> niNode ni' = Some node \<and> niPods ni' = niPods ni"
    using list(2) by (intro exI [of _ "fst ?new"]) simp
  show "genStep c c'" using list(2) i(4) by (auto simp: genStep_def c')
qed

lemma dropImages_item: "cacheInvL f c ns \<Longrightarrow> cacheInfo c n = Some ni \<Longrightarrow> nodeItem f n ni c (dropImages n c)"
  using infosOkD [OF cacheInvLD(4)] by (auto simp: nodeItem_def dropImages_def nodeOk_def)

lemma newNodeItem_item:
  assumes "cacheInfo c n = None" and "newNodeItem f n rp c = (c1, None)"
  shows "nodeItem f n (emptyNodeInfo (scGeneration c + 1)\<lparr>niResourceProviderId := rp\<rparr>) c c1"
    and "c1 = c\<lparr>scGeneration := scGeneration c + 1, scList := newNodeInfoListItem n (emptyNodeInfo (scGeneration c + 1)\<lparr>niResourceProviderId := rp\<rparr>) (scList c)\<rparr>"
proof -
  have inv: "nodeInfoInv f (emptyNodeInfo (scGeneration c + 1)\<lparr>niResourceProviderId := rp\<rparr>)"
    using nodeInfoInv_empty [of f "scGeneration c + 1"] by (simp add: nodeInfoInv_def)
  show c1: "c1 = c\<lparr>scGeneration := scGeneration c + 1, scList := newNodeInfoListItem n (emptyNodeInfo (scGeneration c + 1)\<lparr>niResourceProviderId := rp\<rparr>) (scList c)\<rparr>"
    using assms(2) by (auto simp: newNodeItem_def NewNodeInfo_nil SetResourceProviderId_def emptyNodeInfo_def split: if_splits)
  show "nodeItem f n (emptyNodeInfo (scGeneration c + 1)\<lparr>niResourceProviderId := rp\<rparr>) c c1"
    using assms(1) inv by (simp add: nodeItem_def c1 emptyNodeInfo_def)
qed

lemma cacheAddNode_inv:
  assumes inv: "cacheInvL f c ns" and ok: "cacheAddNode f node rp c = (c', None)"
  shows "cacheInv f c'" and "scTree c' = ntAddNode node (scTree c)" and "scPodStates c' = scPodStates c" and "genStep c c'"
    and "\<exists>ni'. cacheInfo c' = (cacheInfo c)(nodeName node \<mapsto> ni') \<and> niNode ni' = Some node"
proof -
  note d = cacheInvLD [OF inv]
  let ?n = "nodeName node"
  obtain c1 ni where c1: "nodeItem f ?n ni c c1" "scTree c1 = scTree c"
      and c': "c' = installNode f node ((toHead ?n c1)\<lparr>scTree := ntAddNode node (scTree c)\<rparr>)"
  proof (cases "cacheInfo c ?n")
    case None
    then obtain c1 where n: "newNodeItem f ?n rp c = (c1, None)"
        "c' = installNode f node ((toHead ?n c1)\<lparr>scTree := ntAddNode node (scTree c1)\<rparr>)"
      using ok by (auto simp: cacheAddNode_def Let_def split: prod.splits option.splits)
    from newNodeItem_item [OF None n(1)] n(2) that show thesis by simp
  next
    case (Some ni)
    have "c' = installNode f node ((toHead ?n (dropImages ?n c))\<lparr>scTree := ntAddNode node (scTree c)\<rparr>)"
      using ok Some by (auto simp: cacheAddNode_def Let_def dropImages_def)
    then show thesis using that [OF dropImages_item [OF inv Some]] by (simp add: dropImages_def)
  qed
  note r = install_inv [OF inv c1(1) ntAddNode_spec(1) [OF d(2), of node]]
  show "cacheInv f c'" "scTree c' = ntAddNode node (scTree c)" "scPodStates c' = scPodStates c" "genStep c c'"
    "\<exists>ni'. cacheInfo c' = (cacheInfo c)(?n \<mapsto> ni') \<and> niNode ni' = Some node"
    using r unfolding c' by blast+
qed

lemma cacheUpdateNode_inv:
  assumes inv: "cacheInvL f c ns" and ok: "cacheUpdateNode f (Some old) node listers c = (c', None)"
  defines "t \<equiv> if cacheInfo c (nodeName node) = None then ntAddNode node (scTree c) else scTree c"
  shows "cacheInv f c'" and "scTree c' = fst (ntUpdateNode (Some old) node t)" and "scPodStates c' = scPodStates c" and "genStep c c'"
    and "\<exists>ni'. cacheInfo c' = (cacheInfo c)(nodeName node \<mapsto> ni') \<and> niNode ni' = Some node"
proof -
  note d = cacheInvLD [OF inv]
  let ?n = "nodeName node"
  have t: "treeInv t" using d(2) ntAddNode_spec(1) [OF d(2), of node] by (simp add: t_def)
  obtain t' where t': "ntUpdateNode (Some old) node t = (t', None)"
    using treePairs_update(1) [OF t, of old node] by (metis prod.collapse)
  obtain c1 ni where c1: "nodeItem f ?n ni c c1"
      and c': "c' = installNode f node ((toHead ?n c1)\<lparr>scTree := t'\<rparr>)"
  proof (cases "cacheInfo c ?n")
    case None
    then obtain m rp c1 where n: "GetNodeFromNodelisters listers ?n = Some (m, rp)" "newNodeItem f ?n rp c = (c1, None)"
      using ok by (auto simp: cacheUpdateNode_def Let_def split: prod.splits option.splits)
    have item: "nodeItem f ?n (emptyNodeInfo (scGeneration c + 1)\<lparr>niResourceProviderId := rp\<rparr>) c (c1\<lparr>scTree := t\<rparr>)"
      and tr: "scTree c1 = scTree c"
      using newNodeItem_item [OF None n(2)] None by (simp_all add: nodeItem_def)
    have "c' = installNode f node ((toHead ?n (c1\<lparr>scTree := t\<rparr>))\<lparr>scTree := t'\<rparr>)"
      using ok None n t' tr by (simp add: cacheUpdateNode_def Let_def t_def)
    then show thesis using that item by blast
  next
    case (Some ni)
    have "c' = installNode f node ((toHead ?n (dropImages ?n c))\<lparr>scTree := t'\<rparr>)"
      using ok Some t' by (simp add: cacheUpdateNode_def Let_def t_def dropImages_def)
    then show thesis using that [OF dropImages_item [OF inv Some]] by blast
  qed
  have "treeInv t'" using treePairs_update(2) [OF t, of old node] t' by simp
  note r = install_inv [OF inv c1 this]
  show "cacheInv f c'" "scPodStates c' = scPodStates c" "genStep c c'" "\<exists>ni'. cacheInfo c' = (cacheInfo c)(?n \<mapsto> ni') \<and> niNode ni' = Some node"
    using r unfolding c' by blast+
  show "scTree c' = fst (ntUpdateNode (Some old) node t)" using r(2) t' by (simp add: c')
qed

lemma cacheRemoveNode_inv:
  fixes node :: Node
  assumes inv: "cacheInvL f c ns"
  defines "c' \<equiv> fst (cacheRemoveNode node c)"
  shows "cacheInv f c'" and "cacheInfo c (nodeName node) \<noteq> None \<Longrightarrow> scTree c' = fst (ntRemoveNode node (scTree c))"
    and "cacheInfo c' = (cacheInfo c)(nodeName node := None)"
proof -
  note d = cacheInvLD [OF inv]
  let ?n = "nodeName node"
  show "cacheInfo c ?n \<noteq> None \<Longrightarrow> scTree c' = fst (ntRemoveNode node (scTree c))"
    by (auto simp: c'_def cacheRemoveNode_def Let_def split: prod.split option.split)
  have t: "treeInv (fst (ntRemoveNode node (scTree c)))"
    using treePairs_remove [OF d(2), of node] d(2) by (auto split: if_splits)
  have "cacheInv f c' \<and> cacheInfo c' = (cacheInfo c)(?n := None)"
  proof (cases "cacheInfo c ?n")
    case None
    then show ?thesis using inv by (auto simp: c'_def cacheRemoveNode_def cacheInv_def)
  next
    case (Some ni)
    then have n: "?n \<in> set ns" using listInv_info [OF d(1), of ?n] by simp
    note r = removeFromList_spec [OF d(1) n]
    have f: "scList c' = removeNodeInfoFromList ?n (scList c)" "scTree c' = fst (ntRemoveNode node (scTree c))"
        "scGeneration c' = scGeneration c" "scPodStates c' = scPodStates c" "scAssumedPods c' = scAssumedPods c"
      using Some by (simp_all add: c'_def cacheRemoveNode_def Let_def split: prod.split option.split)
    have "cacheInvL f c' (remove1 ?n ns)"
      using r t infosOk_none [OF d(4), of ?n] gensOk_remove [OF d(3) listInvD(2) [OF d(1)], of ?n] d(5) statesOk_cong [of c' c] f
      by (simp add: cacheInvL_def)
    then show ?thesis using r(2) f(1) by (auto simp: cacheInv_def)
  qed
  then show "cacheInv f c'" "cacheInfo c' = (cacheInfo c)(?n := None)" by blast+
qed

section \<open>The tree and the cached nodes\<close>

lemma pairs_put:
  assumes "nodeName node = n"
  shows "{(GetZoneKey nd, m) | m nd. (nodes(n \<mapsto> node)) m = Some nd} =
    insert (GetZoneKey node, n) {(GetZoneKey nd, m) | m nd. nodes m = Some nd \<and> m \<noteq> n}"
  by auto

lemma cacheNode_upd: "cacheInfo c' = (cacheInfo c)(n \<mapsto> ni) \<Longrightarrow> cacheNode c' = (cacheNode c)(n := niNode ni)"
  by (rule ext) (simp add: cacheNode_def)

lemma removePod_node: "niNode (fst (removePod f pod g ni)) = niNode ni"
  by (auto simp: removePod_def Let_def split: option.split prod.split)

lemma sameNodes_trans: "sameNodes c c1 \<Longrightarrow> sameNodes c1 c2 \<Longrightarrow> sameNodes c c2"
  by (simp add: sameNodes_def)

lemma sameNodes_sync: "sameNodes c c' \<Longrightarrow> treeSync c' = treeSync c"
  by (simp add: sameNodes_def treeSync_def)

lemma cacheNode_fields [simp]:
  "cacheNode (c\<lparr>scPodStates := x\<rparr>) = cacheNode c" "cacheNode (c\<lparr>scAssumedPods := y\<rparr>) = cacheNode c"
  by (simp_all add: cacheNode_def fun_eq_iff)

lemma sameNodes_fields [simp]:
  "sameNodes c (c'\<lparr>scPodStates := x\<rparr>) = sameNodes c c'" "sameNodes c (c'\<lparr>scAssumedPods := y\<rparr>) = sameNodes c c'" "sameNodes c c"
  by (simp_all add: sameNodes_def)

lemma cacheAddPod_nodes:
  assumes "listInv (scList c) ns"
  shows "sameNodes c (cacheAddPod f pod c)" and "\<exists>ns. listInv (scList (cacheAddPod f pod c)) ns"
proof -
  let ?n = "podNodeName pod"
  obtain ni g where a: "cacheInfo c ?n = Some ni \<or> (cacheInfo c ?n = None \<and> ni = emptyNodeInfo (scGeneration c + 1))"
      "listInv (scList (cacheAddPod f pod c)) (?n # remove1 ?n ns)"
      "cacheInfo (cacheAddPod f pod c) = (cacheInfo c)(?n \<mapsto> fst (addPod f pod g ni))" "scTree (cacheAddPod f pod c) = scTree c"
    using cacheAddPod_facts [OF assms, of pod f] by metis
  have "niNode (fst (addPod f pod g ni)) = cacheNode c ?n"
    using a(1) by (auto simp: cacheNode_def emptyNodeInfo_def)
  then show "sameNodes c (cacheAddPod f pod c)"
    using cacheNode_upd [OF a(3)] a(4) by (simp add: sameNodes_def)
  show "\<exists>ns. listInv (scList (cacheAddPod f pod c)) ns" using a(2) by blast
qed

lemma cacheRemovePod_nodes:
  assumes inv: "listInv (scList c) ns"
  shows "sameNodes c (fst (cacheRemovePod f pod c))" and "\<exists>ns. listInv (scList (fst (cacheRemovePod f pod c))) ns"
proof (atomize (full), cases "cacheInfo c (podNodeName pod)")
  case None
  then show "sameNodes c (fst (cacheRemovePod f pod c)) \<and> (\<exists>ns. listInv (scList (fst (cacheRemovePod f pod c))) ns)"
    using inv by (auto simp: cacheRemovePod_def)
next
  let ?n = "podNodeName pod"
  case (Some ni)
  then have n: "?n \<in> set ns" using listInv_info [OF inv, of ?n] by simp
  obtain ni' g e where r: "removePod f pod (scGeneration c) ni = (ni', g, e)" by (metis prod_cases3)
  have "niNode ni' = cacheNode c ?n" using removePod_node [of f pod "scGeneration c" ni] r Some by (simp add: cacheNode_def)
  then have nodes: "sameNodes c c'" if "cacheInfo c' = (cacheInfo c)(?n \<mapsto> ni')" "scTree c' = scTree c" for c'
    using cacheNode_upd [OF that(1)] that(2) by (simp add: sameNodes_def)
  show "sameNodes c (fst (cacheRemovePod f pod c)) \<and> (\<exists>ns. listInv (scList (fst (cacheRemovePod f pod c))) ns)"
    using replace_head [OF inv, of ?n ni'] setInfo_spec [OF inv n, of ni'] n r Some nodes
    by (cases e) (auto simp: cacheRemovePod_def)
qed

lemma pod_ops_nodes:
  assumes inv: "listInv (scList c) ns"
  shows "sameNodes c (fst (AssumePod f pod c))" and "sameNodes c (fst (finishBinding pod now c))"
    and "sameNodes c (fst (ForgetPod f pod c))" and "sameNodes c (fst (AddPod f pod c))"
    and "sameNodes c (fst (UpdatePod f pod new c))" and "sameNodes c (fst (RemovePod f pod c))"
    and "sameNodes c (fst (expirePod f key ps c))"
proof -
  note a = cacheAddPod_nodes(1) [OF inv] and r = cacheRemovePod_nodes [OF inv]
  have r': "sameNodes c c1" if "cacheRemovePod f p c = (c1, e)" for p c1 e using r(1) [of f p] that by simp
  have ra: "sameNodes c (cacheAddPod f q c1)" if e: "cacheRemovePod f p c = (c1, e)" for p q c1 e
  proof -
    obtain ns' where "listInv (scList c1) ns'" using r(2) [of f p] e by auto
    from cacheAddPod_nodes(1) [OF this] r' [OF e] show ?thesis by (rule sameNodes_trans [rotated])
  qed
  show "sameNodes c (fst (AssumePod f pod c))" using a by (simp add: AssumePod_def Let_def split: option.split)
  show "sameNodes c (fst (finishBinding pod now c))" by (simp add: finishBinding_def Let_def split: option.split)
  show "sameNodes c (fst (ForgetPod f pod c))" by (auto simp: ForgetPod_def Let_def split: option.split prod.split dest: r')
  show "sameNodes c (fst (AddPod f pod c))" using a
    by (auto simp: AddPod_def Let_def split: option.split prod.split dest: r' ra)
  show "sameNodes c (fst (UpdatePod f pod new c))" using a
    by (auto simp: UpdatePod_def cacheUpdatePod_def Let_def split: option.splits prod.splits if_splits dest: r' ra)
  show "sameNodes c (fst (RemovePod f pod c))" by (auto simp: RemovePod_def Let_def split: option.split prod.split dest: r')
  show "sameNodes c (fst (expirePod f key ps c))" by (auto simp: expirePod_def Let_def split: option.split prod.split dest: r')
qed

end
