(* ===== verification/CacheSteps.thy ===== *)
theory CacheSteps
  imports CacheSpec
begin

text \<open>
  The scheduler cache over time: the step relation of its operations under the events the scheduler delivers,
  and the properties of every reachable state. The expiry of assumed pods, and the round trip of an
  assumption that is taken back.
\<close>

section \<open>Steps\<close>

text \<open>The events agree with what the cache has seen: an update or a removal carries the pod or node the
  cache knows, and a node is added before it is updated. No step ends in a panic.\<close>

inductive cacheStep :: "features \<Rightarrow> schedulerCache \<Rightarrow> schedulerCache \<Rightarrow> bool" for f where
  assumePod: "cacheStep f c (fst (AssumePod f pod c))"
| finishBinding: "cacheStep f c (fst (finishBinding pod now c))"
| forgetPod: "sameSpec c pod \<Longrightarrow> cacheStep f c (fst (ForgetPod f pod c))"
| addPod: "(\<And>st. mget (scPodStates c) (podUID pod) = Some st \<Longrightarrow> podNodeName (stPod st) = podNodeName pod \<Longrightarrow>
      podSpec (stPod st) = podSpec pod) \<Longrightarrow> cacheStep f c (fst (AddPod f pod c))"
| updatePod: "podUID new = podUID old \<Longrightarrow> sameSpec c old \<Longrightarrow>
    podNodeName new = podNodeName old \<or> cacheInfo c (podNodeName new) \<noteq> None \<Longrightarrow>
    (pstPhase (podStatus new) = ''NoSchedule'' \<Longrightarrow> pstPhase (podStatus old) = ''NoSchedule'' \<Longrightarrow> podSpec new = podSpec old) \<Longrightarrow>
    cacheStep f c (fst (UpdatePod f old new c))"
| removePod: "cacheStep f c (fst (RemovePod f pod c))"
| cleanup: "cacheStep f c (fst (cleanupAssumedPods f now c))"
| addNode: "cacheAddNode f node rp c = (c', None) \<Longrightarrow>
    (\<And>nd. cacheNode c (nodeName node) = Some nd \<Longrightarrow> GetZoneKey nd = GetZoneKey node) \<Longrightarrow> cacheStep f c c'"
| updateNode: "cacheUpdateNode f (Some old) node listers c = (c', None) \<Longrightarrow> nodeName old = nodeName node \<Longrightarrow>
    (cacheInfo c (nodeName node) \<noteq> None \<Longrightarrow> \<exists>nd. cacheNode c (nodeName node) = Some nd \<and> GetZoneKey nd = GetZoneKey old) \<Longrightarrow>
    cacheStep f c c'"
| removeNode: "(\<And>nd. cacheNode c (nodeName node) = Some nd \<Longrightarrow> GetZoneKey nd = GetZoneKey node) \<Longrightarrow>
    cacheStep f c (fst (cacheRemoveNode node c))"

section \<open>Expiry\<close>

definition uidsOn :: "schedulerCache \<Rightarrow> string \<Rightarrow> string set option" where
  "uidsOn c n = map_option (\<lambda>ni. podUID ` set (niPods ni)) (cacheInfo c n)"

definition expired :: "int \<Rightarrow> podState \<Rightarrow> bool" where
  "expired now st \<longleftrightarrow> stBindingFinished st \<and> (case stDeadline st of Some d \<Rightarrow> d < now | None \<Rightarrow> False)"

text \<open>The pod of a state can be taken off its node: it is there, or the node is gone.\<close>

definition removable :: "schedulerCache \<Rightarrow> podState \<Rightarrow> bool" where
  "removable c st \<longleftrightarrow> (case uidsOn c (podNodeName (stPod st)) of None \<Rightarrow> True | Some U \<Rightarrow> podUID (stPod st) \<in> U)"

text \<open>The pods a cleanup removes: assumed, bound, past the deadline, and removable.\<close>

definition leaves :: "int \<Rightarrow> schedulerCache \<Rightarrow> string \<Rightarrow> bool" where
  "leaves now c key \<longleftrightarrow>
     (case mget (scPodStates c) key of Some st \<Rightarrow> expired now st \<and> removable c st | None \<Rightarrow> False)"

definition safeToExpire :: "int \<Rightarrow> schedulerCache \<Rightarrow> string \<Rightarrow> bool" where
  "safeToExpire now c key \<longleftrightarrow>
     (case mget (scPodStates c) key of
        Some st \<Rightarrow> (stBindingFinished st \<longrightarrow> stDeadline st \<noteq> None) \<and>
          (expired now st \<longrightarrow> removable c st \<or> cacheNode c (podNodeName (stPod st)) \<noteq> None)
      | None \<Rightarrow> False)"

text \<open>A pod of the given uid on a node.\<close>

definition boundPod :: "string \<Rightarrow> string \<Rightarrow> Pod" where
  "boundPod uid name = zeroPod\<lparr>podMeta := zeroMeta\<lparr>omUID := uid\<rparr>, podSpec := (podSpec zeroPod)\<lparr>psNodeName := name\<rparr>\<rparr>"

definition oneNode :: schedulerCache where
  "oneNode = fst (cacheAddNode defaultFeatures (zonedNode ''z'' ''n'') ''rp'' (newSchedulerCache 0))"

text \<open>A pod assumed on a node and bound; the node is removed and comes back.\<close>

definition oneBound :: schedulerCache where
  "oneBound = fst (finishBinding (boundPod ''u'' ''n'') 0 (fst (AssumePod defaultFeatures (boundPod ''u'' ''n'') oneNode)))"

definition nodeReturns :: schedulerCache where
  "nodeReturns =
     fst (cacheAddNode defaultFeatures (zonedNode ''z'' ''n'') ''rp'' (fst (cacheRemoveNode (zonedNode ''z'' ''n'') oneBound)))"

text \<open>A virtual machine pod that moves to a node the cache does not have.\<close>

definition vmMoves :: schedulerCache where
  "vmMoves =
     (let vm = (\<lambda>name. (boundPod ''u'' name)\<lparr>podSpec := (podSpec (boundPod ''u'' name))\<lparr>psVirtualMachine := Some \<lparr>vmName = ''vm'', vmImage = [], vmRequests = [], vmResourcesAllocated = []\<rparr>\<rparr>\<rparr>);
          c = fst (AddPod defaultFeatures (vm ''n'') oneNode)
      in fst (UpdatePod defaultFeatures (vm ''n'') (vm ''m'') c))"

lemma expirePod_inv:
  assumes inv: "cacheInv f c" and st: "mget (scPodStates c) key = Some ps"
  shows "cacheInv f (fst (expirePod f key ps c))"
proof -
  obtain ns where L: "cacheInvL f c ns" using inv by (rule cacheInvE)
  have key: "podUID (stPod ps) = key" using statesOkD(3) [OF cacheInvLD(5) [OF L] st] by simp
  obtain c1 e where r: "cacheRemovePod f (stPod ps) c = (c1, e)" by fastforce
  note k = remove_state_inv [OF L _ refl key [symmetric] _ r, of "mdel key (scAssumedPods c)"]
  have k1: "mget (scPodStates c) (podUID (stPod ps)) = Some ps" using st key by simp
  show ?thesis using k [OF k1] r by (cases e) (simp_all add: expirePod_def)
qed

lemma cleanupLoop_inv:
  "cacheInv f c \<Longrightarrow> cacheInv f (fst (cleanupLoop f now keys c))"
  by (induction keys arbitrary: c)
    (auto split: option.split prod.split, metis expirePod_inv fst_conv, metis expirePod_inv fst_conv)

lemma expirePod_nodes:
  assumes "cacheInv f c"
  shows "sameNodes c (fst (expirePod f key ps c))"
proof -
  obtain ns where L: "cacheInvL f c ns" using assms by (rule cacheInvE)
  show ?thesis by (rule pod_ops_nodes(7) [OF cacheInvLD(1) [OF L]])
qed

lemma cleanupLoop_nodes:
  "cacheInv f c \<Longrightarrow> sameNodes c (fst (cleanupLoop f now keys c))"
proof (induction keys arbitrary: c)
  case (Cons key keys)
  show ?case
  proof (cases "mget (scPodStates c) key")
    case (Some ps)
    have i: "cacheInv f (fst (expirePod f key ps c))" and s: "sameNodes c (fst (expirePod f key ps c))"
      by (rule expirePod_inv [OF Cons.prems Some], rule expirePod_nodes [OF Cons.prems])
    show ?thesis using Some s Cons.IH [OF Cons.prems] sameNodes_trans [OF s Cons.IH [OF i]]
      by (auto split: option.split prod.split)
  qed simp
qed simp

section \<open>Reachable states\<close>

lemma cacheInv_new: "cacheInv f (newSchedulerCache ttl) \<and> treeSync (newSchedulerCache ttl)"
proof -
  have none: "cacheInfo (newSchedulerCache ttl) n = None" for n
    by (simp add: newSchedulerCache_def nlInfo_def newNodeList_def)
  have "treePairs (newNodeTree []) = {}" by (simp add: treePairs_def zoneNodes_def newNodeTree_def)
  then have "treeSync (newSchedulerCache ttl)" using none by (simp add: treeSync_def cacheNode_def newSchedulerCache_def)
  moreover have "cacheInvL f (newSchedulerCache ttl) []"
    using none listInv_new treeInv_new [of "[]"]
    by (simp add: cacheInvL_def infosOk_def gensOk_def statesOk_def) (simp add: newSchedulerCache_def gomap_wf_def)
  ultimately show ?thesis unfolding cacheInv_def by blast
qed

text \<open>A node object put in place, or taken out: the tree follows when it changes that one name.\<close>

lemma treeSync_put:
  assumes sync: "treeSync c" and nodes: "cacheNode c' = (cacheNode c)(nodeName node \<mapsto> node)"
    and tree: "treePairs (scTree c') = insert (GetZoneKey node, nodeName node) (P - {(z, nodeName node) | z. True})"
    and P: "P - {(z, nodeName node) | z. True} = treePairs (scTree c) - {(z, nodeName node) | z. True}"
  shows "treeSync c'"
  using assms unfolding treeSync_def by (auto split: if_splits)

lemma sync_zone:
  assumes "treeSync c" and "(z, n) \<in> treePairs (scTree c)"
  obtains nd where "cacheNode c n = Some nd" and "GetZoneKey nd = z"
  using assms by (auto simp: treeSync_def)

lemma addNode_sync:
  assumes inv: "cacheInv f c" and sync: "treeSync c" and ok: "cacheAddNode f node rp c = (c', None)"
    and zone: "\<And>nd. cacheNode c (nodeName node) = Some nd \<Longrightarrow> GetZoneKey nd = GetZoneKey node"
  shows "cacheInv f c' \<and> treeSync c'"
proof -
  obtain ns where L: "cacheInvL f c ns" using inv by (rule cacheInvE)
  note r = cacheAddNode_inv [OF L ok]
  obtain ni' where ni': "cacheInfo c' = (cacheInfo c)(nodeName node \<mapsto> ni')" "niNode ni' = Some node" using r(5) by blast
  have nodes: "cacheNode c' = (cacheNode c)(nodeName node \<mapsto> node)" using cacheNode_upd [OF ni'(1)] ni'(2) by simp
  have "treePairs (scTree c') = insert (GetZoneKey node, nodeName node) (treePairs (scTree c))"
    unfolding r(2) by (rule treePairs_add(2) [OF cacheInvLD(2) [OF L]])
  moreover have "z = GetZoneKey node" if "(z, nodeName node) \<in> treePairs (scTree c)" for z
    using sync_zone [OF sync that] zone by blast
  ultimately have "treePairs (scTree c') = insert (GetZoneKey node, nodeName node) (treePairs (scTree c) - {(z, nodeName node) | z. True})"
    by auto
  then show ?thesis using treeSync_put [OF sync nodes _ refl] r(1) by blast
qed

lemma updateNode_sync:
  assumes inv: "cacheInv f c" and sync: "treeSync c" and ok: "cacheUpdateNode f (Some old) node listers c = (c', None)"
    and name: "nodeName old = nodeName node"
    and zone: "cacheInfo c (nodeName node) \<noteq> None \<Longrightarrow> \<exists>nd. cacheNode c (nodeName node) = Some nd \<and> GetZoneKey nd = GetZoneKey old"
  shows "cacheInv f c' \<and> treeSync c'"
proof -
  obtain ns where L: "cacheInvL f c ns" using inv by (rule cacheInvE)
  note d = cacheInvLD [OF L]
  note r = cacheUpdateNode_inv [OF L ok]
  obtain ni' where ni': "cacheInfo c' = (cacheInfo c)(nodeName node \<mapsto> ni')" "niNode ni' = Some node" using r(5) by blast
  have nodes: "cacheNode c' = (cacheNode c)(nodeName node \<mapsto> node)" using cacheNode_upd [OF ni'(1)] ni'(2) by simp
  let ?t = "if cacheInfo c (nodeName node) = None then ntAddNode node (scTree c) else scTree c"
  have t: "treeInv ?t" and tp: "treePairs ?t = (if cacheInfo c (nodeName node) = None then insert (GetZoneKey node, nodeName node) (treePairs (scTree c)) else treePairs (scTree c))"
    using treePairs_add [OF d(2), of node] d(2) by auto
  have new: "(z, nodeName node) \<notin> treePairs (scTree c)" if "cacheInfo c (nodeName node) = None" for z
    using sync_zone [OF sync, of z "nodeName node"] that by (auto simp: cacheNode_def)
  have old: "(z, nodeName node) \<in> treePairs (scTree c) \<longleftrightarrow> z = GetZoneKey old" if "cacheInfo c (nodeName node) \<noteq> None" for z
    using zone [OF that] sync unfolding treeSync_def by auto
  have "treePairs (scTree c') = insert (GetZoneKey node, nodeName node) (treePairs (scTree c) - {(z, nodeName node) | z. True})"
    unfolding r(2) treePairs_update(3) [OF t] tp using new old name by auto
  then show ?thesis using treeSync_put [OF sync nodes _ refl] r(1) by blast
qed

lemma removeNode_sync:
  assumes inv: "cacheInv f c" and sync: "treeSync c"
    and zone: "\<And>nd. cacheNode c (nodeName node) = Some nd \<Longrightarrow> GetZoneKey nd = GetZoneKey node"
  shows "cacheInv f (fst (cacheRemoveNode node c)) \<and> treeSync (fst (cacheRemoveNode node c))"
proof (cases "cacheInfo c (nodeName node)")
  case None
  then show ?thesis using inv sync by (simp add: cacheRemoveNode_def)
next
  case (Some ni)
  let ?c' = "fst (cacheRemoveNode node c)"
  obtain ns where L: "cacheInvL f c ns" using inv by (rule cacheInvE)
  note r = cacheRemoveNode_inv [OF L, of node]
  have nodes: "cacheNode ?c' = (cacheNode c)(nodeName node := None)" using r(3) by (auto simp: cacheNode_def fun_eq_iff)
  have "treePairs (scTree ?c') = treePairs (scTree c) - {(GetZoneKey node, nodeName node)}"
    using treePairs_remove [OF cacheInvLD(2) [OF L], of node] r(2) Some by (auto split: if_splits)
  moreover have "z = GetZoneKey node" if "(z, nodeName node) \<in> treePairs (scTree c)" for z
    using sync_zone [OF sync that] zone by blast
  ultimately have "treePairs (scTree ?c') = treePairs (scTree c) - {(z, nodeName node) | z. True}" by auto
  then have "treeSync ?c'" using sync unfolding treeSync_def nodes by (auto split: if_splits)
  then show ?thesis using r(1) by blast
qed

lemma cacheStep_inv:
  assumes "cacheStep f c c'" and "cacheInv f c" and "treeSync c"
  shows "cacheInv f c' \<and> treeSync c'"
proof -
  obtain ns where L: "cacheInvL f c ns" using assms(2) by (rule cacheInvE)
  note p = pod_ops_nodes [OF cacheInvLD(1) [OF L], THEN sameNodes_sync, THEN iffD2, OF assms(3)]
  from assms(1) show ?thesis
  proof cases
    case (forgetPod pod) then show ?thesis using ForgetPod_inv [OF assms(2)] p by blast
  next
    case (addPod pod) then show ?thesis using AddPod_inv [OF assms(2), of pod] p by blast
  next
    case (updatePod new old) then show ?thesis using UpdatePod_inv [OF assms(2), of new old] p by blast
  next
    case (cleanup now) then show ?thesis
      using cleanupLoop_inv [OF assms(2)] sameNodes_sync [OF cleanupLoop_nodes [OF assms(2)]] assms(3)
      by (simp add: cleanupAssumedPods_def)
  next
    case (addNode node rp) then show ?thesis using addNode_sync [OF assms(2,3)] by blast
  next
    case (updateNode old node listers) then show ?thesis using updateNode_sync [OF assms(2,3)] by blast
  next
    case (removeNode node) then show ?thesis using removeNode_sync [OF assms(2,3), of node] by blast
  qed (use AssumePod_inv [OF assms(2)] finishBinding_inv [OF assms(2)] RemovePod_inv [OF assms(2)] p in blast)+
qed

lemma cacheSteps_inv:
  assumes "(cacheStep f)\<^sup>*\<^sup>* (newSchedulerCache ttl) c"
  shows "cacheInv f c \<and> treeSync c"
  using assms
proof (induction rule: rtranclp_induct)
  case base
  show ?case by (rule cacheInv_new)
next
  case (step c c')
  then show ?case using cacheStep_inv by blast
qed

section \<open>Generations\<close>

lemma genStep_refl [simp]: "genStep c c"
  by (simp add: genStep_def)

lemma genStep_trans: "genStep c c1 \<Longrightarrow> genStep c1 c2 \<Longrightarrow> genStep c c2"
  unfolding genStep_def by (meson order.trans order.strict_trans1)

lemma genStep_fields [simp]:
  "genStep c (c'\<lparr>scPodStates := x\<rparr>) = genStep c c'" "genStep c (c'\<lparr>scAssumedPods := y\<rparr>) = genStep c c'"
  by (simp_all add: genStep_def)

lemma cacheAddPod_gen:
  assumes "listInv (scList c) ns"
  shows "genStep c (cacheAddPod f pod c)"
proof -
  let ?n = "podNodeName pod"
  obtain ni g where a: "scGeneration c \<le> g" "scGeneration (cacheAddPod f pod c) = g + 1"
      "cacheInfo (cacheAddPod f pod c) = (cacheInfo c)(?n \<mapsto> fst (addPod f pod g ni))"
    using cacheAddPod_facts [OF assms, of pod f] by metis
  then show ?thesis by (auto simp: genStep_def)
qed

lemma find_idx_uid:
  "podUID pod \<in> podUID ` set ps \<Longrightarrow> podUID pod \<noteq> [] \<Longrightarrow> \<exists>i. find_idx (\<lambda>p. GetPodKey p = Some (podUID pod)) ps = Some i"
  using find_idx_None [of "\<lambda>p. GetPodKey p = Some (podUID pod)" ps] by (fastforce simp: GetPodKey_def)

lemma removePod_gen:
  assumes ok: "nodeOk f states n ni" and r: "removePod f pod g ni = (ni', g', e)"
  shows "(ni' = ni \<and> g' = g \<and> e \<noteq> None) \<or> (e = None \<and> g' = g + 1 \<and> niGeneration ni' = g + 1)"
proof -
  consider "podUID pod = []" | "podUID pod \<noteq> []" "podUID pod \<notin> podUID ` set (niPods ni)"
    | i where "podUID pod \<noteq> []" "find_idx (\<lambda>p. GetPodKey p = Some (podUID pod)) (niPods ni) = Some i"
    using find_idx_uid [of pod "niPods ni"] by blast
  then show ?thesis
  proof cases
    case 1
    then show ?thesis using r by (auto simp: removePod_def GetPodKey_def)
  next
    case 2
    then show ?thesis using removePod_absent [OF ok 2(2,1), of g] r by auto
  next
    case (3 i)
    from removePod_eq [OF 3] r show ?thesis by (metis prod.inject)
  qed
qed

lemma cacheRemovePod_gen:
  assumes L: "cacheInvL f c ns"
  shows "genStep c (fst (cacheRemovePod f pod c))"
proof (cases "cacheInfo c (podNodeName pod)")
  case None
  then show ?thesis by (simp add: cacheRemovePod_def)
next
  let ?n = "podNodeName pod" and ?g = "scGeneration c"
  case (Some ni)
  note d = cacheInvLD [OF L]
  have n: "?n \<in> set ns" using Some listInv_info [OF d(1), of ?n] by simp
  obtain ni' g e where r: "removePod f pod ?g ni = (ni', g, e)" by (metis prod_cases3)
  have "cacheInfo (fst (cacheRemovePod f pod c)) = (cacheInfo c)(?n \<mapsto> ni')" "scGeneration (fst (cacheRemovePod f pod c)) = g"
    using replace_head [OF d(1), of ?n ni'] setInfo_spec [OF d(1) n, of ni'] n r Some
    by (auto simp: cacheRemovePod_def split: option.split)
  then show ?thesis using removePod_gen [OF infosOkD [OF d(4) Some] r] Some by (auto simp: genStep_def)
qed

lemma pod_ops_gen:
  assumes L: "cacheInvL f c ns"
  shows "genStep c (fst (AssumePod f pod c))" and "genStep c (fst (finishBinding pod now c))"
    and "genStep c (fst (ForgetPod f pod c))" and "genStep c (fst (AddPod f pod c))"
    and "genStep c (fst (UpdatePod f pod new c))" and "genStep c (fst (RemovePod f pod c))"
    and "genStep c (fst (expirePod f key ps c))"
proof -
  note inv = cacheInvLD(1) [OF L]
  note a = cacheAddPod_gen [OF inv]
  have r': "genStep c c1" if "cacheRemovePod f p c = (c1, e)" for p c1 e using cacheRemovePod_gen [OF L, of p] that by simp
  have ra: "genStep c (cacheAddPod f q c1)" if e: "cacheRemovePod f p c = (c1, e)" for p q c1 e
  proof -
    obtain ns' where "listInv (scList c1) ns'" using cacheRemovePod_nodes(2) [OF inv, of f p] e by auto
    from cacheAddPod_gen [OF this] r' [OF e] show ?thesis by (rule genStep_trans [rotated])
  qed
  show "genStep c (fst (AssumePod f pod c))" using a by (simp add: AssumePod_def Let_def split: option.split)
  show "genStep c (fst (finishBinding pod now c))" by (simp add: finishBinding_def Let_def split: option.split)
  show "genStep c (fst (ForgetPod f pod c))" by (auto simp: ForgetPod_def Let_def split: option.split prod.split dest: r')
  show "genStep c (fst (AddPod f pod c))" using a
    by (auto simp: AddPod_def Let_def split: option.split prod.split dest: r' ra)
  show "genStep c (fst (UpdatePod f pod new c))" using a
    by (auto simp: UpdatePod_def cacheUpdatePod_def Let_def split: option.splits prod.splits if_splits dest: r' ra)
  show "genStep c (fst (RemovePod f pod c))" by (auto simp: RemovePod_def Let_def split: option.split prod.split dest: r')
  show "genStep c (fst (expirePod f key ps c))" by (auto simp: expirePod_def Let_def split: option.split prod.split dest: r')
qed

lemma cleanupLoop_gen:
  "cacheInv f c \<Longrightarrow> genStep c (fst (cleanupLoop f now keys c))"
proof (induction keys arbitrary: c)
  case (Cons key keys)
  obtain ns where L: "cacheInvL f c ns" using Cons.prems by (rule cacheInvE)
  show ?case
  proof (cases "mget (scPodStates c) key")
    case (Some ps)
    have i: "cacheInv f (fst (expirePod f key ps c))" and s: "genStep c (fst (expirePod f key ps c))"
      by (rule expirePod_inv [OF Cons.prems Some], rule pod_ops_gen(7) [OF L])
    show ?thesis using Some s Cons.IH [OF Cons.prems] genStep_trans [OF s Cons.IH [OF i]]
      by (auto split: option.split prod.split)
  qed simp
qed simp

lemma cacheStep_gen:
  assumes "cacheStep f c c'" and "cacheInv f c"
  shows "genStep c c'"
proof -
  obtain ns where L: "cacheInvL f c ns" using assms(2) by (rule cacheInvE)
  note p = pod_ops_gen [OF L]
  from assms(1) show ?thesis
  proof cases
    case (cleanup now) then show ?thesis using cleanupLoop_gen [OF assms(2)] by (simp add: cleanupAssumedPods_def)
  next
    case (addNode node rp) then show ?thesis using cacheAddNode_inv(4) [OF L] by blast
  next
    case (updateNode old node listers) then show ?thesis using cacheUpdateNode_inv(4) [OF L] by blast
  next
    case (removeNode node)
    have "scGeneration (fst (cacheRemoveNode node c)) = scGeneration c"
      by (simp add: cacheRemoveNode_def Let_def split: prod.split option.split)
    then show ?thesis using removeNode cacheRemoveNode_inv(3) [OF L, of node] by (auto simp: genStep_def)
  qed (use p in blast)+
qed

section \<open>Taking back an assumption\<close>

lemma mdel_mput_absent: "mget m k = None \<Longrightarrow> mdel k (mput k v m) = m"
  by (induction m) (auto simp: delete_simps split: if_splits)

lemma assume_forget_states:
  assumes L: "cacheInvL f c ns" and uid: "podUID pod \<noteq> []" and new: "mget (scPodStates c) (podUID pod) = None"
    and ni: "cacheInfo c (podNodeName pod) = Some ni"
  obtains c1 c2 ni' where "AssumePod f pod c = (c1, None)" and "isAssumed (podUID pod) c1" and "ForgetPod f pod c1 = (c2, None)"
    and "scPodStates c2 = scPodStates c" and "scAssumedPods c2 = scAssumedPods c" and "scTree c2 = scTree c"
    and "cacheInfo c2 = (cacheInfo c)(podNodeName pod \<mapsto> ni')"
    and "removePod f pod (scGeneration c + 1) (fst (addPod f pod (scGeneration c) ni)) = (ni', scGeneration c + 2, None)"
proof -
  note d = cacheInvLD [OF L]
  let ?n = "podNodeName pod" and ?key = "podUID pod" and ?g = "scGeneration c"
  let ?ni1 = "fst (addPod f pod ?g ni)"
  have "keyAbsent (cacheInfo c) ?key" by (rule infosOk_unknown [OF d(4) new])
  then have fresh: "?key \<notin> podUID ` set (niPods ni)" using ni by (simp add: keyAbsent_def)
  have "nodeInfoInv f ni" using infosOkD [OF d(4) ni] by (simp add: nodeOk_def)
  from removePod_undo [OF this uid fresh, of ?g] obtain ni' where
    r: "removePod f pod (?g + 1) ?ni1 = (ni', ?g + 2, None)" by blast
  let ?c0 = "toHead ?n (putInfo ?n (addPod f pod ?g ni) c)"
  let ?c1 = "?c0\<lparr>scPodStates := mput ?key \<lparr>stPod = pod, stDeadline = None, stBindingFinished = False\<rparr> (scPodStates c),
    scAssumedPods := mput ?key True (scAssumedPods c)\<rparr>"
  have n: "?n \<in> set ns" using ni listInv_info [OF d(1), of ?n] by simp
  have l0: "listInv (scList ?c0) (?n # remove1 ?n ns)" "cacheInfo ?c0 = (cacheInfo c)(?n \<mapsto> ?ni1)"
    using replace_head [OF d(1), of ?n ?ni1] n by simp_all
  have a: "AssumePod f pod c = (?c1, None)"
    using uid new ni by (simp add: AssumePod_def GetPodKey_def cacheAddPod_def Let_def)
  let ?c2 = "(toHead ?n (putInfo ?n (ni', ?g + 2) ?c1))\<lparr>scAssumedPods := mdel ?key (mput ?key True (scAssumedPods c)),
    scPodStates := mdel ?key (mput ?key \<lparr>stPod = pod, stDeadline = None, stBindingFinished = False\<rparr> (scPodStates c))\<rparr>"
  have g1: "scGeneration ?c1 = ?g + 1" by simp
  have i1: "cacheInfo ?c1 ?n = Some ?ni1" using l0(2) by simp
  have rm: "cacheRemovePod f pod ?c1 = (toHead ?n (putInfo ?n (ni', ?g + 2) ?c1), None)"
    unfolding cacheRemovePod_def g1 i1 using r by simp
  have fg: "ForgetPod f pod ?c1 = (?c2, None)"
    using uid rm by (simp add: ForgetPod_def GetPodKey_def isAssumed_def)
  have as: "mget (scAssumedPods c) ?key = None" using statesOkD(4) [OF d(5), of ?key] new by (cases "mget (scAssumedPods c) ?key") auto
  have "cacheInfo ?c2 = (cacheInfo c)(?n \<mapsto> ni')"
    using replace_head [OF l0(1), of ?n ni'] l0(2) by simp
  then show thesis using that [OF a _ fg] r as new by (simp add: mdel_mput_absent isAssumed_def)
qed

section \<open>Expired pods leave\<close>

lemma uidsOn_fields [simp]:
  "uidsOn (c\<lparr>scPodStates := x\<rparr>) = uidsOn c" "uidsOn (c\<lparr>scAssumedPods := y\<rparr>) = uidsOn c"
  by (simp_all add: uidsOn_def fun_eq_iff)

lemma removable_cases:
  assumes L: "cacheInvL f c ns" and st: "mget (scPodStates c) key = Some ps"
  shows "if removable c ps then
      (\<exists>c'. expirePod f key ps c = (c', None) \<and> scPodStates c' = mdel key (scPodStates c) \<and>
        scAssumedPods c' = mdel key (scAssumedPods c) \<and> uidsOn c' = map_option (\<lambda>U. U - {key}) \<circ> uidsOn c)
    else cacheNode c (podNodeName (stPod ps)) \<noteq> None \<longrightarrow>
      (\<exists>c'. expirePod f key ps c = (c', Some (CacheNodeErr ErrNoPod)) \<and> scPodStates c' = scPodStates c \<and>
        scAssumedPods c' = scAssumedPods c \<and> uidsOn c' = uidsOn c)"
proof -
  note d = cacheInvLD [OF L]
  let ?n = "podNodeName (stPod ps)" and ?g = "scGeneration c"
  have key: "podUID (stPod ps) = key" "key \<noteq> []" using statesOkD(3) [OF d(5) st] by auto
  have off: "key \<notin> podUID ` set (niPods ni)" if "cacheInfo c m = Some ni" "m \<noteq> ?n" for m ni
    using infosOk_one [OF d(4) st that(1)] that(2) by blast
  show ?thesis
  proof (cases "cacheInfo c ?n")
    case None
    have "uidsOn c m = map_option (\<lambda>U. U - {key}) (uidsOn c m)" for m
    proof (cases "cacheInfo c m")
      case (Some ni)
      then have "key \<notin> podUID ` set (niPods ni)" using off None by (cases "m = ?n") auto
      then show ?thesis using Some by (simp add: uidsOn_def)
    qed (simp add: uidsOn_def)
    then have "uidsOn c = map_option (\<lambda>U. U - {key}) \<circ> uidsOn c" by (simp add: fun_eq_iff)
    then show ?thesis using None by (simp add: removable_def uidsOn_def expirePod_def cacheRemovePod_def)
  next
    case (Some ni)
    then have n: "?n \<in> set ns" using listInv_info [OF d(1), of ?n] by simp
    show ?thesis
    proof (cases "key \<in> podUID ` set (niPods ni)")
      case True
      obtain ni' p where r: "removePod f (stPod ps) ?g ni = (ni', ?g + 1, None)"
          "p \<in> set (niPods ni)" "podUID p = key" "mset (niPods ni') = mset (niPods ni) - {#p#}"
        using infosOk_remove [OF d(4) Some st refl key(1) refl True, of ?g] by metis
      have dis: "distinct (map podUID (niPods ni))" using infosOkD [OF d(4) Some] by (simp add: nodeOk_def)
      have "mset (niPods ni) = add_mset p (mset (niPods ni'))" using r(2,4) by simp
      then have ms: "image_mset podUID (mset (niPods ni)) = add_mset key (image_mset podUID (mset (niPods ni')))" using r(3) by simp
      then have "mset (map podUID (niPods ni)) = mset (key # map podUID (niPods ni'))" by simp
      then have "distinct (key # map podUID (niPods ni'))" using dis mset_eq_imp_distinct_iff by metis
      moreover have "podUID ` set (niPods ni) = insert key (podUID ` set (niPods ni'))"
        using arg_cong [OF ms, of set_mset] by simp
      ultimately have uids: "podUID ` set (niPods ni') = podUID ` set (niPods ni) - {key}" by auto
      let ?c' = "(toHead ?n (putInfo ?n (ni', ?g + 1) c))\<lparr>scAssumedPods := mdel key (scAssumedPods c), scPodStates := mdel key (scPodStates c)\<rparr>"
      have "expirePod f key ps c = (?c', None)" using Some r(1) by (simp add: expirePod_def cacheRemovePod_def)
      moreover have "cacheInfo ?c' = (cacheInfo c)(?n \<mapsto> ni')" using replace_head [OF d(1), of ?n ni'] n by simp
      then have "uidsOn ?c' = map_option (\<lambda>U. U - {key}) \<circ> uidsOn c"
        using uids Some off by (auto simp: uidsOn_def fun_eq_iff map_option_case split: option.split)
      moreover have "removable c ps" using Some True key by (simp add: removable_def uidsOn_def)
      ultimately show ?thesis by simp
    next
      case False
      have "removePod f (stPod ps) ?g ni = (ni, ?g, Some (if niNode ni = None then PanicNilNode else ErrNoPod))"
        using removePod_absent [OF infosOkD [OF d(4) Some]] False key by metis
      moreover have "\<not> removable c ps" using Some False key by (simp add: removable_def uidsOn_def)
      moreover have "uidsOn (putInfo ?n (ni, ?g) c) = uidsOn c"
        using setInfo_spec(2) [OF d(1) n, of ni] Some by (simp add: uidsOn_def fun_eq_iff)
      ultimately show ?thesis using Some by (auto simp: expirePod_def cacheRemovePod_def cacheNode_def)
    qed
  qed
qed

lemma removable_other:
  assumes "uidsOn c' = map_option (\<lambda>U. U - {key}) \<circ> uidsOn c" and "podUID (stPod st) \<noteq> key"
  shows "removable c' st = removable c st"
  using assms by (simp add: removable_def split: option.split)

lemma expire_step:
  assumes inv: "cacheInv f c" and st: "mget (scPodStates c) key = Some ps" and ex: "expired now ps"
    and safe: "safeToExpire now c key"
  obtains c' e where "expirePod f key ps c = (c', e)" and "\<not> isPanic e" and "cacheInv f c'"
    and "mget (scPodStates c') = (if leaves now c key then (mget (scPodStates c))(key := None) else mget (scPodStates c))"
    and "mget (scAssumedPods c') = (if leaves now c key then (mget (scAssumedPods c))(key := None) else mget (scAssumedPods c))"
    and "\<And>k. k \<noteq> key \<Longrightarrow> leaves now c' k = leaves now c k" and "\<And>k. k \<noteq> key \<Longrightarrow> safeToExpire now c' k = safeToExpire now c k"
proof -
  obtain ns where L: "cacheInvL f c ns" using inv by (rule cacheInvE)
  note d = cacheInvLD [OF L]
  have i: "cacheInv f (fst (expirePod f key ps c))" by (rule expirePod_inv [OF inv st])
  have same: "cacheNode (fst (expirePod f key ps c)) = cacheNode c"
    using expirePod_nodes [OF inv, of key ps] by (simp add: sameNodes_def)
  have uid: "podUID (stPod s) \<noteq> key" if "mget (scPodStates c) k = Some s" "k \<noteq> key" for k s
    using statesOkD(3) [OF d(5) that(1)] that(2) by simp
  note rc = removable_cases [OF L st]
  show thesis
  proof (cases "removable c ps")
    case True
    with rc obtain c' where c': "expirePod f key ps c = (c', None)" "scPodStates c' = mdel key (scPodStates c)"
        "scAssumedPods c' = mdel key (scAssumedPods c)" "uidsOn c' = map_option (\<lambda>U. U - {key}) \<circ> uidsOn c" by auto
    have rem: "removable c' s = removable c s" if "mget (scPodStates c) k = Some s" "k \<noteq> key" for k s
      by (rule removable_other [OF c'(4) uid [OF that]])
    show thesis
      by (rule that [OF c'(1)])
        (use i same c' rem st ex True in \<open>auto simp: mget_upd leaves_def safeToExpire_def isPanic_def split: option.split\<close>)
  next
    case False
    with rc safe st ex obtain c' where c': "expirePod f key ps c = (c', Some (CacheNodeErr ErrNoPod))" "scPodStates c' = scPodStates c"
        "scAssumedPods c' = scAssumedPods c" "uidsOn c' = uidsOn c" by (auto simp: safeToExpire_def)
    have rem: "removable c' s = removable c s" for s by (simp add: removable_def c'(4))
    show thesis
      by (rule that [OF c'(1)])
        (use i same c' rem st False in \<open>auto simp: leaves_def safeToExpire_def isPanic_def split: option.split\<close>)
  qed
qed

lemma cleanupLoop_spec:
  assumes "cacheInv f c" and "distinct keys" and "\<And>key. key \<in> set keys \<Longrightarrow> safeToExpire now c key"
  shows "snd (cleanupLoop f now keys c) = None \<and>
    mget (scPodStates (fst (cleanupLoop f now keys c))) k =
      (if k \<in> set keys \<and> leaves now c k then None else mget (scPodStates c) k) \<and>
    mget (scAssumedPods (fst (cleanupLoop f now keys c))) k =
      (if k \<in> set keys \<and> leaves now c k then None else mget (scAssumedPods c) k)"
  using assms
proof (induction keys arbitrary: c)
  case (Cons key keys)
  have safe: "safeToExpire now c key" using Cons.prems(3) by simp
  then obtain ps where ps: "mget (scPodStates c) key = Some ps" by (auto simp: safeToExpire_def split: option.splits)
  show ?case
  proof (cases "expired now ps")
    case False
    have "cleanupLoop f now (key # keys) c = cleanupLoop f now keys c"
      using ps False safe by (auto simp: expired_def safeToExpire_def split: option.splits)
    moreover have "\<not> leaves now c key" using ps False by (simp add: leaves_def)
    ultimately show ?thesis using Cons.IH [OF Cons.prems(1)] Cons.prems(2,3) by auto
  next
    case True
    from expire_step [OF Cons.prems(1) ps True safe] obtain c' e where
      r: "expirePod f key ps c = (c', e)" "\<not> isPanic e" "cacheInv f c'"
        "mget (scPodStates c') = (if leaves now c key then (mget (scPodStates c))(key := None) else mget (scPodStates c))"
        "mget (scAssumedPods c') = (if leaves now c key then (mget (scAssumedPods c))(key := None) else mget (scAssumedPods c))"
        "\<And>k. k \<noteq> key \<Longrightarrow> leaves now c' k = leaves now c k" "\<And>k. k \<noteq> key \<Longrightarrow> safeToExpire now c' k = safeToExpire now c k"
      by blast
    have eq: "cleanupLoop f now (key # keys) c = cleanupLoop f now keys c'"
      using ps True r(1,2) by (auto simp: expired_def split: option.splits)
    have d: "distinct keys" "key \<notin> set keys" using Cons.prems(2) by auto
    have "safeToExpire now c' key'" if "key' \<in> set keys" for key' using that Cons.prems(3) [of key'] r(7) [of key'] d(2) by auto
    from Cons.IH [OF r(3) d(1) this] show ?thesis unfolding eq using r(4,5) r(6) [of k] d(2) by auto
  qed
qed simp

section \<open>Properties\<close>




lemma oneNode_inv: "cacheInv defaultFeatures oneNode \<and> treeSync oneNode"
proof -
  have "cacheAddNode defaultFeatures (zonedNode ''z'' ''n'') ''rp'' (newSchedulerCache 0) = (oneNode, None)"
    unfolding oneNode_def by (rule prod_eqI) (simp, code_simp)
  then show ?thesis
    by (rule addNode_sync [rotated 2]) (use cacheInv_new [of defaultFeatures 0] in \<open>simp_all add: cacheNode_def newSchedulerCache_def nlInfo_def newNodeList_def\<close>)
qed


text \<open>C18: a cleanup removes exactly the assumed pods whose binding is finished, whose deadline has passed and
  whose pod can be taken off its node; their states go with them, all other pods stay as they are, and the
  cache keeps its invariant.\<close>

theorem cleanup_expires:
  assumes "cacheInv f c"
    and "\<forall>key st. mget (scAssumedPods c) key \<noteq> None \<longrightarrow> mget (scPodStates c) key = Some st \<longrightarrow> expired now st \<longrightarrow>
      removable c st \<or> cacheNode c (podNodeName (stPod st)) \<noteq> None"
  shows "snd (cleanupAssumedPods f now c) = None \<and> cacheInv f (fst (cleanupAssumedPods f now c)) \<and>
    mget (scAssumedPods (fst (cleanupAssumedPods f now c))) k = (if leaves now c k then None else mget (scAssumedPods c) k) \<and>
    mget (scPodStates (fst (cleanupAssumedPods f now c))) k =
      (if mget (scAssumedPods c) k \<noteq> None \<and> leaves now c k then None else mget (scPodStates c) k)"
proof -
  obtain ns where L: "cacheInvL f c ns" using assms(1) by (rule cacheInvE)
  note st = statesOkD [OF cacheInvLD(5) [OF L]]
  let ?keys = "map fst (scAssumedPods c)"
  have keys: "k \<in> set ?keys \<longleftrightarrow> mget (scAssumedPods c) k \<noteq> None" for k using map_of_eq_None_iff [of "scAssumedPods c" k] by auto
  have "safeToExpire now c key" if "key \<in> set ?keys" for key
    using st(4) [of key] assms(2) that keys [of key] by (fastforce simp: safeToExpire_def)
  moreover have "distinct ?keys" using st(2) by (simp add: gomap_wf_def)
  ultimately show ?thesis
    using cleanupLoop_spec [OF assms(1), of ?keys now k] cleanupLoop_inv [OF assms(1), of now ?keys] keys [of k]
    by (auto simp: cleanupAssumedPods_def)
qed

lemma oneBound_inv: "cacheInv defaultFeatures oneBound \<and> treeSync oneBound"
  unfolding oneBound_def using oneNode_inv cacheStep_inv cacheStep.assumePod cacheStep.finishBinding by blast

theorem cleanup_expires_witness:
  "mget (scAssumedPods (fst (cleanupAssumedPods defaultFeatures 10 oneBound))) ''u'' = None \<and>
   cacheInv defaultFeatures (fst (cleanupAssumedPods defaultFeatures 10 oneBound))"
proof -
  have "list_all (\<lambda>(key, st). removable oneBound st) (scPodStates oneBound)" "leaves 10 oneBound ''u''" by code_simp+
  then have "\<forall>key st. mget (scAssumedPods oneBound) key \<noteq> None \<longrightarrow> mget (scPodStates oneBound) key = Some st \<longrightarrow> expired 10 st \<longrightarrow>
      removable oneBound st \<or> cacheNode oneBound (podNodeName (stPod st)) \<noteq> None"
    by (auto simp: list_all_iff dest!: map_of_SomeD)
  from cleanup_expires [OF conjunct1 [OF oneBound_inv] this, of "''u''"] \<open>leaves 10 oneBound ''u''\<close> show ?thesis by simp
qed

text \<open>An assumed pod whose node is removed and added again is never expired: it is no longer on the node, its
  removal fails at every cleanup, and the error is only logged.\<close>

lemma nodeReturns_inv: "cacheInv defaultFeatures nodeReturns \<and> treeSync nodeReturns"
proof -
  let ?n = "zonedNode ''z'' ''n''" and ?c = "fst (cacheRemoveNode (zonedNode ''z'' ''n'') oneBound)"
  have z: "cacheNode oneBound (nodeName ?n) = Some ?n" by code_simp
  have c: "cacheInv defaultFeatures ?c \<and> treeSync ?c"
    using removeNode_sync [of defaultFeatures oneBound ?n] oneBound_inv z by simp
  have "snd (cacheAddNode defaultFeatures ?n ''rp'' ?c) = None" "cacheNode ?c (nodeName ?n) = None" by code_simp+
  then have "cacheAddNode defaultFeatures ?n ''rp'' ?c = (nodeReturns, None)" "cacheNode ?c (nodeName ?n) = None"
    by (simp_all add: nodeReturns_def prod_eq_iff)
  then show ?thesis using addNode_sync [of defaultFeatures ?c ?n] c by simp
qed

lemma never_expires: "mget (scAssumedPods (fst (cleanupAssumedPods defaultFeatures now nodeReturns))) ''u'' = Some True"
proof -
  have e: "mget (scPodStates nodeReturns) ''u'' = Some (the (mget (scPodStates nodeReturns) ''u''))"
    "\<not> removable nodeReturns (the (mget (scPodStates nodeReturns) ''u''))"
    "cacheNode nodeReturns (podNodeName (stPod (the (mget (scPodStates nodeReturns) ''u'')))) \<noteq> None"
    "stBindingFinished (the (mget (scPodStates nodeReturns) ''u''))" "stDeadline (the (mget (scPodStates nodeReturns) ''u'')) \<noteq> None"
    "map fst (scAssumedPods nodeReturns) = [''u'']" "mget (scAssumedPods nodeReturns) ''u'' = Some True"
    by code_simp+
  have "safeToExpire now nodeReturns ''u''" "\<not> leaves now nodeReturns ''u''"
    using e by (auto simp: safeToExpire_def leaves_def split: option.split)
  then show ?thesis
    using cleanupLoop_spec [OF conjunct1 [OF nodeReturns_inv], of "[''u'']" now "''u''"] e(6,7)
    by (simp add: cleanupAssumedPods_def)
qed

text \<open>An update that moves a virtual machine pod to a node the cache does not have leaves the pod counted on the
  old node, while its state names the new one.\<close>

lemma vm_left_behind:
  "map_option (map podUID \<circ> niPods) (cacheInfo vmMoves ''n'') = Some [''u''] \<and>
   map_option (podNodeName \<circ> stPod) (mget (scPodStates vmMoves) ''u'') = Some ''m''"
  by code_simp

text \<open>A node whose pods arrive first has a placeholder item, and its addition does not set the resource
  provider id, as the addition of a new node does.\<close>

lemma placeholder_without_provider:
  "map_option niResourceProviderId (cacheInfo oneNode ''n'') = Some ''rp'' \<and>
   map_option niResourceProviderId (cacheInfo (fst (cacheAddNode defaultFeatures (zonedNode ''z'' ''n'') ''rp''
     (fst (AddPod defaultFeatures (boundPod ''u'' ''n'') (newSchedulerCache 0))))) ''n'') = Some []"
  by code_simp

end
