(* ===== verification/Snapshot.thy ===== *)
theory Snapshot
  imports CacheSteps
begin

text \<open>
  The snapshot of the scheduler cache (\<open>pkg/scheduler/internal/cache/snapshot.go\<close>) and its incremental update
  (\<open>UpdateSnapshot\<close> in \<open>cache.go\<close>). The node infos of a snapshot are objects shared between its map and its
  lists, so they have addresses in a store; the update writes through them.
\<close>

section \<open>Model\<close>

record Snapshot =
  snStore :: "nat \<Rightarrow> NodeInfo option"
  snFresh :: nat
  nodeInfoMap :: "(string, nat) gomap"
  nodeInfoList :: "nat list"
  havePodsWithAffinityNodeInfoList :: "nat list"
  snGeneration :: int

definition NewEmptySnapshot :: Snapshot where
  "NewEmptySnapshot =
     \<lparr>snStore = (\<lambda>_. None), snFresh = 0, nodeInfoMap = [], nodeInfoList = [],
      havePodsWithAffinityNodeInfoList = [], snGeneration = 0\<rparr>"

definition hasAffinityAt :: "Snapshot \<Rightarrow> nat \<Rightarrow> bool" where
  "hasAffinityAt sn a = (case snStore sn a of Some ni \<Rightarrow> niPodsWithAffinity ni \<noteq> [] | None \<Rightarrow> False)"

text \<open>The body of the loop: a node info of the cache copied into the snapshot, through the object that is
  already there; and the two flags that say which lists have to be made again.\<close>

definition snapshotNode :: "NodeInfo \<Rightarrow> Snapshot \<times> bool \<times> bool \<Rightarrow> Snapshot \<times> bool \<times> bool" where
  "snapshotNode info = (\<lambda>(sn, updateAllLists, updateNodesHavePodsWithAffinity).
     case niNode info of
       None \<Rightarrow> (sn, updateAllLists, updateNodesHavePodsWithAffinity)
     | Some np \<Rightarrow>
         (let (existing, sn, updateAllLists) =
                (case mget (nodeInfoMap sn) (nodeName np) of
                   Some a \<Rightarrow> (a, sn, updateAllLists)
                 | None \<Rightarrow>
                     (snFresh sn,
                      sn\<lparr>snStore := (snStore sn)(snFresh sn \<mapsto> emptyNodeInfo 0), snFresh := Suc (snFresh sn),
                         nodeInfoMap := mput (nodeName np) (snFresh sn) (nodeInfoMap sn)\<rparr>, True));
              clone = nodeInfoClone info;
              updateNodesHavePodsWithAffinity =
                (updateNodesHavePodsWithAffinity \<or> hasAffinityAt sn existing \<noteq> (niPodsWithAffinity clone \<noteq> []))
          in (sn\<lparr>snStore := (snStore sn)(existing \<mapsto> clone)\<rparr>, updateAllLists, updateNodesHavePodsWithAffinity)))"

definition resetTransient :: "features \<Rightarrow> NodeInfo \<Rightarrow> NodeInfo" where
  "resetTransient f ni =
     (if BalanceAttachedNodeVolumes f then ni\<lparr>niTransientInfo := NewTransientSchedulerInfo\<rparr> else ni)"

partial_function (option) snapshotLoop ::
  "features \<Rightarrow> int \<Rightarrow> nat option \<Rightarrow> nodeList \<Rightarrow> Snapshot \<times> bool \<times> bool \<Rightarrow> (nodeList \<times> Snapshot \<times> bool \<times> bool) option" where
  "snapshotLoop f snapshotGeneration node l s =
     (case node of
        None \<Rightarrow> Some (l, s)
      | Some a \<Rightarrow>
          (case nlItems l a of
             None \<Rightarrow> Some (l, s)
           | Some item \<Rightarrow>
               if niGeneration (liInfo item) \<le> snapshotGeneration then Some (l, s)
               else (let info = resetTransient f (liInfo item)
                     in snapshotLoop f snapshotGeneration (liNext item) (updItem a (liInfo_update (\<lambda>_. info)) l)
                          (snapshotNode info s))))"

declare snapshotLoop.simps [code]

definition updateNodeInfoSnapshotList :: "bool \<Rightarrow> schedulerCache \<Rightarrow> Snapshot \<Rightarrow> (schedulerCache \<times> Snapshot) option" where
  "updateNodeInfoSnapshotList updateAll c snapshot =
     (if updateAll then
        map_option (\<lambda>(t, names).
            let ns = List.map_filter (mget (nodeInfoMap snapshot)) names
            in (c\<lparr>scTree := t\<rparr>,
                snapshot\<lparr>nodeInfoList := ns, havePodsWithAffinityNodeInfoList := filter (hasAffinityAt snapshot) ns\<rparr>))
          (ntPass (nat (ntNumNodes (scTree c))) (scTree c))
      else Some (c, snapshot\<lparr>havePodsWithAffinityNodeInfoList := filter (hasAffinityAt snapshot) (nodeInfoList snapshot)\<rparr>))"

fun removeDeletedLoop :: "(string, nat) gomap \<Rightarrow> string list \<Rightarrow> int \<Rightarrow> (string, nat) gomap \<Rightarrow> (string, nat) gomap" where
  "removeDeletedLoop nodes [] toDelete m = m"
| "removeDeletedLoop nodes (name # names) toDelete m =
     (if toDelete \<le> 0 then m
      else if mget nodes name = None then removeDeletedLoop nodes names (toDelete - 1) (mdel name m)
      else removeDeletedLoop nodes names toDelete m)"

definition removeDeletedNodesFromSnapshot :: "schedulerCache \<Rightarrow> Snapshot \<Rightarrow> Snapshot" where
  "removeDeletedNodesFromSnapshot c snapshot =
     snapshot\<lparr>nodeInfoMap :=
       removeDeletedLoop (nlNodes (scList c)) (map fst (nodeInfoMap snapshot))
         (int (length (nodeInfoMap snapshot)) - int (length (nlNodes (scList c)))) (nodeInfoMap snapshot)\<rparr>"

text \<open>The value \<open>True\<close> of the result is the error of an inconsistent snapshot; no result is a loop that does not
  end or a panic of the tree.\<close>

definition UpdateSnapshot :: "features \<Rightarrow> schedulerCache \<Rightarrow> Snapshot \<Rightarrow> (schedulerCache \<times> Snapshot \<times> bool) option" where
  "UpdateSnapshot f c sn =
     (case snapshotLoop f (snGeneration sn) (nlHead (scList c)) (scList c) (sn, False, False) of
        None \<Rightarrow> None
      | Some (l, sn, updateAllLists, updateNodesHavePodsWithAffinity) \<Rightarrow>
          (let c = c\<lparr>scList := l\<rparr>;
               sn = (case nlHead l of
                       None \<Rightarrow> sn
                     | Some h \<Rightarrow> (case nlItems l h of None \<Rightarrow> sn | Some item \<Rightarrow> sn\<lparr>snGeneration := niGeneration (liInfo item)\<rparr>));
               deleted = length (nlNodes l) < length (nodeInfoMap sn);
               sn = (if deleted then removeDeletedNodesFromSnapshot c sn else sn);
               updateAllLists = (updateAllLists \<or> deleted)
           in case (if updateAllLists \<or> updateNodesHavePodsWithAffinity then updateNodeInfoSnapshotList updateAllLists c sn
                    else Some (c, sn)) of
                None \<Rightarrow> None
              | Some (c, sn) \<Rightarrow>
                  if int (length (nodeInfoList sn)) \<noteq> ntNumNodes (scTree c)
                  then map_option (\<lambda>(c, sn). (c, sn, True)) (updateNodeInfoSnapshotList True c sn)
                  else Some (c, sn, False)))"

text \<open>Snapshots made from scratch, for tests and for the simulation of other schedulers.\<close>

definition createImageExistenceMap :: "Node list \<Rightarrow> (string, string list) gomap" where
  "createImageExistenceMap nodes =
     fold (\<lambda>node. fold (\<lambda>(name, _) m.
         case mget m name of
           None \<Rightarrow> mput name [nodeName node] m
         | Some s \<Rightarrow> mput name (List.insert (nodeName node) s) m) (nodeImages node)) nodes []"

definition getNodeImageStates :: "Node \<Rightarrow> (string, string list) gomap \<Rightarrow> (string, ImageStateSummary) gomap" where
  "getNodeImageStates node imageExistenceMap =
     fold (\<lambda>(name, size) m.
         mput name \<lparr>issSize = size,
                    issNumNodes = length (case mget imageExistenceMap name of Some s \<Rightarrow> s | None \<Rightarrow> [])\<rparr> m)
       (nodeImages node) []"

definition infoAt :: "features \<Rightarrow> string \<Rightarrow> (string, NodeInfo) gomap \<Rightarrow> int \<Rightarrow> NodeInfo \<times> int" where
  "infoAt f name m g = (case mget m name of Some ni \<Rightarrow> (ni, g) | None \<Rightarrow> NewNodeInfo f [] g)"

definition createNodeInfoMap :: "features \<Rightarrow> Pod list \<Rightarrow> Node list \<Rightarrow> int \<Rightarrow> (string, NodeInfo) gomap \<times> int" where
  "createNodeInfoMap f pods nodes g =
     (let (m, g) = fold (\<lambda>pod (m, g).
            let (ni, g) = infoAt f (podNodeName pod) m g; (ni, g) = addPod f pod g ni
            in (mput (podNodeName pod) ni m, g)) pods ([], g);
          imageExistenceMap = createImageExistenceMap nodes
      in fold (\<lambda>node (m, g).
            let (ni, g) = infoAt f (nodeName node) m g; (ni, g) = SetNode f node g ni
            in (mput (nodeName node) (ni\<lparr>niImageStates := getNodeImageStates node imageExistenceMap\<rparr>) m, g)) nodes (m, g))"

definition NewSnapshot :: "features \<Rightarrow> Pod list \<Rightarrow> Node list \<Rightarrow> int \<Rightarrow> Snapshot \<times> int" where
  "NewSnapshot f pods nodes g =
     (let (m, g) = createNodeInfoMap f pods nodes g;
          s = NewEmptySnapshot\<lparr>
                snStore := (\<lambda>a. if a < length m then Some (snd (m ! a)) else None), snFresh := length m,
                nodeInfoMap := zip (map fst m) [0..<length m], nodeInfoList := [0..<length m]\<rparr>
      in (s\<lparr>havePodsWithAffinityNodeInfoList := filter (hasAffinityAt s) [0..<length m]\<rparr>, g))"

definition snapList :: "Snapshot \<Rightarrow> NodeInfo list" where
  "snapList s = List.map_filter (snStore s) (nodeInfoList s)"

definition HavePodsWithAffinityList :: "Snapshot \<Rightarrow> NodeInfo list" where
  "HavePodsWithAffinityList s = List.map_filter (snStore s) (havePodsWithAffinityNodeInfoList s)"

definition NumNodes :: "Snapshot \<Rightarrow> nat" where
  "NumNodes s = length (nodeInfoList s)"

definition podLister_FilteredList :: "(Pod \<Rightarrow> bool) \<Rightarrow> Selector \<Rightarrow> NodeInfo list \<Rightarrow> Pod list" where
  "podLister_FilteredList podFilter selector p =
     concat (map (\<lambda>n. filter (\<lambda>pod. podFilter pod \<and> selMatches (omLabels (podMeta pod)) selector) (niPods n)) p)"

definition snapshotGet :: "string \<Rightarrow> Snapshot \<Rightarrow> NodeInfo option" where
  "snapshotGet name s =
     (case mget (nodeInfoMap s) name of
        None \<Rightarrow> None
      | Some a \<Rightarrow> (case snStore s a of Some ni \<Rightarrow> if niNode ni \<noteq> None then Some ni else None | None \<Rightarrow> None))"

section \<open>Agreement with the cache\<close>

definition snapView :: "Snapshot \<Rightarrow> string \<Rightarrow> NodeInfo option" where
  "snapView sn n = (case mget (nodeInfoMap sn) n of Some a \<Rightarrow> snStore sn a | None \<Rightarrow> None)"

definition snapWf :: "Snapshot \<Rightarrow> bool" where
  "snapWf sn \<longleftrightarrow> gomap_wf (nodeInfoMap sn) \<and> (\<forall>a \<in> set (nodeInfoList sn). a < snFresh sn) \<and>
     (\<forall>n a. mget (nodeInfoMap sn) n = Some a \<longrightarrow> a < snFresh sn \<and> snStore sn a \<noteq> None) \<and>
     (\<forall>n m a. mget (nodeInfoMap sn) n = Some a \<longrightarrow> mget (nodeInfoMap sn) m = Some a \<longrightarrow> n = m)"

definition snapLists :: "Snapshot \<Rightarrow> bool" where
  "snapLists sn \<longleftrightarrow> havePodsWithAffinityNodeInfoList sn = filter (hasAffinityAt sn) (nodeInfoList sn) \<and>
     set (nodeInfoList sn) \<subseteq> ran (mget (nodeInfoMap sn))"

text \<open>What the snapshot shows of a node that has not changed since is what the cache has.\<close>

definition snapOk :: "schedulerCache \<Rightarrow> Snapshot \<Rightarrow> bool" where
  "snapOk c sn \<longleftrightarrow> snapWf sn \<and> snapLists sn \<and> snGeneration sn \<le> scGeneration c \<and>
     (\<forall>n ni. cacheInfo c n = Some ni \<longrightarrow> niNode ni \<noteq> None \<longrightarrow> niGeneration ni \<le> snGeneration sn \<longrightarrow>
        snapView sn n = Some (nodeInfoClone ni))"

text \<open>How the copying of one node may change the snapshot and the flags.\<close>

definition snapRel :: "Snapshot \<times> bool \<times> bool \<Rightarrow> Snapshot \<times> bool \<times> bool \<Rightarrow> bool" where
  "snapRel = (\<lambda>(sn, ua, uh) (sn', ua', uh').
     snapWf sn' \<and> snGeneration sn' = snGeneration sn \<and> nodeInfoList sn' = nodeInfoList sn \<and>
     havePodsWithAffinityNodeInfoList sn' = havePodsWithAffinityNodeInfoList sn \<and> snFresh sn \<le> snFresh sn' \<and>
     (\<forall>n a. mget (nodeInfoMap sn) n = Some a \<longrightarrow> mget (nodeInfoMap sn') n = Some a) \<and>
     (ua \<longrightarrow> ua') \<and> (\<not> ua' \<longrightarrow> nodeInfoMap sn' = nodeInfoMap sn) \<and>
     (uh \<longrightarrow> uh') \<and> (\<not> uh' \<longrightarrow> (\<forall>a < snFresh sn. hasAffinityAt sn' a = hasAffinityAt sn a)))"

text \<open>The names the loop visits: those in front that changed after the given generation.\<close>

definition visited :: "int \<Rightarrow> nodeList \<Rightarrow> string list \<Rightarrow> string list" where
  "visited g l ns = takeWhile (\<lambda>n. g < niGeneration (the (nlInfo l n))) ns"

text \<open>The snapshot with the generation of the head, which the update takes over.\<close>

definition snapAt :: "nodeList \<Rightarrow> Snapshot \<Rightarrow> Snapshot" where
  "snapAt l sn = (case nlHead l of
     None \<Rightarrow> sn
   | Some h \<Rightarrow> (case nlItems l h of None \<Rightarrow> sn | Some item \<Rightarrow> sn\<lparr>snGeneration := niGeneration (liInfo item)\<rparr>))"

definition headOf :: "nodeList \<Rightarrow> string list \<Rightarrow> nat option" where
  "headOf l ns = (case ns of [] \<Rightarrow> None | n # _ \<Rightarrow> mget (nlNodes l) n)"

text \<open>The scheduler's two users of the cache: the events, and the snapshot at the start of every cycle.\<close>

inductive schedStep :: "features \<Rightarrow> schedulerCache \<times> Snapshot \<Rightarrow> schedulerCache \<times> Snapshot \<Rightarrow> bool" for f where
  event: "cacheStep f c c' \<Longrightarrow> schedStep f (c, sn) (c', sn)"
| cycle: "UpdateSnapshot f c sn = Some (c', sn', err) \<Longrightarrow> schedStep f (c, sn) (c', sn')"

text \<open>A node removed from the cache while another node has pods and no node object yet.\<close>

definition goneWithPlaceholder :: "(schedulerCache \<times> Snapshot \<times> bool) option" where
  "goneWithPlaceholder =
     (case UpdateSnapshot defaultFeatures oneNode NewEmptySnapshot of
        None \<Rightarrow> None
      | Some (c, sn, _) \<Rightarrow>
          UpdateSnapshot defaultFeatures
            (fst (AddPod defaultFeatures (boundPod ''u'' ''m'') (fst (cacheRemoveNode (zonedNode ''z'' ''n'') c)))) sn)"

section \<open>Copying one node\<close>

lemma snapView_frame: "nodeInfoMap sn' = nodeInfoMap sn \<Longrightarrow> snStore sn' = snStore sn \<Longrightarrow> snapView sn' = snapView sn"
  by (rule ext) (simp add: snapView_def split: option.split)

lemma hasAffinityAt_frame: "snStore sn' = snStore sn \<Longrightarrow> hasAffinityAt sn' = hasAffinityAt sn"
  by (rule ext) (simp add: hasAffinityAt_def)

lemma snapRel_refl: "snapWf sn \<Longrightarrow> snapRel (sn, ua, uh) (sn, ua, uh)"
  by (simp add: snapRel_def)

lemma snapRel_trans:
  assumes "snapRel s s1" and "snapRel s1 s2"
  shows "snapRel s s2"
proof -
  obtain sn ua uh sn1 ua1 uh1 sn2 ua2 uh2 where s: "s = (sn, ua, uh)" "s1 = (sn1, ua1, uh1)" "s2 = (sn2, ua2, uh2)"
    by (metis prod_cases3)
  show ?thesis using assms unfolding s snapRel_def by simp (meson order_less_le_trans order_trans)
qed

lemma snapshotNode_old:
  assumes wf: "snapWf sn" and np: "niNode info = Some np" and a: "mget (nodeInfoMap sn) (nodeName np) = Some a"
  defines "sn' \<equiv> sn\<lparr>snStore := (snStore sn)(a \<mapsto> nodeInfoClone info)\<rparr>"
  shows "snapView sn' = (snapView sn)(nodeName np \<mapsto> nodeInfoClone info)" and "snapWf sn'"
    and "hasAffinityAt sn' b = (if b = a then niPodsWithAffinity (nodeInfoClone info) \<noteq> [] else hasAffinityAt sn b)"
proof -
  have inj: "m = nodeName np" if "mget (nodeInfoMap sn) m = Some a" for m using wf a that unfolding snapWf_def by blast
  show "snapView sn' = (snapView sn)(nodeName np \<mapsto> nodeInfoClone info)"
  proof
    fix m
    show "snapView sn' m = ((snapView sn)(nodeName np \<mapsto> nodeInfoClone info)) m"
    proof (cases "m = nodeName np")
      case True
      then show ?thesis using a by (simp add: snapView_def sn'_def)
    next
      case False
      then have "mget (nodeInfoMap sn) m \<noteq> Some a" using inj by blast
      then show ?thesis using False by (simp add: snapView_def sn'_def split: option.split)
    qed
  qed
  show "snapWf sn'" using wf by (auto simp: snapWf_def sn'_def)
  show "hasAffinityAt sn' b = (if b = a then niPodsWithAffinity (nodeInfoClone info) \<noteq> [] else hasAffinityAt sn b)"
    by (simp add: hasAffinityAt_def sn'_def)
qed

lemma snapshotNode_spec:
  assumes wf: "snapWf sn" and np: "niNode info = Some np" and s': "snapshotNode info (sn, ua, uh) = s'"
  shows "snapRel (sn, ua, uh) s'" and "snapView (fst s') = (snapView sn)(nodeName np \<mapsto> nodeInfoClone info)"
proof (atomize (full), cases "mget (nodeInfoMap sn) (nodeName np)")
  case (Some a)
  let ?sn' = "sn\<lparr>snStore := (snStore sn)(a \<mapsto> nodeInfoClone info)\<rparr>"
  note o = snapshotNode_old [OF wf np Some]
  have "s' = (?sn', ua, uh \<or> hasAffinityAt sn a \<noteq> (niPodsWithAffinity (nodeInfoClone info) \<noteq> []))"
    using s' np Some by (simp add: snapshotNode_def Let_def)
  then show "snapRel (sn, ua, uh) s' \<and> snapView (fst s') = (snapView sn)(nodeName np \<mapsto> nodeInfoClone info)"
    using o by (auto simp: snapRel_def)
next
  case None
  let ?a = "snFresh sn"
  let ?sn1 = "sn\<lparr>snStore := (snStore sn)(?a \<mapsto> emptyNodeInfo 0), snFresh := Suc ?a, nodeInfoMap := mput (nodeName np) ?a (nodeInfoMap sn)\<rparr>"
  let ?sn' = "?sn1\<lparr>snStore := (snStore ?sn1)(?a \<mapsto> nodeInfoClone info)\<rparr>"
  have old: "b < ?a" if "mget (nodeInfoMap sn) n = Some b" for n b using wf that unfolding snapWf_def by blast
  have wf1: "snapWf ?sn1"
    using wf unfolding snapWf_def by (simp add: less_Suc_eq) (blast dest: old less_imp_neq)
  have m: "mget (nodeInfoMap ?sn1) (nodeName np) = Some ?a" by simp
  note o = snapshotNode_old [OF wf1 np m]
  have "snapView ?sn1 n = snapView sn n" if "n \<noteq> nodeName np" for n
    using that old [of n] by (auto simp: snapView_def split: option.split)
  then have view: "snapView ?sn' = (snapView sn)(nodeName np \<mapsto> nodeInfoClone info)" using o(1) by (auto simp: fun_eq_iff)
  have aff: "hasAffinityAt ?sn' b = hasAffinityAt sn b" if "b < ?a" for b using that o(3) [of b] by (simp add: hasAffinityAt_def)
  have "\<exists>uh'. s' = (?sn', True, uh') \<and> (uh \<longrightarrow> uh')"
    using s' np None by (auto simp: snapshotNode_def Let_def)
  then show "snapRel (sn, ua, uh) s' \<and> snapView (fst s') = (snapView sn)(nodeName np \<mapsto> nodeInfoClone info)"
    using o(2) view aff None by (auto simp: snapRel_def)
qed

lemma fold_snapshotNode:
  assumes "snapWf sn" and "distinct names" and "\<And>n np. n \<in> set names \<Longrightarrow> niNode (F n) = Some np \<Longrightarrow> nodeName np = n"
  shows "snapRel (sn, ua, uh) (fold snapshotNode (map F names) (sn, ua, uh)) \<and>
    snapView (fst (fold snapshotNode (map F names) (sn, ua, uh))) m =
      (if m \<in> set names \<and> niNode (F m) \<noteq> None then Some (nodeInfoClone (F m)) else snapView sn m)"
  using assms
proof (induction names arbitrary: sn ua uh)
  case Nil
  then show ?case by (simp add: snapRel_refl)
next
  case (Cons n names)
  obtain sn1 ua1 uh1 where s1: "snapshotNode (F n) (sn, ua, uh) = (sn1, ua1, uh1)" by (metis prod_cases3)
  have one: "snapRel (sn, ua, uh) (sn1, ua1, uh1) \<and>
      snapView sn1 = (if niNode (F n) = None then snapView sn else (snapView sn)(n \<mapsto> nodeInfoClone (F n)))"
  proof (cases "niNode (F n)")
    case None
    then have "(sn1, ua1, uh1) = (sn, ua, uh)" using s1 by (simp add: snapshotNode_def)
    then show ?thesis using None Cons.prems(1) by (simp add: snapRel_refl)
  next
    case (Some np)
    then have "nodeName np = n" using Cons.prems(3) [of n np] by simp
    then show ?thesis using snapshotNode_spec [OF Cons.prems(1) Some s1] Some by simp
  qed
  have wf1: "snapWf sn1" using one by (simp add: snapRel_def)
  have d: "distinct names" "n \<notin> set names" using Cons.prems(2) by auto
  have nn: "nodeName np = k" if "k \<in> set names" "niNode (F k) = Some np" for k np using Cons.prems(3) [of k np] that by simp
  note ih = Cons.IH [OF wf1 d(1) nn, of ua1 uh1]
  have "snapRel (sn, ua, uh) (fold snapshotNode (map F names) (sn1, ua1, uh1))"
    using snapRel_trans [of "(sn, ua, uh)" "(sn1, ua1, uh1)"] one ih by blast
  then show ?case using ih one d(2) s1 by auto
qed

section \<open>The loop over the list\<close>

lemma listInv_head:
  assumes "listInv l ns"
  shows "nlHead l = headOf l ns"
proof (cases ns)
  case Nil
  then show ?thesis using assms by (simp add: listInv_def headOf_def addrs_def)
next
  case (Cons n ms)
  then have "mget (nlNodes l) n \<noteq> None" using listInvD(3) [OF assms] by (metis list.set_intros(1) mkeys_iff)
  then show ?thesis using assms Cons by (auto simp: listInv_def headOf_def addrs_def)
qed

lemma listInv_next:
  assumes inv: "listInv l (pre @ n # rest)"
  obtains a item where "mget (nlNodes l) n = Some a" and "nlItems l a = Some item" and "nlInfo l n = Some (liInfo item)"
    and "liNext item = headOf l rest"
proof -
  have keys: "mget (nlNodes l) m \<noteq> None" if "m \<in> set (pre @ n # rest)" for m
    using inv that unfolding listInv_def by (metis mkeys_iff)
  then obtain a where a: "mget (nlNodes l) n = Some a" by fastforce
  have "seg (nlItems l) None (nlHead l) (addrs l pre @ a # addrs l rest) None"
    using inv a by (simp add: listInv_def addrs_def)
  then obtain p h where "seg (nlItems l) p h (a # addrs l rest) None" by (auto simp: seg_append)
  then obtain item where i: "nlItems l a = Some item" "seg (nlItems l) (Some a) (liNext item) (addrs l rest) None"
    by (auto split: option.splits)
  have "liNext item = headOf l rest"
  proof (cases rest)
    case Nil
    then show ?thesis using i(2) by (simp add: headOf_def addrs_def)
  next
    case (Cons m ms)
    then show ?thesis using i(2) keys [of m] by (auto simp: headOf_def addrs_def)
  qed
  then show thesis using that a i(1) by (simp add: nlInfo_def)
qed

lemmas listInv_first = listInv_next [of _ "[]", simplified]

lemma headOf_setInfo [simp]: "headOf (nlSetInfo n ni l) ns = headOf l ns"
  by (simp add: headOf_def nlSetInfo_def updItem_def split: list.split option.split)

lemma resetTransient_fields [simp]:
  "niNode (resetTransient f ni) = niNode ni" "niGeneration (resetTransient f ni) = niGeneration ni"
  "niPods (resetTransient f ni) = niPods ni" "nodeInfoInv f' (resetTransient f ni) = nodeInfoInv f' ni"
  by (simp_all add: resetTransient_def nodeInfoInv_def)

lemma snapshotLoop_spec:
  assumes "listInv l (pre @ rest)"
  shows "\<exists>l'. snapshotLoop f g (headOf l rest) l s =
      Some (l', fold snapshotNode (map (\<lambda>n. resetTransient f (the (nlInfo l n))) (visited g l rest)) s) \<and>
    listInv l' (pre @ rest) \<and> nlNodes l' = nlNodes l \<and> nlHead l' = nlHead l \<and>
    nlInfo l' = (\<lambda>n. if n \<in> set (visited g l rest) then map_option (resetTransient f) (nlInfo l n) else nlInfo l n)"
  using assms
proof (induction rest arbitrary: l s pre)
  case Nil
  then show ?case by (simp add: headOf_def snapshotLoop.simps visited_def)
next
  case (Cons n rest)
  obtain a item where i: "mget (nlNodes l) n = Some a" "nlItems l a = Some item" "nlInfo l n = Some (liInfo item)"
      "liNext item = headOf l rest"
    using listInv_next [OF Cons.prems] .
  have h: "headOf l (n # rest) = Some a" using i(1) by (simp add: headOf_def)
  show ?case
  proof (cases "niGeneration (liInfo item) \<le> g")
    case True
    then have "visited g l (n # rest) = []" using i(3) by (simp add: visited_def)
    then show ?thesis using True h i(2) Cons.prems
      by (simp add: snapshotLoop.simps [of f g "Some a"])
  next
    case False
    let ?ni = "resetTransient f (liInfo item)"
    let ?l1 = "nlSetInfo n ?ni l"
    have l1: "?l1 = updItem a (liInfo_update (\<lambda>_. ?ni)) l" using i(1) by (simp add: nlSetInfo_def)
    note s1 = setInfo_spec [OF Cons.prems, of n ?ni]
    have inv1: "listInv ?l1 ((pre @ [n]) @ rest)" and info1: "nlInfo ?l1 = (nlInfo l)(n \<mapsto> ?ni)" using s1 by simp_all
    have n: "n \<notin> set rest" using Cons.prems by (simp add: listInv_def)
    let ?P = "\<lambda>l n. g < niGeneration (the (nlInfo l n))"
    have tw: "takeWhile (?P ?l1) rest = takeWhile (?P l) rest" by (rule takeWhile_cong) (use info1 n in auto)
    have sub: "n \<notin> set (takeWhile (?P l) rest)" using n set_takeWhileD by metis
    from Cons.IH [OF inv1, of "snapshotNode ?ni s"] obtain l' where l':
      "snapshotLoop f g (headOf l rest) ?l1 (snapshotNode ?ni s) =
         Some (l', fold snapshotNode (map (\<lambda>n. resetTransient f (the (nlInfo ?l1 n))) (takeWhile (?P l) rest)) (snapshotNode ?ni s))"
      "listInv l' (pre @ n # rest)" "nlNodes l' = nlNodes ?l1" "nlHead l' = nlHead ?l1"
      "nlInfo l' = (\<lambda>m. if m \<in> set (takeWhile (?P l) rest) then map_option (resetTransient f) (nlInfo ?l1 m) else nlInfo ?l1 m)"
      using tw by (auto simp: visited_def)
    have V: "visited g l (n # rest) = n # takeWhile (?P l) rest" using False i(3) by (simp add: visited_def)
    have eqs: "map (\<lambda>n. resetTransient f (the (nlInfo ?l1 n))) (takeWhile (?P l) rest) =
        map (\<lambda>n. resetTransient f (the (nlInfo l n))) (takeWhile (?P l) rest)"
      using sub info1 by (intro map_cong) auto
    have step: "snapshotLoop f g (headOf l (n # rest)) l s = snapshotLoop f g (headOf l rest) ?l1 (snapshotNode ?ni s)"
      using False h i(2,4) l1 by (simp add: snapshotLoop.simps [of f g "Some a"] Let_def)
    have fr: "nlNodes ?l1 = nlNodes l" "nlHead ?l1 = nlHead l" using l1 by (simp_all add: updItem_def)
    have "nlInfo l' = (\<lambda>m. if m \<in> set (visited g l (n # rest)) then map_option (resetTransient f) (nlInfo l m) else nlInfo l m)"
      unfolding l'(5) V using info1 sub i(3) by (auto simp: fun_eq_iff)
    then show ?thesis unfolding step l'(1) eqs using l'(2-4) fr V i(3) by simp
  qed
qed

text \<open>The list is ordered by generation, so the names in front are all that changed.\<close>

lemma takeWhile_sorted:
  "sorted_wrt (\<lambda>m n. G n < (G m :: int)) ns \<Longrightarrow> n \<in> set ns \<Longrightarrow> n \<in> set (takeWhile (\<lambda>n. g < G n) ns) \<longleftrightarrow> g < G n"
  by (induction ns) (auto dest: set_takeWhileD)

lemma visited_iff:
  assumes "gensOk (nlInfo l) g' ns" and "n \<in> set ns"
  shows "n \<in> set (visited g l ns) \<longleftrightarrow> g < niGeneration (the (nlInfo l n))"
  using assms takeWhile_sorted [of "\<lambda>n. niGeneration (the (nlInfo l n))" ns n g] by (simp add: gensOk_def visited_def)

section \<open>Names that are gone\<close>

lemma removeDeletedLoop_cached:
  "mget nodes n \<noteq> None \<Longrightarrow> mget (removeDeletedLoop nodes names k m) n = mget m n"
  by (induction nodes names k m rule: removeDeletedLoop.induct) auto

lemma removeDeletedLoop_sub:
  "mget (removeDeletedLoop nodes names k m) n = Some a \<Longrightarrow> mget m n = Some a"
  by (induction nodes names k m rule: removeDeletedLoop.induct) (auto split: if_splits)

lemma removeDeletedLoop_all:
  "int (length (filter (\<lambda>name. mget nodes name = None) names)) \<le> k \<Longrightarrow>
   mget (removeDeletedLoop nodes names k m) n = (if n \<in> set names \<and> mget nodes n = None then None else mget m n)"
proof (induction names arbitrary: k m)
  case (Cons name names)
  show ?case
  proof (cases "k \<le> 0")
    case True
    then have "length (filter (\<lambda>name. mget nodes name = None) (name # names)) = 0" using Cons.prems by linarith
    then have "filter (\<lambda>name. mget nodes name = None) (name # names) = []" unfolding length_0_conv .
    then show ?thesis using True by (auto simp: filter_empty_conv split: if_splits)
  next
    case False
    then show ?thesis using Cons by auto
  qed
qed simp

lemma removeDeletedLoop_wf: "gomap_wf m \<Longrightarrow> gomap_wf (removeDeletedLoop nodes names k m)"
  by (induction nodes names k m rule: removeDeletedLoop.induct) auto

lemma removeDeleted_exact:
  assumes wf: "gomap_wf m" "gomap_wf nodes" and sub: "\<And>n. mget nodes n \<noteq> None \<Longrightarrow> mget m n \<noteq> None"
  defines "m' \<equiv> if length nodes < length m
    then removeDeletedLoop nodes (map fst m) (int (length m) - int (length nodes)) m else m"
  shows "mget m' n = (if mget nodes n = None then None else mget m n)"
proof -
  have keys: "fst ` set m = mkeys m" "fst ` set nodes = mkeys nodes" by (auto simp: mkeys_def)
  have sub': "fst ` set nodes \<subseteq> fst ` set m" using sub keys by (metis mkeys_iff subsetI)
  have d: "distinct (map fst m)" "distinct (map fst nodes)" using wf by (simp_all add: gomap_wf_def)
  have card: "card (fst ` set m) = length m" "card (fst ` set nodes) = length nodes"
    using distinct_card [OF d(1)] distinct_card [OF d(2)] by simp_all
  have stale: "mget nodes x = None \<longleftrightarrow> x \<notin> fst ` set nodes" for x by (simp add: map_of_eq_None_iff)
  have "length (filter (\<lambda>name. mget nodes name = None) (map fst m)) = card (fst ` set m - fst ` set nodes)"
    using distinct_card [OF distinct_filter [OF d(1)], of "\<lambda>name. mget nodes name = None"] stale
    by (simp add: set_diff_eq)
  also have "\<dots> = length m - length nodes" using card_Diff_subset [OF _ sub'] card by simp
  finally have len: "length (filter (\<lambda>name. mget nodes name = None) (map fst m)) = length m - length nodes" .
  have mem: "n \<in> set (map fst m) \<longleftrightarrow> mget m n \<noteq> None" by (simp add: map_of_eq_None_iff)
  show ?thesis
  proof (cases "length nodes < length m")
    case True
    have "int (length (filter (\<lambda>name. mget nodes name = None) (map fst m))) \<le> int (length m) - int (length nodes)"
      using len True by simp
    from removeDeletedLoop_all [OF this, of m n] show ?thesis using True mem by (auto simp: m'_def)
  next
    case False
    then have "filter (\<lambda>name. mget nodes name = None) (map fst m) = []" using len by (metis diff_is_0_eq length_0_conv not_less)
    then have "mget nodes n = None \<Longrightarrow> mget m n = None" using mem by (auto simp: filter_empty_conv)
    then show ?thesis using False by (simp add: m'_def)
  qed
qed

section \<open>The lists\<close>

lemma ntPass_returns:
  assumes "treeInv nt" and "ntZones nt \<noteq> [] \<or> k = 0"
  shows "\<exists>nt' names. ntPass k nt = Some (nt', names) \<and> treeInv nt' \<and> zoneNodes nt' = zoneNodes nt"
  using assms
proof (induction k arbitrary: nt)
  case (Suc k)
  have "ntZones nt \<noteq> []" using Suc.prems(2) by simp
  from ntNext_total [OF Suc.prems(1) this] obtain nt1 x where
    n: "ntNext nt = Some (nt1, Inr x)" "treeInv nt1" "zoneNodes nt1 = zoneNodes nt" "ntZones nt1 = ntZones nt" by blast
  from Suc.IH [OF n(2)] \<open>ntZones nt \<noteq> []\<close> n show ?case by auto
qed simp

lemma tree_pass:
  assumes "treeInv nt"
  obtains nt' names where "ntPass (nat (ntNumNodes nt)) nt = Some (nt', names)" and "treeInv nt'" and "treePairs nt' = treePairs nt"
proof -
  have "ntZones nt \<noteq> [] \<or> nat (ntNumNodes nt) = 0" using assms by (auto simp: treeInv_def treeNodes_def)
  from ntPass_returns [OF assms this] that show thesis by (auto simp: treePairs_def)
qed

lemma map_filter_ran: "set (List.map_filter f xs) \<subseteq> ran f"
  by (auto simp: List.map_filter_def ran_def)

lemma updateList_spec:
  assumes t: "treeInv (scTree c)" and wf: "snapWf sn"
  obtains t' sn' where "updateNodeInfoSnapshotList updateAll c sn = Some (c\<lparr>scTree := t'\<rparr>, sn')" and "treeInv t'"
    and "treePairs t' = treePairs (scTree c)" and "nodeInfoMap sn' = nodeInfoMap sn" and "snapView sn' = snapView sn"
    and "snGeneration sn' = snGeneration sn" and "snapWf sn'"
    and "updateAll \<or> set (nodeInfoList sn) \<subseteq> ran (mget (nodeInfoMap sn)) \<longrightarrow> snapLists sn'"
proof (cases updateAll)
  case True
  obtain t' names where p: "ntPass (nat (ntNumNodes (scTree c))) (scTree c) = Some (t', names)" "treeInv t'" "treePairs t' = treePairs (scTree c)"
    using tree_pass [OF t] .
  let ?ns = "List.map_filter (mget (nodeInfoMap sn)) names"
  let ?sn' = "sn\<lparr>nodeInfoList := ?ns, havePodsWithAffinityNodeInfoList := filter (hasAffinityAt sn) ?ns\<rparr>"
  have u: "updateNodeInfoSnapshotList updateAll c sn = Some (c\<lparr>scTree := t'\<rparr>, ?sn')"
    using True p(1) by (simp add: updateNodeInfoSnapshotList_def Let_def)
  have r: "set ?ns \<subseteq> ran (mget (nodeInfoMap sn))" by (rule map_filter_ran)
  have "snapWf ?sn'" using wf r unfolding snapWf_def by (auto simp: ran_def)
  moreover have "hasAffinityAt ?sn' = hasAffinityAt sn" "snapView ?sn' = snapView sn"
    by (rule hasAffinityAt_frame, simp) (rule snapView_frame, simp_all)
  ultimately show thesis using that [OF u] p r by (simp add: snapLists_def)
next
  case False
  let ?sn' = "sn\<lparr>havePodsWithAffinityNodeInfoList := filter (hasAffinityAt sn) (nodeInfoList sn)\<rparr>"
  have u: "updateNodeInfoSnapshotList updateAll c sn = Some (c\<lparr>scTree := scTree c\<rparr>, ?sn')"
    using False by (simp add: updateNodeInfoSnapshotList_def)
  moreover have "hasAffinityAt ?sn' = hasAffinityAt sn" "snapView ?sn' = snapView sn"
    by (rule hasAffinityAt_frame, simp) (rule snapView_frame, simp_all)
  moreover have "snapWf ?sn'" using wf by (simp add: snapWf_def)
  ultimately show thesis using that [OF u] t False by (simp add: snapLists_def)
qed

section \<open>The cache after the loop\<close>

lemma reset_inv:
  assumes L: "cacheInvL f c ns" and l': "listInv l' ns"
    and info: "nlInfo l' = (\<lambda>n. if n \<in> V then map_option (resetTransient f') (cacheInfo c n) else cacheInfo c n)"
  shows "cacheInvL f (c\<lparr>scList := l'\<rparr>) ns" and "cacheNode (c\<lparr>scList := l'\<rparr>) = cacheNode c"
proof -
  note d = cacheInvLD [OF L]
  have gen: "niGeneration (the (nlInfo l' n)) = niGeneration (the (cacheInfo c n))" if "n \<in> set ns" for n
    using listInv_info [OF d(1), of n] that by (auto simp: info)
  have "sorted_wrt (\<lambda>m n. niGeneration (the (nlInfo l' n)) < niGeneration (the (nlInfo l' m))) ns"
    using d(3) unfolding gensOk_def by (elim conjE sorted_wrt_mono_rel [rotated]) (simp add: gen)
  moreover have "niGeneration ni \<le> scGeneration c" if "nlInfo l' n = Some ni" for n ni
    using that gensOk_le [OF d(3), of n] by (auto simp: info split: if_splits)
  ultimately have g: "gensOk (nlInfo l') (scGeneration c) ns" unfolding gensOk_def by blast
  have "nodeOk f (mget (scPodStates c)) n ni" if "nlInfo l' n = Some ni" for n ni
    using that infosOkD [OF d(4), of n] by (auto simp: info nodeOk_def split: if_splits)
  then have "infosOk f (nlInfo l') (mget (scPodStates c))" by (simp add: infosOk_def)
  then show "cacheInvL f (c\<lparr>scList := l'\<rparr>) ns"
    using g l' d(2,5) statesOk_cong [of "c\<lparr>scList := l'\<rparr>" c] by (simp add: cacheInvL_def)
  show "cacheNode (c\<lparr>scList := l'\<rparr>) = cacheNode c"
    by (rule ext) (simp add: cacheNode_def info split: option.split)
qed

lemma after_loop:
  assumes L: "cacheInvL f c ns" and sync: "treeSync c" and ok: "snapOk c sn"
  obtains l' sn1 ua uh where
    "snapshotLoop f (snGeneration sn) (nlHead (scList c)) (scList c) (sn, False, False) = Some (l', sn1, ua, uh)"
    and "cacheInvL f (c\<lparr>scList := l'\<rparr>) ns" and "cacheNode (c\<lparr>scList := l'\<rparr>) = cacheNode c"
    and "snapRel (sn, False, False) (sn1, ua, uh)"
    and "\<And>n ni. nlInfo l' n = Some ni \<Longrightarrow> niNode ni \<noteq> None \<Longrightarrow> snapView sn1 n = Some (nodeInfoClone ni)"
proof -
  note d = cacheInvLD [OF L]
  let ?l = "scList c" and ?g = "snGeneration sn"
  let ?V = "visited ?g ?l ns" and ?F = "\<lambda>n. resetTransient f (the (cacheInfo c n))"
  from snapshotLoop_spec [of ?l "[]" ns f ?g "(sn, False, False)"] d(1) listInv_head [OF d(1)] obtain l' where l':
    "snapshotLoop f ?g (nlHead ?l) ?l (sn, False, False) = Some (l', fold snapshotNode (map ?F ?V) (sn, False, False))"
    "listInv l' ns" "nlInfo l' = (\<lambda>n. if n \<in> set ?V then map_option (resetTransient f) (cacheInfo c n) else cacheInfo c n)"
    by auto
  obtain sn1 ua uh where s1: "fold snapshotNode (map ?F ?V) (sn, False, False) = (sn1, ua, uh)" by (metis prod_cases3)
  have V: "set ?V \<subseteq> set ns" "distinct ?V"
    using listInvD(2) [OF d(1)] by (auto simp: visited_def distinct_takeWhile dest: set_takeWhileD)
  have names: "nodeName np = n" if vn: "n \<in> set ?V" "niNode (?F n) = Some np" for n np
  proof -
    obtain ni where "cacheInfo c n = Some ni" using V(1) vn(1) listInv_info [OF d(1), of n] by blast
    then have "cacheNode c n = Some np" using vn(2) by (simp add: cacheNode_def)
    then show ?thesis using sync by (simp add: treeSync_def)
  qed
  have wf: "snapWf sn" using ok by (simp add: snapOk_def)
  note fs = fold_snapshotNode [where F = ?F and ua = False and uh = False, OF wf V(2) names, unfolded s1 fst_conv]
  have view: "snapView sn1 n = Some (nodeInfoClone ni)" if ni: "nlInfo l' n = Some ni" "niNode ni \<noteq> None" for n ni
  proof -
    have n: "n \<in> set ns" using ni(1) listInv_info [OF l'(2), of n] by simp
    show ?thesis
    proof (cases "n \<in> set ?V")
      case True
      then show ?thesis using fs [where m = n] ni l'(3) by auto
    next
      case False
      then have "cacheInfo c n = Some ni" using ni(1) l'(3) by simp
      moreover have "niGeneration ni \<le> ?g" using visited_iff [OF d(3) n, of ?g] False calculation by simp
      ultimately have "snapView sn n = Some (nodeInfoClone ni)" using ok ni(2) by (simp add: snapOk_def)
      then show ?thesis using fs [where m = n] False by simp
    qed
  qed
  show thesis
    by (rule that [of l' sn1 ua uh]) (use l'(1) s1 reset_inv [OF L l'(2,3)] fs view in auto)
qed

lemma snapAt_fields [simp]:
  "snStore (snapAt l sn) = snStore sn" "snFresh (snapAt l sn) = snFresh sn" "nodeInfoMap (snapAt l sn) = nodeInfoMap sn"
  "nodeInfoList (snapAt l sn) = nodeInfoList sn"
  "havePodsWithAffinityNodeInfoList (snapAt l sn) = havePodsWithAffinityNodeInfoList sn"
  by (simp_all add: snapAt_def split: option.split)

lemma snapAt_views [simp]:
  "snapView (snapAt l sn) = snapView sn" "snapWf (snapAt l sn) = snapWf sn" "hasAffinityAt (snapAt l sn) = hasAffinityAt sn"
  by (rule snapView_frame, simp, simp, simp add: snapWf_def, rule hasAffinityAt_frame, simp)

lemma snapAt_gen:
  assumes L: "cacheInvL f c ns" and le: "snGeneration sn \<le> scGeneration c"
  shows "snGeneration (snapAt (scList c) sn) \<le> scGeneration c"
    and "cacheInfo c n = Some ni \<Longrightarrow> niGeneration ni \<le> snGeneration (snapAt (scList c) sn)"
proof -
  note d = cacheInvLD [OF L]
  show "snGeneration (snapAt (scList c) sn) \<le> scGeneration c"
  proof (cases ns)
    case Nil
    then show ?thesis using listInv_head [OF d(1)] le by (simp add: snapAt_def headOf_def)
  next
    case (Cons m ms)
    obtain a item where i: "mget (nlNodes (scList c)) m = Some a" "nlItems (scList c) a = Some item" "cacheInfo c m = Some (liInfo item)"
      using listInv_first [OF d(1) [unfolded Cons]] .
    then show ?thesis using listInv_head [OF d(1)] Cons gensOk_le [OF d(3) i(3)] by (simp add: snapAt_def headOf_def)
  qed
  assume ni: "cacheInfo c n = Some ni"
  then have n: "n \<in> set ns" using listInv_info [OF d(1), of n] by simp
  then obtain m ms where ns: "ns = m # ms" by (cases ns) auto
  obtain a item where i: "mget (nlNodes (scList c)) m = Some a" "nlItems (scList c) a = Some item" "cacheInfo c m = Some (liInfo item)"
    using listInv_first [OF d(1) [unfolded ns]] .
  have "niGeneration ni \<le> niGeneration (liInfo item)"
    using d(3) n ns i(3) ni by (auto simp: gensOk_def)
  then show "niGeneration ni \<le> snGeneration (snapAt (scList c) sn)"
    using listInv_head [OF d(1)] ns i by (simp add: snapAt_def headOf_def)
qed

lemma removeDeleted_spec:
  fixes c :: schedulerCache
  assumes wf: "snapWf sn"
  defines "sn' \<equiv> removeDeletedNodesFromSnapshot c sn"
  shows "snapWf sn'" and "mget (nlNodes (scList c)) n \<noteq> None \<Longrightarrow> snapView sn' n = snapView sn n"
    and "snapView sn' n = Some ni \<Longrightarrow> snapView sn n = Some ni"
    and "snGeneration sn' = snGeneration sn" and "nodeInfoList sn' = nodeInfoList sn"
proof -
  let ?m' = "removeDeletedLoop (nlNodes (scList c)) (map fst (nodeInfoMap sn)) (int (length (nodeInfoMap sn)) - int (length (nlNodes (scList c)))) (nodeInfoMap sn)"
  have sn': "sn' = sn\<lparr>nodeInfoMap := ?m'\<rparr>" by (simp add: sn'_def removeDeletedNodesFromSnapshot_def)
  have sub: "mget (nodeInfoMap sn) k = Some a" if "mget ?m' k = Some a" for k a using removeDeletedLoop_sub that .
  show "snapWf sn'" using wf removeDeletedLoop_wf unfolding snapWf_def sn' by simp (meson sub)
  show "snapView sn' n = snapView sn n" if "mget (nlNodes (scList c)) n \<noteq> None"
    using removeDeletedLoop_cached [OF that] by (simp add: snapView_def sn' split: option.split)
  show "snapView sn' n = Some ni \<Longrightarrow> snapView sn n = Some ni"
    using sub [of n] by (auto simp: snapView_def sn' split: option.splits)
  show "snGeneration sn' = snGeneration sn" "nodeInfoList sn' = nodeInfoList sn" by (simp_all add: sn')
qed

text \<open>The lists are made again when the flags ask for it, and are right when they do not.\<close>

lemma lists_step:
  assumes t: "treeInv (scTree c)" and rel: "snapRel (sn, False, False) (sn1, ua, uh)" and ok: "snapLists sn" "snapWf sn"
    and wf3: "snapWf sn3" and sn3: "nodeInfoList sn3 = nodeInfoList sn1"
    and same: "\<not> all \<Longrightarrow> \<not> ua \<and> sn3 = snapAt l sn1"
  obtains t' sn4 where "(if all \<or> uh then updateNodeInfoSnapshotList all c sn3 else Some (c, sn3)) = Some (c\<lparr>scTree := t'\<rparr>, sn4)"
    and "treeInv t'" and "treePairs t' = treePairs (scTree c)" and "nodeInfoMap sn4 = nodeInfoMap sn3" and "snapView sn4 = snapView sn3"
    and "snGeneration sn4 = snGeneration sn3" and "snapWf sn4" and "snapLists sn4"
proof -
  have list: "nodeInfoList sn3 = nodeInfoList sn" using rel sn3 by (simp add: snapRel_def)
  have ran: "set (nodeInfoList sn3) \<subseteq> ran (mget (nodeInfoMap sn3))" if "\<not> all"
    using same [OF that] rel ok(1) list by (auto simp: snapRel_def snapLists_def)
  show thesis
  proof (cases "all \<or> uh")
    case True
    from updateList_spec [OF t wf3, of all] obtain t' sn4 where
      u: "updateNodeInfoSnapshotList all c sn3 = Some (c\<lparr>scTree := t'\<rparr>, sn4)" "treeInv t'" "treePairs t' = treePairs (scTree c)"
        "nodeInfoMap sn4 = nodeInfoMap sn3" "snapView sn4 = snapView sn3" "snGeneration sn4 = snGeneration sn3" "snapWf sn4"
        "all \<or> set (nodeInfoList sn3) \<subseteq> ran (mget (nodeInfoMap sn3)) \<longrightarrow> snapLists sn4" .
    show thesis by (rule that [of t' sn4]) (use True u ran in auto)
  next
    case False
    have eq: "sn3 = snapAt l sn1" using same False by simp
    have "hasAffinityAt sn1 a = hasAffinityAt sn a" if "a \<in> set (nodeInfoList sn)" for a
      using rel False ok(2) that by (auto simp: snapRel_def snapWf_def)
    then have "filter (hasAffinityAt sn1) (nodeInfoList sn) = filter (hasAffinityAt sn) (nodeInfoList sn)"
      by (intro filter_cong) auto
    then have "snapLists sn3" using ran False rel ok(1) list by (simp add: snapLists_def eq snapRel_def)
    then show thesis by (intro that [of "scTree c" sn3]) (use False t wf3 in simp_all)
  qed
qed

lemma UpdateSnapshot_unfold:
  assumes "snapshotLoop f (snGeneration sn) (nlHead (scList c)) (scList c) (sn, False, False) = Some (l', sn1, ua, uh)"
  defines "c1 \<equiv> c\<lparr>scList := l'\<rparr>" and "deleted \<equiv> length (nlNodes l') < length (nodeInfoMap sn1)"
  defines "sn3 \<equiv> if deleted then removeDeletedNodesFromSnapshot c1 (snapAt l' sn1) else snapAt l' sn1"
  shows "UpdateSnapshot f c sn =
    (case (if (ua \<or> deleted) \<or> uh then updateNodeInfoSnapshotList (ua \<or> deleted) c1 sn3 else Some (c1, sn3)) of
       None \<Rightarrow> None
     | Some (c, sn) \<Rightarrow> if int (length (nodeInfoList sn)) \<noteq> ntNumNodes (scTree c)
         then map_option (\<lambda>(c, sn). (c, sn, True)) (updateNodeInfoSnapshotList True c sn) else Some (c, sn, False))"
  unfolding UpdateSnapshot_def assms(1) sn3_def c1_def deleted_def snapAt_fields(3) [of l' sn1, symmetric] Let_def option.case prod.case
  unfolding snapAt_def by (rule refl)

lemma lists_final:
  assumes t: "treeInv (scTree c)" and rel: "snapRel (sn, False, False) (sn1, ua, uh)" and ok: "snapLists sn" "snapWf sn"
    and wf3: "snapWf sn3" and sn3: "nodeInfoList sn3 = nodeInfoList sn1"
    and same: "\<not> all \<Longrightarrow> \<not> ua \<and> sn3 = snapAt l sn1"
  obtains t' sn' err where "(case (if all \<or> uh then updateNodeInfoSnapshotList all c sn3 else Some (c, sn3)) of
       None \<Rightarrow> None
     | Some (c, sn) \<Rightarrow> if int (length (nodeInfoList sn)) \<noteq> ntNumNodes (scTree c)
         then map_option (\<lambda>(c, sn). (c, sn, True)) (updateNodeInfoSnapshotList True c sn) else Some (c, sn, False))
      = Some (c\<lparr>scTree := t'\<rparr>, sn', err)"
    and "treeInv t'" and "treePairs t' = treePairs (scTree c)" and "snapView sn' = snapView sn3"
    and "snGeneration sn' = snGeneration sn3" and "snapWf sn'" and "snapLists sn'"
    and "\<not> err \<longrightarrow> int (length (nodeInfoList sn')) = ntNumNodes t'"
proof -
  from lists_step [OF t rel ok wf3 sn3 same, of all] obtain t' sn4 where
    u: "(if all \<or> uh then updateNodeInfoSnapshotList all c sn3 else Some (c, sn3)) = Some (c\<lparr>scTree := t'\<rparr>, sn4)"
      "treeInv t'" "treePairs t' = treePairs (scTree c)" "snapView sn4 = snapView sn3"
      "snGeneration sn4 = snGeneration sn3" "snapWf sn4" "snapLists sn4" by blast
  show thesis
  proof (cases "int (length (nodeInfoList sn4)) = ntNumNodes t'")
    case True
    show thesis by (rule that [of t' sn4 False]) (use u True in simp_all)
  next
    case False
    have t2: "treeInv (scTree (c\<lparr>scTree := t'\<rparr>))" using u(2) by simp
    from updateList_spec [OF t2 u(6), of True] obtain t'' sn5 where
      v: "updateNodeInfoSnapshotList True (c\<lparr>scTree := t'\<rparr>) sn4 = Some (c\<lparr>scTree := t'\<rparr>\<lparr>scTree := t''\<rparr>, sn5)" "treeInv t''"
        "treePairs t'' = treePairs (scTree (c\<lparr>scTree := t'\<rparr>))" "snapView sn5 = snapView sn4" "snGeneration sn5 = snGeneration sn4"
        "snapWf sn5" "True \<or> set (nodeInfoList sn4) \<subseteq> ran (mget (nodeInfoMap sn4)) \<longrightarrow> snapLists sn5" .
    show thesis by (rule that [of t'' sn5 True]) (use u v False in simp_all)
  qed
qed

lemma snapView_None: "snapWf sn \<Longrightarrow> snapView sn n = None \<longleftrightarrow> mget (nodeInfoMap sn) n = None"
  by (auto simp: snapView_def snapWf_def split: option.splits)

text \<open>When every cached node has been copied, the names the removal leaves are the cached ones.\<close>

lemma names_gone:
  assumes L: "cacheInvL f c ns" and wf: "snapWf sn" and all: "\<And>n. cacheInfo c n \<noteq> None \<Longrightarrow> snapView sn n \<noteq> None"
    and n: "cacheInfo c n = None"
  shows "snapView (if length (nlNodes (scList c)) < length (nodeInfoMap sn) then removeDeletedNodesFromSnapshot c sn else sn) n = None"
proof -
  let ?nodes = "nlNodes (scList c)" and ?m = "nodeInfoMap sn"
  note d = listInvD [OF cacheInvLD(1) [OF L]]
  have sub: "mget ?m k \<noteq> None" if "mget ?nodes k \<noteq> None" for k
  proof -
    have "k \<in> set ns" using that d(3) by (metis mkeys_iff)
    then have "cacheInfo c k \<noteq> None" using listInv_info [OF cacheInvLD(1) [OF L], of k] by simp
    then show ?thesis using all [of k] snapView_None [OF wf, of k] by simp
  qed
  have "n \<notin> set ns" using n listInv_info [OF cacheInvLD(1) [OF L], of n] by simp
  then have "mget ?nodes n = None" by (rule absent_node [OF cacheInvLD(1) [OF L]])
  then have m': "mget (if length ?nodes < length ?m then removeDeletedLoop ?nodes (map fst ?m) (int (length ?m) - int (length ?nodes)) ?m else ?m) n = None"
    using removeDeleted_exact [of ?m ?nodes n, OF _ d(1) sub] wf by (simp add: snapWf_def)
  then show ?thesis by (simp add: snapView_def removeDeletedNodesFromSnapshot_def split: if_splits)
qed

lemma UpdateSnapshot_spec:
  assumes L: "cacheInvL f c ns" and sync: "treeSync c" and ok: "snapOk c sn"
  obtains c' sn' err where "UpdateSnapshot f c sn = Some (c', sn', err)" and "cacheInv f c'" and "treeSync c'" and "snapOk c' sn'"
    and "cacheNode c' = cacheNode c" and "\<forall>n. cacheInfo c' n = None \<longleftrightarrow> cacheInfo c n = None"
    and "\<forall>n ni. cacheInfo c' n = Some ni \<longrightarrow> niNode ni \<noteq> None \<longrightarrow> snapView sn' n = Some (nodeInfoClone ni)"
    and "(\<forall>n. cacheInfo c n \<noteq> None \<longrightarrow> cacheNode c n \<noteq> None) \<longrightarrow> (\<forall>n. cacheInfo c n = None \<longrightarrow> snapView sn' n = None)"
    and "\<not> err \<longrightarrow> int (length (nodeInfoList sn')) = ntNumNodes (scTree c')"
proof -
  from after_loop [OF L sync ok] obtain l' sn1 ua uh where
    a: "snapshotLoop f (snGeneration sn) (nlHead (scList c)) (scList c) (sn, False, False) = Some (l', sn1, ua, uh)"
      "cacheInvL f (c\<lparr>scList := l'\<rparr>) ns" "cacheNode (c\<lparr>scList := l'\<rparr>) = cacheNode c" "snapRel (sn, False, False) (sn1, ua, uh)"
      "\<And>n ni. nlInfo l' n = Some ni \<Longrightarrow> niNode ni \<noteq> None \<Longrightarrow> snapView sn1 n = Some (nodeInfoClone ni)" by blast
  define c1 where "c1 = c\<lparr>scList := l'\<rparr>"
  define del where "del \<longleftrightarrow> length (nlNodes l') < length (nodeInfoMap sn1)"
  define sn3 where "sn3 = (if del then removeDeletedNodesFromSnapshot c1 (snapAt l' sn1) else snapAt l' sn1)"
  have L1: "cacheInvL f c1 ns" and l1: "scList c1 = l'" using a(2) by (simp_all add: c1_def)
  note d1 = cacheInvLD [OF L1]
  have wf: "snapWf (snapAt l' sn1)" and g1: "snGeneration sn1 \<le> scGeneration c1" and ok': "snapLists sn" "snapWf sn"
    using a(4) ok by (simp_all add: snapRel_def snapOk_def c1_def)
  have cached: "mget (nlNodes l') n \<noteq> None" if "nlInfo l' n \<noteq> None" for n using that by (auto simp: nlInfo_def split: option.splits)
  note rd = removeDeleted_spec [OF wf, of c1, unfolded l1]
  have sn3: "snapWf sn3" "nodeInfoList sn3 = nodeInfoList sn1" "snGeneration sn3 = snGeneration (snapAt l' sn1)"
    using rd wf by (simp_all add: sn3_def)
  have v3: "snapView sn3 n = snapView sn1 n" if "nlInfo l' n \<noteq> None" for n
    using rd(2) [OF cached [OF that]] by (simp add: sn3_def)
  have same: "\<not> (ua \<or> del) \<Longrightarrow> \<not> ua \<and> sn3 = snapAt l' sn1" by (simp add: sn3_def)
  have U: "UpdateSnapshot f c sn =
    (case (if (ua \<or> del) \<or> uh then updateNodeInfoSnapshotList (ua \<or> del) c1 sn3 else Some (c1, sn3)) of
       None \<Rightarrow> None
     | Some (c, sn) \<Rightarrow> if int (length (nodeInfoList sn)) \<noteq> ntNumNodes (scTree c)
         then map_option (\<lambda>(c, sn). (c, sn, True)) (updateNodeInfoSnapshotList True c sn) else Some (c, sn, False))"
    unfolding sn3_def del_def c1_def by (rule UpdateSnapshot_unfold [OF a(1)])
  obtain t' sn' err where f: "UpdateSnapshot f c sn = Some (c1\<lparr>scTree := t'\<rparr>, sn', err)" "treeInv t'"
      "treePairs t' = treePairs (scTree c1)" "snapView sn' = snapView sn3" "snGeneration sn' = snGeneration sn3" "snapWf sn'" "snapLists sn'"
      "\<not> err \<longrightarrow> int (length (nodeInfoList sn')) = ntNumNodes t'"
    using lists_final [where all = "ua \<or> del", OF d1(2) a(4) ok' sn3(1,2) same, folded U] .
  let ?c' = "c1\<lparr>scTree := t'\<rparr>"
  have nodes: "cacheNode ?c' = cacheNode c" using a(3) by (simp add: cacheNode_def c1_def fun_eq_iff)
  have view: "snapView sn' n = Some (nodeInfoClone ni)" if "nlInfo l' n = Some ni" "niNode ni \<noteq> None" for n ni
    using a(5) [OF that] v3 [of n] f(4) that by simp
  have dom: "cacheInfo c1 n = None \<longleftrightarrow> cacheInfo c n = None" for n
    using listInv_info [OF d1(1), of n] listInv_info [OF cacheInvLD(1) [OF L], of n] by auto
  have gone: "snapView sn' n = None" if all: "\<forall>n. cacheInfo c n \<noteq> None \<longrightarrow> cacheNode c n \<noteq> None" and n: "cacheInfo c n = None" for n
  proof -
    have "snapView (snapAt l' sn1) k \<noteq> None" if "cacheInfo c1 k \<noteq> None" for k
      using a(5) [of k] all dom [of k] that nodes by (auto simp: cacheNode_def l1 fun_eq_iff split: option.splits)
    from names_gone [OF L1 wf this] n dom [of n] show ?thesis by (simp add: f(4) sn3_def del_def l1)
  qed
  have inv: "cacheInv f ?c'" using L1 f(2) statesOk_cong [of ?c' c1] by (auto simp: cacheInv_def cacheInvL_def)
  have "treeSync ?c'" using sync f(3) nodes by (simp add: treeSync_def c1_def)
  moreover have "snapOk ?c' sn'" using f(5-7) sn3(3) snapAt_gen(1) [OF L1 g1] view by (simp add: snapOk_def l1)
  ultimately show thesis using that [OF f(1) inv] nodes view dom gone f(8) l1 by simp
qed

section \<open>Properties\<close>

lemma snapOk_gen:
  assumes "genStep c c'" and "snapOk c sn"
  shows "snapOk c' sn"
proof -
  have "cacheInfo c n = Some ni" if "cacheInfo c' n = Some ni" "niGeneration ni \<le> snGeneration sn" for n ni
    using assms that by (fastforce simp: genStep_def snapOk_def)
  moreover have "snGeneration sn \<le> scGeneration c'" using assms by (simp add: genStep_def snapOk_def)
  ultimately show ?thesis using assms(2) unfolding snapOk_def by blast
qed

lemma snapOk_new: "snapOk (newSchedulerCache ttl) NewEmptySnapshot"
  by (simp add: snapOk_def snapWf_def snapLists_def NewEmptySnapshot_def newSchedulerCache_def nlInfo_def newNodeList_def gomap_wf_def)

lemma schedStep_inv:
  assumes "schedStep f s s'" and "cacheInv f (fst s) \<and> treeSync (fst s) \<and> snapOk (fst s) (snd s)"
  shows "cacheInv f (fst s') \<and> treeSync (fst s') \<and> snapOk (fst s') (snd s')"
  using assms
proof cases
  case (event c c' sn)
  have i: "cacheInv f c" "treeSync c" "snapOk c sn" using assms(2) event(1) by simp_all
  show ?thesis using cacheStep_inv [OF event(3) i(1,2)] snapOk_gen [OF cacheStep_gen [OF event(3) i(1)] i(3)] event(2) by simp
next
  case (cycle c sn c' sn' err)
  obtain ns where L: "cacheInvL f c ns" using assms(2) cycle(1) by (auto simp: cacheInv_def)
  have ok: "treeSync c" "snapOk c sn" using assms(2) cycle(1) by simp_all
  obtain c2 sn2 e2 where u: "UpdateSnapshot f c sn = Some (c2, sn2, e2)" "cacheInv f c2" "treeSync c2" "snapOk c2 sn2"
    by (rule UpdateSnapshot_spec [OF L ok])
  then have "c2 = c'" "sn2 = sn'" using cycle(3) by simp_all
  then show ?thesis using u(2-4) cycle(2) by simp
qed

lemma schedSteps_inv:
  assumes "(schedStep f)\<^sup>*\<^sup>* (newSchedulerCache ttl, NewEmptySnapshot) s"
  shows "cacheInv f (fst s) \<and> treeSync (fst s) \<and> snapOk (fst s) (snd s)"
  using assms
proof (induction rule: rtranclp_induct)
  case base
  show ?case using cacheInv_new snapOk_new by simp
next
  case (step s s')
  then show ?case using schedStep_inv by blast
qed


lemma oneNode_reached: "(schedStep defaultFeatures)\<^sup>*\<^sup>* (newSchedulerCache 0, NewEmptySnapshot) (oneNode, NewEmptySnapshot)"
proof -
  have "cacheAddNode defaultFeatures (zonedNode ''z'' ''n'') ''rp'' (newSchedulerCache 0) = (oneNode, None)"
    unfolding oneNode_def by (rule prod_eqI) (simp, code_simp)
  then have "cacheStep defaultFeatures (newSchedulerCache 0) oneNode"
    by (rule cacheStep.addNode) (simp add: cacheNode_def newSchedulerCache_def nlInfo_def newNodeList_def)
  then show ?thesis by (intro r_into_rtranclp schedStep.event)
qed


text \<open>C40: the snapshot is well typed: in every reached state different names lead to different node infos, no
  pointer of the map or of the lists dangles, the list of nodes has only nodes of the map, and the list of
  nodes with affinity is the sublist of those whose node info has a pod with affinity, whether it was
  made again or kept. An update without an error lists as many nodes as the tree has.\<close>

theorem snapshot_types:
  assumes "(schedStep f)\<^sup>*\<^sup>* (newSchedulerCache ttl, NewEmptySnapshot) (c, sn)"
  shows "snapWf sn \<and> set (nodeInfoList sn) \<subseteq> ran (mget (nodeInfoMap sn)) \<and>
    havePodsWithAffinityNodeInfoList sn = filter (hasAffinityAt sn) (nodeInfoList sn) \<and>
    (\<forall>a \<in> set (nodeInfoList sn). snStore sn a \<noteq> None) \<and>
    (\<exists>c' sn' err. UpdateSnapshot f c sn = Some (c', sn', err) \<and>
       (\<not> err \<longrightarrow> int (length (nodeInfoList sn')) = ntNumNodes (scTree c')))"
proof -
  have i: "cacheInv f c" "treeSync c" "snapOk c sn" using schedSteps_inv [OF assms(1)] by simp_all
  obtain ns where L: "cacheInvL f c ns" using i(1) by (rule cacheInvE)
  obtain c' sn' err where u: "UpdateSnapshot f c sn = Some (c', sn', err)"
      "\<not> err \<longrightarrow> int (length (nodeInfoList sn')) = ntNumNodes (scTree c')"
    by (rule UpdateSnapshot_spec [OF L i(2,3)])
  have wf: "snapWf sn" and lists: "snapLists sn" using i(3) by (simp_all add: snapOk_def)
  have "snStore sn a \<noteq> None" if "a \<in> set (nodeInfoList sn)" for a
    using that wf lists by (auto simp: snapLists_def snapWf_def ran_def)
  then show ?thesis using wf lists u unfolding snapLists_def by blast
qed

theorem snapshot_types_witness: "snapWf NewEmptySnapshot \<and> (\<exists>r. UpdateSnapshot defaultFeatures oneNode NewEmptySnapshot = Some r)"
  using snapshot_types [OF oneNode_reached] by blast

text \<open>Without the node objects the comparison of lengths misleads: a node that is gone stays in the map, because
  a node known by its pods only is counted as cached.\<close>

lemma gone_node_found:
  "map_option (\<lambda>(c, sn, err). (cacheNode c ''n'' = None, snapshotGet ''n'' sn = None)) goneWithPlaceholder = Some (True, False)"
  by code_simp

end
