(* ===== verification/Framework.thy ===== *)
theory Framework
  imports NodeInfo
begin

text \<open>
  The scheduling framework (\<open>pkg/scheduler/framework/v1alpha1\<close>): statuses and their merge (\<open>interface.go\<close>), the
  cycle state (\<open>cycle_state.go\<close>) and the runners of the PreFilter, Filter and Score extension points
  (\<open>framework.go\<close>). A nil \<open>*Status\<close> is \<open>None\<close>. The plugins are Go interface values: records of functions, the
  cycle state passed explicitly to the ones that may write it. Filter and Score plugins only read it, and
  the runs of the Score plugins, which the source makes in parallel on separate indexes, are made here in
  index order; which of several errors is reported is the only thing that depends on the order.
  Metrics and logging are left out. \<open>%q\<close> puts a name between double quotes, as Go does for the names the
  API admits; the numbers in the message about an invalid score are left out.
\<close>

section \<open>Statuses (interface.go)\<close>

datatype Code = Success | Error | Unschedulable | UnschedulableAndUnresolvable | Wait | Skip

record Status =
  stCode :: Code
  stReasons :: "string list"

definition statusCode :: "Status option \<Rightarrow> Code" where
  "statusCode s = (case s of None \<Rightarrow> Success | Some s \<Rightarrow> stCode s)"

fun joinStrings :: "string \<Rightarrow> string list \<Rightarrow> string" where
  "joinStrings sep [] = []"
| "joinStrings sep [s] = s"
| "joinStrings sep (s # r # rs) = s @ sep @ joinStrings sep (r # rs)"

definition statusMessage :: "Status option \<Rightarrow> string" where
  "statusMessage s = (case s of None \<Rightarrow> [] | Some s \<Rightarrow> joinStrings '', '' (stReasons s))"

definition AppendReason :: "string \<Rightarrow> Status \<Rightarrow> Status" where
  "AppendReason reason s = s\<lparr>stReasons := stReasons s @ [reason]\<rparr>"

definition IsSuccess :: "Status option \<Rightarrow> bool" where
  "IsSuccess s \<longleftrightarrow> statusCode s = Success"

definition IsUnschedulable :: "Status option \<Rightarrow> bool" where
  "IsUnschedulable s \<longleftrightarrow> statusCode s = Unschedulable \<or> statusCode s = UnschedulableAndUnresolvable"

definition AsError :: "Status option \<Rightarrow> string option" where
  "AsError s = (if IsSuccess s then None else Some (statusMessage s))"

definition NewStatus :: "Code \<Rightarrow> string list \<Rightarrow> Status option" where
  "NewStatus code reasons = Some \<lparr>stCode = code, stReasons = reasons\<rparr>"

text \<open>\<open>PluginToStatus\<close> holds non-nil statuses only: the framework stores a status there when it is not a
  success.\<close>

type_synonym PluginToStatus = "(string, Status) gomap"

definition mergeStep :: "Status \<Rightarrow> Status \<times> bool \<times> bool \<times> bool \<Rightarrow> Status \<times> bool \<times> bool \<times> bool" where
  "mergeStep s = (\<lambda>(finalStatus, hasError, hasUnresolvable, hasUnschedulable).
     (fold AppendReason (stReasons s) (finalStatus\<lparr>stCode := stCode s\<rparr>),
      hasError \<or> stCode s = Error,
      hasUnresolvable \<or> stCode s = UnschedulableAndUnresolvable,
      hasUnschedulable \<or> stCode s = Unschedulable))"

definition Merge :: "PluginToStatus \<Rightarrow> Status option" where
  "Merge p =
     (if p = [] then None
      else (let (finalStatus, hasError, hasUnresolvable, hasUnschedulable) =
                  fold (\<lambda>(_, s). mergeStep s) p (\<lparr>stCode = Success, stReasons = []\<rparr>, False, False, False)
            in Some (if hasError then finalStatus\<lparr>stCode := Error\<rparr>
                     else if hasUnresolvable then finalStatus\<lparr>stCode := UnschedulableAndUnresolvable\<rparr>
                     else if hasUnschedulable then finalStatus\<lparr>stCode := Unschedulable\<rparr>
                     else finalStatus)))"

section \<open>The cycle state (cycle_state.go)\<close>

text \<open>The data of a plugin is immutable or copied by its \<open>Clone\<close> method, so that a clone of the state is a copy
  of the map.\<close>

type_synonym 'd CycleState = "(string, 'd) gomap"

definition csWrite :: "string \<Rightarrow> 'd \<Rightarrow> 'd CycleState \<Rightarrow> 'd CycleState" where
  "csWrite key val c = mput key val c"

definition csRead :: "string \<Rightarrow> 'd CycleState \<Rightarrow> 'd option" where
  "csRead key c = mget c key"

definition csDelete :: "string \<Rightarrow> 'd CycleState \<Rightarrow> 'd CycleState" where
  "csDelete key c = mdel key c"

definition csClone :: "'d CycleState \<Rightarrow> 'd CycleState" where
  "csClone c = fold (\<lambda>(k, v). csWrite k v) c []"

section \<open>Plugins and the framework\<close>

record 'd PreFilterExtensions =
  extAddPod :: "'d CycleState \<Rightarrow> Pod \<Rightarrow> Pod \<Rightarrow> NodeInfo \<Rightarrow> Status option \<times> 'd CycleState"
  extRemovePod :: "'d CycleState \<Rightarrow> Pod \<Rightarrow> Pod \<Rightarrow> NodeInfo \<Rightarrow> Status option \<times> 'd CycleState"

record 'd PreFilterPlugin =
  pfName :: string
  pfPreFilter :: "'d CycleState \<Rightarrow> Pod \<Rightarrow> Status option \<times> 'd CycleState"
  pfExtensions :: "'d PreFilterExtensions option"

record 'd FilterPlugin =
  fpName :: string
  fpFilter :: "'d CycleState \<Rightarrow> Pod \<Rightarrow> NodeInfo \<Rightarrow> Status option"

record NodeScore =
  nsName :: string
  nsScore :: i64

record 'd ScorePlugin =
  spName :: string
  spScore :: "'d CycleState \<Rightarrow> Pod \<Rightarrow> string \<Rightarrow> i64 \<times> Status option"
  spNormalize :: "('d CycleState \<Rightarrow> Pod \<Rightarrow> NodeScore list \<Rightarrow> Status option \<times> NodeScore list) option"

record 'd PreScorePlugin =
  psName :: string
  psPreScore :: "'d CycleState \<Rightarrow> Pod \<Rightarrow> Node list \<Rightarrow> Status option \<times> 'd CycleState"

record 'd framework =
  fwPreFilterPlugins :: "'d PreFilterPlugin list"
  fwFilterPlugins :: "'d FilterPlugin list"
  fwPreScorePlugins :: "'d PreScorePlugin list"
  fwScorePlugins :: "'d ScorePlugin list"
  fwPluginNameToWeight :: "(string, i64) gomap"
  fwRunAllFilters :: bool

definition quoted :: "string \<Rightarrow> string" where
  "quoted s = CHR 0x22 # s @ [CHR 0x22]"

fun runPreFilters ::
  "'d PreFilterPlugin list \<Rightarrow> 'd CycleState \<Rightarrow> Pod \<Rightarrow> Status option \<times> 'd CycleState" where
  "runPreFilters [] state pod = (None, state)"
| "runPreFilters (pl # pls) state pod =
     (let (status, state) = pfPreFilter pl state pod in
      if \<not> IsSuccess status then
        (if IsUnschedulable status
         then (NewStatus (statusCode status)
                 [''rejected by '' @ quoted (pfName pl) @ '' at prefilter: '' @ statusMessage status], state)
         else (NewStatus Error
                 [''error while running '' @ quoted (pfName pl) @ '' prefilter plugin for pod '' @
                  quoted (podName pod) @ '': '' @ statusMessage status], state))
      else runPreFilters pls state pod)"

definition RunPreFilterPlugins :: "'d framework \<Rightarrow> 'd CycleState \<Rightarrow> Pod \<Rightarrow> Status option \<times> 'd CycleState" where
  "RunPreFilterPlugins fw = runPreFilters (fwPreFilterPlugins fw)"

text \<open>The two loops over the PreFilter extensions differ in the method they call and in its name.\<close>

fun runExtensions ::
  "('d PreFilterExtensions \<Rightarrow> 'd CycleState \<Rightarrow> Pod \<Rightarrow> Pod \<Rightarrow> NodeInfo \<Rightarrow> Status option \<times> 'd CycleState) \<Rightarrow> string \<Rightarrow>
   'd PreFilterPlugin list \<Rightarrow> 'd CycleState \<Rightarrow> Pod \<Rightarrow> Pod \<Rightarrow> NodeInfo \<Rightarrow> Status option \<times> 'd CycleState" where
  "runExtensions ext what [] state podToSchedule p nodeInfo = (None, state)"
| "runExtensions ext what (pl # pls) state podToSchedule p nodeInfo =
     (case pfExtensions pl of
        None \<Rightarrow> runExtensions ext what pls state podToSchedule p nodeInfo
      | Some e \<Rightarrow>
          (let (status, state) = ext e state podToSchedule p nodeInfo in
           if \<not> IsSuccess status then
             (NewStatus Error
                [''error while running '' @ what @ '' for plugin '' @ quoted (pfName pl) @ '' while scheduling pod '' @
                 quoted (podName podToSchedule) @ '': '' @ statusMessage status], state)
           else runExtensions ext what pls state podToSchedule p nodeInfo))"

definition RunPreFilterExtensionAddPod ::
  "'d framework \<Rightarrow> 'd CycleState \<Rightarrow> Pod \<Rightarrow> Pod \<Rightarrow> NodeInfo \<Rightarrow> Status option \<times> 'd CycleState" where
  "RunPreFilterExtensionAddPod fw = runExtensions extAddPod ''AddPod'' (fwPreFilterPlugins fw)"

definition RunPreFilterExtensionRemovePod ::
  "'d framework \<Rightarrow> 'd CycleState \<Rightarrow> Pod \<Rightarrow> Pod \<Rightarrow> NodeInfo \<Rightarrow> Status option \<times> 'd CycleState" where
  "RunPreFilterExtensionRemovePod fw = runExtensions extRemovePod ''RemovePod'' (fwPreFilterPlugins fw)"

text \<open>\<open>firstFailedStatus\<close> is assigned but only used for the error case.\<close>

fun runFilters ::
  "bool \<Rightarrow> 'd FilterPlugin list \<Rightarrow> 'd CycleState \<Rightarrow> Pod \<Rightarrow> NodeInfo \<Rightarrow> PluginToStatus \<Rightarrow> PluginToStatus" where
  "runFilters runAll [] state pod nodeInfo statuses = statuses"
| "runFilters runAll (pl # pls) state pod nodeInfo statuses =
     (case fpFilter pl state pod nodeInfo of
        None \<Rightarrow> runFilters runAll pls state pod nodeInfo statuses
      | Some s \<Rightarrow>
          if IsSuccess (Some s) then runFilters runAll pls state pod nodeInfo statuses
          else if \<not> IsUnschedulable (Some s) then
            [(fpName pl, \<lparr>stCode = Error, stReasons =
                [''running '' @ quoted (fpName pl) @ '' filter plugin for pod '' @ quoted (podName pod) @
                 '': '' @ statusMessage (Some s)]\<rparr>)]
          else (let statuses = mput (fpName pl) s statuses in
                if \<not> runAll then statuses else runFilters runAll pls state pod nodeInfo statuses))"

definition RunFilterPlugins :: "'d framework \<Rightarrow> 'd CycleState \<Rightarrow> Pod \<Rightarrow> NodeInfo \<Rightarrow> PluginToStatus" where
  "RunFilterPlugins fw state pod nodeInfo =
     runFilters (fwRunAllFilters fw) (fwFilterPlugins fw) state pod nodeInfo []"

section \<open>Scores\<close>

fun runPreScores ::
  "'d PreScorePlugin list \<Rightarrow> 'd CycleState \<Rightarrow> Pod \<Rightarrow> Node list \<Rightarrow> Status option \<times> 'd CycleState" where
  "runPreScores [] state pod nodes = (None, state)"
| "runPreScores (pl # pls) state pod nodes =
     (let (status, state) = psPreScore pl state pod nodes in
      if \<not> IsSuccess status then
        (NewStatus Error
           [''error while running '' @ quoted (psName pl) @ '' prescore plugin for pod '' @ quoted (podName pod) @
            '': '' @ statusMessage status], state)
      else runPreScores pls state pod nodes)"

definition RunPreScorePlugins ::
  "'d framework \<Rightarrow> 'd CycleState \<Rightarrow> Pod \<Rightarrow> Node list \<Rightarrow> Status option \<times> 'd CycleState" where
  "RunPreScorePlugins fw = runPreScores (fwPreScorePlugins fw)"

definition MaxNodeScore :: i64 where "MaxNodeScore = 100"
definition MinNodeScore :: i64 where "MinNodeScore = 0"

text \<open>The list of one plugin: the score of every node, the first failure cancelling the rest.\<close>

fun scoreNodes :: "'d ScorePlugin \<Rightarrow> 'd CycleState \<Rightarrow> Pod \<Rightarrow> string list \<Rightarrow> string + NodeScore list" where
  "scoreNodes pl state pod [] = Inr []"
| "scoreNodes pl state pod (n # ns) =
     (let (s, status) = spScore pl state pod n in
      if \<not> IsSuccess status then Inl (statusMessage status)
      else (case scoreNodes pl state pod ns of
              Inl e \<Rightarrow> Inl e
            | Inr l \<Rightarrow> Inr (\<lparr>nsName = n, nsScore = s\<rparr> # l)))"

definition normalizeScores :: "'d ScorePlugin \<Rightarrow> 'd CycleState \<Rightarrow> Pod \<Rightarrow> NodeScore list \<Rightarrow> string + NodeScore list" where
  "normalizeScores pl state pod l =
     (case spNormalize pl of
        None \<Rightarrow> Inr l
      | Some ext \<Rightarrow>
          (let (status, l) = ext state pod l in
           if \<not> IsSuccess status
           then Inl (''normalize score plugin '' @ quoted (spName pl) @ '' failed with error '' @ statusMessage status)
           else Inr l))"

definition validScore :: "NodeScore \<Rightarrow> bool" where
  "validScore ns \<longleftrightarrow> \<not> (sint MaxNodeScore < sint (nsScore ns) \<or> sint (nsScore ns) < sint MinNodeScore)"

definition weighScores :: "'d framework \<Rightarrow> string \<Rightarrow> NodeScore list \<Rightarrow> string + NodeScore list" where
  "weighScores fw name l =
     (let weight = scalarGet (fwPluginNameToWeight fw) name in
      if list_all validScore l then Inr (map (\<lambda>ns. ns\<lparr>nsScore := nsScore ns * weight\<rparr>) l)
      else Inl (''score plugin '' @ quoted name @ '' returns an invalid score''))"

fun forPlugins :: "('p \<Rightarrow> 'a \<Rightarrow> string + 'b) \<Rightarrow> ('p \<times> 'a) list \<Rightarrow> string + ('p \<times> 'b) list" where
  "forPlugins run [] = Inr []"
| "forPlugins run ((pl, x) # r) =
     (case run pl x of
        Inl e \<Rightarrow> Inl e
      | Inr y \<Rightarrow> (case forPlugins run r of Inl e \<Rightarrow> Inl e | Inr l \<Rightarrow> Inr ((pl, y) # l)))"

text \<open>\<open>RunScorePlugins\<close>: the three passes, each over every plugin. The result maps the names of the plugins to
  their lists.\<close>

definition RunScorePlugins ::
  "'d framework \<Rightarrow> 'd CycleState \<Rightarrow> Pod \<Rightarrow> Node list \<Rightarrow> Status option + (string, NodeScore list) gomap" where
  "RunScorePlugins fw state pod nodes =
     (let failed = (\<lambda>what e. Inl (NewStatus Error
            [''error while '' @ what @ '' for pod '' @ quoted (podName pod) @ '': '' @ e]))
      in case forPlugins (\<lambda>pl _. scoreNodes pl state pod (map nodeName nodes)) (map (\<lambda>pl. (pl, ())) (fwScorePlugins fw)) of
           Inl e \<Rightarrow> failed ''running score plugin'' e
         | Inr scores \<Rightarrow>
             (case forPlugins (\<lambda>pl l. normalizeScores pl state pod l) scores of
                Inl e \<Rightarrow> failed ''running normalize score plugin'' e
              | Inr scores \<Rightarrow>
                  (case forPlugins (\<lambda>pl l. weighScores fw (spName pl) l) scores of
                     Inl e \<Rightarrow> failed ''applying score defaultWeights'' e
                   | Inr scores \<Rightarrow> Inr (fold (\<lambda>(pl, l). mput (spName pl) l) scores []))))"

section \<open>What a merge is specified against\<close>

definition hasCode :: "PluginToStatus \<Rightarrow> Code \<Rightarrow> bool" where
  "hasCode p c \<longleftrightarrow> (\<exists>(_, s) \<in> set p. stCode s = c)"

definition failureCodes :: "Code set" where
  "failureCodes = {Error, Unschedulable, UnschedulableAndUnresolvable}"

section \<open>Lemmas\<close>

lemmas status_defs = IsSuccess_def IsUnschedulable_def statusCode_def NewStatus_def

lemma csClone_self: "gomap_wf c \<Longrightarrow> csClone c = c"
  unfolding csClone_def csWrite_def by (rule fold_mput_self)

lemma csRead_csWrite [simp]: "csRead k (csWrite k' v c) = (if k' = k then Some v else csRead k c)"
  by (simp add: csRead_def csWrite_def)

text \<open>The code of a merge is the most severe code that occurs.\<close>

lemma hasCode_simps [simp]:
  "hasCode [] c \<longleftrightarrow> False"
  "hasCode ((k, s) # p) c \<longleftrightarrow> stCode s = c \<or> hasCode p c"
  by (auto simp: hasCode_def)

lemma snd_fold_mergeStep:
  "snd (fold (\<lambda>(_, s). mergeStep s) p (fs, e, u, n)) =
     (e \<or> hasCode p Error, u \<or> hasCode p UnschedulableAndUnresolvable, n \<or> hasCode p Unschedulable)"
  by (induction p arbitrary: fs e u n) (auto simp: mergeStep_def)

lemma Merge_code:
  assumes "p \<noteq> []" and "\<forall>(_, s) \<in> set p. stCode s \<in> failureCodes"
  shows "statusCode (Merge p) =
     (if hasCode p Error then Error
      else if hasCode p UnschedulableAndUnresolvable then UnschedulableAndUnresolvable
      else Unschedulable)"
proof -
  obtain fs e u n where F: "fold (\<lambda>(_, s). mergeStep s) p (\<lparr>stCode = Success, stReasons = []\<rparr>, False, False, False) =
      (fs, e, u, n)" by (metis prod_cases4)
  have "(e, u, n) = (hasCode p Error, hasCode p UnschedulableAndUnresolvable, hasCode p Unschedulable)"
    using snd_fold_mergeStep [of p "\<lparr>stCode = Success, stReasons = []\<rparr>" False False False] by (simp add: F)
  moreover have "hasCode p Error \<or> hasCode p UnschedulableAndUnresolvable \<or> hasCode p Unschedulable"
    using assms by (cases p) (auto simp: failureCodes_def)
  ultimately show ?thesis
    using assms(1) F by (auto simp: Merge_def statusCode_def)
qed

text \<open>The statuses \<open>RunFilterPlugins\<close> returns: only failures, none exactly when every plugin succeeds.\<close>

lemma mput_subset: "set (mput k v m) \<subseteq> insert (k, v) (set m)"
  by (induction m) auto

lemma runFilters_codes:
  assumes "\<forall>(_, s) \<in> set sts. stCode s \<in> failureCodes"
  shows "\<forall>(_, s) \<in> set (runFilters runAll pls state pod ni sts). stCode s \<in> failureCodes"
  using assms
proof (induction pls arbitrary: sts)
  case (Cons pl pls)
  have step: "\<forall>(_, s) \<in> set (mput (fpName pl) s sts). stCode s \<in> failureCodes"
    if "IsUnschedulable (Some s)" for s
    using Cons.prems that mput_subset [of "fpName pl" s sts] by (auto simp: status_defs failureCodes_def)
  show ?case
  proof (cases "fpFilter pl state pod ni")
    case (Some s)
    show ?thesis
      using Cons.IH [OF Cons.prems] Cons.IH [OF step, of s] step [of s]
      by (auto simp: Some Let_def failureCodes_def)
  qed (use Cons.IH [OF Cons.prems] in simp)
qed simp

lemma runFilters_Nil_iff:
  "runFilters runAll pls state pod ni sts = [] \<longleftrightarrow>
     sts = [] \<and> (\<forall>pl \<in> set pls. IsSuccess (fpFilter pl state pod ni))"
proof (induction pls arbitrary: sts runAll)
  case (Cons pl pls)
  show ?case
  proof (cases "fpFilter pl state pod ni")
    case (Some s)
    show ?thesis by (simp add: Some Let_def Cons.IH)
  qed (simp add: Cons.IH status_defs)
qed simp

lemma RunFilterPlugins_success:
  "IsSuccess (Merge (RunFilterPlugins fw state pod ni)) \<longleftrightarrow>
     (\<forall>pl \<in> set (fwFilterPlugins fw). IsSuccess (fpFilter pl state pod ni))"
proof -
  let ?p = "RunFilterPlugins fw state pod ni"
  have "IsSuccess (Merge ?p) \<longleftrightarrow> ?p = []"
  proof (cases "?p = []")
    case False
    have "\<forall>(_, s) \<in> set ?p. stCode s \<in> failureCodes"
      unfolding RunFilterPlugins_def by (rule runFilters_codes) simp
    thus ?thesis using Merge_code [OF False] False by (simp add: IsSuccess_def)
  qed (simp add: Merge_def status_defs)
  thus ?thesis by (simp add: RunFilterPlugins_def runFilters_Nil_iff)
qed

end
