(* ===== verification/FilterPlugins.thy ===== *)
theory FilterPlugins
  imports Framework Labels
begin

text \<open>
  The in-tree plugins that decide from the node object and the aggregates of its pods
  (\<open>pkg/scheduler/framework/plugins\<close>): resource fit, host ports, node name, cordoned nodes, taints, runtime
  readiness and node affinity, with the helpers they share (\<open>pkg/apis/core/v1/helper/helpers.go\<close>,
  \<open>api/core/v1/toleration.go\<close>, \<open>apimachinery/pkg/fields/selector.go\<close>) and the normalisation of scores.
  The cycle state holds the data of the modelled plugins, and \<open>OtherState\<close> for any other plugin. A plugin is
  always called with a \<open>*NodeInfo\<close> that is not nil; its node may be nil. The lister behind
  \<open>handle.SnapshotSharedLister().NodeInfos().Get\<close> is an argument, \<open>None\<close> for its error. The value that
  \<open>%+v\<close> prints in the message about a state of the wrong type is left out.
\<close>

datatype 'x StateData =
    FitState Resource
  | PortsState "ContainerPort list"
  | TaintScoreState "Toleration list"
  | OtherState 'x

section \<open>NodeResourcesFit (noderesources/fit.go)\<close>

definition FitName :: string where "FitName = ''NodeResourcesFit''"
definition fitStateKey :: string where "fitStateKey = ''PreFilter'' @ FitName"

definition computePodResourceRequest :: "features \<Rightarrow> Pod \<Rightarrow> Resource" where
  "computePodResourceRequest f pod =
     (let result = fold (\<lambda>w. resourceAdd f (workloadRequests f w)) (Workloads (podSpec pod)) emptyResource;
          result = fold (\<lambda>c. SetMaxResource (cRequests c)) (psInitContainers (podSpec pod)) result
      in case psOverhead (podSpec pod) of
           Some ov \<Rightarrow> if PodOverhead f then resourceAdd f ov result else result
         | None \<Rightarrow> result)"

definition fitPreFilter ::
  "features \<Rightarrow> 'x StateData CycleState \<Rightarrow> Pod \<Rightarrow> Status option \<times> 'x StateData CycleState" where
  "fitPreFilter f cycleState pod =
     (None, csWrite fitStateKey (FitState (computePodResourceRequest f pod)) cycleState)"

definition fitGetState :: "'x StateData CycleState \<Rightarrow> string + Resource" where
  "fitGetState cycleState =
     (case csRead fitStateKey cycleState of
        None \<Rightarrow> Inl (''error reading '' @ quoted fitStateKey @ '' from cycleState: not found'')
      | Some (FitState r) \<Rightarrow> Inr r
      | Some _ \<Rightarrow> Inl ''convert to NodeResourcesFit.preFilterState error'')"

record InsufficientResource =
  irResourceName :: string
  irReason :: string
  irRequested :: i64
  irUsed :: i64
  irCapacity :: i64

definition fitsRequest :: "Resource \<Rightarrow> NodeInfo \<Rightarrow> string set \<Rightarrow> InsufficientResource list" where
  "fitsRequest req nodeInfo ignoredExtendedResources =
     (let allocatable = niAllocatableResource nodeInfo;
          requested = niRequestedResource nodeInfo;
          allowedPodNumber = rAllowedPodNumber allocatable;
          tooMany = (if sint allowedPodNumber < int (length (niPods nodeInfo)) + 1
                     then [\<lparr>irResourceName = ResourcePods, irReason = ''Too many pods'', irRequested = 1,
                            irUsed = word_of_nat (length (niPods nodeInfo)), irCapacity = allowedPodNumber\<rparr>] else [])
      in if rMilliCPU req = 0 \<and> rMemory req = 0 \<and> rEphemeralStorage req = 0 \<and> rScalarResources req = []
         then tooMany
         else tooMany @
           (if sint (rMilliCPU allocatable) < sint (rMilliCPU req + rMilliCPU requested)
            then [\<lparr>irResourceName = ResourceCPU, irReason = ''Insufficient cpu'', irRequested = rMilliCPU req,
                   irUsed = rMilliCPU requested, irCapacity = rMilliCPU allocatable\<rparr>] else []) @
           (if sint (rMemory allocatable) < sint (rMemory req + rMemory requested)
            then [\<lparr>irResourceName = ResourceMemory, irReason = ''Insufficient memory'', irRequested = rMemory req,
                   irUsed = rMemory requested, irCapacity = rMemory allocatable\<rparr>] else []) @
           (if sint (rEphemeralStorage allocatable) < sint (rEphemeralStorage req + rEphemeralStorage requested)
            then [\<lparr>irResourceName = ResourceEphemeralStorage, irReason = ''Insufficient ephemeral-storage'',
                   irRequested = rEphemeralStorage req, irUsed = rEphemeralStorage requested,
                   irCapacity = rEphemeralStorage allocatable\<rparr>] else []) @
           concat (map (\<lambda>(rName, rQuant).
             if IsExtendedResourceName rName \<and> rName \<in> ignoredExtendedResources then []
             else if sint (scalarGet (rScalarResources allocatable) rName)
                     < sint (rQuant + scalarGet (rScalarResources requested) rName)
             then [\<lparr>irResourceName = rName, irReason = ''Insufficient '' @ rName,
                    irRequested = scalarGet (rScalarResources req) rName,
                    irUsed = scalarGet (rScalarResources requested) rName,
                    irCapacity = scalarGet (rScalarResources allocatable) rName\<rparr>]
             else []) (rScalarResources req)))"

definition Fits :: "features \<Rightarrow> Pod \<Rightarrow> NodeInfo \<Rightarrow> string set \<Rightarrow> InsufficientResource list" where
  "Fits f pod nodeInfo ignored = fitsRequest (computePodResourceRequest f pod) nodeInfo ignored"

definition fitFilter :: "string set \<Rightarrow> 'x StateData CycleState \<Rightarrow> Pod \<Rightarrow> NodeInfo \<Rightarrow> Status option" where
  "fitFilter ignored cycleState pod nodeInfo =
     (case fitGetState cycleState of
        Inl e \<Rightarrow> NewStatus Error [e]
      | Inr s \<Rightarrow>
          (let insufficientResources = fitsRequest s nodeInfo ignored in
           if insufficientResources \<noteq> [] then NewStatus Unschedulable (map irReason insufficientResources) else None))"

section \<open>NodePorts (nodeports/node_ports.go)\<close>

definition portsStateKey :: string where "portsStateKey = ''PreFilterNodePorts''"

definition getContainerPorts :: "Pod list \<Rightarrow> ContainerPort list" where
  "getContainerPorts pods = concat (map (\<lambda>pod. concat (map cPorts (psContainers (podSpec pod)))) pods)"

definition portsPreFilter :: "'x StateData CycleState \<Rightarrow> Pod \<Rightarrow> Status option \<times> 'x StateData CycleState" where
  "portsPreFilter cycleState pod = (None, csWrite portsStateKey (PortsState (getContainerPorts [pod])) cycleState)"

definition portsGetState :: "'x StateData CycleState \<Rightarrow> string + ContainerPort list" where
  "portsGetState cycleState =
     (case csRead portsStateKey cycleState of
        None \<Rightarrow> Inl (''error reading '' @ quoted portsStateKey @ '' from cycleState: not found'')
      | Some (PortsState s) \<Rightarrow> Inr s
      | Some _ \<Rightarrow> Inl ''convert to nodeports.preFilterState error'')"

definition fitsPorts :: "ContainerPort list \<Rightarrow> NodeInfo \<Rightarrow> bool" where
  "fitsPorts wantPorts nodeInfo \<longleftrightarrow>
     \<not> list_ex (\<lambda>cp. CheckConflict (cpHostIP cp) (cpProtocol cp) (cpHostPort cp) (niUsedPorts nodeInfo)) wantPorts"

definition portsFilter :: "'x StateData CycleState \<Rightarrow> Pod \<Rightarrow> NodeInfo \<Rightarrow> Status option" where
  "portsFilter cycleState pod nodeInfo =
     (case portsGetState cycleState of
        Inl e \<Rightarrow> NewStatus Error [e]
      | Inr wantPorts \<Rightarrow>
          if \<not> fitsPorts wantPorts nodeInfo
          then NewStatus Unschedulable [''node(s) didn't have free ports for the requested pod ports''] else None)"

section \<open>NodeName (nodename/node_name.go)\<close>

definition nodeNameFilter :: "Pod \<Rightarrow> NodeInfo \<Rightarrow> Status option" where
  "nodeNameFilter pod nodeInfo =
     (case niNode nodeInfo of
        None \<Rightarrow> NewStatus Error [''node not found'']
      | Some node \<Rightarrow>
          if \<not> (podNodeName pod = [] \<or> podNodeName pod = nodeName node)
          then NewStatus UnschedulableAndUnresolvable [''node(s) didn't match the requested hostname''] else None)"

section \<open>Taints and tolerations (toleration.go, helpers.go)\<close>

definition ToleratesTaint :: "Toleration \<Rightarrow> Taint \<Rightarrow> bool" where
  "ToleratesTaint t taint =
     (if tolEffect t \<noteq> [] \<and> tolEffect t \<noteq> taintEffect taint then False
      else if tolKey t \<noteq> [] \<and> tolKey t \<noteq> taintKey taint then False
      else if tolOperator t = [] \<or> tolOperator t = ''Equal'' then tolValue t = taintValue taint
      else tolOperator t = ''Exists'')"

definition TolerationsTolerateTaint :: "Toleration list \<Rightarrow> Taint \<Rightarrow> bool" where
  "TolerationsTolerateTaint tolerations taint = list_ex (\<lambda>t. ToleratesTaint t taint) tolerations"

definition getFilteredTaints :: "Taint list \<Rightarrow> (Taint \<Rightarrow> bool) option \<Rightarrow> Taint list" where
  "getFilteredTaints taints inclusionFilter =
     (case inclusionFilter of None \<Rightarrow> taints | Some p \<Rightarrow> filter p taints)"

definition FindMatchingUntoleratedTaint ::
  "Taint list \<Rightarrow> Toleration list \<Rightarrow> (Taint \<Rightarrow> bool) option \<Rightarrow> Taint option" where
  "FindMatchingUntoleratedTaint taints tolerations inclusionFilter =
     find (\<lambda>taint. \<not> TolerationsTolerateTaint tolerations taint) (getFilteredTaints taints inclusionFilter)"

definition schedulingTaint :: "Taint \<Rightarrow> bool" where
  "schedulingTaint t \<longleftrightarrow> taintEffect t = ''NoSchedule'' \<or> taintEffect t = ''NoExecute''"

definition taintFilter :: "Pod \<Rightarrow> NodeInfo \<Rightarrow> Status option" where
  "taintFilter pod nodeInfo =
     (case niNode nodeInfo of
        None \<Rightarrow> NewStatus Error [''invalid nodeInfo'']
      | Some _ \<Rightarrow>
          (case FindMatchingUntoleratedTaint (niTaints nodeInfo) (psTolerations (podSpec pod)) (Some schedulingTaint) of
             None \<Rightarrow> None
           | Some taint \<Rightarrow> NewStatus UnschedulableAndUnresolvable
               [''node(s) had taint {'' @ taintKey taint @ '': '' @ taintValue taint @ ''}, that the pod didn't tolerate'']))"

definition nodeUnschedulableFilter :: "Pod \<Rightarrow> NodeInfo \<Rightarrow> Status option" where
  "nodeUnschedulableFilter pod nodeInfo =
     (case niNode nodeInfo of
        None \<Rightarrow> NewStatus UnschedulableAndUnresolvable [''node(s) had unknown conditions'']
      | Some node \<Rightarrow>
          (let podToleratesUnschedulable = TolerationsTolerateTaint (psTolerations (podSpec pod))
                 \<lparr>taintKey = ''node.kubernetes.io/unschedulable'', taintValue = [], taintEffect = ''NoSchedule''\<rparr>
           in if nsUnschedulable (nodeSpec node) \<and> \<not> podToleratesUnschedulable
              then NewStatus UnschedulableAndUnresolvable [''node(s) were unschedulable''] else None))"

definition noScheduleToleration :: Toleration where
  "noScheduleToleration = \<lparr>tolKey = [], tolOperator = ''Exists'', tolValue = [], tolEffect = ''NoSchedule'',
     tolTolerationSeconds = None\<rparr>"

definition runtimeFilter :: "Pod \<Rightarrow> NodeInfo \<Rightarrow> Status option" where
  "runtimeFilter pod nodeInfo =
     (case niNode nodeInfo of
        None \<Rightarrow> NewStatus UnschedulableAndUnresolvable [''node(s) had unknown conditions'']
      | Some node \<Rightarrow>
          if list_ex (\<lambda>toleration. toleration = noScheduleToleration) (psTolerations (podSpec pod)) then None
          else (let podRequestedRuntimeReady =
                      (if psVirtualMachine (podSpec pod) = None then ''ContainerRuntimeReady'' else ''VmRuntimeReady'')
                in if list_ex (\<lambda>cond. ncType cond = podRequestedRuntimeReady \<and> ncStatus cond = ''True'')
                        (nstConditions (nodeStatus node))
                   then None else NewStatus Unschedulable [''node(s) runtime is not ready'']))"

section \<open>Node affinity (nodeaffinity, helper/node_affinity.go, helpers.go)\<close>

definition nodeSelectorOp :: "string \<Rightarrow> Operator option" where
  "nodeSelectorOp op =
     (if op = ''In'' then Some OpIn else if op = ''NotIn'' then Some NotIn
      else if op = ''Exists'' then Some OpExists else if op = ''DoesNotExist'' then Some DoesNotExist
      else if op = ''Gt'' then Some GreaterThan else if op = ''Lt'' then Some LessThan else None)"

definition nodeRequirement :: "NodeSelectorRequirement \<Rightarrow> Requirement option" where
  "nodeRequirement expr =
     (case nodeSelectorOp (nsrOperator expr) of
        None \<Rightarrow> None
      | Some op \<Rightarrow> NewRequirement (nsrKey expr) op (nsrValues expr))"

definition NodeSelectorRequirementsAsSelector :: "NodeSelectorRequirement list \<Rightarrow> Selector option" where
  "NodeSelectorRequirementsAsSelector nsm =
     (if nsm = [] then Some SelNothing else addRequirements (map nodeRequirement nsm) (SelReqs []))"

text \<open>The field selectors the conversion builds: a conjunction of equalities and inequalities.\<close>

datatype fieldSelector = HasTerm string string | NotHasTerm string string | AndTerm "fieldSelector list" | FieldNothing

fun fieldMatches :: "labelmap \<Rightarrow> fieldSelector \<Rightarrow> bool" where
  "fieldMatches ls (HasTerm field value) \<longleftrightarrow> labelGet ls field = value"
| "fieldMatches ls (NotHasTerm field value) \<longleftrightarrow> labelGet ls field \<noteq> value"
| "fieldMatches ls (AndTerm ts) \<longleftrightarrow> list_all (fieldMatches ls) ts"
| "fieldMatches ls FieldNothing \<longleftrightarrow> False"

fun fieldTerms :: "NodeSelectorRequirement list \<Rightarrow> fieldSelector list option" where
  "fieldTerms [] = Some []"
| "fieldTerms (expr # es) =
     (case nsrValues expr of
        [v] \<Rightarrow>
          (if nsrOperator expr = ''In'' then map_option (\<lambda>ts. HasTerm (nsrKey expr) v # ts) (fieldTerms es)
           else if nsrOperator expr = ''NotIn'' then map_option (\<lambda>ts. NotHasTerm (nsrKey expr) v # ts) (fieldTerms es)
           else None)
      | _ \<Rightarrow> None)"

definition NodeSelectorRequirementsAsFieldSelector :: "NodeSelectorRequirement list \<Rightarrow> fieldSelector option" where
  "NodeSelectorRequirementsAsFieldSelector nsm =
     (if nsm = [] then Some FieldNothing else map_option AndTerm (fieldTerms nsm))"

definition MatchNodeSelectorTerms :: "NodeSelectorTerm list \<Rightarrow> labelmap \<Rightarrow> labelmap \<Rightarrow> bool" where
  "MatchNodeSelectorTerms nodeSelectorTerms nodeLabels nodeFields =
     list_ex (\<lambda>req.
       \<not> (nstMatchExpressions req = [] \<and> nstMatchFields req = []) \<and>
       (nstMatchExpressions req = [] \<or>
        (case NodeSelectorRequirementsAsSelector (nstMatchExpressions req) of
           None \<Rightarrow> False | Some labelSelector \<Rightarrow> selMatches nodeLabels labelSelector)) \<and>
       (nstMatchFields req = [] \<or>
        (case NodeSelectorRequirementsAsFieldSelector (nstMatchFields req) of
           None \<Rightarrow> False | Some sel \<Rightarrow> fieldMatches nodeFields sel))) nodeSelectorTerms"

definition SelectorFromSet :: "labelmap \<Rightarrow> Selector" where
  "SelectorFromSet ls =
     (if ls = [] then SelReqs []
      else (let rs = map (\<lambda>(label, value). NewRequirement label Equals [value]) ls in
            if list_ex (\<lambda>r. r = None) rs then SelReqs [] else SelReqs (sort_key reqKey (map the rs))))"

definition PodMatchesNodeSelectorAndAffinityTerms :: "Pod \<Rightarrow> Node \<Rightarrow> bool" where
  "PodMatchesNodeSelectorAndAffinityTerms pod node =
     (let nodeLabels = omLabels (nodeMeta node) in
      if psNodeSelector (podSpec pod) \<noteq> [] \<and>
         \<not> selMatches nodeLabels (SelectorFromSet (psNodeSelector (podSpec pod))) then False
      else (case psAffinity (podSpec pod) of
              None \<Rightarrow> True
            | Some affinity \<Rightarrow>
                (case affNodeAffinity affinity of
                   None \<Rightarrow> True
                 | Some nodeAffinity \<Rightarrow>
                     (case naRequired nodeAffinity of
                        None \<Rightarrow> True
                      | Some nodeSelectorTerms \<Rightarrow>
                          MatchNodeSelectorTerms nodeSelectorTerms nodeLabels [(''metadata.name'', nodeName node)]))))"

definition nodeAffinityFilter :: "Pod \<Rightarrow> NodeInfo \<Rightarrow> Status option" where
  "nodeAffinityFilter pod nodeInfo =
     (case niNode nodeInfo of
        None \<Rightarrow> NewStatus Error [''node not found'']
      | Some node \<Rightarrow>
          if \<not> PodMatchesNodeSelectorAndAffinityTerms pod node
          then NewStatus UnschedulableAndUnresolvable [''node(s) didn't match node selector''] else None)"

section \<open>The plugins as the framework holds them\<close>

definition fitPreFilterPlugin :: "features \<Rightarrow> 'x StateData PreFilterPlugin" where
  "fitPreFilterPlugin f = \<lparr>pfName = FitName, pfPreFilter = fitPreFilter f, pfExtensions = None\<rparr>"

definition portsPreFilterPlugin :: "'x StateData PreFilterPlugin" where
  "portsPreFilterPlugin = \<lparr>pfName = ''NodePorts'', pfPreFilter = portsPreFilter, pfExtensions = None\<rparr>"

definition fitPlugin :: "string set \<Rightarrow> 'x StateData FilterPlugin" where
  "fitPlugin ignored = \<lparr>fpName = FitName, fpFilter = fitFilter ignored\<rparr>"

definition portsPlugin :: "'x StateData FilterPlugin" where
  "portsPlugin = \<lparr>fpName = ''NodePorts'', fpFilter = portsFilter\<rparr>"

section \<open>What the filters are specified against\<close>

text \<open>The load of a list of pods along a dimension, as an integer: no wrap-around.\<close>

definition trueLoad :: "features \<Rightarrow> Pod list \<Rightarrow> dim \<Rightarrow> int" where
  "trueLoad f pods d = (\<Sum>p \<leftarrow> pods. sint (amount (podRequest f p) d))"

fun ignoredDim :: "string set \<Rightarrow> dim \<Rightarrow> bool" where
  "ignoredDim ignored (DScalar name) \<longleftrightarrow> IsExtendedResourceName name \<and> name \<in> ignored"
| "ignoredDim ignored d \<longleftrightarrow> False"

text \<open>A PreFilter plugin that writes under its own key leaves the two keys of Fit and NodePorts alone.\<close>

definition keepsKeys :: "'x StateData PreFilterPlugin \<Rightarrow> bool" where
  "keepsKeys pl \<longleftrightarrow> (\<forall>st pod. csRead fitStateKey (snd (pfPreFilter pl st pod)) = csRead fitStateKey st \<and>
     csRead portsStateKey (snd (pfPreFilter pl st pod)) = csRead portsStateKey st)"

definition portBindings :: "Pod \<Rightarrow> binding set" where
  "portBindings pod = (\<Union>p \<in> set (podPorts pod). set_option (requestBinding (cpHostIP p) (cpProtocol p) (cpHostPort p)))"

text \<open>The documented meaning of a required node affinity: some term that converts and is not empty has every
  label expression and every field expression true.\<close>

definition nodeExprHolds :: "labelmap \<Rightarrow> NodeSelectorRequirement \<Rightarrow> bool" where
  "nodeExprHolds ls e \<longleftrightarrow>
     (let v = mget ls (nsrKey e); compared = (\<lambda>p. \<exists>l r a b. v = Some l \<and> nsrValues e = [r] \<and>
             ParseInt l = Some a \<and> ParseInt r = Some b \<and> p (sint a) (sint b))
      in if nsrOperator e = ''In'' then (\<exists>x \<in> set (nsrValues e). v = Some x)
         else if nsrOperator e = ''NotIn'' then (\<forall>x \<in> set (nsrValues e). v \<noteq> Some x)
         else if nsrOperator e = ''Exists'' then v \<noteq> None
         else if nsrOperator e = ''DoesNotExist'' then v = None
         else if nsrOperator e = ''Gt'' then compared (\<lambda>l r. l > r)
         else nsrOperator e = ''Lt'' \<and> compared (\<lambda>l r. l < r))"

definition fieldHolds :: "labelmap \<Rightarrow> NodeSelectorRequirement \<Rightarrow> bool" where
  "fieldHolds fs e \<longleftrightarrow> (if nsrOperator e = ''In'' then [labelGet fs (nsrKey e)] = nsrValues e
                        else [labelGet fs (nsrKey e)] \<noteq> nsrValues e)"

definition validTerm :: "NodeSelectorTerm \<Rightarrow> bool" where
  "validTerm t \<longleftrightarrow> (\<forall>e \<in> set (nstMatchExpressions t). nodeRequirement e \<noteq> None) \<and>
     (\<forall>e \<in> set (nstMatchFields t). length (nsrValues e) = 1 \<and> nsrOperator e \<in> {''In'', ''NotIn''})"

definition termHolds :: "labelmap \<Rightarrow> labelmap \<Rightarrow> NodeSelectorTerm \<Rightarrow> bool" where
  "termHolds ls fs t \<longleftrightarrow> validTerm t \<and> (nstMatchExpressions t \<noteq> [] \<or> nstMatchFields t \<noteq> []) \<and>
     (\<forall>e \<in> set (nstMatchExpressions t). nodeExprHolds ls e) \<and> (\<forall>e \<in> set (nstMatchFields t). fieldHolds fs e)"

definition requiredTerms :: "Pod \<Rightarrow> NodeSelectorTerm list option" where
  "requiredTerms pod = Option.bind (psAffinity (podSpec pod)) (\<lambda>a. Option.bind (affNodeAffinity a) naRequired)"

section \<open>Lemmas\<close>

lemma fst_fold_calcWorkload:
  "fst (fold (calcWorkload f) ws t) = fold (\<lambda>w. resourceAdd f (workloadRequests f w)) ws (fst t)"
  by (induction ws arbitrary: t) (auto simp: calcWorkload_def Let_def split_beta)

lemma fst_fold_calcInit:
  "fst (fold (calcInit f) cs t) = fold (\<lambda>c. SetMaxResource (cRequests c)) cs (fst t)"
  by (induction cs arbitrary: t) (auto simp: calcInit_def Let_def split_beta)

text \<open>The request the Fit plugin checks is the request \<open>AddPod\<close> accounts for.\<close>

lemma computePodResourceRequest_eq: "computePodResourceRequest f pod = podRequest f pod"
  by (simp add: computePodResourceRequest_def podRequest_def calculateResource_def calcOverhead_def Let_def
      fst_fold_calcInit fst_fold_calcWorkload split_beta split: option.split)

lemma sint_sum_list:
  assumes "\<forall>w \<in> set ws. 0 \<le> sint w" and "(\<Sum>w \<leftarrow> ws. sint w) < 2 ^ 63"
  shows "sint (sum_list ws :: i64) = (\<Sum>w \<leftarrow> ws. sint w)"
  using assms
proof (induction ws)
  case (Cons w ws)
  have "0 \<le> (\<Sum>w \<leftarrow> ws. sint w)" using Cons.prems(1) by (intro sum_list_nonneg) auto
  moreover have "sint (sum_list ws) = (\<Sum>w \<leftarrow> ws. sint w)" using Cons by simp
  ultimately show ?case using Cons.prems by (simp add: sint_simps)
qed simp

lemma requested_trueLoad:
  assumes "nodeInfoInv f ni" and "\<forall>p \<in> set (niPods ni). 0 \<le> sint (amount (podRequest f p) d)"
    and "trueLoad f (niPods ni) d < 2 ^ 63"
  shows "sint (amount (niRequestedResource ni) d) = trueLoad f (niPods ni) d"
  using sint_sum_list [of "map (\<lambda>p. amount (podRequest f p) d) (niPods ni)"] assms
  by (simp add: nodeInfoInv_def trueLoad_def comp_def)

text \<open>A list of failures that is empty is one in which every comparison came out right.\<close>

lemma fitsRequest_NilD:
  assumes "fitsRequest req ni ign = []" and "0 < sint (amount req d)" and "\<not> ignoredDim ign d"
  shows "sint (amount req d + amount (niRequestedResource ni) d) \<le> sint (amount (niAllocatableResource ni) d)"
proof (cases d)
  case (DScalar name)
  then have "mget (rScalarResources req) name = Some (scalarGet (rScalarResources req) name)"
    using assms(2) by (auto simp: scalarGet_def split: option.splits)
  then have "(name, scalarGet (rScalarResources req) name) \<in> set (rScalarResources req)" by (rule mget_SomeD)
  then show ?thesis
    using assms DScalar by (fastforce simp: fitsRequest_def Let_def split: if_splits)
qed (use assms in \<open>auto simp: fitsRequest_def Let_def not_less split: if_splits\<close>)

lemma fitsRequest_pods:
  "fitsRequest req ni ign = [] \<Longrightarrow> int (length (niPods ni)) + 1 \<le> sint (rAllowedPodNumber (niAllocatableResource ni))"
  by (auto simp: fitsRequest_def Let_def not_less split: if_splits)

lemma fits_within:
  assumes fits: "Fits f pod ni ign = []" and inv: "nodeInfoInv f ni"
    and nonneg: "\<forall>p \<in> set (pod # niPods ni). 0 \<le> sint (amount (podRequest f p) d)"
    and bound: "trueLoad f (niPods ni @ [pod]) d < 2 ^ 63"
    and d: "\<not> ignoredDim ign d" "0 < sint (amount (podRequest f pod) d)"
  shows "trueLoad f (niPods ni @ [pod]) d \<le> sint (amount (niAllocatableResource ni) d)"
proof -
  have load: "trueLoad f (niPods ni @ [pod]) d = sint (amount (podRequest f pod) d) + trueLoad f (niPods ni) d"
    by (simp add: trueLoad_def)
  have "0 \<le> trueLoad f (niPods ni) d"
    using nonneg unfolding trueLoad_def by (intro sum_list_nonneg) auto
  moreover have "sint (amount (niRequestedResource ni) d) = trueLoad f (niPods ni) d"
    using requested_trueLoad [OF inv] nonneg bound load by auto
  ultimately have "sint (amount (podRequest f pod) d + amount (niRequestedResource ni) d) =
      trueLoad f (niPods ni @ [pod]) d"
    using bound nonneg load by (simp add: sint_simps)
  then show ?thesis
    using fitsRequest_NilD [of "podRequest f pod" ni ign d] fits d by (simp add: Fits_def computePodResourceRequest_eq)
qed

lemma fitsPorts_iff:
  assumes "hpInv (niUsedPorts ni)"
  shows "fitsPorts (getContainerPorts [pod]) ni \<longleftrightarrow>
    (\<forall>b \<in> portBindings pod. \<forall>c \<in> hpBindings (niUsedPorts ni). \<not> bindingsCollide b c)"
  using assms by (simp add: fitsPorts_def getContainerPorts_def podPorts_def portBindings_def list_ex_iff hp.conflict_iff)

lemma addPod_bindings:
  "hpInv (niUsedPorts ni) \<Longrightarrow>
   hpBindings (niUsedPorts (fst (addPod f pod g ni))) = hpBindings (niUsedPorts ni) \<union> portBindings pod"
  by (simp add: UpdateUsedPorts_locale hp.addAll_spec hp.wanted_def portBindings_def)

lemma addPod_allocatable [simp]:
  "niAllocatableResource (fst (addPod f pod g ni)) = niAllocatableResource ni"
  by (simp add: addPod_def split_beta Let_def)

text \<open>After the PreFilter run of a framework that starts with Fit and NodePorts, their states are in place.\<close>

lemma runPreFilters_keeps:
  assumes "\<forall>pl \<in> set pls. keepsKeys pl"
  shows "csRead fitStateKey (snd (runPreFilters pls st pod)) = csRead fitStateKey st \<and>
    csRead portsStateKey (snd (runPreFilters pls st pod)) = csRead portsStateKey st"
  using assms by (induction pls arbitrary: st) (auto simp: keepsKeys_def Let_def split_beta)

lemma stateKeys_distinct [simp]: "fitStateKey \<noteq> portsStateKey" "portsStateKey \<noteq> fitStateKey"
  by (simp_all add: fitStateKey_def portsStateKey_def FitName_def)

lemma RunPreFilterPlugins_states:
  assumes "fwPreFilterPlugins fw = [fitPreFilterPlugin f, portsPreFilterPlugin] @ rest" and "\<forall>pl \<in> set rest. keepsKeys pl"
  shows "csRead fitStateKey (snd (RunPreFilterPlugins fw st pod)) = Some (FitState (computePodResourceRequest f pod))"
    and "csRead portsStateKey (snd (RunPreFilterPlugins fw st pod)) = Some (PortsState (getContainerPorts [pod]))"
  using runPreFilters_keeps [OF assms(2)] assms(1)
  by (simp_all add: RunPreFilterPlugins_def fitPreFilterPlugin_def portsPreFilterPlugin_def fitPreFilter_def
      portsPreFilter_def status_defs)

lemma fitFilter_success:
  assumes "csRead fitStateKey st = Some (FitState (computePodResourceRequest f pod))"
  shows "IsSuccess (fitFilter ign st pod ni) \<longleftrightarrow> Fits f pod ni ign = []"
  using assms by (simp add: fitFilter_def fitGetState_def Fits_def status_defs Let_def)

lemma portsFilter_success:
  assumes "csRead portsStateKey st = Some (PortsState (getContainerPorts [pod]))"
  shows "IsSuccess (portsFilter st pod ni) \<longleftrightarrow> fitsPorts (getContainerPorts [pod]) ni"
  using assms by (simp add: portsFilter_def portsGetState_def status_defs)

subsection \<open>Node affinity\<close>

lemma addRequirements_None_iff: "addRequirements rs sel = None \<longleftrightarrow> None \<in> set rs"
  by (induction rs sel rule: addRequirements.induct) auto

lemma nodeRequirement_matches:
  assumes "nodeRequirement e = Some q"
  shows "reqMatches ls q \<longleftrightarrow> nodeExprHolds ls e"
proof -
  obtain op where op: "nodeSelectorOp (nsrOperator e) = Some op" "NewRequirement (nsrKey e) op (nsrValues e) = Some q"
    using assms by (auto simp: nodeRequirement_def split: option.splits)
  note q = NewRequirement_Some [OF op(2)]
  from op(1) show ?thesis
    by (auto simp: q nodeSelectorOp_def nodeExprHolds_def Let_def reqMatches_def hasValue_def list_ex_iff
        compareValues_def split: if_splits option.splits list.splits)
qed

lemma label_terms:
  "(case NodeSelectorRequirementsAsSelector es of None \<Rightarrow> False | Some sel \<Rightarrow> selMatches ls sel) \<longleftrightarrow>
   es \<noteq> [] \<and> (\<forall>e \<in> set es. nodeRequirement e \<noteq> None \<and> nodeExprHolds ls e)"
proof (cases "es = []")
  case False
  show ?thesis
  proof (cases "addRequirements (map nodeRequirement es) (SelReqs [])")
    case None
    then have "\<exists>e \<in> set es. nodeRequirement e = None"
      by (force simp: addRequirements_None_iff)
    then show ?thesis
      using False by (auto simp: NodeSelectorRequirementsAsSelector_def None)
  next
    case (Some sel)
    have "nodeRequirement e \<noteq> None" if "e \<in> set es" for e
      using addRequirements_all [OF Some, of "nodeRequirement e"] that by auto
    then have "(\<exists>q. nodeRequirement e = Some q \<and> reqMatches ls q) \<longleftrightarrow> nodeRequirement e \<noteq> None \<and> nodeExprHolds ls e"
      if "e \<in> set es" for e
      using that nodeRequirement_matches [of e _ ls] by auto
    then show ?thesis
      using False addRequirements_matches [OF Some, of ls]
      by (simp add: NodeSelectorRequirementsAsSelector_def Some)
  qed
qed (simp add: NodeSelectorRequirementsAsSelector_def)

lemma fieldTerms_matches:
  "(case fieldTerms es of None \<Rightarrow> False | Some ts \<Rightarrow> list_all (fieldMatches fs) ts) \<longleftrightarrow>
   (\<forall>e \<in> set es. length (nsrValues e) = 1 \<and> nsrOperator e \<in> {''In'', ''NotIn''} \<and> fieldHolds fs e)"
proof (induction es)
  case (Cons e es)
  show ?case
  proof (cases "\<exists>v. nsrValues e = [v]")
    case True
    then obtain v where v: "nsrValues e = [v]" by blast
    show ?thesis
      using Cons by (cases "fieldTerms es") (auto simp: v fieldHolds_def)
  qed (auto simp: length_Suc_conv split: list.split)
qed simp

lemma field_terms:
  "(case NodeSelectorRequirementsAsFieldSelector es of None \<Rightarrow> False | Some sel \<Rightarrow> fieldMatches fs sel) \<longleftrightarrow>
   es \<noteq> [] \<and> (\<forall>e \<in> set es. length (nsrValues e) = 1 \<and> nsrOperator e \<in> {''In'', ''NotIn''} \<and> fieldHolds fs e)"
  using fieldTerms_matches [where es = es and fs = fs]
  by (cases "fieldTerms es") (auto simp: NodeSelectorRequirementsAsFieldSelector_def)

lemma MatchNodeSelectorTerms_iff:
  "MatchNodeSelectorTerms ts ls fs \<longleftrightarrow> (\<exists>t \<in> set ts. termHolds ls fs t)"
  unfolding MatchNodeSelectorTerms_def list_ex_iff label_terms field_terms termHolds_def validTerm_def
  by (rule bex_cong [OF refl]) auto

lemma SelectorFromSet_matches:
  assumes "\<forall>(k, v) \<in> set m. NewRequirement k Equals [v] \<noteq> None"
  shows "selMatches ls (SelectorFromSet m) \<longleftrightarrow> (\<forall>(k, v) \<in> set m. mget ls k = Some v)"
proof -
  have "reqMatches ls (the (NewRequirement k Equals [v])) \<longleftrightarrow> mget ls k = Some v" if "(k, v) \<in> set m" for k v
    using assms that label_requirement by fastforce
  moreover have "\<not> list_ex (\<lambda>r. r = None) (map (\<lambda>(k, v). NewRequirement k Equals [v]) m)"
    using assms by (auto simp: list_ex_iff)
  ultimately show ?thesis
    by (auto simp: SelectorFromSet_def Let_def list_all_iff)
qed

lemma PodMatches_iff:
  assumes "\<forall>(k, v) \<in> set (psNodeSelector (podSpec pod)). NewRequirement k Equals [v] \<noteq> None"
  shows "PodMatchesNodeSelectorAndAffinityTerms pod node \<longleftrightarrow>
     (\<forall>(k, v) \<in> set (psNodeSelector (podSpec pod)). mget (omLabels (nodeMeta node)) k = Some v) \<and>
     (case requiredTerms pod of
        None \<Rightarrow> True
      | Some ts \<Rightarrow> \<exists>t \<in> set ts. termHolds (omLabels (nodeMeta node)) [(''metadata.name'', nodeName node)] t)"
  unfolding PodMatchesNodeSelectorAndAffinityTerms_def SelectorFromSet_matches [OF assms] MatchNodeSelectorTerms_iff
    requiredTerms_def Let_def
  by (cases "psNodeSelector (podSpec pod)") (auto split: option.split)

lemma untolerated_None:
  "FindMatchingUntoleratedTaint taints tols (Some p) = None \<longleftrightarrow>
   (\<forall>t \<in> set taints. p t \<longrightarrow> (\<exists>tol \<in> set tols. ToleratesTaint tol t))"
  by (auto simp: FindMatchingUntoleratedTaint_def getFilteredTaints_def find_None_iff TolerationsTolerateTaint_def list_ex_iff)

section \<open>Properties\<close>

lemma admission_keeps_capacity:
  assumes pre: "fwPreFilterPlugins fw = [fitPreFilterPlugin f, portsPreFilterPlugin] @ rest" "\<forall>pl \<in> set rest. keepsKeys pl"
    and plugins: "fitPlugin ign \<in> set (fwFilterPlugins fw)" "portsPlugin \<in> set (fwFilterPlugins fw)"
    and ok: "IsSuccess (Merge (RunFilterPlugins fw (snd (RunPreFilterPlugins fw st pod)) pod ni))"
    and inv: "nodeInfoInv f ni"
    and nonneg: "\<forall>p \<in> set (pod # niPods ni). \<forall>d. 0 \<le> sint (amount (podRequest f p) d)"
    and bound: "\<forall>d. trueLoad f (niPods ni @ [pod]) d < 2 ^ 63"
  shows "let ni' = fst (addPod f pod g ni) in
     int (length (niPods ni')) \<le> sint (rAllowedPodNumber (niAllocatableResource ni')) \<and>
     (\<forall>d. \<not> ignoredDim ign d \<longrightarrow>
        (if amount (podRequest f pod) d = 0 then trueLoad f (niPods ni') d = trueLoad f (niPods ni) d
         else trueLoad f (niPods ni') d \<le> sint (amount (niAllocatableResource ni') d))) \<and>
     hpBindings (niUsedPorts ni') = hpBindings (niUsedPorts ni) \<union> portBindings pod \<and>
     (\<forall>b \<in> portBindings pod. \<forall>c \<in> hpBindings (niUsedPorts ni). \<not> bindingsCollide b c)"
proof -
  let ?st = "snd (RunPreFilterPlugins fw st pod)"
  note states = RunPreFilterPlugins_states [OF pre, of st pod]
  have "IsSuccess (fpFilter pl ?st pod ni)" if "pl \<in> set (fwFilterPlugins fw)" for pl
    using ok that by (simp add: RunFilterPlugins_success)
  from this [OF plugins(1)] this [OF plugins(2)]
  have fits: "Fits f pod ni ign = []" and ports: "fitsPorts (getContainerPorts [pod]) ni"
    using fitFilter_success [OF states(1)] portsFilter_success [OF states(2)]
    by (simp_all add: fitPlugin_def portsPlugin_def)
  have hpi: "hpInv (niUsedPorts ni)" using inv by (simp add: nodeInfoInv_def)
  have "trueLoad f (niPods ni @ [pod]) d \<le> sint (amount (niAllocatableResource ni) d)"
    if "\<not> ignoredDim ign d" "amount (podRequest f pod) d \<noteq> 0" for d
  proof (rule fits_within [OF fits inv])
    have "sint (amount (podRequest f pod) d) \<noteq> 0" using that(2) by (simp add: sint_eq_iff)
    then show "0 < sint (amount (podRequest f pod) d)" using nonneg by (simp add: order_less_le)
  qed (use nonneg bound that in auto)
  moreover have "trueLoad f (niPods ni @ [pod]) d = trueLoad f (niPods ni) d" if "amount (podRequest f pod) d = 0" for d
    using that by (simp add: trueLoad_def)
  moreover have "int (length (niPods ni @ [pod])) \<le> sint (rAllowedPodNumber (niAllocatableResource ni))"
    using fitsRequest_pods [OF fits [unfolded Fits_def]] by simp
  ultimately show ?thesis
    using ports fitsPorts_iff [OF hpi] addPod_bindings [OF hpi] by (simp add: Let_def)
qed





section \<open>Departures\<close>

text \<open>\<open>SelectorFromSet\<close> is documented to match exactly the given set; a set with an entry that is not a valid
  label gives the selector that matches everything, so that a pod with such a node selector passes the
  node affinity filter on every node.\<close>

lemma invalid_node_selector_matches_all:
  assumes "(k, v) \<in> set m" and "NewRequirement k Equals [v] = None"
  shows "selMatches ls (SelectorFromSet m)"
  using assms by (force simp: SelectorFromSet_def Let_def list_ex_iff)

text \<open>A refusal because the runtime is not ready has the code that makes the scheduler try preemption, which
  cannot help: it does not depend on the pods of the node.\<close>

lemma runtime_refusal_kept:
  "niNode ni' = niNode ni \<Longrightarrow> runtimeFilter pod ni' = runtimeFilter pod ni"
  by (simp add: runtimeFilter_def)

text \<open>The sum of the requests of a pod wraps: two containers that ask for 4Ei of memory each make a pod whose
  request is negative, and it fits a node that has no memory at all.\<close>

lemma wrapped_request_fits:
  "let c = \<lparr>cName = ''a'', cImage = [], cPorts = [], cRequests = [(''memory'', NewQuantity 0x4000000000000000)],
            cResourcesAllocated = []\<rparr>;
       pod = zeroPod\<lparr>podSpec := podSpec zeroPod\<lparr>psContainers := [c, c]\<rparr>\<rparr>;
       ni = (emptyNodeInfo 0)\<lparr>niAllocatableResource := emptyResource\<lparr>rAllowedPodNumber := 110\<rparr>\<rparr>
   in Fits defaultFeatures pod ni {} = [] \<and> sint (amount (podRequest defaultFeatures pod) DMemory) = - (2 ^ 63)"
  by code_simp

end
