(* ===== verification/ScorePlugins.thy ===== *)
theory ScorePlugins
  imports FilterPlugins
begin

text \<open>
  The score plugins whose arithmetic is on integers (\<open>pkg/scheduler/framework/plugins\<close>): \<open>tainttoleration\<close>,
  \<open>nodeaffinity\<close>, \<open>noderesources/least_allocated.go\<close>, \<open>most_allocated.go\<close> and \<open>resource_allocation.go\<close>, the
  piecewise linear function of \<open>requested_to_capacity_ratio.go\<close>, and the normalisation they share.
  \<open>handle.SnapshotSharedLister().NodeInfos().Get\<close> is an argument, with its error as \<open>Inl\<close>.
\<close>

section \<open>Normalisation (helper/normalize_score.go)\<close>

definition DefaultNormalizeScore :: "i64 \<Rightarrow> bool \<Rightarrow> NodeScore list \<Rightarrow> Status option \<times> NodeScore list" where
  "DefaultNormalizeScore maxPriority reverse scores =
     (let maxCount = fold (\<lambda>ns m. if sint m < sint (nsScore ns) then nsScore ns else m) scores 0 in
      if maxCount = 0 then
        (None, if reverse then map (\<lambda>ns. ns\<lparr>nsScore := maxPriority\<rparr>) scores else scores)
      else
        (None, map (\<lambda>ns. let score = go_div (maxPriority * nsScore ns) maxCount in
                     ns\<lparr>nsScore := if reverse then maxPriority - score else score\<rparr>) scores))"

section \<open>TaintToleration (tainttoleration/taint_toleration.go)\<close>

definition taintScoreKey :: string where "taintScoreKey = ''PreScoreTaintToleration''"

definition getAllTolerationPreferNoSchedule :: "Toleration list \<Rightarrow> Toleration list" where
  "getAllTolerationPreferNoSchedule tolerations =
     filter (\<lambda>t. tolEffect t = [] \<or> tolEffect t = ''PreferNoSchedule'') tolerations"

definition taintPreScore ::
  "'x StateData CycleState \<Rightarrow> Pod \<Rightarrow> Node list \<Rightarrow> Status option \<times> 'x StateData CycleState" where
  "taintPreScore cycleState pod nodes =
     (if nodes = [] then (None, cycleState)
      else (None, csWrite taintScoreKey
                    (TaintScoreState (getAllTolerationPreferNoSchedule (psTolerations (podSpec pod)))) cycleState))"

definition countIntolerableTaintsPreferNoSchedule :: "Taint list \<Rightarrow> Toleration list \<Rightarrow> nat" where
  "countIntolerableTaintsPreferNoSchedule taints tolerations =
     fold (\<lambda>taint n. if taintEffect taint \<noteq> ''PreferNoSchedule'' then n
                     else if \<not> TolerationsTolerateTaint tolerations taint then n + 1 else n) taints 0"

definition taintScore ::
  "(string \<Rightarrow> string + NodeInfo) \<Rightarrow> 'x StateData CycleState \<Rightarrow> Pod \<Rightarrow> string \<Rightarrow> i64 \<times> Status option" where
  "taintScore get state pod name =
     (let failed = (\<lambda>e. (0, NewStatus Error [''getting node '' @ quoted name @ '' from Snapshot: '' @ e])) in
      case get name of
        Inl e \<Rightarrow> failed e
      | Inr nodeInfo \<Rightarrow>
          (case niNode nodeInfo of
             None \<Rightarrow> failed ''<nil>''
           | Some node \<Rightarrow>
               (case csRead taintScoreKey state of
                  None \<Rightarrow> (0, NewStatus Error [''Error reading '' @ quoted taintScoreKey @ '' from cycleState: not found''])
                | Some (TaintScoreState tolerations) \<Rightarrow>
                    (word_of_nat (countIntolerableTaintsPreferNoSchedule (nsTaints (nodeSpec node)) tolerations), None)
                | Some _ \<Rightarrow> (0, NewStatus Error [''convert to tainttoleration.preScoreState error'']))))"

definition taintNormalize ::
  "'x StateData CycleState \<Rightarrow> Pod \<Rightarrow> NodeScore list \<Rightarrow> Status option \<times> NodeScore list" where
  "taintNormalize state pod scores = DefaultNormalizeScore MaxNodeScore True scores"

section \<open>NodeAffinity (nodeaffinity/node_affinity.go)\<close>

fun affinityCount :: "labelmap \<Rightarrow> PreferredSchedulingTerm list \<Rightarrow> i64 \<Rightarrow> i64 option" where
  "affinityCount ls [] cnt = Some cnt"
| "affinityCount ls (t # ts) cnt =
     (if pstWeight t = 0 then affinityCount ls ts cnt
      else (case NodeSelectorRequirementsAsSelector (nstMatchExpressions (pstPreference t)) of
              None \<Rightarrow> None
            | Some nodeSelector \<Rightarrow>
                affinityCount ls ts (if selMatches ls nodeSelector then cnt + scast (pstWeight t) else cnt)))"

text \<open>The text of the error of the conversion is not modelled: the reasons are empty.\<close>

definition nodeAffinityScore ::
  "(string \<Rightarrow> string + NodeInfo) \<Rightarrow> 'x StateData CycleState \<Rightarrow> Pod \<Rightarrow> string \<Rightarrow> i64 \<times> Status option" where
  "nodeAffinityScore get state pod name =
     (let failed = (\<lambda>e. (0, NewStatus Error [''getting node '' @ quoted name @ '' from Snapshot: '' @ e])) in
      case get name of
        Inl e \<Rightarrow> failed e
      | Inr nodeInfo \<Rightarrow>
          (case niNode nodeInfo of
             None \<Rightarrow> failed ''<nil>''
           | Some node \<Rightarrow>
               (let preferred = (case psAffinity (podSpec pod) of
                      None \<Rightarrow> []
                    | Some a \<Rightarrow> (case affNodeAffinity a of None \<Rightarrow> [] | Some na \<Rightarrow> naPreferred na))
                in case affinityCount (omLabels (nodeMeta node)) preferred 0 of
                     None \<Rightarrow> (0, NewStatus Error [])
                   | Some cnt \<Rightarrow> (cnt, None))))"

definition nodeAffinityNormalize ::
  "'x StateData CycleState \<Rightarrow> Pod \<Rightarrow> NodeScore list \<Rightarrow> Status option \<times> NodeScore list" where
  "nodeAffinityNormalize state pod scores = DefaultNormalizeScore MaxNodeScore False scores"

section \<open>Resource allocation (noderesources)\<close>

type_synonym resourceToValueMap = "(string, i64) gomap"

definition defaultRequestedRatioResources :: resourceToValueMap where
  "defaultRequestedRatioResources = [(ResourceMemory, 1), (ResourceCPU, 1)]"

definition calculatePodResourceRequest :: "features \<Rightarrow> Pod \<Rightarrow> string \<Rightarrow> i64" where
  "calculatePodResourceRequest f pod resource =
     (let req = fold (\<lambda>w r. r + GetNonzeroRequestForResource f resource (workloadRequests f w))
                  (Workloads (podSpec pod)) 0;
          req = fold (\<lambda>ic r. let value = GetNonzeroRequestForResource f resource (cRequests ic) in
                  if sint r < sint value then value else r) (psInitContainers (podSpec pod)) req
      in case psOverhead (podSpec pod) of
           None \<Rightarrow> req
         | Some overhead \<Rightarrow>
             if PodOverhead f then (case mget overhead resource of Some q \<Rightarrow> req + Value q | None \<Rightarrow> req) else req)"

definition calculateResourceAllocatableRequest :: "features \<Rightarrow> NodeInfo \<Rightarrow> Pod \<Rightarrow> string \<Rightarrow> i64 \<times> i64" where
  "calculateResourceAllocatableRequest f nodeInfo pod resource =
     (let allocatable = niAllocatableResource nodeInfo;
          requested = niRequestedResource nodeInfo;
          req = calculatePodResourceRequest f pod resource
      in if resource = ResourceCPU then (rMilliCPU allocatable, rMilliCPU (niNonzeroRequest nodeInfo) + req)
         else if resource = ResourceMemory then (rMemory allocatable, rMemory (niNonzeroRequest nodeInfo) + req)
         else if resource = ResourceEphemeralStorage then
           (rEphemeralStorage allocatable, rEphemeralStorage requested + req)
         else if IsScalarResourceName resource then
           (scalarGet (rScalarResources allocatable) resource, scalarGet (rScalarResources requested) resource + req)
         else (0, 0))"

text \<open>A scorer: the requested and allocatable amounts, whether volumes cnt, and the volume counts.\<close>

type_synonym resourceScorer = "resourceToValueMap \<Rightarrow> resourceToValueMap \<Rightarrow> bool \<Rightarrow> int \<Rightarrow> int \<Rightarrow> i64"

definition resourceAllocationScore ::
  "features \<Rightarrow> resourceScorer \<Rightarrow> resourceToValueMap \<Rightarrow> Pod \<Rightarrow> NodeInfo \<Rightarrow> i64 \<times> Status option" where
  "resourceAllocationScore f scorer weights pod nodeInfo =
     (if niNode nodeInfo = None then (0, NewStatus Error [''node not found''])
      else (let pairs = map (\<lambda>(resource, _). (resource, calculateResourceAllocatableRequest f nodeInfo pod resource)) weights;
                allocatable = fold (\<lambda>(r, a, _). mput r a) pairs [];
                requested = fold (\<lambda>(r, _, q). mput r q) pairs []
            in (if BalanceAttachedNodeVolumes f
                then scorer requested allocatable True (RequestedVolumes (niTransientInfo nodeInfo))
                       (AllocatableVolumesCount (niTransientInfo nodeInfo))
                else scorer requested allocatable False 0 0, None)))"

definition leastRequestedScore :: "i64 \<Rightarrow> i64 \<Rightarrow> i64" where
  "leastRequestedScore requested capacity =
     (if capacity = 0 then 0
      else if sint capacity < sint requested then 0
      else go_div ((capacity - requested) * MaxNodeScore) capacity)"

definition mostRequestedScore :: "i64 \<Rightarrow> i64 \<Rightarrow> i64" where
  "mostRequestedScore requested capacity =
     (if capacity = 0 then 0
      else if sint capacity < sint requested then 0
      else go_div (requested * MaxNodeScore) capacity)"

definition weightedScore :: "(i64 \<Rightarrow> i64 \<Rightarrow> i64) \<Rightarrow> resourceScorer" where
  "weightedScore sc requested allocable includeVolumes requestedVolumes allocatableVolumes =
     (let (nodeScore, weightSum) =
            fold (\<lambda>(resource, weight) (n, w).
                (n + sc (scalarGet requested resource) (scalarGet allocable resource) * weight, w + weight))
              defaultRequestedRatioResources (0, 0)
      in go_div nodeScore weightSum)"

definition leastResourceScorer :: resourceScorer where
  "leastResourceScorer = weightedScore leastRequestedScore"

definition mostResourceScorer :: resourceScorer where
  "mostResourceScorer = weightedScore mostRequestedScore"

definition leastAllocatedScore ::
  "features \<Rightarrow> (string \<Rightarrow> string + NodeInfo) \<Rightarrow> Pod \<Rightarrow> string \<Rightarrow> i64 \<times> Status option" where
  "leastAllocatedScore f get pod name =
     (case get name of
        Inl e \<Rightarrow> (0, NewStatus Error [''getting node '' @ quoted name @ '' from Snapshot: '' @ e])
      | Inr nodeInfo \<Rightarrow> resourceAllocationScore f leastResourceScorer defaultRequestedRatioResources pod nodeInfo)"

definition mostAllocatedScore ::
  "features \<Rightarrow> (string \<Rightarrow> string + NodeInfo) \<Rightarrow> Pod \<Rightarrow> string \<Rightarrow> i64 \<times> Status option" where
  "mostAllocatedScore f get pod name =
     (case get name of
        Inl e \<Rightarrow> (0, NewStatus Error
                       [''getting node '' @ quoted name @ '' from Snapshot: '' @ e @ '', node is nil: true''])
      | Inr nodeInfo \<Rightarrow>
          if niNode nodeInfo = None
          then (0, NewStatus Error [''getting node '' @ quoted name @ '' from Snapshot: <nil>, node is nil: true''])
          else resourceAllocationScore f mostResourceScorer defaultRequestedRatioResources pod nodeInfo)"

section \<open>The piecewise linear function (requested_to_capacity_ratio.go)\<close>

record functionShapePoint =
  fspUtilization :: i64
  fspScore :: i64

definition validateFunctionShape :: "functionShapePoint list \<Rightarrow> bool" where
  "validateFunctionShape shape \<longleftrightarrow>
     shape \<noteq> [] \<and>
     list_all (\<lambda>i. \<not> sint (fspUtilization (shape ! i)) \<le> sint (fspUtilization (shape ! (i - 1)))) [1..<length shape] \<and>
     list_all (\<lambda>point. \<not> sint (fspUtilization point) < 0 \<and> \<not> 100 < sint (fspUtilization point) \<and>
                       \<not> sint (fspScore point) < 0 \<and> \<not> sint MaxNodeScore < sint (fspScore point)) shape"

text \<open>The loop from the second point on; no result is the panic of an empty shape.\<close>

fun brokenSegments :: "functionShapePoint \<Rightarrow> functionShapePoint list \<Rightarrow> i64 \<Rightarrow> i64" where
  "brokenSegments prev [] p = fspScore prev"
| "brokenSegments prev (q # qs) p =
     (if sint p \<le> sint (fspUtilization q)
      then fspScore prev + go_div ((fspScore q - fspScore prev) * (p - fspUtilization prev))
                                  (fspUtilization q - fspUtilization prev)
      else brokenSegments q qs p)"

definition buildBrokenLinearFunction :: "functionShapePoint list \<Rightarrow> i64 \<Rightarrow> i64 option" where
  "buildBrokenLinearFunction shape p =
     (case shape of
        [] \<Rightarrow> None
      | q # qs \<Rightarrow> Some (if sint p \<le> sint (fspUtilization q) then fspScore q else brokenSegments q qs p))"

text \<open>A point of a valid shape.\<close>

definition shapePoint :: "functionShapePoint \<Rightarrow> bool" where
  "shapePoint q \<longleftrightarrow> 0 \<le> sint (fspUtilization q) \<and> sint (fspUtilization q) \<le> 100 \<and>
     0 \<le> sint (fspScore q) \<and> sint (fspScore q) \<le> 100"

section \<open>Lemmas\<close>

lemma sint_MaxNodeScore [simp]: "sint MaxNodeScore = 100"
  by (simp add: MaxNodeScore_def)

lemma sint_MinNodeScore [simp]: "sint MinNodeScore = 0"
  by (simp add: MinNodeScore_def)

lemma sdiv_nonneg: "0 \<le> a \<Longrightarrow> 0 < b \<Longrightarrow> a sdiv b = a div b" for a b :: int
  by (simp add: signed_divide_int_def sgn_if)

lemma sint_go_div_nonneg:
  "0 \<le> sint a \<Longrightarrow> 0 < sint b \<Longrightarrow> sint (go_div a b) = sint a div sint b"
  by (subst sint_go_div) (simp_all add: sdiv_nonneg)

lemma sint_times_MaxNodeScore:
  "0 \<le> sint s \<Longrightarrow> 100 * sint s < 2 ^ 63 \<Longrightarrow> sint (MaxNodeScore * s) = 100 * sint s"
  by (subst sint_times64) simp_all

lemma percent_bounds:
  assumes "0 \<le> s" and "s \<le> m" and "0 < m"
  shows "0 \<le> 100 * s div m \<and> 100 * s div m \<le> (100 :: int)"
  using zdiv_mono1 [of "100 * s" "100 * m" m] assms by (simp add: pos_imp_zdiv_nonneg_iff)

subsection \<open>Normalisation\<close>

lemma fold_max:
  fixes l :: "NodeScore list"
  defines "step \<equiv> \<lambda>ns m. if sint m < sint (nsScore ns) then nsScore ns else m"
  shows "sint a \<le> sint (fold step l a) \<and> (\<forall>ns \<in> set l. sint (nsScore ns) \<le> sint (fold step l a)) \<and>
    (fold step l a = a \<or> fold step l a \<in> nsScore ` set l)"
proof (induction l arbitrary: a)
  case (Cons x l)
  show ?case
    using Cons [of "step x a"] by (auto simp: step_def)
qed simp

text \<open>Raw scores that are not negative and small enough to be multiplied by 100 become scores the framework
  accepts, in the same or in the opposite order.\<close>

lemma DefaultNormalizeScore_spec:
  assumes "\<forall>ns \<in> set scores. 0 \<le> sint (nsScore ns) \<and> 100 * sint (nsScore ns) < 2 ^ 63"
  obtains h where "DefaultNormalizeScore MaxNodeScore rv scores = (None, map (\<lambda>ns. ns\<lparr>nsScore := h (nsScore ns)\<rparr>) scores)"
    and "\<forall>ns \<in> set scores. 0 \<le> sint (h (nsScore ns)) \<and> sint (h (nsScore ns)) \<le> 100"
    and "\<forall>x \<in> set scores. \<forall>y \<in> set scores. sint (nsScore x) \<le> sint (nsScore y) \<longrightarrow>
      (if rv then sint (h (nsScore y)) \<le> sint (h (nsScore x)) else sint (h (nsScore x)) \<le> sint (h (nsScore y)))"
proof -
  let ?step = "\<lambda>ns m. if sint m < sint (nsScore ns) then nsScore ns else m"
  define m where "m = fold ?step scores 0"
  have max: "0 \<le> sint m" "\<forall>ns \<in> set scores. sint (nsScore ns) \<le> sint m" "m = 0 \<or> m \<in> nsScore ` set scores"
    using fold_max [of 0 scores] by (simp_all add: m_def)
  show ?thesis
  proof (cases "m = 0")
    case True
    then have zero: "nsScore ns = 0" if "ns \<in> set scores" for ns
      using max(2) assms that by (force simp: sint_eq_iff)
    then have "scores = map (\<lambda>ns. ns\<lparr>nsScore := 0\<rparr>) scores" by (simp add: map_idI)
    then show ?thesis
      using True by (intro that [of "\<lambda>_. if rv then MaxNodeScore else 0"]) (auto simp: DefaultNormalizeScore_def m_def)
  next
    case False
    then have m: "0 < sint m" using max(1) by (auto simp: sint_eq_iff order_less_le)
    define h where "h s = (let score = go_div (MaxNodeScore * s) m in if rv then MaxNodeScore - score else score)" for s
    have q: "sint (go_div (MaxNodeScore * nsScore ns) m) = 100 * sint (nsScore ns) div sint m"
      and b: "0 \<le> 100 * sint (nsScore ns) div sint m" "100 * sint (nsScore ns) div sint m \<le> 100"
      if "ns \<in> set scores" for ns
      using assms max(2) m that percent_bounds [of "sint (nsScore ns)" "sint m"]
      by (simp_all add: sint_times_MaxNodeScore sint_go_div_nonneg)
    have h: "sint (h (nsScore ns)) = (if rv then 100 - 100 * sint (nsScore ns) div sint m
        else 100 * sint (nsScore ns) div sint m)" if "ns \<in> set scores" for ns
      using q [OF that] b [OF that] by (auto simp: h_def Let_def sint_simps)
    show ?thesis
    proof (rule that [of h])
      show "DefaultNormalizeScore MaxNodeScore rv scores = (None, map (\<lambda>ns. ns\<lparr>nsScore := h (nsScore ns)\<rparr>) scores)"
        using False by (simp add: DefaultNormalizeScore_def m_def h_def Let_def)
    qed (use h b m in \<open>auto intro!: zdiv_mono1\<close>)
  qed
qed

subsection \<open>Resource allocation\<close>

lemma leastRequestedScore_bounds:
  assumes "0 \<le> sint requested" and "0 \<le> sint capacity" and "100 * sint capacity < 2 ^ 63"
  shows "sint (leastRequestedScore requested capacity) =
     (if sint requested \<le> sint capacity \<and> capacity \<noteq> 0
      then 100 * (sint capacity - sint requested) div sint capacity else 0) \<and>
     0 \<le> sint (leastRequestedScore requested capacity) \<and> sint (leastRequestedScore requested capacity) \<le> 100"
proof (cases "sint requested \<le> sint capacity \<and> capacity \<noteq> 0")
  case True
  then have c: "0 < sint capacity" using assms by (auto simp: sint_eq_iff order_less_le)
  have d: "sint (capacity - requested) = sint capacity - sint requested"
    using assms True by (intro sint_minus64) auto
  then have "sint ((capacity - requested) * MaxNodeScore) = 100 * (sint capacity - sint requested)"
    using assms True sint_times_MaxNodeScore [of "capacity - requested"] by (simp add: mult.commute)
  then show ?thesis
    using True c assms percent_bounds [of "sint capacity - sint requested" "sint capacity"]
    by (simp add: leastRequestedScore_def sint_go_div_nonneg)
qed (auto simp: leastRequestedScore_def)

lemma mostRequestedScore_bounds:
  assumes "0 \<le> sint requested" and "0 \<le> sint capacity" and "100 * sint capacity < 2 ^ 63"
  shows "sint (mostRequestedScore requested capacity) =
     (if sint requested \<le> sint capacity \<and> capacity \<noteq> 0 then 100 * sint requested div sint capacity else 0) \<and>
     0 \<le> sint (mostRequestedScore requested capacity) \<and> sint (mostRequestedScore requested capacity) \<le> 100"
proof (cases "sint requested \<le> sint capacity \<and> capacity \<noteq> 0")
  case True
  then have c: "0 < sint capacity" using assms by (auto simp: sint_eq_iff order_less_le)
  have "sint (requested * MaxNodeScore) = 100 * sint requested"
    using assms True sint_times_MaxNodeScore [of requested] by (simp add: mult.commute)
  then show ?thesis
    using True c assms percent_bounds [of "sint requested" "sint capacity"]
    by (simp add: mostRequestedScore_def sint_go_div_nonneg)
qed (auto simp: mostRequestedScore_def)

text \<open>The average of two scores between 0 and 100 is one.\<close>

lemma weightedScore_bounds:
  assumes "\<And>r c. r \<in> {ResourceCPU, ResourceMemory} \<Longrightarrow>
      0 \<le> sint (sc (scalarGet requested r) (scalarGet allocable r)) \<and> sint (sc (scalarGet requested r) (scalarGet allocable r)) \<le> 100"
  shows "0 \<le> sint (weightedScore sc requested allocable v rv av) \<and> sint (weightedScore sc requested allocable v rv av) \<le> 100"
proof -
  let ?m = "sc (scalarGet requested ResourceMemory) (scalarGet allocable ResourceMemory)"
  let ?c = "sc (scalarGet requested ResourceCPU) (scalarGet allocable ResourceCPU)"
  have b: "0 \<le> sint ?m" "sint ?m \<le> 100" "0 \<le> sint ?c" "sint ?c \<le> 100" using assms by simp_all
  then have "sint (?m + ?c) = sint ?m + sint ?c" by (intro sint_plus64) auto
  then show ?thesis
    using b by (simp add: weightedScore_def defaultRequestedRatioResources_def sint_go_div_nonneg)
qed

subsection \<open>The piecewise linear function\<close>

lemma segment_bounds:
  fixes s1 s2 k m :: int
  assumes "0 \<le> k" and "k \<le> m" and "0 < m"
  shows "min s1 s2 \<le> s1 + (s2 - s1) * k sdiv m \<and> s1 + (s2 - s1) * k sdiv m \<le> max s1 s2"
proof (cases "s1 \<le> s2")
  case True
  have "(s2 - s1) * k div m \<le> (s2 - s1) * m div m" using assms True by (intro zdiv_mono1 mult_left_mono) auto
  then show ?thesis using True assms by (simp add: sdiv_nonneg pos_imp_zdiv_nonneg_iff)
next
  case False
  have eq: "(s2 - s1) * k sdiv m = - ((s1 - s2) * k div m)"
  proof (cases "k = 0")
    case False
    then have pos: "0 < (s1 - s2) * k" using \<open>\<not> s1 \<le> s2\<close> assms by simp
    have "(s2 - s1) * k = - ((s1 - s2) * k)" by (simp add: algebra_simps)
    then show ?thesis using assms pos by (simp only: signed_divide_int_def sgn_minus sgn_pos abs_minus_cancel abs_of_pos)
  qed (simp add: signed_divide_int_def)
  have "(s1 - s2) * k div m \<le> (s1 - s2) * m div m" using assms False by (intro zdiv_mono1 mult_left_mono) auto
  moreover have "0 \<le> (s1 - s2) * k div m" using assms False by (simp add: pos_imp_zdiv_nonneg_iff)
  ultimately show ?thesis using False assms eq by simp
qed

lemma segment_value:
  assumes "shapePoint a" and "shapePoint b" and "sint (fspUtilization a) < sint p" and "sint p \<le> sint (fspUtilization b)"
  shows "sint (fspScore a + go_div ((fspScore b - fspScore a) * (p - fspUtilization a)) (fspUtilization b - fspUtilization a)) =
     sint (fspScore a) + (sint (fspScore b) - sint (fspScore a)) * (sint p - sint (fspUtilization a))
       sdiv (sint (fspUtilization b) - sint (fspUtilization a))"
proof -
  let ?ds = "sint (fspScore b) - sint (fspScore a)" and ?k = "sint p - sint (fspUtilization a)"
    and ?m = "sint (fspUtilization b) - sint (fspUtilization a)"
  note pts = assms [unfolded shapePoint_def]
  have s: "sint (fspScore b - fspScore a) = ?ds" "sint (p - fspUtilization a) = ?k"
      "sint (fspUtilization b - fspUtilization a) = ?m"
    using pts by (auto intro!: sint_minus64)
  have "\<bar>?ds * ?k\<bar> \<le> 100 * 100" unfolding abs_mult using pts by (intro mult_mono) auto
  then have "sint ((fspScore b - fspScore a) * (p - fspUtilization a)) = ?ds * ?k"
    using s by (subst sint_times64) auto
  then have "sint (go_div ((fspScore b - fspScore a) * (p - fspUtilization a)) (fspUtilization b - fspUtilization a)) =
      ?ds * ?k sdiv ?m"
    using s pts by (subst sint_go_div) auto
  moreover note segment_bounds [of ?k ?m "sint (fspScore a)" "sint (fspScore b)"]
  ultimately show ?thesis using pts by (subst sint_plus64) auto
qed

lemma brokenSegments_bounds:
  assumes "shapePoint a" and "\<forall>q \<in> set qs. shapePoint q" and "sint (fspUtilization a) < sint p"
  shows "0 \<le> sint (brokenSegments a qs p) \<and> sint (brokenSegments a qs p) \<le> 100"
  using assms
proof (induction qs arbitrary: a)
  case (Cons q qs)
  show ?case
  proof (cases "sint p \<le> sint (fspUtilization q)")
    case True
    have "min (sint (fspScore a)) (sint (fspScore q)) \<le> sint (brokenSegments a (q # qs) p) \<and>
        sint (brokenSegments a (q # qs) p) \<le> max (sint (fspScore a)) (sint (fspScore q))"
      using segment_value [of a q p] segment_bounds Cons.prems True by simp
    then show ?thesis using Cons.prems by (auto simp: shapePoint_def)
  qed (use Cons in auto)
qed (simp add: shapePoint_def)

lemma buildBrokenLinearFunction_bounds:
  assumes "validateFunctionShape shape"
  shows "\<exists>v. buildBrokenLinearFunction shape p = Some v \<and> 0 \<le> sint v \<and> sint v \<le> 100"
proof -
  have "\<forall>q \<in> set shape. shapePoint q" and "shape \<noteq> []"
    using assms by (auto simp: validateFunctionShape_def shapePoint_def list_all_iff)
  then show ?thesis
    using brokenSegments_bounds by (cases shape) (auto simp: buildBrokenLinearFunction_def shapePoint_def)
qed

section \<open>Departures\<close>

text \<open>The overhead of a pod enters the request that resource scores use in whole cores, where everything else
  is in thousandths of a core: an overhead of 250m counts as 1m here, and as 250m on the node once the pod
  is added.\<close>

lemma cpu_overhead_in_cores:
  "let pod = zeroPod\<lparr>podSpec := podSpec zeroPod\<lparr>psOverhead := Some [(''cpu'', NewMilliQuantity 250)]\<rparr>\<rparr>
   in calculatePodResourceRequest defaultFeatures pod ResourceCPU = 1 \<and> podNonzeroCPU defaultFeatures pod = 250"
  by code_simp

end
