(* ===== verification/GenericScheduler.thy ===== *)
theory GenericScheduler
  imports ScorePlugins Snapshot SchedQueue
begin

text \<open>
  The scheduling algorithm (\<open>pkg/scheduler/core/generic_scheduler.go\<close>): how many nodes to look at, the filters
  on one node with the pods nominated to it, the parallel search for feasible nodes, the extenders, the
  total scores, the choice of a host, and \<open>Schedule\<close>, which composes them on a snapshot of the cache.

  The search runs \<open>checkNode\<close> in up to 16 goroutines that take indexes from a channel until it is empty or
  the context is cancelled (\<open>client-go/util/workqueue/parallelizer.go\<close>). A run of it is a list of actions:
  a worker takes the next index, or a check in flight ends, its effect on the shared variables being one
  atomic step. Actions that are not enabled do nothing; a run is over when nothing is in flight and no
  index will be taken. \<open>gens i\<close> is the value of the global generation counter that the \<open>i\<close>-th check sees; it
  only numbers clones that are dropped. The draws of \<open>selectHost\<close> are a sequence of functions, the \<open>k\<close>-th for the
  \<open>k\<close>-th call of \<open>rand.Intn\<close>. Extenders, the lister of volume claims and the framework are arguments.
\<close>

section \<open>Model\<close>

record Victims =
  vPods :: "Pod list"
  vNumPDBViolations :: i64

text \<open>\<open>map[*v1.Node]*extenderv1.Victims\<close>, the node pointers being those of a snapshot: one per node.\<close>

type_synonym nodeToVictims = "(Node, Victims) gomap"

record extender =
  extIsInterested :: "Pod \<Rightarrow> bool"
  extIsIgnorable :: bool
  extSupportsPreemption :: bool
  extFilter :: "Pod \<Rightarrow> Node list \<Rightarrow> string + Node list \<times> (string, string) gomap"
  extPrioritize :: "Pod \<Rightarrow> Node list \<Rightarrow> string + (string \<times> i64) list \<times> i64"
  extProcessPreemption :: "Pod \<Rightarrow> nodeToVictims \<Rightarrow> string + nodeToVictims"
  extIsBinder :: bool

record genericScheduler =
  gsCache :: schedulerCache
  gsQueue :: PriorityQueue
  gsExtenders :: "extender list"
  gsSnapshot :: Snapshot
  gsDisablePreemption :: bool
  gsPercentageOfNodesToScore :: i32
  gsEnableNonPreempting :: bool
  gsNextStartNodeIndex :: nat

type_synonym NodeToStatusMap = "(string, Status) gomap"

datatype schedErr = SErr string | ErrNoNodesAvailable | FitError nat NodeToStatusMap | SPanic

definition go_div32 :: "i32 \<Rightarrow> i32 \<Rightarrow> i32" where
  "go_div32 a b = word_of_int (sint a sdiv sint b)"

definition minFeasibleNodesToFind :: i32 where "minFeasibleNodesToFind = 100"
definition minFeasibleNodesPercentageToFind :: i32 where "minFeasibleNodesPercentageToFind = 5"

definition numFeasibleNodesToFind :: "i32 \<Rightarrow> i32 \<Rightarrow> i32" where
  "numFeasibleNodesToFind percentageOfNodesToScore numAllNodes =
     (if sint numAllNodes < sint minFeasibleNodesToFind \<or> 100 \<le> sint percentageOfNodesToScore then numAllNodes
      else (let adaptivePercentage =
                  (if sint percentageOfNodesToScore \<le> 0
                   then (let p = 50 - go_div32 numAllNodes 125 in
                         if sint p < sint minFeasibleNodesPercentageToFind then minFeasibleNodesPercentageToFind else p)
                   else percentageOfNodesToScore);
                numNodes = go_div32 (numAllNodes * adaptivePercentage) 100
            in if sint numNodes < sint minFeasibleNodesToFind then minFeasibleNodesToFind
               else if 500 < sint numNodes then 500 else numNodes))"

subsection \<open>One node\<close>

fun addNominated ::
  "features \<Rightarrow> 'd framework \<Rightarrow> Pod \<Rightarrow> Pod list \<Rightarrow> bool \<Rightarrow> 'd CycleState \<Rightarrow> int \<Rightarrow> NodeInfo \<Rightarrow>
   string + bool \<times> 'd CycleState \<times> NodeInfo" where
  "addNominated f fw pod [] podsAdded stateOut g nodeInfoOut = Inr (podsAdded, stateOut, nodeInfoOut)"
| "addNominated f fw pod (p # ps) podsAdded stateOut g nodeInfoOut =
     (if sint (GetPodPriority pod) \<le> sint (GetPodPriority p) \<and> podUID p \<noteq> podUID pod then
        (let (nodeInfoOut, g) = addPod f p g nodeInfoOut;
             (status, stateOut) = RunPreFilterExtensionAddPod fw stateOut pod p nodeInfoOut
         in case AsError status of
              Some e \<Rightarrow> Inl e
            | None \<Rightarrow> addNominated f fw pod ps True stateOut g nodeInfoOut)
      else addNominated f fw pod ps podsAdded stateOut g nodeInfoOut)"

definition addNominatedPods ::
  "features \<Rightarrow> PriorityQueue \<Rightarrow> 'd framework \<Rightarrow> Pod \<Rightarrow> 'd CycleState \<Rightarrow> int \<Rightarrow> NodeInfo \<Rightarrow>
   string + bool \<times> 'd CycleState \<times> NodeInfo" where
  "addNominatedPods f q fw pod state g nodeInfo =
     (case niNode nodeInfo of
        None \<Rightarrow> Inr (False, state, nodeInfo)
      | Some node \<Rightarrow>
          (let nominatedPods = NominatedPodsForNode q (nodeName node) in
           if nominatedPods = [] then Inr (False, state, nodeInfo)
           else addNominated f fw pod nominatedPods False (csClone state) g (nodeInfoClone nodeInfo)))"

definition runFiltersOn :: "'d framework \<Rightarrow> Pod \<Rightarrow> 'd CycleState \<Rightarrow> NodeInfo \<Rightarrow> string + Status option" where
  "runFiltersOn fw pod state nodeInfo =
     (let status = Merge (RunFilterPlugins fw state pod nodeInfo) in
      if \<not> IsSuccess status \<and> \<not> IsUnschedulable status then Inl (statusMessage status) else Inr status)"

text \<open>The two passes: with the nominated pods, and without them when some were added and the first pass
  succeeded.\<close>

definition podPassesFiltersOnNode ::
  "features \<Rightarrow> PriorityQueue \<Rightarrow> 'd framework \<Rightarrow> 'd CycleState \<Rightarrow> Pod \<Rightarrow> int \<Rightarrow> NodeInfo \<Rightarrow> string + bool \<times> Status option" where
  "podPassesFiltersOnNode f q fw state pod g info =
     (case addNominatedPods f q fw pod state g info of
        Inl e \<Rightarrow> Inl e
      | Inr (podsAdded, stateToUse, nodeInfoToUse) \<Rightarrow>
          (case runFiltersOn fw pod stateToUse nodeInfoToUse of
             Inl e \<Rightarrow> Inl e
           | Inr status \<Rightarrow>
               if \<not> podsAdded \<or> \<not> IsSuccess status then Inr (IsSuccess status, status)
               else (case runFiltersOn fw pod state info of
                       Inl e \<Rightarrow> Inl e
                     | Inr status \<Rightarrow> Inr (IsSuccess status, status))))"

subsection \<open>The parallel search\<close>

datatype searchAction = TakePiece | FinishPiece nat

record searchState =
  ssNext :: nat
  ssInflight :: "nat list"
  ssFiltered :: "Node list"
  ssStatuses :: NodeToStatusMap
  ssErr :: "string option"
  ssPanicked :: bool
  ssCancelled :: bool

definition searchStart :: searchState where
  "searchStart = \<lparr>ssNext = 0, ssInflight = [], ssFiltered = [], ssStatuses = [], ssErr = None, ssPanicked = False,
     ssCancelled = False\<rparr>"

text \<open>The effect of a check: \<open>passes\<close> is the answer of \<open>podPassesFiltersOnNode\<close> for the piece, \<open>node\<close> its node. The
  error channel keeps the first error. A node that is nil is the panic of the dereference that follows.\<close>

definition checkNode ::
  "(nat \<Rightarrow> string + bool \<times> Status option) \<Rightarrow> (nat \<Rightarrow> Node option) \<Rightarrow> nat \<Rightarrow> nat \<Rightarrow> searchState \<Rightarrow> searchState" where
  "checkNode passes node numNodesToFind i s =
     (case passes i of
        Inl e \<Rightarrow> s\<lparr>ssErr := (if ssErr s = None then Some e else ssErr s), ssCancelled := True\<rparr>
      | Inr (fits, status) \<Rightarrow>
          (case node i of
             None \<Rightarrow> s\<lparr>ssPanicked := True\<rparr>
           | Some n \<Rightarrow>
               if fits then
                 (if numNodesToFind < length (ssFiltered s) + 1 then s\<lparr>ssCancelled := True\<rparr>
                  else s\<lparr>ssFiltered := ssFiltered s @ [n]\<rparr>)
               else (case status of
                       None \<Rightarrow> s
                     | Some st \<Rightarrow> if \<not> IsSuccess (Some st) then s\<lparr>ssStatuses := mput (nodeName n) st (ssStatuses s)\<rparr> else s)))"

definition searchWorkers :: nat where "searchWorkers = 16"

definition searchAct ::
  "(nat \<Rightarrow> string + bool \<times> Status option) \<Rightarrow> (nat \<Rightarrow> Node option) \<Rightarrow> nat \<Rightarrow> nat \<Rightarrow> searchAction \<Rightarrow> searchState \<Rightarrow> searchState" where
  "searchAct passes node numNodesToFind pieces a s =
     (case a of
        TakePiece \<Rightarrow>
          if ssCancelled s \<or> pieces \<le> ssNext s \<or> searchWorkers \<le> length (ssInflight s) then s
          else s\<lparr>ssNext := ssNext s + 1, ssInflight := ssInflight s @ [ssNext s]\<rparr>
      | FinishPiece i \<Rightarrow>
          if i \<in> set (ssInflight s)
          then checkNode passes node numNodesToFind i (s\<lparr>ssInflight := remove1 i (ssInflight s)\<rparr>) else s)"

definition searchDone :: "nat \<Rightarrow> searchState \<Rightarrow> bool" where
  "searchDone pieces s \<longleftrightarrow> ssInflight s = [] \<and> (ssNext s = pieces \<or> ssCancelled s)"

definition pieceAt :: "NodeInfo list \<Rightarrow> nat \<Rightarrow> nat \<Rightarrow> NodeInfo" where
  "pieceAt allNodes start i = allNodes ! ((start + i) mod length allNodes)"

text \<open>No result is a run that is not over.\<close>

definition findNodesThatPassFilters ::
  "features \<Rightarrow> 'd framework \<Rightarrow> 'd CycleState \<Rightarrow> Pod \<Rightarrow> (nat \<Rightarrow> int) \<Rightarrow> searchAction list \<Rightarrow> genericScheduler \<Rightarrow>
   (genericScheduler \<times> (schedErr + Node list \<times> NodeToStatusMap)) option" where
  "findNodesThatPassFilters f fw state pod gens sched gs =
     (let allNodes = snapList (gsSnapshot gs); n = length allNodes;
          numNodesToFind = nat (sint (numFeasibleNodesToFind (gsPercentageOfNodesToScore gs) (word_of_nat n)))
      in if fwFilterPlugins fw = [] then
           (if n < numNodesToFind \<or> list_ex (\<lambda>ni. niNode ni = None) (take numNodesToFind allNodes) then Some (gs, Inl SPanic)
            else Some (gs\<lparr>gsNextStartNodeIndex := (gsNextStartNodeIndex gs + numNodesToFind) mod n\<rparr>,
                       Inr (List.map_filter niNode (take numNodesToFind allNodes), [])))
         else
           (let s = fold (searchAct (\<lambda>i. podPassesFiltersOnNode f (gsQueue gs) fw state pod (gens i)
                             (pieceAt allNodes (gsNextStartNodeIndex gs) i))
                           (\<lambda>i. niNode (pieceAt allNodes (gsNextStartNodeIndex gs) i)) numNodesToFind n)
                      sched searchStart
            in if \<not> searchDone n s then None
               else if ssPanicked s then Some (gs, Inl SPanic)
               else (let gs = gs\<lparr>gsNextStartNodeIndex :=
                           (gsNextStartNodeIndex gs + (length (ssFiltered s) + length (ssStatuses s))) mod n\<rparr>
                     in case ssErr s of
                          Some e \<Rightarrow> Some (gs, Inl (SErr e))
                        | None \<Rightarrow> Some (gs, Inr (ssFiltered s, ssStatuses s)))))"

subsection \<open>Extenders\<close>

definition addFailedNode :: "string \<times> string \<Rightarrow> NodeToStatusMap \<Rightarrow> NodeToStatusMap" where
  "addFailedNode = (\<lambda>(failedNodeName, failedMsg) statuses.
     case mget statuses failedNodeName of
       None \<Rightarrow> mput failedNodeName \<lparr>stCode = Code.Unschedulable, stReasons = [failedMsg]\<rparr> statuses
     | Some st \<Rightarrow> mput failedNodeName (AppendReason failedMsg st) statuses)"

fun findNodesThatPassExtenders ::
  "extender list \<Rightarrow> Pod \<Rightarrow> Node list \<Rightarrow> NodeToStatusMap \<Rightarrow> schedErr + Node list \<times> NodeToStatusMap" where
  "findNodesThatPassExtenders [] pod filtered statuses = Inr (filtered, statuses)"
| "findNodesThatPassExtenders (e # es) pod filtered statuses =
     (if filtered = [] then Inr (filtered, statuses)
      else if \<not> extIsInterested e pod then findNodesThatPassExtenders es pod filtered statuses
      else (case extFilter e pod filtered of
              Inl err \<Rightarrow> if extIsIgnorable e then findNodesThatPassExtenders es pod filtered statuses else Inl (SErr err)
            | Inr (filteredList, failedMap) \<Rightarrow>
                findNodesThatPassExtenders es pod filteredList (fold addFailedNode failedMap statuses)))"

definition findNodesThatFitPod ::
  "features \<Rightarrow> 'd framework \<Rightarrow> 'd CycleState \<Rightarrow> Pod \<Rightarrow> (nat \<Rightarrow> int) \<Rightarrow> searchAction list \<Rightarrow> genericScheduler \<Rightarrow>
   (genericScheduler \<times> (schedErr + Node list \<times> NodeToStatusMap)) option" where
  "findNodesThatFitPod f fw state pod gens sched gs =
     (case findNodesThatPassFilters f fw state pod gens sched gs of
        None \<Rightarrow> None
      | Some (gs, Inl e) \<Rightarrow> Some (gs, Inl e)
      | Some (gs, Inr (filtered, statuses)) \<Rightarrow>
          Some (gs, findNodesThatPassExtenders (gsExtenders gs) pod filtered statuses))"

subsection \<open>Scores and the choice of a host\<close>

definition extenderScores :: "extender list \<Rightarrow> Pod \<Rightarrow> Node list \<Rightarrow> (string, i64) gomap" where
  "extenderScores es pod nodes =
     fold (\<lambda>e combinedScores.
         if \<not> extIsInterested e pod then combinedScores
         else (case extPrioritize e pod nodes of
                 Inl _ \<Rightarrow> combinedScores
               | Inr (prioritizedList, weight) \<Rightarrow>
                   fold (\<lambda>(host, score) m. mput host (scalarGet m host + score * weight) m) prioritizedList combinedScores))
       es []"

definition maxExtenderPriority :: i64 where "maxExtenderPriority = 10"

definition prioritizeNodes ::
  "'d framework \<Rightarrow> extender list \<Rightarrow> 'd CycleState \<Rightarrow> Pod \<Rightarrow> Node list \<Rightarrow> string + NodeScore list" where
  "prioritizeNodes fw es state pod nodes =
     (if es = [] \<and> fwScorePlugins fw = [] then Inr (map (\<lambda>n. \<lparr>nsName = nodeName n, nsScore = 1\<rparr>) nodes)
      else (case RunScorePlugins fw state pod nodes of
              Inl status \<Rightarrow> Inl (statusMessage status)
            | Inr scoresMap \<Rightarrow>
                (let result = map (\<lambda>i. \<lparr>nsName = nodeName (nodes ! i),
                                        nsScore = fold (\<lambda>(_, l) score. score + nsScore (l ! i)) scoresMap 0\<rparr>) [0..<length nodes]
                 in if es \<noteq> []
                    then (let combinedScores = extenderScores es pod nodes in
                          Inr (map (\<lambda>ns. ns\<lparr>nsScore := nsScore ns +
                                 scalarGet combinedScores (nsName ns) * go_div MaxNodeScore maxExtenderPriority\<rparr>) result))
                    else Inr result)))"

text \<open>One round of the reservoir sampling: the largest score so far, the node, how many nodes had that score, and
  the number of draws made.\<close>

definition selectStep ::
  "(nat \<Rightarrow> nat \<Rightarrow> nat) \<Rightarrow> NodeScore \<Rightarrow> i64 \<times> string \<times> nat \<times> nat \<Rightarrow> i64 \<times> string \<times> nat \<times> nat" where
  "selectStep intn ns = (\<lambda>(maxScore, selected, cntOfMaxScore, k).
     if sint maxScore < sint (nsScore ns) then (nsScore ns, nsName ns, 1, k)
     else if nsScore ns = maxScore then
       (maxScore, if intn k (cntOfMaxScore + 1) = 0 then nsName ns else selected, cntOfMaxScore + 1, k + 1)
     else (maxScore, selected, cntOfMaxScore, k))"

definition selectHost :: "(nat \<Rightarrow> nat \<Rightarrow> nat) \<Rightarrow> NodeScore list \<Rightarrow> string + string" where
  "selectHost intn nodeScoreList =
     (case nodeScoreList of
        [] \<Rightarrow> Inl ''empty priorityList''
      | ns # rest \<Rightarrow>
          (let (_, selected, _, _) = fold (selectStep intn) rest (nsScore ns, nsName ns, 1, 0) in Inr selected))"

subsection \<open>Schedule\<close>

record ScheduleResult =
  SuggestedHost :: string
  EvaluatedNodes :: nat
  FeasibleNodes :: nat

text \<open>The lister of volume claims gives the metadata of a claim, or its error.\<close>

fun checkClaims :: "(string \<Rightarrow> string + ObjectMeta) \<Rightarrow> string option list \<Rightarrow> string option" where
  "checkClaims get [] = None"
| "checkClaims get (None # vs) = checkClaims get vs"
| "checkClaims get (Some pvcName # vs) =
     (case get pvcName of
        Inl e \<Rightarrow> Some e
      | Inr pvc \<Rightarrow> if omDeletionTimestamp pvc \<noteq> None
                   then Some (''persistentvolumeclaim '' @ quoted (omName pvc) @ '' is being deleted'')
                   else checkClaims get vs)"

definition podPassesBasicChecks :: "(string \<Rightarrow> string \<Rightarrow> string \<Rightarrow> string + ObjectMeta) \<Rightarrow> Pod \<Rightarrow> string option" where
  "podPassesBasicChecks pvcLister pod =
     checkClaims (pvcLister (podNamespace pod) (podTenant pod)) (psVolumes (podSpec pod))"

definition scheduleFiltered ::
  "'d framework \<Rightarrow> (nat \<Rightarrow> nat \<Rightarrow> nat) \<Rightarrow> extender list \<Rightarrow> nat \<Rightarrow> 'd CycleState \<Rightarrow> Pod \<Rightarrow> Node list \<Rightarrow> NodeToStatusMap \<Rightarrow>
   schedErr + ScheduleResult" where
  "scheduleFiltered fw intn es numAllNodes state pod filteredNodes statuses =
     (case filteredNodes of
        [] \<Rightarrow> Inl (FitError numAllNodes statuses)
      | node # others \<Rightarrow>
          (let (prescoreStatus, state) = RunPreScorePlugins fw state pod filteredNodes in
           case AsError prescoreStatus of
             Some e \<Rightarrow> Inl (SErr e)
           | None \<Rightarrow>
               if others = [] then
                 Inr \<lparr>SuggestedHost = nodeName node, EvaluatedNodes = 1 + length statuses, FeasibleNodes = 1\<rparr>
               else (case prioritizeNodes fw es state pod filteredNodes of
                       Inl e \<Rightarrow> Inl (SErr e)
                     | Inr priorityList \<Rightarrow>
                         (case selectHost intn priorityList of
                            Inl e \<Rightarrow> Inl (SErr e)
                          | Inr host \<Rightarrow> Inr \<lparr>SuggestedHost = host, EvaluatedNodes = length filteredNodes + length statuses,
                                             FeasibleNodes = length filteredNodes\<rparr>))))"

definition Schedule ::
  "features \<Rightarrow> (string \<Rightarrow> string \<Rightarrow> string \<Rightarrow> string + ObjectMeta) \<Rightarrow> 'd framework \<Rightarrow> (nat \<Rightarrow> int) \<Rightarrow> searchAction list \<Rightarrow>
   (nat \<Rightarrow> nat \<Rightarrow> nat) \<Rightarrow> 'd CycleState \<Rightarrow> Pod \<Rightarrow> genericScheduler \<Rightarrow> (genericScheduler \<times> (schedErr + ScheduleResult)) option" where
  "Schedule f pvcLister fw gens sched intn state pod gs =
     (case podPassesBasicChecks pvcLister pod of
        Some e \<Rightarrow> Some (gs, Inl (SErr e))
      | None \<Rightarrow>
          (case UpdateSnapshot f (gsCache gs) (gsSnapshot gs) of
             None \<Rightarrow> None
           | Some (c, sn, inconsistent) \<Rightarrow>
               (let gs = gs\<lparr>gsCache := c, gsSnapshot := sn\<rparr> in
                if inconsistent then Some (gs, Inl (SErr ''snapshot state is not consistent''))
                else if NumNodes sn = 0 then Some (gs, Inl ErrNoNodesAvailable)
                else (let (preFilterStatus, state) = RunPreFilterPlugins fw state pod in
                      case AsError preFilterStatus of
                        Some e \<Rightarrow> Some (gs, Inl (SErr e))
                      | None \<Rightarrow>
                          (case findNodesThatFitPod f fw state pod gens sched gs of
                             None \<Rightarrow> None
                           | Some (gs, Inl e) \<Rightarrow> Some (gs, Inl e)
                           | Some (gs, Inr (filteredNodes, statuses)) \<Rightarrow>
                               Some (gs, scheduleFiltered fw intn (gsExtenders gs) (NumNodes sn) state pod
                                           filteredNodes statuses))))))"

section \<open>What the search is specified against\<close>

definition pieceFits :: "(nat \<Rightarrow> string + bool \<times> Status option) \<Rightarrow> nat \<Rightarrow> bool" where
  "pieceFits passes i \<longleftrightarrow> (\<exists>st. passes i = Inr (True, st))"

text \<open>The state after the pieces \<open>ended\<close>, in the order in which they ended.\<close>

definition searchInv ::
  "(nat \<Rightarrow> string + bool \<times> Status option) \<Rightarrow> (nat \<Rightarrow> Node option) \<Rightarrow> nat \<Rightarrow> nat \<Rightarrow> nat list \<Rightarrow> searchState \<Rightarrow> bool" where
  "searchInv passes node N pieces ended s \<longleftrightarrow>
     distinct (ended @ ssInflight s) \<and> set (ended @ ssInflight s) = {..<ssNext s} \<and> ssNext s \<le> pieces \<and>
     (ssErr s = None \<longrightarrow> (\<forall>i \<in> set ended. \<not> isl (passes i))) \<and>
     (ssErr s = None \<and> \<not> ssPanicked s \<longrightarrow>
        map Some (ssFiltered s) = map node (take N (filter (pieceFits passes) ended)) \<and>
        (ssCancelled s \<longleftrightarrow> N < length (filter (pieceFits passes) ended)) \<and>
        (\<forall>(name, st) \<in> set (ssStatuses s). \<exists>i \<in> set ended. \<exists>n. \<not> pieceFits passes i \<and> node i = Some n \<and> nodeName n = name))"

text \<open>The run in which one worker does everything is over in the end.\<close>

definition oneWorker :: "nat \<Rightarrow> searchAction list" where
  "oneWorker k = concat (map (\<lambda>i. [TakePiece, FinishPiece i]) [0..<k])"

definition nodesWanted :: "genericScheduler \<Rightarrow> nat" where
  "nodesWanted gs = nat (sint (numFeasibleNodesToFind (gsPercentageOfNodesToScore gs)
     (word_of_nat (length (snapList (gsSnapshot gs))))))"

definition feasiblePiece ::
  "features \<Rightarrow> 'd framework \<Rightarrow> 'd CycleState \<Rightarrow> Pod \<Rightarrow> (nat \<Rightarrow> int) \<Rightarrow> genericScheduler \<Rightarrow> nat \<Rightarrow> bool" where
  "feasiblePiece f fw state pod gens gs i \<longleftrightarrow>
     pieceFits (\<lambda>i. podPassesFiltersOnNode f (gsQueue gs) fw state pod (gens i)
                     (pieceAt (snapList (gsSnapshot gs)) (gsNextStartNodeIndex gs) i)) i"

text \<open>\<open>NormalizeScore\<close> writes into the list it is given, and cannot change its length.\<close>

definition keepsLength :: "'d ScorePlugin \<Rightarrow> bool" where
  "keepsLength pl \<longleftrightarrow> (\<forall>ext st pod l. spNormalize pl = Some ext \<longrightarrow> length (snd (ext st pod l)) = length l)"

definition totalScore :: "(string, NodeScore list) gomap \<Rightarrow> nat \<Rightarrow> i64" where
  "totalScore scores j = (\<Sum>(_, l) \<leftarrow> scores. nsScore (l ! j))"

text \<open>A scheduler over two nodes, one of them cordoned, and a framework that refuses cordoned nodes.\<close>

definition freeNode :: Node where
  "freeNode = zeroNode\<lparr>nodeMeta := zeroMeta\<lparr>omName := ''free''\<rparr>\<rparr>"

definition cordonedNode :: Node where
  "cordonedNode = zeroNode\<lparr>nodeMeta := zeroMeta\<lparr>omName := ''cordoned''\<rparr>,
     nodeSpec := \<lparr>nsUnschedulable = True, nsTaints = []\<rparr>\<rparr>"

definition twoNodes :: genericScheduler where
  "twoNodes = \<lparr>gsCache = newSchedulerCache 30, gsQueue = NewPriorityQueue 1 10, gsExtenders = [],
     gsSnapshot = fst (NewSnapshot defaultFeatures [] [cordonedNode, freeNode] 0), gsDisablePreemption = False,
     gsPercentageOfNodesToScore = 0, gsEnableNonPreempting = False, gsNextStartNodeIndex = 0\<rparr>"

definition cordonFramework :: "unit framework" where
  "cordonFramework = \<lparr>fwPreFilterPlugins = [],
     fwFilterPlugins = [\<lparr>fpName = ''NodeUnschedulable'', fpFilter = (\<lambda>_. nodeUnschedulableFilter)\<rparr>],
     fwPreScorePlugins = [], fwScorePlugins = [], fwPluginNameToWeight = [], fwRunAllFilters = False\<rparr>"

section \<open>Lemmas\<close>

subsection \<open>The search\<close>

lemma searchInv_start: "searchInv passes node N pieces [] searchStart"
  by (simp add: searchInv_def searchStart_def)

lemma searchInv_take:
  assumes "searchInv passes node N pieces ended s"
  shows "searchInv passes node N pieces ended (searchAct passes node N pieces TakePiece s)"
  using assms unfolding searchInv_def searchAct_def by (auto simp: lessThan_Suc)

lemma checkNode_frame [simp]:
  "ssNext (checkNode passes node N i s) = ssNext s"
  "ssInflight (checkNode passes node N i s) = ssInflight s"
  by (auto simp: checkNode_def split: sum.split option.split)

lemma checkNode_ok:
  assumes "ssErr (checkNode passes node N i s) = None"
  shows "ssErr s = None" and "\<not> isl (passes i)"
  using assms by (auto simp: checkNode_def split: sum.splits option.splits if_splits)

text \<open>The effect of one check on the nodes found, the cancellation and the statuses.\<close>

lemma checkNode_effect:
  fixes fl :: "nat list"
  assumes ok: "ssErr (checkNode passes node N i s) = None" "\<not> ssPanicked (checkNode passes node N i s)"
    and found: "map Some (ssFiltered s) = map node (take N fl)" and cancelled: "ssCancelled s \<longleftrightarrow> N < length fl"
  shows "\<not> ssPanicked s"
    and "map Some (ssFiltered (checkNode passes node N i s)) =
       map node (take N (fl @ (if pieceFits passes i then [i] else [])))"
    and "ssCancelled (checkNode passes node N i s) \<longleftrightarrow> N < length (fl @ (if pieceFits passes i then [i] else []))"
    and "(name, st) \<in> set (ssStatuses (checkNode passes node N i s)) \<Longrightarrow>
       (name, st) \<in> set (ssStatuses s) \<or> (\<exists>n. \<not> pieceFits passes i \<and> node i = Some n \<and> nodeName n = name)"
proof -
  obtain fits status where p: "passes i = Inr (fits, status)"
    using ok(1) by (cases "passes i") (auto simp: checkNode_def split: if_splits)
  obtain n where n: "node i = Some n"
    using ok(2) p by (cases "node i") (auto simp: checkNode_def)
  have fit: "pieceFits passes i \<longleftrightarrow> fits" by (auto simp: pieceFits_def p)
  have len: "length (ssFiltered s) = min N (length fl)" using arg_cong [OF found, of length] by (simp add: min.commute)
  show "\<not> ssPanicked s"
    using ok(2) by (auto simp: checkNode_def p n split: if_splits option.splits)
  show "map Some (ssFiltered (checkNode passes node N i s)) = map node (take N (fl @ (if pieceFits passes i then [i] else [])))"
    using found len by (auto simp: checkNode_def p n fit split: option.split)
  show "ssCancelled (checkNode passes node N i s) \<longleftrightarrow> N < length (fl @ (if pieceFits passes i then [i] else []))"
    using cancelled len by (auto simp: checkNode_def p n fit split: option.split)
  show "(name, st) \<in> set (ssStatuses s) \<or> (\<exists>n. \<not> pieceFits passes i \<and> node i = Some n \<and> nodeName n = name)"
    if "(name, st) \<in> set (ssStatuses (checkNode passes node N i s))"
    using that mput_subset [of "nodeName n" _ "ssStatuses s"]
    by (auto simp: checkNode_def p n fit split: if_splits option.splits)
qed

lemma searchInv_finish:
  assumes inv: "searchInv passes node N pieces ended s" and i: "i \<in> set (ssInflight s)"
  shows "searchInv passes node N pieces (ended @ [i]) (searchAct passes node N pieces (FinishPiece i) s)"
proof -
  let ?s = "s\<lparr>ssInflight := remove1 i (ssInflight s)\<rparr>"
  let ?s' = "checkNode passes node N i ?s"
  have act: "searchAct passes node N pieces (FinishPiece i) s = ?s'" using i by (simp add: searchAct_def)
  have d: "distinct (ended @ ssInflight s)" and S: "set (ended @ ssInflight s) = {..<ssNext s}"
    using inv by (simp_all add: searchInv_def)
  have M: "mset ((ended @ [i]) @ remove1 i (ssInflight s)) = mset (ended @ ssInflight s)" using i by simp
  have perm: "distinct ((ended @ [i]) @ remove1 i (ssInflight s))"
      "set ((ended @ [i]) @ remove1 i (ssInflight s)) = {..<ssNext s}"
    using d S unfolding mset_eq_imp_distinct_iff [OF M] mset_eq_setD [OF M] by simp_all
  have state: "ssErr ?s = ssErr s" "ssPanicked ?s = ssPanicked s" "ssFiltered ?s = ssFiltered s"
      "ssCancelled ?s = ssCancelled s" "ssStatuses ?s = ssStatuses s" by simp_all
  note eff = checkNode_effect [of passes node N i ?s "filter (pieceFits passes) ended", unfolded state]
  have "map Some (ssFiltered ?s') = map node (take N (filter (pieceFits passes) (ended @ [i]))) \<and>
      (ssCancelled ?s' \<longleftrightarrow> N < length (filter (pieceFits passes) (ended @ [i]))) \<and>
      (\<forall>(name, st) \<in> set (ssStatuses ?s'). \<exists>j \<in> set (ended @ [i]). \<exists>n. \<not> pieceFits passes j \<and> node j = Some n \<and> nodeName n = name)"
    if "ssErr ?s' = None" "\<not> ssPanicked ?s'"
  proof -
    have np: "ssErr s = None" "\<not> ssPanicked s"
      using checkNode_ok(1) [OF that(1)] that(2) by (auto simp: checkNode_def split: sum.splits option.splits if_splits)
    then have old: "map Some (ssFiltered s) = map node (take N (filter (pieceFits passes) ended))"
        "ssCancelled s \<longleftrightarrow> N < length (filter (pieceFits passes) ended)"
        "\<forall>(name, st) \<in> set (ssStatuses s). \<exists>i \<in> set ended. \<exists>n. \<not> pieceFits passes i \<and> node i = Some n \<and> nodeName n = name"
      using inv by (simp_all add: searchInv_def)
    have "\<exists>j \<in> set (ended @ [i]). \<exists>n. \<not> pieceFits passes j \<and> node j = Some n \<and> nodeName n = name"
      if "(name, st) \<in> set (ssStatuses ?s')" for name st
      using eff(4) [OF \<open>ssErr ?s' = None\<close> \<open>\<not> ssPanicked ?s'\<close> old(1,2) that] old(3) by auto
    then have "\<forall>(name, st) \<in> set (ssStatuses ?s'). \<exists>j \<in> set (ended @ [i]). \<exists>n. \<not> pieceFits passes j \<and> node j = Some n \<and> nodeName n = name"
      by (simp only: split_paired_Ball_Sigma split_beta Ball_def split_paired_All) simp
    moreover have "filter (pieceFits passes) (ended @ [i]) =
        filter (pieceFits passes) ended @ (if pieceFits passes i then [i] else [])" by simp
    ultimately show ?thesis
      using eff(2,3) [OF that old(1,2)] by (simp only: simp_thms)
  qed
  moreover have "\<forall>j \<in> set (ended @ [i]). \<not> isl (passes j)" if "ssErr ?s' = None"
    using checkNode_ok [OF that] inv by (simp add: searchInv_def)
  moreover have "ssNext s \<le> pieces" using inv by (simp add: searchInv_def)
  ultimately show ?thesis
    using perm unfolding act searchInv_def by (simp only: checkNode_frame simp_thms) simp
qed

lemma searchInv_run:
  "searchInv passes node N pieces ended s \<Longrightarrow>
   \<exists>ended'. searchInv passes node N pieces ended' (fold (searchAct passes node N pieces) sched s)"
proof (induction sched arbitrary: ended s)
  case (Cons a sched)
  have "\<exists>ended'. searchInv passes node N pieces ended' (searchAct passes node N pieces a s)"
  proof (cases a)
    case (FinishPiece i)
    then show ?thesis
      using searchInv_finish [OF Cons.prems, of i] Cons.prems by (cases "i \<in> set (ssInflight s)") (auto simp: searchAct_def)
  qed (use searchInv_take [OF Cons.prems] in auto)
  then show ?case using Cons.IH by fastforce
qed auto

lemma search_result:
  assumes inv: "searchInv passes node N pieces ended s" and fin: "searchDone pieces s"
    and ok: "ssErr s = None" "\<not> ssPanicked s"
  defines "found \<equiv> take N (filter (pieceFits passes) ended)"
  shows "distinct found" and "set found \<subseteq> {i. i < pieces \<and> pieceFits passes i}"
    and "map Some (ssFiltered s) = map node found"
    and "length (ssFiltered s) = min N (card {i. i < pieces \<and> pieceFits passes i})"
    and "\<forall>(name, st) \<in> set (ssStatuses s). \<exists>i < pieces. \<exists>n. \<not> pieceFits passes i \<and> node i = Some n \<and> nodeName n = name"
proof -
  let ?F = "{i. i < pieces \<and> pieceFits passes i}" and ?fl = "filter (pieceFits passes) ended"
  have d: "distinct ended" and S: "set ended = {..<ssNext s}" and le: "ssNext s \<le> pieces"
    and m: "map Some (ssFiltered s) = map node found" and c: "ssCancelled s \<longleftrightarrow> N < length ?fl"
    using inv fin ok by (simp_all add: searchInv_def searchDone_def found_def)
  have st: "\<forall>(name, st) \<in> set (ssStatuses s). \<exists>i \<in> set ended. \<exists>n. \<not> pieceFits passes i \<and> node i = Some n \<and> nodeName n = name"
    using inv ok unfolding searchInv_def by blast
  show "map Some (ssFiltered s) = map node found" by (fact m)
  show "distinct found" using d by (simp add: found_def)
  have lt: "i < pieces" if "i \<in> set ended" for i using that S le by simp
  then have sub: "set ?fl \<subseteq> ?F" by (simp add: subset_iff)
  show "set found \<subseteq> ?F" unfolding found_def by (rule order_trans [OF set_take_subset sub])
  have len: "length ?fl = card (set ?fl)" using d distinct_card [of ?fl] by simp
  have le_card: "card (set ?fl) \<le> card ?F" using sub by (rule card_mono [rotated]) simp
  have "min N (length ?fl) = min N (card ?F)"
  proof (cases "ssNext s = pieces")
    case True
    then have "set ?fl = ?F" using S by auto
    then show ?thesis using len by simp
  next
    case False
    then have "N < length ?fl" using fin c by (simp add: searchDone_def)
    then show ?thesis using len le_card by simp
  qed
  then show "length (ssFiltered s) = min N (card ?F)"
    using arg_cong [OF m, of length] by (simp add: found_def min.commute)
  show "\<forall>(name, st) \<in> set (ssStatuses s). \<exists>i < pieces. \<exists>n. \<not> pieceFits passes i \<and> node i = Some n \<and> nodeName n = name"
    using st lt unfolding case_prod_unfold by blast
qed

lemma oneWorker_step:
  fixes passes :: "nat \<Rightarrow> string + bool \<times> Status option" and node :: "nat \<Rightarrow> Node option" and N :: nat
  assumes "ssInflight s = []" and "ssNext s = k \<or> ssCancelled s" and "k < pieces"
  defines "s' \<equiv> searchAct passes node N pieces (FinishPiece k) (searchAct passes node N pieces TakePiece s)"
  shows "ssInflight s' = [] \<and> (ssNext s' = Suc k \<or> ssCancelled s')"
  using assms by (cases "ssCancelled s") (simp_all add: searchAct_def searchWorkers_def)

lemma oneWorker_run:
  fixes passes :: "nat \<Rightarrow> string + bool \<times> Status option" and node :: "nat \<Rightarrow> Node option" and N :: nat
  assumes "k \<le> pieces"
  defines "s \<equiv> fold (searchAct passes node N pieces) (oneWorker k) searchStart"
  shows "ssInflight s = [] \<and> (ssNext s = k \<or> ssCancelled s)"
  using assms(1) unfolding s_def
proof (induction k)
  case (Suc k)
  let ?s = "fold (searchAct passes node N pieces) (oneWorker k) searchStart"
  have IH: "ssInflight ?s = [] \<and> (ssNext ?s = k \<or> ssCancelled ?s)" using Suc by simp
  have "fold (searchAct passes node N pieces) (oneWorker (Suc k)) searchStart =
      searchAct passes node N pieces (FinishPiece k) (searchAct passes node N pieces TakePiece ?s)"
    by (simp add: oneWorker_def)
  then show ?case using IH Suc.prems oneWorker_step [of ?s k pieces passes node N] by simp
qed (simp add: oneWorker_def searchStart_def)

lemma oneWorker_done:
  "searchDone pieces (fold (searchAct passes node N pieces) (oneWorker pieces) searchStart)"
  using oneWorker_run [of pieces pieces passes node N] by (simp add: searchDone_def)

subsection \<open>Scores\<close>

lemma selectStep_inv:
  assumes "\<exists>i < length seen. nsName (seen ! i) = sel \<and> nsScore (seen ! i) = m" and "\<forall>ns \<in> set seen. sint (nsScore ns) \<le> sint m"
  shows "\<exists>m' sel' c' k'. fold (selectStep intn) rest (m, sel, c, k) = (m', sel', c', k') \<and>
     (\<exists>i < length (seen @ rest). nsName ((seen @ rest) ! i) = sel' \<and> nsScore ((seen @ rest) ! i) = m') \<and>
     (\<forall>ns \<in> set (seen @ rest). sint (nsScore ns) \<le> sint m')"
  using assms
proof (induction rest arbitrary: seen m sel c k)
  case (Cons x rest)
  obtain i where i: "i < length seen" "nsName (seen ! i) = sel" "nsScore (seen ! i) = m" using Cons.prems(1) by blast
  have kept: "\<exists>i < length (seen @ [x]). nsName ((seen @ [x]) ! i) = sel \<and> nsScore ((seen @ [x]) ! i) = m"
    by (rule exI [of _ i]) (use i in \<open>simp add: nth_append\<close>)
  have new: "\<exists>i < length (seen @ [x]). nsName ((seen @ [x]) ! i) = nsName x \<and> nsScore ((seen @ [x]) ! i) = nsScore x"
    by (rule exI [of _ "length seen"]) simp
  obtain m1 sel1 c1 k1 where step: "selectStep intn x (m, sel, c, k) = (m1, sel1, c1, k1)" by (metis prod_cases4)
  have "\<exists>i < length (seen @ [x]). nsName ((seen @ [x]) ! i) = sel1 \<and> nsScore ((seen @ [x]) ! i) = m1"
    and "\<forall>ns \<in> set (seen @ [x]). sint (nsScore ns) \<le> sint m1"
    using step kept new Cons.prems(2) by (auto simp: selectStep_def split: if_splits)
  from Cons.IH [OF this, of c1 k1] show ?case by (simp add: step)
qed auto

lemma selectHost_max:
  assumes "l \<noteq> []"
  shows "\<exists>k < length l. selectHost intn l = Inr (nsName (l ! k)) \<and> (\<forall>ns \<in> set l. sint (nsScore ns) \<le> sint (nsScore (l ! k)))"
proof -
  obtain x rest where l: "l = x # rest" using assms by (cases l) auto
  have "\<exists>i < length [x]. nsName ([x] ! i) = nsName x \<and> nsScore ([x] ! i) = nsScore x" by simp
  from selectStep_inv [OF this, of intn rest 1 0] obtain m sel c k i
    where "fold (selectStep intn) rest (nsScore x, nsName x, 1, 0) = (m, sel, c, k)"
      "i < length l" "nsName (l ! i) = sel" "nsScore (l ! i) = m" "\<forall>ns \<in> set l. sint (nsScore ns) \<le> sint m"
    unfolding l by (simp only: append_Cons append_Nil) auto
  then show ?thesis by (intro exI [of _ i]) (auto simp: selectHost_def l)
qed

lemma forPlugins_all2:
  "forPlugins run xs = Inr ys \<Longrightarrow> list_all2 (\<lambda>(pl, x) (pl', y). pl' = pl \<and> run pl x = Inr y) xs ys"
  by (induction run xs arbitrary: ys rule: forPlugins.induct) (auto split: sum.splits)

lemma scoreNodes_length: "scoreNodes pl state pod ns = Inr l \<Longrightarrow> length l = length ns"
  by (induction ns arbitrary: l) (auto simp: Let_def split: sum.splits prod.splits if_splits)

lemma fold_mput_names:
  "(name, l) \<in> set (fold (\<lambda>(pl, l). mput (spName pl) l) ys m) \<Longrightarrow>
   (name, l) \<in> set m \<or> (\<exists>pl. (pl, l) \<in> set ys \<and> spName pl = name)"
proof (induction ys arbitrary: m)
  case (Cons y ys)
  obtain pl l' where y: "y = (pl, l')" by fastforce
  show ?case
    using Cons.IH [of "mput (spName pl) l' m"] Cons.prems mput_subset [of "spName pl" l' m] by (auto simp: y)
qed simp

text \<open>What a run of the Score plugins returns: for every plugin one weighted score per node, of a score the
  framework accepted.\<close>

lemma RunScorePlugins_spec:
  assumes run: "RunScorePlugins fw state pod nodes = Inr scores" and keeps: "\<forall>pl \<in> set (fwScorePlugins fw). keepsLength pl"
    and mem: "(name, l) \<in> set scores"
  shows "length l = length nodes \<and>
    (\<forall>ns \<in> set l. \<exists>s. 0 \<le> sint s \<and> sint s \<le> 100 \<and> nsScore ns = s * scalarGet (fwPluginNameToWeight fw) name)"
proof -
  obtain s1 s2 s3 where
    r: "forPlugins (\<lambda>pl _. scoreNodes pl state pod (map nodeName nodes)) (map (\<lambda>pl. (pl, ())) (fwScorePlugins fw)) = Inr s1"
      "forPlugins (\<lambda>pl l. normalizeScores pl state pod l) s1 = Inr s2"
      "forPlugins (\<lambda>pl l. weighScores fw (spName pl) l) s2 = Inr s3"
    and scores: "scores = fold (\<lambda>(pl, l). mput (spName pl) l) s3 []"
    using run by (auto simp: RunScorePlugins_def Let_def split: sum.splits)
  obtain pl where pl: "(pl, l) \<in> set s3" "spName pl = name" using fold_mput_names mem unfolding scores by fastforce
  obtain l2 where l2: "(pl, l2) \<in> set s2" "weighScores fw (spName pl) l2 = Inr l"
    using forPlugins_all2 [OF r(3)] pl(1) by (fastforce simp: list_all2_conv_all_nth in_set_conv_nth)
  obtain l1 where l1: "(pl, l1) \<in> set s1" "normalizeScores pl state pod l1 = Inr l2"
    using forPlugins_all2 [OF r(2)] l2(1) by (fastforce simp: list_all2_conv_all_nth in_set_conv_nth)
  have p: "pl \<in> set (fwScorePlugins fw)" "scoreNodes pl state pod (map nodeName nodes) = Inr l1"
    using forPlugins_all2 [OF r(1)] l1(1) by (fastforce simp: list_all2_conv_all_nth in_set_conv_nth)+
  have "length l2 = length l1"
  proof (cases "spNormalize pl")
    case (Some ext)
    then have "length (snd (ext state pod l1)) = length l1" using keeps p(1) by (simp add: keepsLength_def)
    then show ?thesis using l1(2) Some by (auto simp: normalizeScores_def split_beta Let_def split: if_splits)
  qed (use l1(2) in \<open>simp add: normalizeScores_def\<close>)
  moreover have "list_all validScore l2" "l = map (\<lambda>ns. ns\<lparr>nsScore := nsScore ns * scalarGet (fwPluginNameToWeight fw) name\<rparr>) l2"
    using l2(2) pl(2) by (auto simp: weighScores_def Let_def split: if_splits)
  ultimately show ?thesis
    using scoreNodes_length [OF p(2)] by (auto simp: validScore_def list_all_iff not_less)
qed

lemma fold_totalScore: "fold (\<lambda>(_, l) score. score + nsScore (l ! i)) scores a = a + totalScore scores i"
  by (induction scores arbitrary: a) (auto simp: totalScore_def algebra_simps)

lemma prioritizeNodes_total:
  assumes "prioritizeNodes fw [] state pod nodes = Inr pl"
  shows "map nsName pl = map nodeName nodes"
    and "fwScorePlugins fw \<noteq> [] \<Longrightarrow> \<exists>scores. RunScorePlugins fw state pod nodes = Inr scores \<and>
      (\<forall>i < length nodes. nsScore (pl ! i) = totalScore scores i)"
  using assms
  by (auto simp: prioritizeNodes_def Let_def fold_totalScore comp_def map_nth split: if_splits sum.splits
      intro!: nth_equalityI)

lemma scheduleFiltered_best:
  assumes r: "scheduleFiltered fw intn [] n state pod filtered statuses = Inr r"
    and keeps: "\<forall>pl \<in> set (fwScorePlugins fw). keepsLength pl"
  shows "\<exists>k < length filtered. SuggestedHost r = nodeName (filtered ! k) \<and> FeasibleNodes r = length filtered \<and>
    (1 < length filtered \<and> fwScorePlugins fw \<noteq> [] \<longrightarrow>
      (\<exists>scores. RunScorePlugins fw (snd (RunPreScorePlugins fw state pod filtered)) pod filtered = Inr scores \<and>
         (\<forall>j < length filtered. sint (totalScore scores j) \<le> sint (totalScore scores k))))"
proof -
  obtain node others where F: "filtered = node # others" using r by (cases filtered) (auto simp: scheduleFiltered_def)
  show ?thesis
  proof (cases "others = []")
    case True
    then show ?thesis
      using r by (auto simp: F scheduleFiltered_def Let_def split_beta split: option.splits)
  next
    case False
    let ?st = "snd (RunPreScorePlugins fw state pod filtered)"
    obtain pl host where pl: "prioritizeNodes fw [] ?st pod filtered = Inr pl" "selectHost intn pl = Inr host"
        "r = \<lparr>SuggestedHost = host, EvaluatedNodes = length filtered + length statuses, FeasibleNodes = length filtered\<rparr>"
      using r False by (auto simp: F scheduleFiltered_def Let_def split_beta split: option.splits sum.splits)
    note names = prioritizeNodes_total(1) [OF pl(1)]
    have len: "length pl = length filtered" using arg_cong [OF names, of length] by simp
    then have "pl \<noteq> []" using F by auto
    from selectHost_max [OF this] obtain k where k: "k < length pl" "host = nsName (pl ! k)"
        "\<forall>ns \<in> set pl. sint (nsScore ns) \<le> sint (nsScore (pl ! k))"
      using pl(2) by (metis Inr_inject)
    have "host = nodeName (filtered ! k)" using k names len by (metis nth_map)
    moreover have "\<exists>scores. RunScorePlugins fw ?st pod filtered = Inr scores \<and>
         (\<forall>j < length filtered. sint (totalScore scores j) \<le> sint (totalScore scores k))" if "fwScorePlugins fw \<noteq> []"
      using prioritizeNodes_total(2) [OF pl(1) that] k len by (metis nth_mem)
    ultimately show ?thesis using k(1) len pl(3) by (intro exI [of _ k]) simp
  qed
qed

lemma Schedule_InrD:
  assumes S: "Schedule f pvcLister fw gens sched intn state pod gs = Some (gs', Inr r)"
  obtains c sn filtered statuses where "UpdateSnapshot f (gsCache gs) (gsSnapshot gs) = Some (c, sn, False)"
    and "findNodesThatFitPod f fw (snd (RunPreFilterPlugins fw state pod)) pod gens sched
           (gs\<lparr>gsCache := c, gsSnapshot := sn\<rparr>) = Some (gs', Inr (filtered, statuses))"
    and "scheduleFiltered fw intn (gsExtenders gs') (NumNodes sn) (snd (RunPreFilterPlugins fw state pod)) pod filtered
           statuses = Inr r"
proof -
  have basic: "podPassesBasicChecks pvcLister pod = None"
    using S by (cases "podPassesBasicChecks pvcLister pod") (simp_all add: Schedule_def)
  obtain c sn b where u: "UpdateSnapshot f (gsCache gs) (gsSnapshot gs) = Some (c, sn, b)"
    using S by (cases "UpdateSnapshot f (gsCache gs) (gsSnapshot gs)") (auto simp: Schedule_def basic)
  obtain status st where p: "RunPreFilterPlugins fw state pod = (status, st)" by fastforce
  let ?gs = "gs\<lparr>gsCache := c, gsSnapshot := sn\<rparr>"
  have nb: "\<not> b" and nn: "NumNodes sn \<noteq> 0" using S by (auto simp: Schedule_def basic u Let_def split: if_splits)
  have ok: "AsError status = None"
    using S nb nn by (cases "AsError status") (simp_all add: Schedule_def basic u Let_def p)
  obtain gs1 res where fit: "findNodesThatFitPod f fw st pod gens sched ?gs = Some (gs1, res)"
    using S nb nn ok by (cases "findNodesThatFitPod f fw st pod gens sched ?gs") (auto simp: Schedule_def basic u Let_def p)
  show ?thesis
  proof (cases res)
    case (Inr fs)
    obtain fl sts where "fs = (fl, sts)" by fastforce
    then show ?thesis
      using S nb nn ok by (intro that [of c sn fl sts]) (auto simp: Schedule_def basic u Let_def p fit Inr)
  qed (use S nb nn ok in \<open>simp add: Schedule_def basic u Let_def p fit\<close>)
qed

lemma findNodesThatPassFilters_extenders:
  assumes "findNodesThatPassFilters f fw state pod gens sched gs = Some (gs', Inr x)"
  shows "gsExtenders gs' = gsExtenders gs"
  using assms by (auto simp: findNodesThatPassFilters_def Let_def split: if_splits option.splits)

lemma findNodesThatFitPod_InrD:
  assumes fit: "findNodesThatFitPod f fw state pod gens sched gs = Some (gs', Inr y)" and ext: "gsExtenders gs = []"
  shows "findNodesThatPassFilters f fw state pod gens sched gs = Some (gs', Inr y) \<and> gsExtenders gs' = []"
proof -
  obtain gs1 res where f: "findNodesThatPassFilters f fw state pod gens sched gs = Some (gs1, res)"
    using fit by (cases "findNodesThatPassFilters f fw state pod gens sched gs") (auto simp: findNodesThatFitPod_def)
  show ?thesis
  proof (cases res)
    case (Inr fs)
    obtain fl sts where fs: "fs = (fl, sts)" by fastforce
    have "gsExtenders gs1 = []" using findNodesThatPassFilters_extenders [of f fw state pod gens sched gs gs1 fs] f Inr ext by simp
    then show ?thesis using fit f Inr fs by (auto simp: findNodesThatFitPod_def)
  qed (use fit f in \<open>simp add: findNodesThatFitPod_def\<close>)
qed

subsection \<open>How many nodes\<close>

lemma sint_word_of_int32:
  assumes "- (2 ^ 31) \<le> k" and "k < 2 ^ 31"
  shows "sint (word_of_int k :: i32) = k"
  using assms by (simp add: sint_sbintrunc' signed_take_bit_int_eq_self)

lemma sint_minus32:
  fixes a b :: i32
  assumes "- (2 ^ 31) \<le> sint a - sint b" and "sint a - sint b < 2 ^ 31"
  shows "sint (a - b) = sint a - sint b"
proof -
  have "a - b = word_of_int (sint a - sint b)" by (simp add: wi_hom_sub [symmetric])
  then show ?thesis using sint_word_of_int32 [OF assms] by simp
qed

lemma sint_times32:
  fixes a b :: i32
  assumes "- (2 ^ 31) \<le> sint a * sint b" and "sint a * sint b < 2 ^ 31"
  shows "sint (a * b) = sint a * sint b"
proof -
  have "a * b = word_of_int (sint a * sint b)" by (simp add: wi_hom_mult [symmetric])
  then show ?thesis using sint_word_of_int32 [OF assms] by simp
qed

lemma sint_go_div32:
  assumes "0 \<le> sint a" and "0 < sint b"
  shows "sint (go_div32 a b) = sint a div sint b"
proof -
  have "sint a div sint b \<le> sint a div 1" using assms by (intro zdiv_mono2) auto
  moreover have "sint a < 2 ^ 31" using sint_lt [of a] by simp
  ultimately show ?thesis
    unfolding go_div32_def sdiv_nonneg [OF assms]
    using assms by (intro sint_word_of_int32) (auto simp: pos_imp_zdiv_nonneg_iff intro: order_trans [of _ 0])
qed

lemma numFeasibleNodesToFind_bounds:
  assumes "0 \<le> sint n" and "100 * sint n < 2 ^ 31"
  shows "numFeasibleNodesToFind p n = n \<and> (sint n < 100 \<or> 100 \<le> sint p) \<or>
    100 \<le> sint (numFeasibleNodesToFind p n) \<and> sint (numFeasibleNodesToFind p n) \<le> 500 \<and>
    sint (numFeasibleNodesToFind p n) \<le> sint n"
proof (cases "sint n < 100 \<or> 100 \<le> sint p")
  case False
  define a where "a = (if sint p \<le> 0 then (let q = 50 - go_div32 n 125 in if sint q < 5 then 5 else q) else p)"
  have q: "sint (go_div32 n 125) = sint n div 125" using assms by (simp add: sint_go_div32)
  have "sint n div 125 \<le> sint n" using assms by simp
  then have "sint (50 - go_div32 n 125) = 50 - sint n div 125"
    using q assms sint_minus32 [of 50 "go_div32 n 125"] by simp
  moreover have "0 \<le> sint n div 125" using assms by simp
  ultimately have a: "0 < sint a" "sint a \<le> 100" using False by (auto simp: a_def Let_def)
  have up: "sint n * sint a \<le> sint n * 100" using a assms by (intro mult_left_mono) auto
  have low: "0 \<le> sint n * sint a" using a assms by (intro mult_nonneg_nonneg) auto
  have prod: "sint (n * a) = sint n * sint a" using up low assms by (intro sint_times32) auto
  have "sint n * sint a div 100 \<le> sint n" using zdiv_mono1 [OF up, of 100] by simp
  then have "sint (go_div32 (n * a) 100) \<le> sint n" using low prod by (simp add: sint_go_div32)
  moreover have "numFeasibleNodesToFind p n =
      (let m = go_div32 (n * a) 100 in if sint m < 100 then 100 else if 500 < sint m then 500 else m)"
    using False by (simp add: numFeasibleNodesToFind_def a_def minFeasibleNodesToFind_def
        minFeasibleNodesPercentageToFind_def Let_def)
  ultimately show ?thesis using False by (simp add: Let_def)
qed (simp add: numFeasibleNodesToFind_def minFeasibleNodesToFind_def)

lemma sint_word_of_nat32: "100 * int n < 2 ^ 31 \<Longrightarrow> sint (word_of_nat n :: i32) = int n"
  using sint_word_of_int32 [of "int n"] by simp

lemma nodesWanted_bounds:
  assumes "100 * length (snapList (gsSnapshot gs)) < 2 ^ 31"
  shows "nodesWanted gs \<le> length (snapList (gsSnapshot gs))"
    and "min 100 (length (snapList (gsSnapshot gs))) \<le> nodesWanted gs"
proof -
  let ?n = "word_of_nat (length (snapList (gsSnapshot gs))) :: i32"
  have n: "sint ?n = int (length (snapList (gsSnapshot gs)))"
    using assms by (intro sint_word_of_nat32) simp
  then show "nodesWanted gs \<le> length (snapList (gsSnapshot gs))"
      "min 100 (length (snapList (gsSnapshot gs))) \<le> nodesWanted gs"
    using numFeasibleNodesToFind_bounds [of ?n "gsPercentageOfNodesToScore gs"] assms
    by (auto simp: nodesWanted_def)
qed

lemma found_shape:
  assumes "case r of Some (_, Inr (x, _)) \<Rightarrow> x = v | _ \<Rightarrow> False"
  obtains a b where "r = Some (a, Inr (v, b))"
proof (cases r)
  case (Some p)
  obtain a e where "p = (a, e)" by fastforce
  then show ?thesis using that assms Some by (cases e) auto
qed (use assms in simp)

section \<open>Properties\<close>





section \<open>Departures\<close>

text \<open>Without filter plugins the search moves the start index and does not use it: the next search returns the
  same nodes again.\<close>

lemma no_filters_same_nodes:
  assumes "fwFilterPlugins fw = []" and "findNodesThatPassFilters f fw state pod gens sched gs = Some (gs1, Inr x)"
  shows "\<exists>gs2. findNodesThatPassFilters f fw state pod gens sched gs1 = Some (gs2, Inr x)"
  using assms by (auto simp: findNodesThatPassFilters_def Let_def split: if_splits)

text \<open>The documented minimum percentage of nodes is not kept in a large cluster: of 20000 nodes 500 are enough.\<close>

lemma fewer_than_minimum_percentage:
  "sint (numFeasibleNodesToFind 0 20000) * 100 < sint minFeasibleNodesPercentageToFind * 20000"
  by code_simp

end
