(* ===== verification/Preemption.thy ===== *)
theory Preemption
  imports GenericScheduler "HOL-Library.Sublist" "HOL-Library.Product_Lexorder"
begin

text \<open>
  Preemption (\<open>pkg/scheduler/core/generic_scheduler.go\<close>): whether a pod may preempt, the victims on one node, the
  split of victims by disruption budgets, the extenders, the choice of a node, and \<open>Preempt\<close>, which
  composes them on the snapshot of the failed cycle.

  \<open>selectVictimsOnNode\<close> ranges over the slice of pods while \<open>RemovePod\<close> moves elements inside the same backing
  array; the array is kept explicitly. \<open>sort.Slice\<close> is an argument: it is not stable, and the comparison reads the
  clock for a pod that has not started, so that the \<open>n\<close>-th comparison may differ from an earlier one of the
  same pods. The lister of budgets is an argument. \<open>gens i\<close> is the generation counter the check of the
  \<open>i\<close>-th node sees. The nodes are checked in parallel without cancellation and the results go into a map, so
  that the order does not matter; here it is the order of the list. Logging is left out.
\<close>

section \<open>Model\<close>

record PodDisruptionBudget =
  pdbNamespace :: string
  pdbTenant :: string
  pdbSelector :: "LabelSelector option"
  pdbPodDisruptionsAllowed :: i32

fun selEmpty :: "Selector \<Rightarrow> bool" where
  "selEmpty SelNothing = False"
| "selEmpty (SelReqs rs) = (rs = [])"

definition pdbMatches :: "Pod \<Rightarrow> PodDisruptionBudget \<Rightarrow> bool" where
  "pdbMatches pod pdb =
     (if pdbNamespace pdb \<noteq> podNamespace pod \<or> pdbTenant pdb \<noteq> podTenant pod then False
      else (case LabelSelectorAsSelector (pdbSelector pdb) of
              None \<Rightarrow> False
            | Some selector \<Rightarrow> \<not> (selEmpty selector \<or> \<not> selMatches (omLabels (podMeta pod)) selector)))"

text \<open>The inner loop: the budgets with what they still allow, and whether one was violated.\<close>

fun chargeBudgets :: "Pod \<Rightarrow> (PodDisruptionBudget \<times> i32) list \<Rightarrow> (PodDisruptionBudget \<times> i32) list \<times> bool" where
  "chargeBudgets pod [] = ([], False)"
| "chargeBudgets pod ((pdb, allowed) # r) =
     (if \<not> pdbMatches pod pdb then (let (r, v) = chargeBudgets pod r in ((pdb, allowed) # r, v))
      else if sint allowed \<le> 0 then ((pdb, allowed) # r, True)
      else (let (r, v) = chargeBudgets pod r in ((pdb, allowed - 1) # r, v)))"

fun splitByBudgets :: "(PodDisruptionBudget \<times> i32) list \<Rightarrow> Pod list \<Rightarrow> Pod list \<times> Pod list" where
  "splitByBudgets budgets [] = ([], [])"
| "splitByBudgets budgets (pod # pods) =
     (let (budgets, violated) = (if omLabels (podMeta pod) \<noteq> [] then chargeBudgets pod budgets else (budgets, False));
          (violating, nonViolating) = splitByBudgets budgets pods
      in if violated then (pod # violating, nonViolating) else (violating, pod # nonViolating))"

definition filterPodsWithPDBViolation :: "Pod list \<Rightarrow> PodDisruptionBudget list \<Rightarrow> Pod list \<times> Pod list" where
  "filterPodsWithPDBViolation pods pdbs =
     splitByBudgets (map (\<lambda>pdb. (pdb, pdbPodDisruptionsAllowed pdb)) pdbs) pods"

subsection \<open>Victims on a node\<close>

text \<open>What the closures of \<open>selectVictimsOnNode\<close> change: the cycle state, the node info and the generation. No
  result is an error (or the panic of \<open>RemovePod\<close> on a node without its object), all of which make the node
  unsuitable.\<close>

type_synonym 'd trial = "'d CycleState \<times> NodeInfo \<times> int"

definition trialRemove :: "features \<Rightarrow> 'd framework \<Rightarrow> Pod \<Rightarrow> Pod \<Rightarrow> 'd trial \<Rightarrow> 'd trial option" where
  "trialRemove f fw pod rp = (\<lambda>(state, nodeInfo, g).
     case removePod f rp g nodeInfo of
       (nodeInfo, g, Some _) \<Rightarrow> None
     | (nodeInfo, g, None) \<Rightarrow>
         (let (status, state) = RunPreFilterExtensionRemovePod fw state pod rp nodeInfo in
          if \<not> IsSuccess status then None else Some (state, nodeInfo, g)))"

definition trialAdd :: "features \<Rightarrow> 'd framework \<Rightarrow> Pod \<Rightarrow> Pod \<Rightarrow> 'd trial \<Rightarrow> 'd trial option" where
  "trialAdd f fw pod ap = (\<lambda>(state, nodeInfo, g).
     let (nodeInfo, g) = addPod f ap g nodeInfo;
         (status, state) = RunPreFilterExtensionAddPod fw state pod ap nodeInfo
     in if \<not> IsSuccess status then None else Some (state, nodeInfo, g))"

text \<open>The first loop. \<open>arr\<close> is the backing array the range was started on: \<open>RemovePod\<close> writes the slots of the shorter
  slice and leaves the others as they were.\<close>

fun removeLower ::
  "features \<Rightarrow> 'd framework \<Rightarrow> Pod \<Rightarrow> nat \<Rightarrow> nat \<Rightarrow> Pod list \<Rightarrow> Pod list \<Rightarrow> 'd trial \<Rightarrow> (Pod list \<times> 'd trial) option" where
  "removeLower f fw pod 0 j arr victims t = Some (victims, t)"
| "removeLower f fw pod (Suc todo) j arr victims t =
     (let p = arr ! j in
      if sint (GetPodPriority p) < sint (GetPodPriority pod) then
        (case trialRemove f fw pod p t of
           None \<Rightarrow> None
         | Some t \<Rightarrow>
             (let pods = niPods (fst (snd t)) in
              removeLower f fw pod todo (Suc j) (pods @ drop (length pods) arr) (victims @ [p]) t))
      else removeLower f fw pod todo (Suc j) arr victims t)"

definition trialFits :: "features \<Rightarrow> PriorityQueue \<Rightarrow> 'd framework \<Rightarrow> Pod \<Rightarrow> 'd trial \<Rightarrow> bool" where
  "trialFits f q fw pod = (\<lambda>(state, nodeInfo, g).
     case podPassesFiltersOnNode f q fw state pod g nodeInfo of Inl _ \<Rightarrow> False | Inr (fits, _) \<Rightarrow> fits)"

definition reprievePod ::
  "features \<Rightarrow> PriorityQueue \<Rightarrow> 'd framework \<Rightarrow> Pod \<Rightarrow> Pod \<Rightarrow> 'd trial \<Rightarrow> (bool \<times> 'd trial) option" where
  "reprievePod f q fw pod p t =
     (case trialAdd f fw pod p t of
        None \<Rightarrow> None
      | Some t \<Rightarrow>
          if trialFits f q fw pod t then Some (True, t)
          else map_option (\<lambda>t. (False, t)) (trialRemove f fw pod p t))"

fun reprieveLoop ::
  "features \<Rightarrow> PriorityQueue \<Rightarrow> 'd framework \<Rightarrow> Pod \<Rightarrow> Pod list \<Rightarrow> Pod list \<Rightarrow> 'd trial \<Rightarrow> (Pod list \<times> 'd trial) option" where
  "reprieveLoop f q fw pod [] victims t = Some (victims, t)"
| "reprieveLoop f q fw pod (p # ps) victims t =
     (case reprievePod f q fw pod p t of
        None \<Rightarrow> None
      | Some (fits, t) \<Rightarrow> reprieveLoop f q fw pod ps (if fits then victims else victims @ [p]) t)"

type_synonym podSort = "(nat \<Rightarrow> Pod \<Rightarrow> Pod \<Rightarrow> bool) \<Rightarrow> Pod list \<Rightarrow> Pod list"

definition importance :: "clock \<Rightarrow> nat \<Rightarrow> Pod \<Rightarrow> Pod \<Rightarrow> bool" where
  "importance clock n a b = fst (MoreImportantPod clock (2 * n) a b)"

definition selectVictimsOnNode ::
  "features \<Rightarrow> podSort \<Rightarrow> clock \<Rightarrow> PriorityQueue \<Rightarrow> 'd framework \<Rightarrow> 'd CycleState \<Rightarrow> Pod \<Rightarrow> int \<Rightarrow> NodeInfo \<Rightarrow>
   PodDisruptionBudget list \<Rightarrow> (Pod list \<times> nat) option" where
  "selectVictimsOnNode f srt clock q fw state pod g nodeInfo pdbs =
     (case removeLower f fw pod (length (niPods nodeInfo)) 0 (niPods nodeInfo) [] (state, nodeInfo, g) of
        None \<Rightarrow> None
      | Some (potentialVictims, t) \<Rightarrow>
          if \<not> trialFits f q fw pod t then None
          else (let potentialVictims = srt (importance clock) potentialVictims;
                    (violatingVictims, nonViolatingVictims) = filterPodsWithPDBViolation potentialVictims pdbs
                in case reprieveLoop f q fw pod violatingVictims [] t of
                     None \<Rightarrow> None
                   | Some (victims, t) \<Rightarrow>
                       (let numViolatingVictim = length victims in
                        map_option (\<lambda>(victims, _). (victims, numViolatingVictim))
                          (reprieveLoop f q fw pod nonViolatingVictims victims t))))"

subsection \<open>All nodes\<close>

text \<open>A node info without its node is the nil pointer as a key; it is left out here, since every use of the key
  dereferences it.\<close>

fun selectNodesForPreemption ::
  "features \<Rightarrow> podSort \<Rightarrow> clock \<Rightarrow> PriorityQueue \<Rightarrow> 'd framework \<Rightarrow> 'd CycleState \<Rightarrow> Pod \<Rightarrow> (nat \<Rightarrow> int) \<Rightarrow>
   PodDisruptionBudget list \<Rightarrow> nat \<Rightarrow> NodeInfo list \<Rightarrow> nodeToVictims \<Rightarrow> nodeToVictims" where
  "selectNodesForPreemption f srt clock q fw state pod gens pdbs i [] m = m"
| "selectNodesForPreemption f srt clock q fw state pod gens pdbs i (ni # nis) m =
     (let m = (case (selectVictimsOnNode f srt clock q fw (csClone state) pod (gens i) (nodeInfoClone ni) pdbs, niNode ni) of
                 (Some (pods, numPDBViolations), Some node) \<Rightarrow>
                   mput node \<lparr>vPods = pods, vNumPDBViolations = word_of_nat numPDBViolations\<rparr> m
               | _ \<Rightarrow> m)
      in selectNodesForPreemption f srt clock q fw state pod gens pdbs (Suc i) nis m)"

fun processPreemptionWithExtenders :: "Pod \<Rightarrow> extender list \<Rightarrow> nodeToVictims \<Rightarrow> string + nodeToVictims" where
  "processPreemptionWithExtenders pod [] m = Inr m"
| "processPreemptionWithExtenders pod (e # es) m =
     (if m = [] then Inr m
      else if extSupportsPreemption e \<and> extIsInterested e pod then
        (case extProcessPreemption e pod m of
           Inl err \<Rightarrow> if extIsIgnorable e then processPreemptionWithExtenders pod es m else Inl err
         | Inr m \<Rightarrow> processPreemptionWithExtenders pod es m)
      else processPreemptionWithExtenders pod es m)"

subsection \<open>The choice of a node\<close>

text \<open>The four loops that keep the nodes with the least value: the least value so far and the nodes that have it.\<close>

definition keepLeast :: "('a \<Rightarrow> int) \<Rightarrow> int \<Rightarrow> 'a list \<Rightarrow> 'a list" where
  "keepLeast key init xs =
     snd (fold (\<lambda>x (least, kept).
            let (least, kept) = (if key x < least then (key x, []) else (least, kept))
            in (least, if key x = least then kept @ [x] else kept)) xs (init, []))"

definition maxInt32 :: int where "maxInt32 = 2 ^ 31 - 1"

definition highestPriority :: "Node \<times> Victims \<Rightarrow> int" where
  "highestPriority e = (case vPods (snd e) of p # _ \<Rightarrow> sint (GetPodPriority p) | [] \<Rightarrow> maxInt32)"

definition sumPriorities :: "Node \<times> Victims \<Rightarrow> int" where
  "sumPriorities e = sint (fold (\<lambda>p s. s + (scast (GetPodPriority p) + 0x80000000)) (vPods (snd e)) (0 :: i64))"

text \<open>The last loop: the node whose earliest start time among its most important victims is the latest.\<close>

fun latestStart ::
  "clock \<Rightarrow> nat \<Rightarrow> (Node \<times> Victims) list \<Rightarrow> int \<Rightarrow> Node \<Rightarrow> Node" where
  "latestStart clock k [] latestStartTime nodeToReturn = nodeToReturn"
| "latestStart clock k (e # es) latestStartTime nodeToReturn =
     (case GetEarliestPodStartTime clock k (vPods (snd e)) of
        (None, k) \<Rightarrow> latestStart clock k es latestStartTime nodeToReturn
      | (Some t, k) \<Rightarrow>
          if latestStartTime < t then latestStart clock k es t (fst e)
          else latestStart clock k es latestStartTime nodeToReturn)"

text \<open>A result \<open>None\<close> is the panic of an index out of range; \<open>Some None\<close> is nil. In the second and later loops every
  node has victims, so that \<open>victims.Pods[0]\<close> exists.\<close>

definition pickOneNodeForPreemption :: "clock \<Rightarrow> nodeToVictims \<Rightarrow> Node option option" where
  "pickOneNodeForPreemption clock nodesToVictims =
     (if nodesToVictims = [] then Some None
      else (case find (\<lambda>(_, v). vPods v = []) nodesToVictims of
              Some (node, _) \<Rightarrow> Some (Some node)
            | None \<Rightarrow>
                (let minNodes1 = keepLeast (\<lambda>(_, v). sint (vNumPDBViolations v)) maxInt32 nodesToVictims in
                 case minNodes1 of
                   [e] \<Rightarrow> Some (Some (fst e))
                 | _ \<Rightarrow>
                     (let minNodes2 = keepLeast highestPriority maxInt32 minNodes1 in
                      case minNodes2 of
                        [e] \<Rightarrow> Some (Some (fst e))
                      | _ \<Rightarrow>
                          (let minNodes1 = keepLeast sumPriorities (sint maxInt64) minNodes2 in
                           case minNodes1 of
                             [e] \<Rightarrow> Some (Some (fst e))
                           | _ \<Rightarrow>
                               (let minNodes2 = keepLeast (\<lambda>(_, v). int (length (vPods v))) maxInt32 minNodes1 in
                                case minNodes2 of
                                  [] \<Rightarrow> None
                                | e # es \<Rightarrow>
                                    if es = [] then Some (Some (fst e))
                                    else (case GetEarliestPodStartTime clock 0 (vPods (snd e)) of
                                            (None, k) \<Rightarrow> Some (Some (fst e))
                                          | (Some t, k) \<Rightarrow> Some (Some (latestStart clock k es t (fst e))))))))))"

subsection \<open>Preempt\<close>

text \<open>\<open>node.Node().Name\<close> of a node info without its node is a panic: no result.\<close>

fun nodesWherePreemptionMightHelp :: "NodeToStatusMap \<Rightarrow> NodeInfo list \<Rightarrow> NodeInfo list option" where
  "nodesWherePreemptionMightHelp statuses [] = Some []"
| "nodesWherePreemptionMightHelp statuses (ni # nis) =
     (case niNode ni of
        None \<Rightarrow> None
      | Some node \<Rightarrow>
          if statusCode (mget statuses (nodeName node)) = UnschedulableAndUnresolvable
          then nodesWherePreemptionMightHelp statuses nis
          else map_option (Cons ni) (nodesWherePreemptionMightHelp statuses nis))"

definition podEligibleToPreemptOthers :: "Pod \<Rightarrow> Snapshot \<Rightarrow> bool \<Rightarrow> bool" where
  "podEligibleToPreemptOthers pod sn enableNonPreempting =
     (if enableNonPreempting \<and> psPreemptionPolicy (podSpec pod) = Some ''Never'' then False
      else if pstNominatedNodeName (podStatus pod) \<noteq> [] then
        (case snapshotGet (pstNominatedNodeName (podStatus pod)) sn of
           None \<Rightarrow> True
         | Some nodeInfo \<Rightarrow>
             \<not> list_ex (\<lambda>p. omDeletionTimestamp (podMeta p) \<noteq> None \<and>
                  sint (GetPodPriority p) < sint (GetPodPriority pod)) (niPods nodeInfo))
      else True)"

definition getLowerPriorityNominatedPods :: "PriorityQueue \<Rightarrow> Pod \<Rightarrow> string \<Rightarrow> Pod list" where
  "getLowerPriorityNominatedPods q pod name =
     filter (\<lambda>p. sint (GetPodPriority p) < sint (GetPodPriority pod)) (NominatedPodsForNode q name)"

record preemption =
  preNode :: "Node option"
  preVictims :: "Pod list"
  preCleanup :: "Pod list"

definition noPreemption :: preemption where
  "noPreemption = \<lparr>preNode = None, preVictims = [], preCleanup = []\<rparr>"

definition pickAndFinish :: "clock \<Rightarrow> PriorityQueue \<Rightarrow> Pod \<Rightarrow> nodeToVictims \<Rightarrow> schedErr + preemption" where
  "pickAndFinish clock q pod m =
     (case pickOneNodeForPreemption clock m of
        None \<Rightarrow> Inl SPanic
      | Some None \<Rightarrow> Inr noPreemption
      | Some (Some candidateNode) \<Rightarrow>
          Inr \<lparr>preNode = Some candidateNode,
               preVictims = (case mget m candidateNode of Some v \<Rightarrow> vPods v | None \<Rightarrow> []),
               preCleanup = getLowerPriorityNominatedPods q pod (nodeName candidateNode)\<rparr>)"

definition Preempt ::
  "features \<Rightarrow> podSort \<Rightarrow> clock \<Rightarrow> (string + PodDisruptionBudget list) \<Rightarrow> (nat \<Rightarrow> int) \<Rightarrow> 'd framework \<Rightarrow> 'd CycleState \<Rightarrow>
   Pod \<Rightarrow> schedErr \<Rightarrow> genericScheduler \<Rightarrow> schedErr + preemption" where
  "Preempt f srt clock listPdbs gens fw state pod scheduleErr gs =
     (case scheduleErr of
        FitError _ statuses \<Rightarrow>
          if \<not> podEligibleToPreemptOthers pod (gsSnapshot gs) (gsEnableNonPreempting gs) then Inr noPreemption
          else (let allNodes = snapList (gsSnapshot gs) in
                if allNodes = [] then Inl ErrNoNodesAvailable
                else (case nodesWherePreemptionMightHelp statuses allNodes of
                        None \<Rightarrow> Inl SPanic
                      | Some potentialNodes \<Rightarrow>
                          if potentialNodes = [] then Inr (noPreemption\<lparr>preCleanup := [pod]\<rparr>)
                          else (case listPdbs of
                                  Inl e \<Rightarrow> Inl (SErr e)
                                | Inr pdbs \<Rightarrow>
                                    (case processPreemptionWithExtenders pod (gsExtenders gs)
                                            (selectNodesForPreemption f srt clock (gsQueue gs) fw state pod gens pdbs 0
                                               potentialNodes []) of
                                       Inl e \<Rightarrow> Inl (SErr e)
                                     | Inr m \<Rightarrow> pickAndFinish clock (gsQueue gs) pod m))))
      | _ \<Rightarrow> Inr noPreemption)"

section \<open>What preemption is specified against\<close>

text \<open>The pods a budget is charged for.\<close>

definition budgetCovers :: "PodDisruptionBudget \<Rightarrow> Pod \<Rightarrow> bool" where
  "budgetCovers pdb pod \<longleftrightarrow> omLabels (podMeta pod) \<noteq> [] \<and> pdbMatches pod pdb"

text \<open>What the charge of one pod does to a budget.\<close>

definition chargeStep :: "bool \<Rightarrow> Pod \<Rightarrow> PodDisruptionBudget \<times> i32 \<Rightarrow> PodDisruptionBudget \<times> i32 \<Rightarrow> bool" where
  "chargeStep violated pod b b' \<longleftrightarrow> fst b' = fst b \<and> sint (snd b') \<le> sint (snd b) \<and>
     (\<not> violated \<and> pdbMatches pod (fst b) \<longrightarrow> 0 < sint (snd b) \<and> sint (snd b') = sint (snd b) - 1)"

text \<open>What the documentation of \<open>pickOneNodeForPreemption\<close> ranks nodes by: budget violations, priority of the
  first victim, sum of priorities, number of victims, and the latest start of the most important victims.\<close>

definition startTime :: "Pod \<Rightarrow> int" where
  "startTime p = (case pstStartTime (podStatus p) of Some t \<Rightarrow> t | None \<Rightarrow> 0)"

definition victimStart :: "Node \<times> Victims \<Rightarrow> int" where
  "victimStart e = Min (startTime ` {p \<in> set (vPods (snd e)). \<forall>q \<in> set (vPods (snd e)). sint (GetPodPriority q) \<le> sint (GetPodPriority p)})"

definition victimRank :: "Node \<times> Victims \<Rightarrow> int \<times> int \<times> int \<times> int \<times> int" where
  "victimRank e = (sint (vNumPDBViolations (snd e)), highestPriority e, sumPriorities e, int (length (vPods (snd e))), - victimStart e)"

definition leastOf :: "('a \<Rightarrow> int) \<Rightarrow> 'a list \<Rightarrow> 'a list" where
  "leastOf key xs = filter (\<lambda>x. key x = Min (key ` set xs)) xs"

definition pickable :: "Node \<times> Victims \<Rightarrow> bool" where
  "pickable e \<longleftrightarrow> vPods (snd e) \<noteq> [] \<and> (\<forall>p \<in> set (vPods (snd e)). pstStartTime (podStatus p) \<noteq> None) \<and>
     sint (vNumPDBViolations (snd e)) \<le> maxInt32 \<and> int (length (vPods (snd e))) \<le> maxInt32"

section \<open>Lemmas\<close>

subsection \<open>Disruption budgets\<close>

lemma sint_decrement32: "0 < sint (a :: i32) \<Longrightarrow> sint (a - 1) = sint a - 1"
  using sint_minus32 [of a 1] sint_lt [of a] by simp

lemma chargeStep_refl: "\<not> pdbMatches pod (fst b) \<or> v \<Longrightarrow> chargeStep v pod b b"
  by (auto simp: chargeStep_def)

lemma chargeBudgets_spec:
  "chargeBudgets pod bs = (bs', v) \<Longrightarrow>
   list_all2 (chargeStep v pod) bs bs' \<and> (v \<longrightarrow> (\<exists>b \<in> set bs. pdbMatches pod (fst b)))"
proof (induction pod bs arbitrary: bs' v rule: chargeBudgets.induct)
  case (2 pod pdb allowed r)
  obtain r' v' where r': "chargeBudgets pod r = (r', v')" by fastforce
  have all_refl: "list_all2 (chargeStep True pod) r r" by (rule list_all2_refl) (simp add: chargeStep_refl)
  consider (skip) "\<not> pdbMatches pod pdb" | (violated) "pdbMatches pod pdb" "sint allowed \<le> 0"
    | (charge) "pdbMatches pod pdb" "0 < sint allowed" by linarith
  then show ?case
  proof cases
    case skip
    then show ?thesis using 2 r' by (auto simp: chargeStep_def)
  next
    case violated
    then show ?thesis using "2.prems" all_refl by (auto simp: chargeStep_refl)
  next
    case charge
    then show ?thesis using 2 r' by (auto simp: chargeStep_def sint_decrement32)
  qed
qed simp

lemma splitByBudgets_partition:
  "splitByBudgets bs pods = (v, nv) \<Longrightarrow> subseq v pods \<and> subseq nv pods \<and> mset v + mset nv = mset pods"
proof (induction bs pods arbitrary: v nv rule: splitByBudgets.induct)
  case (2 bs pod pods)
  then show ?case by (fastforce simp: Let_def split: prod.splits if_splits)
qed simp

text \<open>A budget never goes below zero for pods that do not violate it.\<close>

lemma splitByBudgets_step:
  assumes "splitByBudgets bs (pod # pods) = (v, nv)"
  obtains bs' viol v' nv' where "splitByBudgets bs' pods = (v', nv')"
    and "list_all2 (chargeStep (viol \<or> omLabels (podMeta pod) = []) pod) bs bs'"
    and "v = (if viol then pod # v' else v')" and "nv = (if viol then nv' else pod # nv')"
    and "viol \<longrightarrow> (\<exists>b \<in> set bs. budgetCovers (fst b) pod)"
proof (cases "omLabels (podMeta pod) = []")
  case True
  obtain v' nv' where r: "splitByBudgets bs pods = (v', nv')" by fastforce
  have "list_all2 (chargeStep (False \<or> omLabels (podMeta pod) = []) pod) bs bs"
    using True by (intro list_all2_refl) (simp add: chargeStep_refl)
  then show ?thesis using that [of bs v' nv' False] r True assms by simp
next
  case False
  obtain bs' viol where c: "chargeBudgets pod bs = (bs', viol)" by fastforce
  obtain v' nv' where r: "splitByBudgets bs' pods = (v', nv')" by fastforce
  show ?thesis
    using that [of bs' v' nv' viol] chargeBudgets_spec [OF c] r c False assms
    by (auto simp: budgetCovers_def Let_def split: if_splits)
qed

lemma splitByBudgets_bound:
  assumes "splitByBudgets bs pods = (v, nv)" and "i < length bs"
  shows "length (filter (budgetCovers (fst (bs ! i))) nv) \<le> nat (sint (snd (bs ! i)))"
  using assms
proof (induction pods arbitrary: bs v nv)
  case (Cons pod pods)
  obtain bs' viol v' nv' where step: "splitByBudgets bs' pods = (v', nv')"
      "list_all2 (chargeStep (viol \<or> omLabels (podMeta pod) = []) pod) bs bs'"
      "nv = (if viol then nv' else pod # nv')"
    using Cons.prems(1) by (rule splitByBudgets_step)
  have c: "chargeStep (viol \<or> omLabels (podMeta pod) = []) pod (bs ! i) (bs' ! i)" and "i < length bs'"
    using step(2) Cons.prems(2) by (auto simp: list_all2_conv_all_nth)
  note IH = Cons.IH [OF step(1) this(2)]
  show ?case
  proof (cases "\<not> viol \<and> budgetCovers (fst (bs ! i)) pod")
    case True
    then have "0 < sint (snd (bs ! i))" "sint (snd (bs' ! i)) = sint (snd (bs ! i)) - 1" "fst (bs' ! i) = fst (bs ! i)"
      using c by (auto simp: chargeStep_def budgetCovers_def)
    then show ?thesis using IH True step(3) by simp
  next
    case False
    then show ?thesis using IH c step(3) by (auto simp: chargeStep_def)
  qed
qed simp

lemma splitByBudgets_violating:
  assumes "splitByBudgets bs pods = (v, nv)" and "p \<in> set v"
  shows "\<exists>b \<in> set bs. budgetCovers (fst b) p"
  using assms
proof (induction pods arbitrary: bs v nv)
  case (Cons pod pods)
  obtain bs' viol v' nv' where step: "splitByBudgets bs' pods = (v', nv')"
      "list_all2 (chargeStep (viol \<or> omLabels (podMeta pod) = []) pod) bs bs'"
      "v = (if viol then pod # v' else v')" "viol \<longrightarrow> (\<exists>b \<in> set bs. budgetCovers (fst b) pod)"
    using Cons.prems(1) by (rule splitByBudgets_step)
  have names: "fst ` set bs' = fst ` set bs"
    using step(2) by (induction rule: list_all2_induct) (auto simp: chargeStep_def)
  show ?case
  proof (cases "p \<in> set v'")
    case True
    then have "\<exists>x \<in> fst ` set bs'. budgetCovers x p" using Cons.IH [OF step(1)] by blast
    then show ?thesis unfolding names by blast
  qed (use step Cons.prems(2) in \<open>auto split: if_splits\<close>)
qed simp

subsection \<open>The choice of a node\<close>

lemma keepLeast_step:
  fixes key :: "'a \<Rightarrow> int"
  assumes "\<forall>y \<in> set ys. m \<le> key y"
  shows "(let (least, kept) = (if key x < m then (key x, []) else (m, filter (\<lambda>x. key x = m) ys))
      in (least, if key x = least then kept @ [x] else kept)) =
      (min (key x) m, filter (\<lambda>y. key y = min (key x) m) (ys @ [x]))"
proof (cases "key x < m")
  case True
  then have "filter (\<lambda>y. key y = key x) ys = []" using assms by (auto simp: filter_empty_conv)
  then show ?thesis using True by simp
qed (auto simp: min_def)

lemma keepLeast_fold:
  fixes key :: "'a \<Rightarrow> int"
  shows "fold (\<lambda>x (least, kept).
      let (least, kept) = (if key x < least then (key x, []) else (least, kept))
      in (least, if key x = least then kept @ [x] else kept)) xs (Min (insert init (key ` set ys)),
      filter (\<lambda>x. key x = Min (insert init (key ` set ys))) ys) =
   (Min (insert init (key ` set (ys @ xs))), filter (\<lambda>x. key x = Min (insert init (key ` set (ys @ xs)))) (ys @ xs))"
proof (induction xs arbitrary: ys)
  case (Cons x xs)
  have m: "\<forall>y \<in> set ys. Min (insert init (key ` set ys)) \<le> key y" by simp
  have "Min (insert init (key ` set (ys @ [x]))) = min (key x) (Min (insert init (key ` set ys)))"
    using Min_insert [of "insert init (key ` set ys)" "key x"] by (simp add: insert_commute)
  then show ?case
    using Cons.IH [of "ys @ [x]"] keepLeast_step [OF m, of x] by (simp only: fold_simps append_assoc append_Cons append_Nil case_prod_conv)
qed simp

lemma keepLeast_eq:
  assumes "\<forall>x \<in> set xs. key x \<le> init"
  shows "keepLeast key init xs = leastOf key xs"
proof -
  have "keepLeast key init xs = filter (\<lambda>x. key x = Min (insert init (key ` set xs))) xs"
    using keepLeast_fold [of key xs init "[]"] by (simp add: keepLeast_def)
  moreover have "Min (insert init (key ` set xs)) = Min (key ` set xs)" if ne: "xs \<noteq> []"
  proof -
    obtain x where "x \<in> set xs" using ne by (cases xs) auto
    then have "Min (key ` set xs) \<le> key x" and "key x \<le> init" using assms by simp_all
    then have "Min (key ` set xs) \<le> init" by (rule order_trans)
    then show ?thesis using ne by (simp add: Min_insert)
  qed
  ultimately show ?thesis by (cases "xs = []") (auto simp: leastOf_def)
qed

lemma leastOf_simps [simp]: "leastOf key [] = []" "leastOf key [x] = [x]"
  by (simp_all add: leastOf_def)

lemma leastOf_mem:
  "x \<in> set (leastOf key xs) \<longleftrightarrow> x \<in> set xs \<and> (\<forall>y \<in> set xs. key x \<le> key y)"
proof -
  have "key x = Min (key ` set xs) \<longleftrightarrow> (\<forall>y \<in> set xs. key x \<le> key y)" if "x \<in> set xs"
  proof
    assume "\<forall>y \<in> set xs. key x \<le> key y"
    then have "Min (key ` set xs) = key x" using that by (intro Min_eqI) auto
    then show "key x = Min (key ` set xs)" by simp
  qed simp
  then show ?thesis by (auto simp: leastOf_def)
qed

lemma leastOf_not_Nil: "xs \<noteq> [] \<Longrightarrow> leastOf key xs \<noteq> []"
proof -
  assume "xs \<noteq> []"
  then have "Min (key ` set xs) \<in> key ` set xs" by (intro Min_in) auto
  then show ?thesis by (auto simp: leastOf_def filter_empty_conv)
qed

lemma victimStart_earliest:
  assumes "vPods (snd e) \<noteq> []" and "\<forall>p \<in> set (vPods (snd e)). pstStartTime (podStatus p) \<noteq> None"
  shows "GetEarliestPodStartTime clock k (vPods (snd e)) = (Some (victimStart e), k)"
proof -
  have "\<And>p. p \<in> set (vPods (snd e)) \<Longrightarrow> pstStartTime (podStatus p) = Some (startTime p)"
    using assms(2) by (auto simp: startTime_def)
  from GetEarliestPodStartTime_started [OF this assms(1), of clock k]
  obtain p1 where p1: "firstStarted startTime (set (vPods (snd e))) p1"
      "GetEarliestPodStartTime clock k (vPods (snd e)) = (Some (startTime p1), k)" by blast
  let ?S = "{p \<in> set (vPods (snd e)). \<forall>q \<in> set (vPods (snd e)). sint (GetPodPriority q) \<le> sint (GetPodPriority p)}"
  have "p1 \<in> ?S" using p1(1) by (simp add: firstStarted_def)
  moreover have "startTime p1 \<le> startTime q" if "q \<in> ?S" for q
  proof -
    have "sint (GetPodPriority q) = sint (GetPodPriority p1)" using that \<open>p1 \<in> ?S\<close> by (auto intro: antisym)
    then show ?thesis using p1(1) that by (simp add: firstStarted_def sint_eq_iff)
  qed
  ultimately have "victimStart e = startTime p1" unfolding victimStart_def by (intro Min_eqI) auto
  then show ?thesis using p1(2) by simp
qed

lemma latestStart_spec:
  assumes "\<forall>e \<in> set es. vPods (snd e) \<noteq> [] \<and> (\<forall>p \<in> set (vPods (snd e)). pstStartTime (podStatus p) \<noteq> None)"
  shows "\<exists>e \<in> set (e0 # es). latestStart clock k es (victimStart e0) (fst e0) = fst e \<and>
    (\<forall>x \<in> set (e0 # es). victimStart x \<le> victimStart e)"
  using assms
proof (induction es arbitrary: e0)
  case (Cons a es)
  have a: "GetEarliestPodStartTime clock k (vPods (snd a)) = (Some (victimStart a), k)"
    using Cons.prems by (intro victimStart_earliest) auto
  show ?case
  proof (cases "victimStart e0 < victimStart a")
    case True
    then show ?thesis using Cons.IH [of a] Cons.prems a by (auto intro: less_imp_le order_less_le_trans)
  next
    case False
    then show ?thesis using Cons.IH [of e0] Cons.prems a by (auto intro: order_trans)
  qed
qed auto

lemma highestPriority_le: "highestPriority e \<le> maxInt32"
proof -
  have "sint p \<le> maxInt32" for p :: i32 using sint_lt [of p] by (simp add: maxInt32_def)
  then show ?thesis by (simp add: highestPriority_def split: list.split)
qed

lemma sumPriorities_le: "sumPriorities e \<le> sint maxInt64"
proof -
  have "sint x \<le> sint maxInt64" for x :: i64 using sint64_less [of x] by simp
  then show ?thesis unfolding sumPriorities_def .
qed

lemma least_lex:
  "e \<in> set (leastOf key xs) \<Longrightarrow> x \<in> set xs \<Longrightarrow> key e < key x \<or> key e = key x \<and> x \<in> set (leastOf key xs)"
  by (force simp: leastOf_mem)

lemma pick_rest:
  assumes "xs \<noteq> []" and "\<forall>e \<in> set xs. vPods (snd e) \<noteq> [] \<and> (\<forall>p \<in> set (vPods (snd e)). pstStartTime (podStatus p) \<noteq> None)"
  shows "\<exists>e \<in> set xs. (case xs of
        [] \<Rightarrow> None
      | e # es \<Rightarrow>
          if es = [] then Some (Some (fst e))
          else (case GetEarliestPodStartTime clock 0 (vPods (snd e)) of
                  (None, k) \<Rightarrow> Some (Some (fst e))
                | (Some t, k) \<Rightarrow> Some (Some (latestStart clock k es t (fst e))))) = Some (Some (fst e)) \<and>
      (\<forall>x \<in> set xs. - victimStart e \<le> - victimStart x)"
proof -
  obtain e0 es where xs: "xs = e0 # es" using assms(1) by (cases xs) auto
  have e0: "GetEarliestPodStartTime clock 0 (vPods (snd e0)) = (Some (victimStart e0), 0)"
    using assms(2) by (intro victimStart_earliest) (auto simp: xs)
  show ?thesis
  proof (cases "es = []")
    case False
    then show ?thesis using latestStart_spec [of es e0 clock 0] assms(2) e0 by (simp add: xs)
  qed (simp add: xs)
qed

text \<open>Every stage keeps the nodes that are least so far, and a stage that is left early would not change its one
  node: the node picked is in the last stage.\<close>

lemma pick_last_stage:
  assumes "m \<noteq> []" and "\<forall>e \<in> set m. pickable e"
  defines "L4 \<equiv> leastOf (\<lambda>e. int (length (vPods (snd e)))) (leastOf sumPriorities (leastOf highestPriority
      (leastOf (\<lambda>e. sint (vNumPDBViolations (snd e))) m)))"
  shows "\<exists>e \<in> set L4. pickOneNodeForPreemption clock m = Some (Some (fst e)) \<and> (\<forall>x \<in> set L4. - victimStart e \<le> - victimStart x)"
proof -
  define L1 where "L1 = leastOf (\<lambda>e. sint (vNumPDBViolations (snd e))) m"
  define L2 where "L2 = leastOf highestPriority L1"
  define L3 where "L3 = leastOf sumPriorities L2"
  have L4: "L4 = leastOf (\<lambda>e. int (length (vPods (snd e)))) L3" by (simp add: L4_def L1_def L2_def L3_def)
  have sub: "set L1 \<subseteq> set m" "set L3 \<subseteq> set m" "set L4 \<subseteq> set m"
    unfolding L4 L3_def L2_def L1_def by (auto simp: leastOf_mem)
  have eqs: "keepLeast (\<lambda>(_, v). sint (vNumPDBViolations v)) maxInt32 m = L1" "keepLeast highestPriority maxInt32 L1 = L2"
      "keepLeast sumPriorities (sint maxInt64) L2 = L3" "keepLeast (\<lambda>(_, v). int (length (vPods v))) maxInt32 L3 = L4"
    unfolding L1_def L2_def L3_def L4 case_prod_unfold using assms(2) sub
    by (auto intro!: keepLeast_eq simp: highestPriority_le sumPriorities_le pickable_def leastOf_mem simp del: sint_maxInt64)
  have ne: "L1 \<noteq> []" "L2 \<noteq> []" "L3 \<noteq> []" "L4 \<noteq> []"
    unfolding L4 L3_def L2_def L1_def by (simp_all add: leastOf_not_Nil assms(1))
  have none: "find (\<lambda>(_, v). vPods v = []) m = None"
    using assms(2) by (auto simp: find_None_iff pickable_def)
  have "\<forall>e \<in> set L4. vPods (snd e) \<noteq> [] \<and> (\<forall>p \<in> set (vPods (snd e)). pstStartTime (podStatus p) \<noteq> None)"
    using assms(2) sub(3) by (auto simp: pickable_def)
  note last = pick_rest [OF ne(4) this, of clock]
  have single: "L4 = [e]" if "L1 = [e] \<or> L2 = [e] \<or> L3 = [e]" for e
    using that unfolding L4 L3_def L2_def by auto
  have unfold: "pickOneNodeForPreemption clock m =
      (case L1 of [e] \<Rightarrow> Some (Some (fst e)) | _ \<Rightarrow> case L2 of [e] \<Rightarrow> Some (Some (fst e)) | _ \<Rightarrow>
       case L3 of [e] \<Rightarrow> Some (Some (fst e)) | _ \<Rightarrow> case L4 of [] \<Rightarrow> None | e # es \<Rightarrow>
         if es = [] then Some (Some (fst e))
         else (case GetEarliestPodStartTime clock 0 (vPods (snd e)) of
                 (None, k) \<Rightarrow> Some (Some (fst e))
               | (Some t, k) \<Rightarrow> Some (Some (latestStart clock k es t (fst e)))))"
    unfolding pickOneNodeForPreemption_def Let_def eqs none using assms(1) by simp
  show ?thesis
  proof (cases "\<exists>e. L1 = [e] \<or> L2 = [e] \<or> L3 = [e]")
    case True
    then obtain e where e: "L1 = [e] \<or> L2 = [e] \<or> L3 = [e]" by blast
    have "pickOneNodeForPreemption clock m = Some (Some (fst e))"
      using e single [OF e] unfolding unfold L4 L3_def L2_def by (auto split: list.split)
    then show ?thesis using single [OF e] by simp
  next
    case False
    then have "pickOneNodeForPreemption clock m = (case L4 of [] \<Rightarrow> None | e # es \<Rightarrow>
         if es = [] then Some (Some (fst e))
         else (case GetEarliestPodStartTime clock 0 (vPods (snd e)) of
                 (None, k) \<Rightarrow> Some (Some (fst e))
               | (Some t, k) \<Rightarrow> Some (Some (latestStart clock k es t (fst e)))))"
      unfolding unfold by (simp split: list.split)
    then show ?thesis using last by simp
  qed
qed

section \<open>Properties\<close>

text \<open>C24: the split of the victims by disruption budgets is a partition that keeps their order; the victims that
  are called not violating stay within every budget that covers them, and a victim that is called violating
  is covered by some budget.\<close>

theorem pdb_split_within_budgets:
  assumes "filterPodsWithPDBViolation pods pdbs = (violating, nonViolating)"
  shows "subseq violating pods \<and> subseq nonViolating pods \<and> mset violating + mset nonViolating = mset pods \<and>
    (\<forall>pdb \<in> set pdbs. length (filter (budgetCovers pdb) nonViolating) \<le> nat (sint (pdbPodDisruptionsAllowed pdb))) \<and>
    (\<forall>p \<in> set violating. \<exists>pdb \<in> set pdbs. budgetCovers pdb p)"
proof -
  let ?bs = "map (\<lambda>pdb. (pdb, pdbPodDisruptionsAllowed pdb)) pdbs"
  have s: "splitByBudgets ?bs pods = (violating, nonViolating)"
    using assms by (simp add: filterPodsWithPDBViolation_def)
  have "length (filter (budgetCovers pdb) nonViolating) \<le> nat (sint (pdbPodDisruptionsAllowed pdb))" if "pdb \<in> set pdbs" for pdb
    using that splitByBudgets_bound [OF s] by (fastforce simp: in_set_conv_nth)
  moreover have "\<exists>pdb \<in> set pdbs. budgetCovers pdb p" if "p \<in> set violating" for p
    using splitByBudgets_violating [OF s that] by auto
  ultimately show ?thesis using splitByBudgets_partition [OF s] by simp
qed

theorem pdb_split_within_budgets_witness:
  "let sel = Some \<lparr>lsMatchLabels = [(''app'', ''a'')], lsMatchExpressions = []\<rparr>;
       pdb = \<lparr>pdbNamespace = ''ns'', pdbTenant = ''t'', pdbSelector = sel, pdbPodDisruptionsAllowed = 1\<rparr>;
       pod = (\<lambda>name. zeroPod\<lparr>podMeta := zeroMeta\<lparr>omName := name, omNamespace := ''ns'', omTenant := ''t'',
                omLabels := [(''app'', ''a'')]\<rparr>\<rparr>)
   in filterPodsWithPDBViolation [pod ''x'', pod ''y''] [pdb] = ([pod ''y''], [pod ''x'']) \<and>
      length (filter (budgetCovers pdb) [pod ''x'']) \<le> 1"
proof -
  let ?pdb = "\<lparr>pdbNamespace = ''ns'', pdbTenant = ''t'',
      pdbSelector = Some \<lparr>lsMatchLabels = [(''app'', ''a'')], lsMatchExpressions = []\<rparr>, pdbPodDisruptionsAllowed = 1\<rparr>"
  let ?pod = "\<lambda>name. zeroPod\<lparr>podMeta := zeroMeta\<lparr>omName := name, omNamespace := ''ns'', omTenant := ''t'',
      omLabels := [(''app'', ''a'')]\<rparr>\<rparr>"
  have s: "filterPodsWithPDBViolation [?pod ''x'', ?pod ''y''] [?pdb] = ([?pod ''y''], [?pod ''x''])" by code_simp
  from pdb_split_within_budgets [OF s] have "length (filter (budgetCovers ?pdb) [?pod ''x'']) \<le> 1" by simp
  with s show ?thesis by (simp only: Let_def)
qed



end
