(* ===== verification/VictimSpec.thy ===== *)
theory VictimSpec
  imports Preemption
begin

text \<open>
  What \<open>selectVictimsOnNode\<close> promises. A node is settled when its aggregates are those of its pods and its pods
  have distinct uids and disjoint host ports. The locale \<open>pod_filters\<close> is the interface the loop relies on: the
  filters see a node through its pods, as a multiset, and the PreFilter extensions leave the cycle state
  alone. Inside it the loop, which works on a NodeInfo with slices that are rearranged in place, is shown to
  be a greedy search on multisets of pods. The interpretation is on a framework of the modelled plugins.
\<close>

section \<open>Definitions\<close>

definition exactNode :: "features \<Rightarrow> NodeInfo \<Rightarrow> bool" where
  "exactNode f ni \<longleftrightarrow> nodeInfoInv f ni \<and> hpBindings (niUsedPorts ni) = (\<Union>p \<in> set (niPods ni). portBindings p) \<and>
     gomap_wf (rScalarResources (niRequestedResource ni)) \<and> gomap_wf (rScalarResources (niAllocatableResource ni))"

definition sameShell :: "NodeInfo \<Rightarrow> NodeInfo \<Rightarrow> bool" where
  "sameShell ni ni' \<longleftrightarrow> niNode ni' = niNode ni \<and> niTaints ni' = niTaints ni \<and>
     niAllocatableResource ni' = niAllocatableResource ni"

text \<open>Pods that can live on one node.\<close>

definition settledPods :: "Pod list \<Rightarrow> bool" where
  "settledPods ps \<longleftrightarrow> distinct (map podUID ps) \<and> (\<forall>p \<in> set ps. podUID p \<noteq> []) \<and>
     (\<forall>p \<in> set ps. \<forall>q \<in> set ps. p \<noteq> q \<longrightarrow> portBindings p \<inter> portBindings q = {})"

definition lowerPods :: "Pod \<Rightarrow> Pod list \<Rightarrow> Pod list" where
  "lowerPods pod ps = filter (\<lambda>p. sint (GetPodPriority p) < sint (GetPodPriority pod)) ps"

text \<open>The greedy search: a candidate is kept when the pod still fits next to it.\<close>

fun greedyVictims :: "(Pod multiset \<Rightarrow> bool) \<Rightarrow> Pod multiset \<Rightarrow> Pod list \<Rightarrow> Pod list" where
  "greedyVictims fits M [] = []"
| "greedyVictims fits M (p # ps) =
     (if fits (add_mset p M) then greedyVictims fits (add_mset p M) ps else p # greedyVictims fits M ps)"

definition fitsNextTo ::
  "features \<Rightarrow> PriorityQueue \<Rightarrow> 'd framework \<Rightarrow> 'd CycleState \<Rightarrow> Pod \<Rightarrow> NodeInfo \<Rightarrow> Pod multiset \<Rightarrow> bool" where
  "fitsNextTo f q fw st pod shell M \<longleftrightarrow>
     (\<exists>ni g. exactNode f ni \<and> sameShell shell ni \<and> mset (niPods ni) = M \<and> trialFits f q fw pod (st, ni, g))"

text \<open>The default provider's Filter plugins (\<open>algorithmprovider/registry.go\<close>), without the volume and inter-pod affinity
  ones, in its order.\<close>

definition nodePlugin :: "string \<Rightarrow> (Pod \<Rightarrow> NodeInfo \<Rightarrow> Status option) \<Rightarrow> 'x StateData FilterPlugin" where
  "nodePlugin name filt = \<lparr>fpName = name, fpFilter = (\<lambda>_. filt)\<rparr>"

definition nodeFilters :: "(Pod \<Rightarrow> NodeInfo \<Rightarrow> Status option) set" where
  "nodeFilters = {runtimeFilter, nodeUnschedulableFilter, nodeNameFilter, nodeAffinityFilter, taintFilter}"

definition intreeFramework :: "features \<Rightarrow> string set \<Rightarrow> 'x StateData framework" where
  "intreeFramework f ignored = \<lparr>fwPreFilterPlugins = [fitPreFilterPlugin f, portsPreFilterPlugin],
     fwFilterPlugins = [nodePlugin ''NodeRuntimeNotReady'' runtimeFilter, nodePlugin ''NodeUnschedulable'' nodeUnschedulableFilter,
       fitPlugin ignored, nodePlugin ''NodeName'' nodeNameFilter, portsPlugin, nodePlugin ''NodeAffinity'' nodeAffinityFilter,
       nodePlugin ''TaintToleration'' taintFilter],
     fwPreScorePlugins = [], fwScorePlugins = [], fwPluginNameToWeight = [], fwRunAllFilters = False\<rparr>"

definition preFiltered :: "features \<Rightarrow> string set \<Rightarrow> Pod \<Rightarrow> 'x StateData CycleState" where
  "preFiltered f ignored pod = snd (RunPreFilterPlugins (intreeFramework f ignored) [] pod)"

text \<open>Pods whose requests are not negative and do not overflow together.\<close>

definition smallLoad :: "features \<Rightarrow> Pod list \<Rightarrow> bool" where
  "smallLoad f ps \<longleftrightarrow> (\<forall>d. (\<forall>p \<in> set ps. 0 \<le> sint (amount (podRequest f p) d)) \<and> trueLoad f ps d < 2 ^ 63)"

text \<open>The nominated pods a trial takes into account.\<close>

definition outranks :: "Pod \<Rightarrow> Pod \<Rightarrow> bool" where
  "outranks pod p \<longleftrightarrow> sint (GetPodPriority pod) \<le> sint (GetPodPriority p) \<and> podUID p \<noteq> podUID pod"

definition nominatedFor :: "PriorityQueue \<Rightarrow> Pod \<Rightarrow> NodeInfo \<Rightarrow> Pod list" where
  "nominatedFor q pod ni = (case niNode ni of None \<Rightarrow> [] | Some node \<Rightarrow> filter (outranks pod) (NominatedPodsForNode q (nodeName node)))"

definition bareNode :: "NodeInfo \<Rightarrow> NodeInfo" where
  "bareNode shell = shell\<lparr>niPods := [], niPodsWithAffinity := [], niUsedPorts := [], niRequestedResource := emptyResource,
     niNonzeroRequest := emptyResource\<rparr>"

definition statusCodes :: "(string, Status) gomap \<Rightarrow> (string, Code) gomap" where
  "statusCodes statuses = map (map_prod id stCode) statuses"

text \<open>A node of 1000m with room for one of two pods of 600m.\<close>

definition readyShell :: NodeInfo where
  "readyShell = (emptyNodeInfo 0)\<lparr>niNode := Some (zeroNode\<lparr>nodeStatus := nodeStatus zeroNode\<lparr>nstConditions :=
       [\<lparr>ncType = ''ContainerRuntimeReady'', ncStatus = ''True''\<rparr>]\<rparr>\<rparr>),
     niAllocatableResource := emptyResource\<lparr>rMilliCPU := 1000, rAllowedPodNumber := 110\<rparr>\<rparr>"

definition cpuPod :: "string \<Rightarrow> i32 \<Rightarrow> Pod" where
  "cpuPod uid prio = zeroPod\<lparr>podMeta := zeroMeta\<lparr>omUID := uid\<rparr>, podSpec := podSpec zeroPod\<lparr>psPriority := Some prio, psContainers :=
     [\<lparr>cName = ''a'', cImage = [], cPorts = [], cRequests = [(''cpu'', NewMilliQuantity 600)], cResourcesAllocated = []\<rparr>]\<rparr>\<rparr>"

definition busyNode :: NodeInfo where
  "busyNode = fst (addPod defaultFeatures (cpuPod ''low'' 0) 0 readyShell)"

section \<open>Nodes\<close>

lemma sameShell_refl [simp]: "sameShell ni ni"
  by (simp add: sameShell_def)

lemma sameShell_trans: "sameShell a b \<Longrightarrow> sameShell b c \<Longrightarrow> sameShell a c"
  by (simp add: sameShell_def)

lemma gomap_wf_addScalars: "gomap_wf m \<Longrightarrow> gomap_wf (addScalars res m)"
  unfolding addScalars_def by (induction res arbitrary: m) (auto simp: split_beta)

lemma gomap_wf_subScalars: "gomap_wf m \<Longrightarrow> gomap_wf (subScalars res m)"
  unfolding subScalars_def by (induction res arbitrary: m) (auto simp: split_beta)

lemma exactNode_addPod:
  assumes "exactNode f ni"
  shows "exactNode f (fst (addPod f p g ni))" and "sameShell ni (fst (addPod f p g ni))"
proof -
  have "hpInv (niUsedPorts ni)" using assms by (simp add: exactNode_def nodeInfoInv_def)
  from addPod_bindings [OF this, of f p g]
  have "hpBindings (niUsedPorts (fst (addPod f p g ni))) = (\<Union>p \<in> set (niPods (fst (addPod f p g ni))). portBindings p)"
    using assms by (auto simp: exactNode_def)
  moreover have "gomap_wf (rScalarResources (niRequestedResource (fst (addPod f p g ni))))"
    using assms by (simp add: exactNode_def addPod_def split_beta Let_def gomap_wf_addScalars)
  ultimately show "exactNode f (fst (addPod f p g ni))"
    using assms nodeInfoInv_addPod [of f ni p g] unfolding exactNode_def by simp
  show "sameShell ni (fst (addPod f p g ni))" by (simp add: sameShell_def addPod_def split_beta Let_def)
qed

lemma removePod_frame:
  assumes "removePod f p g ni = (ni', g', None)"
  shows "niTaints ni' = niTaints ni" and "niAllocatableResource ni' = niAllocatableResource ni" and "niNode ni' = niNode ni"
    and "gomap_wf (rScalarResources (niRequestedResource ni)) \<Longrightarrow> gomap_wf (rScalarResources (niRequestedResource ni'))"
  using assms by (auto simp: removePod_def Let_def gomap_wf_subScalars split: option.splits prod.splits)

lemma portBindings_wanted: "hp.wanted (podPorts p) = portBindings p"
  by (simp add: hp.wanted_def portBindings_def)

lemma exactNode_removePod:
  assumes exact: "exactNode f ni" and settled: "settledPods (niPods ni)" and p: "p \<in> set (niPods ni)"
  obtains ni' where "removePod f p g ni = (ni', g + 1, None)" and "exactNode f ni'" and "sameShell ni ni'"
    and "mset (niPods ni') = mset (niPods ni) - {#p#}"
    and "\<exists>i < length (niPods ni). niPods ni ! i = p \<and> niPods ni' = swap_remove i (niPods ni)"
proof -
  have uid: "podUID p \<noteq> []" "distinct (map podUID (niPods ni))" using settled p by (auto simp: settledPods_def)
  have inv: "nodeInfoInv f ni" using exact by (simp add: exactNode_def)
  obtain ni' where r: "removePod f p g ni = (ni', g + 1, None)" "nodeInfoInv f ni'"
      "mset (niPods ni') = mset (niPods ni) - {#p#}"
      "hpBindings (niUsedPorts ni') = hpBindings (niUsedPorts ni) - hp.wanted (podPorts p)"
    using removePod_tracked [OF inv p uid] by metis
  obtain i where i: "find_idx (\<lambda>q. GetPodKey q = Some (podUID p)) (niPods ni) = Some i" "i < length (niPods ni)" "niPods ni ! i = p"
    using find_idx_key [OF p uid] by blast
  have sw: "niPods ni' = swap_remove i (niPods ni)" using removePod_eq [OF uid(1) i(1), of f g] r(1) by auto
  have d: "distinct (niPods ni)" using uid(2) by (simp add: distinct_map)
  have "mset (niPods ni') = mset (remove1 p (niPods ni))" using r(3) by simp
  then have left: "set (niPods ni') = set (niPods ni) - {p}" using d mset_eq_setD by (metis set_remove1_eq)
  have "hpBindings (niUsedPorts ni') = (\<Union>q \<in> set (niPods ni'). portBindings q)"
    using r(4) exact settled p unfolding left portBindings_wanted exactNode_def settledPods_def by blast
  then have "exactNode f ni'"
    using r(2) exact removePod_frame [OF r(1)] by (simp add: exactNode_def)
  moreover have "sameShell ni ni'" using removePod_frame [OF r(1)] by (simp add: sameShell_def)
  ultimately show ?thesis using that r(1,3) i(2,3) sw by blast
qed

lemma distinct_submset:
  assumes "mset xs \<subseteq># mset ys" and "distinct ys"
  shows "distinct xs"
proof -
  obtain M where "mset ys = mset xs + M" using assms(1) by (auto simp: mset_subset_eq_exists_conv)
  moreover obtain zs where "mset zs = M" using ex_mset by blast
  ultimately have "mset ys = mset (xs @ zs)" by simp
  from mset_eq_imp_distinct_iff [OF this] assms(2) show ?thesis by simp
qed

lemma settledPods_mset:
  assumes "settledPods ps" and "mset qs \<subseteq># mset ps"
  shows "settledPods qs"
proof -
  have "mset (map podUID qs) \<subseteq># mset (map podUID ps)" using assms(2) by (simp add: image_mset_subseteq_mono)
  moreover have "distinct (map podUID ps)" using assms(1) by (simp add: settledPods_def)
  ultimately have "distinct (map podUID qs)" by (rule distinct_submset)
  moreover have "set qs \<subseteq> set ps" using assms(2) set_mset_mono by fastforce
  ultimately show ?thesis using assms(1) unfolding settledPods_def by blast
qed

lemma exactNode_clone:
  assumes "exactNode f ni"
  shows "exactNode f (nodeInfoClone ni)" and "sameShell ni (nodeInfoClone ni)" and "niPods (nodeInfoClone ni) = niPods ni"
proof -
  have inv: "nodeInfoInv f ni" "hpInv (niUsedPorts ni)" using assms by (simp_all add: exactNode_def nodeInfoInv_def)
  have wf: "gomap_wf (rScalarResources (niRequestedResource ni))" "gomap_wf (rScalarResources (niAllocatableResource ni))"
    using assms by (simp_all add: exactNode_def)
  have nz: "rMilliCPU (resourceClone r) = rMilliCPU r" "rMemory (resourceClone r) = rMemory r" for r
    by (simp_all add: resourceClone_def)
  have c: "niRequestedResource (nodeInfoClone ni) = niRequestedResource ni" "niUsedPorts (nodeInfoClone ni) = niUsedPorts ni"
      "niAllocatableResource (nodeInfoClone ni) = niAllocatableResource ni"
    using inv wf by (simp_all add: nodeInfoClone_def resourceClone_self clonePorts_self)
  show "niPods (nodeInfoClone ni) = niPods ni" by (simp add: nodeInfoClone_def)
  moreover have "nodeInfoInv f (nodeInfoClone ni)"
    using inv(1) unfolding nodeInfoInv_def c by (simp add: nodeInfoClone_def nz)
  ultimately show "exactNode f (nodeInfoClone ni)" using assms unfolding exactNode_def c by simp
  show "sameShell ni (nodeInfoClone ni)" using c by (simp add: sameShell_def nodeInfoClone_def)
qed

text \<open>Every list of pods is the list of pods of an exact node.\<close>

lemma exactNode_bare:
  assumes "exactNode f shell"
  shows "exactNode f (bareNode shell)" and "sameShell shell (bareNode shell)"
proof -
  have "amount emptyResource d = 0" for d by (cases d) (simp_all add: emptyResource_def)
  then show "exactNode f (bareNode shell)" using assms
    by (simp add: exactNode_def nodeInfoInv_def bareNode_def emptyResource_def hpInv_def hpBindings_def gomap_wf_def)
  show "sameShell shell (bareNode shell)" by (simp add: sameShell_def bareNode_def)
qed

lemma exactNode_exists:
  assumes "exactNode f shell"
  shows "\<exists>ni. exactNode f ni \<and> sameShell shell ni \<and> niPods ni = ps"
proof (induction ps rule: rev_induct)
  case Nil
  have "niPods (bareNode shell) = []" by (simp add: bareNode_def)
  then show ?case using exactNode_bare [OF assms] by blast
next
  case (snoc p ps)
  then obtain ni where ni: "exactNode f ni" "sameShell shell ni" "niPods ni = ps" by blast
  have "niPods (fst (addPod f p 0 ni)) = ps @ [p]" using ni(3) by simp
  then show ?case using exactNode_addPod [OF ni(1)] sameShell_trans [OF ni(2)] by blast
qed

subsection \<open>The backing array\<close>

text \<open>The range over the pods reads the array the slice had at the start. Removing the pod of slot \<open>j\<close> fills a slot
  up to \<open>j\<close>, so the slots that are still to be read keep their pods.\<close>

lemma swap_remove_nth: "k \<noteq> i \<Longrightarrow> Suc k < length xs \<Longrightarrow> swap_remove i xs ! k = xs ! k"
  by (simp add: swap_remove_def nth_butlast)

lemma backing_array_step:
  assumes m: "xs = take (length xs) arr" and kept: "\<forall>k. j \<le> k \<longrightarrow> k < length arr \<longrightarrow> arr ! k = L ! k"
    and L: "distinct L" "length arr = length L" "j < length L"
    and i: "i < length xs" "xs ! i = L ! j"
  defines "ys \<equiv> swap_remove i xs"
  defines "arr' \<equiv> ys @ drop (length ys) arr"
  shows "length arr' = length L" and "ys = take (length ys) arr'"
    and "\<forall>k. Suc j \<le> k \<longrightarrow> k < length arr' \<longrightarrow> arr' ! k = L ! k"
proof -
  have len: "length xs \<le> length arr" using m by (metis length_take min.absorb_iff2 min.commute nat_le_linear)
  have ys: "length ys = length xs - 1" using i(1) by (simp add: ys_def length_swap_remove)
  show len': "length arr' = length L" using len ys i(1) L(2) by (simp add: arr'_def)
  show "ys = take (length ys) arr'" by (simp add: arr'_def)
  have nth: "xs ! k = arr ! k" if "k < length xs" for k using m that by (metis nth_take)
  have "i \<le> j"
  proof (rule ccontr)
    assume "\<not> i \<le> j"
    then have "L ! i = L ! j" using kept nth [OF i(1)] i len by simp
    then show False using \<open>\<not> i \<le> j\<close> L i(1) len by (simp add: nth_eq_iff_index_eq)
  qed
  then show "\<forall>k. Suc j \<le> k \<longrightarrow> k < length arr' \<longrightarrow> arr' ! k = L ! k"
    using kept nth swap_remove_nth [of _ i xs] len' L(2) ys len i(1)
    by (auto simp: arr'_def nth_append ys_def)
qed

section \<open>Loads\<close>

lemma trueLoad_mset: "mset ps = mset qs \<Longrightarrow> trueLoad f ps d = trueLoad f qs d"
  unfolding trueLoad_def sum_mset_sum_list [symmetric] mset_map by simp

lemma smallLoad_split:
  assumes "smallLoad f qs" and "mset ps \<subseteq># mset qs"
  shows "smallLoad f ps" and "trueLoad f ps d \<le> trueLoad f qs d"
proof -
  obtain M where "mset qs = mset ps + M" using assms(2) by (auto simp: mset_subset_eq_exists_conv)
  moreover obtain rs where "mset rs = M" using ex_mset by blast
  ultimately have eq: "mset qs = mset (ps @ rs)" by simp
  have "0 \<le> trueLoad f rs d" for d
    using assms(1) mset_eq_setD [OF eq] unfolding trueLoad_def smallLoad_def by (intro sum_list_nonneg) auto
  moreover have "trueLoad f qs d = trueLoad f ps d + trueLoad f rs d" for d
    using trueLoad_mset [OF eq] by (simp add: trueLoad_def)
  ultimately have le: "trueLoad f ps d \<le> trueLoad f qs d" for d by simp
  show "trueLoad f ps d \<le> trueLoad f qs d" by (rule le)
  show "smallLoad f ps" using assms(1) mset_eq_setD [OF eq] le_less_trans [OF le] unfolding smallLoad_def by simp
qed

lemma total_load:
  assumes "nodeInfoInv f ni" and "smallLoad f (pod # niPods ni)"
  shows "sint (amount (podRequest f pod) d + amount (niRequestedResource ni) d) = trueLoad f (pod # niPods ni) d"
proof -
  have "sint (sum_list (map (\<lambda>p. amount (podRequest f p) d) (pod # niPods ni)) :: i64) =
      (\<Sum>w \<leftarrow> map (\<lambda>p. amount (podRequest f p) d) (pod # niPods ni). sint w)"
    by (rule sint_sum_list) (use assms(2) in \<open>auto simp: smallLoad_def trueLoad_def comp_def\<close>)
  then show ?thesis using assms(1) by (simp add: nodeInfoInv_def trueLoad_def comp_def)
qed

section \<open>Statuses\<close>

text \<open>The code of the merged status depends only on the codes the plugins return.\<close>

lemma statusCodes_mput:
  "statusCodes (mput k s m) = mput k (stCode s) (statusCodes m)"
  by (induction m) (auto simp: statusCodes_def)

lemma statusCodes_single: "statusCodes [(k, s)] = [(k, stCode s)]"
  by (simp add: statusCodes_def)

lemma statusCodes_Nil: "statusCodes p = [] \<longleftrightarrow> p = []"
  by (simp add: statusCodes_def)

lemma hasCode_codes: "hasCode p c \<longleftrightarrow> c \<in> snd ` set (statusCodes p)"
  by (induction p) (auto simp: statusCodes_def hasCode_def)

lemma runFilters_codes_cong:
  assumes "\<forall>pl \<in> set pls. statusCode (fpFilter pl st pod ni) = statusCode (fpFilter pl st pod ni')"
    and "statusCodes sts = statusCodes sts'"
  shows "statusCodes (runFilters ra pls st pod ni sts) = statusCodes (runFilters ra pls st pod ni' sts')"
  using assms
proof (induction pls arbitrary: sts sts')
  case (Cons pl pls)
  let ?s = "fpFilter pl st pod ni" and ?s' = "fpFilter pl st pod ni'"
  have c: "statusCode ?s = statusCode ?s'" using Cons.prems(1) by simp
  have IH: "statusCodes (runFilters ra pls st pod ni a) = statusCodes (runFilters ra pls st pod ni' b)"
    if "statusCodes a = statusCodes b" for a b
    by (rule Cons.IH [OF _ that]) (use Cons.prems(1) in simp)
  show ?case
  proof (cases "statusCode ?s = Success")
    case True
    then have "runFilters ra (pl # pls) st pod ni sts = runFilters ra pls st pod ni sts"
        "runFilters ra (pl # pls) st pod ni' sts' = runFilters ra pls st pod ni' sts'"
      using c by (cases ?s; cases ?s'; simp add: status_defs)+
    then show ?thesis using IH [OF Cons.prems(2)] by (simp only:)
  next
    case False
    then obtain s s' where s: "?s = Some s" "?s' = Some s'" "stCode s' = stCode s" "stCode s \<noteq> Success"
      using c by (cases ?s; cases ?s') (auto simp: statusCode_def)
    have m: "statusCodes (mput (fpName pl) s sts) = statusCodes (mput (fpName pl) s' sts')"
      unfolding statusCodes_mput using s(3) Cons.prems(2) by simp
    show ?thesis using s IH [OF m] m by (cases ra) (simp_all add: status_defs Let_def statusCodes_single)
  qed
qed simp

lemma Merge_codes_cong:
  assumes "\<forall>pl \<in> set (fwFilterPlugins fw). statusCode (fpFilter pl st pod ni) = statusCode (fpFilter pl st pod ni')"
  shows "statusCode (Merge (RunFilterPlugins fw st pod ni)) = statusCode (Merge (RunFilterPlugins fw st pod ni'))"
proof -
  let ?a = "RunFilterPlugins fw st pod ni" and ?b = "RunFilterPlugins fw st pod ni'"
  have eq: "statusCodes ?a = statusCodes ?b"
    using runFilters_codes_cong [OF assms, of "[]" "[]"] by (simp add: RunFilterPlugins_def)
  have codes: "\<forall>(_, s) \<in> set (RunFilterPlugins fw st pod n). stCode s \<in> failureCodes" for n
    unfolding RunFilterPlugins_def by (rule runFilters_codes) simp
  show ?thesis
  proof (cases "?a = []")
    case True
    then have "?b = []" using eq statusCodes_Nil by metis
    then show ?thesis using True by simp
  next
    case False
    then have "?b \<noteq> []" using eq by (metis statusCodes_Nil)
    then show ?thesis using Merge_code [OF False codes] Merge_code [OF _ codes] eq by (simp add: hasCode_codes)
  qed
qed

section \<open>The greedy search\<close>

lemma greedyVictims_subseq: "subseq (greedyVictims fits M ps) ps"
  by (induction fits M ps rule: greedyVictims.induct) auto

lemma greedyVictims_mset: "mset (greedyVictims fits M ps) \<subseteq># mset ps"
  by (induction fits M ps rule: greedyVictims.induct) (auto intro: subset_mset.order_trans)

lemma greedyVictims_fits: "fits M \<Longrightarrow> fits (M + mset ps - mset (greedyVictims fits M ps))"
  by (induction fits M ps rule: greedyVictims.induct) auto

lemma greedyVictims_append:
  "greedyVictims fits M (ps @ qs) =
     greedyVictims fits M ps @ greedyVictims fits (M + mset ps - mset (greedyVictims fits M ps)) qs"
  by (induction fits M ps rule: greedyVictims.induct) auto

text \<open>When taking pods away keeps the node fitting, the victims are minimal: none of them can stay.\<close>

lemma greedyVictims_minimal:
  assumes "\<And>A B. A \<subseteq># B \<Longrightarrow> B \<subseteq># M + mset ps \<Longrightarrow> fits B \<Longrightarrow> fits A" and "p \<in> set (greedyVictims fits M ps)"
  shows "\<not> fits (add_mset p (M + mset ps - mset (greedyVictims fits M ps)))"
  using assms
proof (induction fits M ps rule: greedyVictims.induct)
  case (2 fits M p' ps)
  show ?case
  proof (cases "fits (add_mset p' M)")
    case True
    have "\<not> fits (add_mset p (add_mset p' M + mset ps - mset (greedyVictims fits (add_mset p' M) ps)))"
      by (rule "2.IH"(1) [OF True]) (use "2.prems" True in auto)
    then show ?thesis using True by simp
  next
    case False
    let ?G = "greedyVictims fits M ps"
    have sub: "mset ?G \<subseteq># mset ps" by (rule greedyVictims_mset)
    have le: "M \<subseteq># M + mset ps - mset ?G" "M + mset ps - mset ?G \<subseteq># M + mset ps"
      by (simp_all add: multiset_diff_union_assoc [OF sub])
    show ?thesis
    proof (cases "p = p'")
      case True
      then show ?thesis using False "2.prems"(1) [of "add_mset p' M" "add_mset p' (M + mset ps - mset ?G)"] le by auto
    next
      case neq: False
      have "\<not> fits (add_mset p (M + mset ps - mset ?G))"
      proof (rule "2.IH"(2) [OF False])
        show "fits A" if "A \<subseteq># B" "B \<subseteq># M + mset ps" "fits B" for A B
          by (rule "2.prems"(1) [OF that(1) _ that(3)]) (use subset_mset.order_trans [OF that(2)] in simp)
      qed (use "2.prems"(2) False neq in simp)
      then show ?thesis using False by simp
    qed
  qed
qed simp

section \<open>The interface\<close>

locale pod_filters =
  fixes f :: features and fw :: "'d framework" and st :: "'d CycleState" and pod :: Pod
  assumes ext_add: "RunPreFilterExtensionAddPod fw st pod p ni = (None, st)"
    and ext_remove: "RunPreFilterExtensionRemovePod fw st pod p ni = (None, st)"
    and clone: "csClone st = st"
    and view: "pl \<in> set (fwFilterPlugins fw) \<Longrightarrow> exactNode f ni \<Longrightarrow> exactNode f ni' \<Longrightarrow> sameShell ni ni' \<Longrightarrow>
      mset (niPods ni) = mset (niPods ni') \<Longrightarrow> statusCode (fpFilter pl st pod ni) = statusCode (fpFilter pl st pod ni')"
begin

definition viewEq :: "NodeInfo \<Rightarrow> NodeInfo \<Rightarrow> bool" where
  "viewEq ni ni' \<longleftrightarrow> exactNode f ni \<and> exactNode f ni' \<and> sameShell ni ni' \<and> mset (niPods ni) = mset (niPods ni')"

lemma viewEq_codes: "viewEq ni ni' \<Longrightarrow> pl \<in> set (fwFilterPlugins fw) \<Longrightarrow>
    statusCode (fpFilter pl st pod ni) = statusCode (fpFilter pl st pod ni')"
  using view by (simp add: viewEq_def)

lemma runFiltersOn_view:
  assumes "viewEq ni ni'"
  shows "isl (runFiltersOn fw pod st ni) \<longleftrightarrow> isl (runFiltersOn fw pod st ni')"
    and "runFiltersOn fw pod st ni = Inr s \<Longrightarrow> runFiltersOn fw pod st ni' = Inr s' \<Longrightarrow> IsSuccess s \<longleftrightarrow> IsSuccess s'"
proof -
  have "statusCode (Merge (RunFilterPlugins fw st pod ni)) = statusCode (Merge (RunFilterPlugins fw st pod ni'))"
    using viewEq_codes [OF assms] by (intro Merge_codes_cong) blast
  then show "isl (runFiltersOn fw pod st ni) \<longleftrightarrow> isl (runFiltersOn fw pod st ni')"
      "runFiltersOn fw pod st ni = Inr s \<Longrightarrow> runFiltersOn fw pod st ni' = Inr s' \<Longrightarrow> IsSuccess s \<longleftrightarrow> IsSuccess s'"
    by (auto simp: runFiltersOn_def Let_def IsSuccess_def IsUnschedulable_def split: if_splits)
qed

lemma viewEqI:
  assumes "exactNode f ni" and "exactNode f ni'" and "sameShell shell ni" and "sameShell shell ni'"
    and "mset (niPods ni) = mset (niPods ni')"
  shows "viewEq ni ni'"
  using assms by (simp add: viewEq_def sameShell_def)

lemma addNominated_view:
  assumes "viewEq a b"
  shows "\<exists>k' c d. addNominated f fw pod ps k st g a = Inr (k', st, c) \<and> addNominated f fw pod ps k st h b = Inr (k', st, d) \<and>
    viewEq c d"
  using assms
proof (induction ps arbitrary: k a b g h)
  case (Cons p ps)
  have "viewEq (fst (addPod f p g a)) (fst (addPod f p h b))"
    using Cons.prems exactNode_addPod [of f a p g] exactNode_addPod [of f b p h]
    by (simp add: viewEq_def sameShell_def)
  from Cons.IH [OF this] Cons.IH [OF Cons.prems] show ?case by (simp add: split_beta Let_def ext_add AsError_def IsSuccess_def statusCode_def)
qed simp

lemma addNominatedPods_view:
  assumes "viewEq a b"
  shows "\<exists>k c d. addNominatedPods f q fw pod st g a = Inr (k, st, c) \<and> addNominatedPods f q fw pod st h b = Inr (k, st, d) \<and>
    viewEq c d"
proof -
  have n: "niNode b = niNode a" using assms by (simp add: viewEq_def sameShell_def)
  have "viewEq (nodeInfoClone a) (nodeInfoClone b)"
    using assms exactNode_clone [of f a] exactNode_clone [of f b] by (simp add: viewEq_def sameShell_def)
  from addNominated_view [OF this] show ?thesis
    using assms n by (cases "niNode a") (auto simp: addNominatedPods_def clone Let_def)
qed

lemma trialFits_view:
  assumes "viewEq a b"
  shows "trialFits f q fw pod (st, a, g) = trialFits f q fw pod (st, b, h)"
proof -
  obtain k c d where n: "addNominatedPods f q fw pod st g a = Inr (k, st, c)" "addNominatedPods f q fw pod st h b = Inr (k, st, d)"
      "viewEq c d"
    using addNominatedPods_view [OF assms] by blast
  show ?thesis using runFiltersOn_view [OF assms] runFiltersOn_view [OF n(3)]
    by (auto simp: trialFits_def podPassesFiltersOnNode_def n(1,2) split: sum.splits)
qed

text \<open>Whether the pod fits is a function of the multiset of pods.\<close>

lemma fitsNextTo_exact:
  assumes "exactNode f ni" and "sameShell shell ni"
  shows "fitsNextTo f q fw st pod shell (mset (niPods ni)) \<longleftrightarrow> trialFits f q fw pod (st, ni, g)"
proof
  assume "fitsNextTo f q fw st pod shell (mset (niPods ni))"
  then obtain a h where "exactNode f a" "sameShell shell a" "mset (niPods a) = mset (niPods ni)" "trialFits f q fw pod (st, a, h)"
    by (auto simp: fitsNextTo_def)
  then show "trialFits f q fw pod (st, ni, g)" using trialFits_view [of a ni] viewEqI [of a ni] assms by blast
qed (use assms in \<open>auto simp: fitsNextTo_def\<close>)

lemma trialAdd_exact:
  "trialAdd f fw pod p (st, ni, g) = Some (st, fst (addPod f p g ni), snd (addPod f p g ni))"
  by (simp add: trialAdd_def split_beta Let_def ext_add IsSuccess_def statusCode_def)

lemma trialRemove_exact:
  assumes "exactNode f ni" and "settledPods (niPods ni)" and "p \<in> set (niPods ni)"
  obtains ni' where "trialRemove f fw pod p (st, ni, g) = Some (st, ni', g + 1)" and "exactNode f ni'" and "sameShell ni ni'"
    and "mset (niPods ni') = mset (niPods ni) - {#p#}"
    and "\<exists>i < length (niPods ni). niPods ni ! i = p \<and> niPods ni' = swap_remove i (niPods ni)"
proof -
  obtain ni' where r: "removePod f p g ni = (ni', g + 1, None)" "exactNode f ni'" "sameShell ni ni'"
      "mset (niPods ni') = mset (niPods ni) - {#p#}"
      "\<exists>i < length (niPods ni). niPods ni ! i = p \<and> niPods ni' = swap_remove i (niPods ni)"
    using assms by (rule exactNode_removePod)
  have "trialRemove f fw pod p (st, ni, g) = Some (st, ni', g + 1)"
    by (simp add: trialRemove_def r(1) ext_remove IsSuccess_def statusCode_def)
  then show ?thesis using r(2-) by (rule that)
qed

lemma addNominated_exact:
  assumes "exactNode f ni"
  shows "\<exists>ni'. addNominated f fw pod ps k st g ni =
      Inr (k \<or> filter (outranks pod) ps \<noteq> [], st, ni') \<and>
    exactNode f ni' \<and> sameShell ni ni' \<and>
    niPods ni' = niPods ni @ filter (outranks pod) ps"
  using assms
proof (induction ps arbitrary: k ni g)
  case (Cons p ps)
  show ?case
  proof (cases "outranks pod p")
    case True
    let ?ni = "fst (addPod f p g ni)"
    have s: "addNominated f fw pod (p # ps) k st g ni = addNominated f fw pod ps True st (g + 1) ?ni"
      using True by (simp add: outranks_def split_beta Let_def ext_add AsError_def IsSuccess_def statusCode_def)
    obtain ni' where "addNominated f fw pod ps True st (g + 1) ?ni = Inr (True, st, ni')" "exactNode f ni'" "sameShell ?ni ni'"
        "niPods ni' = niPods ?ni @ filter (outranks pod) ps"
      using Cons.IH [OF exactNode_addPod(1) [OF Cons.prems, of p g], of True "g + 1"] by auto
    then show ?thesis unfolding s using True sameShell_trans [OF exactNode_addPod(2) [OF Cons.prems, of p g]] by auto
  next
    case False
    then have s: "addNominated f fw pod (p # ps) k st g ni = addNominated f fw pod ps k st g ni" by (auto simp: outranks_def)
    show ?thesis unfolding s using False Cons.IH [OF Cons.prems, of k g] by simp
  qed
qed simp

lemma addNominatedPods_exact:
  assumes "exactNode f ni"
  shows "\<exists>ni'. addNominatedPods f q fw pod st g ni = Inr (nominatedFor q pod ni \<noteq> [], st, ni') \<and>
    exactNode f ni' \<and> sameShell ni ni' \<and> niPods ni' = niPods ni @ nominatedFor q pod ni"
proof (cases "niNode ni = None \<or> NominatedPodsForNode q (nodeName (the (niNode ni))) = []")
  case True
  then show ?thesis using assms by (cases "niNode ni") (auto simp: addNominatedPods_def nominatedFor_def)
next
  case False
  then obtain node where n: "niNode ni = Some node" "NominatedPodsForNode q (nodeName node) \<noteq> []" by auto
  note c = exactNode_clone [OF assms]
  obtain ni' where "addNominated f fw pod (NominatedPodsForNode q (nodeName node)) False st g (nodeInfoClone ni) =
        Inr (nominatedFor q pod ni \<noteq> [], st, ni')" "exactNode f ni'" "sameShell (nodeInfoClone ni) ni'"
      "niPods ni' = niPods ni @ nominatedFor q pod ni"
    using addNominated_exact [OF c(1), of "NominatedPodsForNode q (nodeName node)" False g] c(3) n(1)
    by (auto simp: nominatedFor_def)
  then show ?thesis using sameShell_trans [OF c(2)] n by (auto simp: addNominatedPods_def clone Let_def)
qed

definition passes :: "NodeInfo \<Rightarrow> bool" where
  "passes ni \<longleftrightarrow> (\<forall>pl \<in> set (fwFilterPlugins fw). IsSuccess (fpFilter pl st pod ni))"

lemma passes_runFiltersOn: "passes ni \<longleftrightarrow> (\<exists>s. runFiltersOn fw pod st ni = Inr s \<and> IsSuccess s)"
  using RunFilterPlugins_success [of fw st pod ni] by (auto simp: passes_def runFiltersOn_def Let_def)

lemma passes_view:
  assumes "viewEq a b"
  shows "passes a \<longleftrightarrow> passes b"
  unfolding passes_def IsSuccess_def by (rule ball_cong [OF refl]) (simp add: viewEq_codes [OF assms])

text \<open>The two passes of the trial: with the nominated pods and without them.\<close>

lemma trialFits_iff:
  assumes "exactNode f ni"
  shows "trialFits f q fw pod (st, ni, g) \<longleftrightarrow>
    (\<exists>ni'. exactNode f ni' \<and> sameShell ni ni' \<and> mset (niPods ni') = mset (niPods ni) + mset (nominatedFor q pod ni) \<and> passes ni') \<and>
    passes ni"
proof -
  obtain ni' where n: "addNominatedPods f q fw pod st g ni = Inr (nominatedFor q pod ni \<noteq> [], st, ni')" "exactNode f ni'"
      "sameShell ni ni'" "niPods ni' = niPods ni @ nominatedFor q pod ni"
    using addNominatedPods_exact [OF assms] by blast
  have t: "trialFits f q fw pod (st, ni, g) \<longleftrightarrow> passes ni' \<and> (nominatedFor q pod ni \<noteq> [] \<longrightarrow> passes ni)"
    by (cases "runFiltersOn fw pod st ni'"; cases "runFiltersOn fw pod st ni")
      (simp_all add: trialFits_def podPassesFiltersOnNode_def n(1) passes_runFiltersOn)
  have same: "passes a \<longleftrightarrow> passes ni'" if "exactNode f a" "sameShell ni a" "mset (niPods a) = mset (niPods ni')" for a
    by (rule passes_view [OF viewEqI [OF that(1) n(2) that(2) n(3) that(3)]])
  have "passes ni \<longleftrightarrow> passes ni'" if "nominatedFor q pod ni = []" using same [OF assms] n(4) that by simp
  then have "trialFits f q fw pod (st, ni, g) \<longleftrightarrow> passes ni' \<and> passes ni" unfolding t by blast
  moreover have "passes ni' \<longleftrightarrow> (\<exists>ni'. exactNode f ni' \<and> sameShell ni ni' \<and>
      mset (niPods ni') = mset (niPods ni) + mset (nominatedFor q pod ni) \<and> passes ni')"
    using n(2-4) same by (metis mset_append)
  ultimately show ?thesis by simp
qed

lemma removeLower_loop:
  assumes "settledPods L" and "exactNode f ni" and "sameShell shell ni" and "length arr = length L"
    and "niPods ni = take (length (niPods ni)) arr" and "\<forall>k. j \<le> k \<longrightarrow> k < length arr \<longrightarrow> arr ! k = L ! k"
    and "mset (niPods ni) + mset (lowerPods pod (take j L)) = mset L" and "j + todo = length L"
  shows "\<exists>ni' g'. removeLower f fw pod todo j arr vs (st, ni, g) = Some (vs @ lowerPods pod (drop j L), (st, ni', g')) \<and>
    exactNode f ni' \<and> sameShell shell ni' \<and> mset (niPods ni') + mset (lowerPods pod L) = mset L"
  using assms(2-)
proof (induction todo arbitrary: j arr vs ni g)
  case 0
  then show ?case by (auto simp: lowerPods_def)
next
  case (Suc todo)
  let ?p = "L ! j"
  have j: "j < length L" using Suc.prems(7) by simp
  have p: "arr ! j = ?p" using Suc.prems(3,5) j by simp
  have take: "take (Suc j) L = take j L @ [?p]" and drop: "drop j L = ?p # drop (Suc j) L"
    using j by (simp_all add: take_Suc_conv_app_nth Cons_nth_drop_Suc)
  show ?case
  proof (cases "sint (GetPodPriority ?p) < sint (GetPodPriority pod)")
    case False
    have "\<exists>ni' g'. removeLower f fw pod todo (Suc j) arr vs (st, ni, g) = Some (vs @ lowerPods pod (drop (Suc j) L), (st, ni', g')) \<and>
        exactNode f ni' \<and> sameShell shell ni' \<and> mset (niPods ni') + mset (lowerPods pod L) = mset L"
      by (rule Suc.IH) (use Suc.prems False in \<open>simp_all add: take lowerPods_def\<close>)
    then show ?thesis using False p by (simp add: drop lowerPods_def)
  next
    case True
    have d: "distinct L" using assms(1) by (simp add: settledPods_def distinct_map)
    have "?p \<in># mset (niPods ni) + mset (lowerPods pod (take j L))" using j Suc.prems(6) by simp
    moreover have "?p \<notin> set (lowerPods pod (take j L))"
      using d j by (auto simp: lowerPods_def in_set_conv_nth nth_eq_iff_index_eq)
    ultimately have mem: "?p \<in> set (niPods ni)" by simp
    have settled: "settledPods (niPods ni)"
      by (rule settledPods_mset [OF assms(1)]) (metis Suc.prems(6) mset_subset_eq_add_left)
    obtain ni' where r: "trialRemove f fw pod ?p (st, ni, g) = Some (st, ni', g + 1)" "exactNode f ni'" "sameShell ni ni'"
        "mset (niPods ni') = mset (niPods ni) - {#?p#}"
        "\<exists>i < length (niPods ni). niPods ni ! i = ?p \<and> niPods ni' = swap_remove i (niPods ni)"
      using Suc.prems(1) settled mem by (rule trialRemove_exact)
    then obtain i where i: "i < length (niPods ni)" "niPods ni ! i = ?p" "niPods ni' = swap_remove i (niPods ni)" by blast
    note step = backing_array_step [OF Suc.prems(4,5) d Suc.prems(3) j i(1,2), folded i(3)]
    have "mset (niPods ni) = add_mset ?p (mset (niPods ni'))" using r(4) mem by simp
    then have ms: "mset (niPods ni') + mset (lowerPods pod (take (Suc j) L)) = mset L"
      using True by (simp add: take lowerPods_def flip: Suc.prems(6))
    have "\<exists>ni'' g'. removeLower f fw pod todo (Suc j) (niPods ni' @ drop (length (niPods ni')) arr) (vs @ [?p]) (st, ni', g + 1) =
          Some ((vs @ [?p]) @ lowerPods pod (drop (Suc j) L), (st, ni'', g')) \<and>
        exactNode f ni'' \<and> sameShell shell ni'' \<and> mset (niPods ni'') + mset (lowerPods pod L) = mset L"
      using r(2) sameShell_trans [OF Suc.prems(2) r(3)] step ms by (rule Suc.IH) (use Suc.prems(7) in simp)
    then show ?thesis using True p r(1) by (simp add: drop lowerPods_def Let_def)
  qed
qed

text \<open>The first loop removes the pods of lower priority, each once, in the order of the slice.\<close>

lemma removeLower_spec:
  assumes "exactNode f ni" and "settledPods (niPods ni)"
  obtains ni' g' where "removeLower f fw pod (length (niPods ni)) 0 (niPods ni) [] (st, ni, g) =
      Some (lowerPods pod (niPods ni), (st, ni', g'))"
    and "exactNode f ni'" and "sameShell ni ni'" and "mset (niPods ni') + mset (lowerPods pod (niPods ni)) = mset (niPods ni)"
  using removeLower_loop [OF assms(2,1) sameShell_refl, of "niPods ni" 0 "length (niPods ni)" "[]" g]
  by (auto simp: lowerPods_def)

lemma reprievePod_spec:
  fixes q :: PriorityQueue
  assumes exact: "exactNode f ni" "sameShell shell ni" and settled: "settledPods (niPods ni @ [p])"
  defines "ok \<equiv> fitsNextTo f q fw st pod shell (add_mset p (mset (niPods ni)))"
  obtains ni' g' where "reprievePod f q fw pod p (st, ni, g) = Some (ok, (st, ni', g'))" and "exactNode f ni'"
    and "sameShell shell ni'" and "mset (niPods ni') = (if ok then add_mset p (mset (niPods ni)) else mset (niPods ni))"
proof -
  let ?ni = "fst (addPod f p g ni)" and ?g = "snd (addPod f p g ni)"
  have a: "exactNode f ?ni" "sameShell shell ?ni" "niPods ?ni = niPods ni @ [p]"
    using exactNode_addPod [OF exact(1)] sameShell_trans [OF exact(2)] by simp_all
  have ok: "trialFits f q fw pod (st, ?ni, ?g) = ok" using fitsNextTo_exact [OF a(1,2), of q ?g] a(3) by (simp add: ok_def)
  show ?thesis
  proof (cases ok)
    case True
    then show ?thesis using that [of ?ni ?g] a ok by (simp add: reprievePod_def trialAdd_exact)
  next
    case False
    have "p \<in> set (niPods ?ni)" "settledPods (niPods ?ni)" using a(3) settled by simp_all
    then obtain ni' where r: "trialRemove f fw pod p (st, ?ni, ?g) = Some (st, ni', ?g + 1)" "exactNode f ni'" "sameShell ?ni ni'"
        "mset (niPods ni') = mset (niPods ?ni) - {#p#}"
      using trialRemove_exact [OF a(1)] by metis
    show ?thesis
      using that [of ni' "?g + 1"] False ok r a(3) sameShell_trans [OF a(2) r(3)] by (simp add: reprievePod_def trialAdd_exact)
  qed
qed

text \<open>The reprieve loop is the greedy search.\<close>

lemma reprieveLoop_greedy:
  assumes "exactNode f ni" and "sameShell shell ni" and "settledPods (niPods ni @ ps)"
  shows "\<exists>ni' g'. reprieveLoop f q fw pod ps vs (st, ni, g) =
      Some (vs @ greedyVictims (fitsNextTo f q fw st pod shell) (mset (niPods ni)) ps, (st, ni', g')) \<and>
    exactNode f ni' \<and> sameShell shell ni' \<and>
    mset (niPods ni') + mset (greedyVictims (fitsNextTo f q fw st pod shell) (mset (niPods ni)) ps) = mset (niPods ni) + mset ps"
  using assms
proof (induction ps arbitrary: ni g vs)
  case (Cons p ps)
  let ?fits = "fitsNextTo f q fw st pod shell"
  let ?ok = "?fits (add_mset p (mset (niPods ni)))"
  have "settledPods (niPods ni @ [p])" by (rule settledPods_mset [OF Cons.prems(3)]) simp
  with Cons.prems(1,2) obtain ni' g' where r: "reprievePod f q fw pod p (st, ni, g) = Some (?ok, (st, ni', g'))"
      "exactNode f ni'" "sameShell shell ni'"
      and m: "mset (niPods ni') = (if ?ok then add_mset p (mset (niPods ni)) else mset (niPods ni))"
    by (rule reprievePod_spec)
  have "settledPods (niPods ni' @ ps)" by (rule settledPods_mset [OF Cons.prems(3)]) (simp add: m)
  from Cons.IH [OF r(2,3) this, of "if ?ok then vs else vs @ [p]" g']
  show ?case using m by (cases ?ok) (simp_all add: r(1))
qed auto

text \<open>The whole routine: the pods of lower priority are the candidates, those whose eviction violates a budget first.\<close>

lemma selectVictims_greedy:
  fixes q :: PriorityQueue
  assumes exact: "exactNode f ni" and settled: "settledPods (niPods ni)" and srt: "\<forall>less ps. mset (srt less ps) = mset ps"
    and split: "filterPodsWithPDBViolation (srt (importance clock) (lowerPods pod (niPods ni))) pdbs = (v, nv)"
  defines "fits \<equiv> fitsNextTo f q fw st pod ni" and "base \<equiv> mset (niPods ni) - mset (lowerPods pod (niPods ni))"
  shows "selectVictimsOnNode f srt clock q fw st pod g ni pdbs =
      (if fits base then Some (greedyVictims fits base (v @ nv), length (greedyVictims fits base v)) else None)"
    and "mset (v @ nv) = mset (lowerPods pod (niPods ni))" and "base + mset (v @ nv) = mset (niPods ni)"
proof -
  obtain ni1 g1 where r: "removeLower f fw pod (length (niPods ni)) 0 (niPods ni) [] (st, ni, g) =
        Some (lowerPods pod (niPods ni), (st, ni1, g1))" "exactNode f ni1" "sameShell ni ni1"
      "mset (niPods ni1) + mset (lowerPods pod (niPods ni)) = mset (niPods ni)"
    using exact settled by (rule removeLower_spec)
  have b: "mset (niPods ni1) = base" unfolding base_def r(4) [symmetric] by simp
  show m: "mset (v @ nv) = mset (lowerPods pod (niPods ni))"
    using splitByBudgets_partition [OF split [unfolded filterPodsWithPDBViolation_def]] srt by simp
  show total: "base + mset (v @ nv) = mset (niPods ni)" unfolding m b [symmetric] by (rule r(4))
  have fit: "trialFits f q fw pod (st, ni1, g1) \<longleftrightarrow> fits base" unfolding fits_def b [symmetric] by (rule fitsNextTo_exact [OF r(2,3), symmetric])
  have set1: "settledPods (niPods ni1 @ v)" by (rule settledPods_mset [OF settled]) (simp add: b total [symmetric])
  obtain ni2 g2 where l: "reprieveLoop f q fw pod v [] (st, ni1, g1) = Some (greedyVictims fits base v, (st, ni2, g2))"
      "exactNode f ni2" "sameShell ni ni2" "mset (niPods ni2) + mset (greedyVictims fits base v) = base + mset v"
    using reprieveLoop_greedy [OF r(2,3) set1, of q "[]" g1] b unfolding fits_def by auto
  have b2: "mset (niPods ni2) = base + mset v - mset (greedyVictims fits base v)" unfolding l(4) [symmetric] by simp
  have "mset (niPods ni2) \<subseteq># base + mset v" unfolding l(4) [symmetric] by simp
  then have set2: "settledPods (niPods ni2 @ nv)" by (intro settledPods_mset [OF settled]) (simp add: total [symmetric])
  obtain t where "reprieveLoop f q fw pod nv (greedyVictims fits base v) (st, ni2, g2) = Some (greedyVictims fits base (v @ nv), t)"
    using reprieveLoop_greedy [OF l(2,3) set2, of q "greedyVictims fits base v" g2] b2 unfolding fits_def greedyVictims_append by auto
  then show "selectVictimsOnNode f srt clock q fw st pod g ni pdbs =
      (if fits base then Some (greedyVictims fits base (v @ nv), length (greedyVictims fits base v)) else None)"
    by (simp add: selectVictimsOnNode_def r(1) fit split l(1))
qed

end

text \<open>Filters that a node with fewer pods passes more easily, as long as the requests do not overflow.\<close>

locale antitone_filters = pod_filters +
  assumes fewer: "pl \<in> set (fwFilterPlugins fw) \<Longrightarrow> exactNode f a \<Longrightarrow> exactNode f b \<Longrightarrow> sameShell a b \<Longrightarrow>
    mset (niPods a) \<subseteq># mset (niPods b) \<Longrightarrow> smallLoad f (pod # niPods b) \<Longrightarrow> IsSuccess (fpFilter pl st pod b) \<Longrightarrow>
    IsSuccess (fpFilter pl st pod a)"
begin

lemma passes_fewer:
  assumes "exactNode f a" and "exactNode f b" and "sameShell a b" and "mset (niPods a) \<subseteq># mset (niPods b)"
    and "smallLoad f (pod # niPods b)" and "passes b"
  shows "passes a"
  using fewer [OF _ assms(1-5)] assms(6) by (simp add: passes_def)

lemma fitsNextTo_fewer:
  assumes shell: "exactNode f shell" and load: "smallLoad f (pod # nominatedFor q pod shell @ ps)"
    and sub: "A \<subseteq># B" "B \<subseteq># mset ps" and fits: "fitsNextTo f q fw st pod shell B"
  shows "fitsNextTo f q fw st pod shell A"
proof -
  obtain xs ys where xs: "mset xs = A" and ys: "mset ys = B" by (metis ex_mset)
  let ?nom = "nominatedFor q pod shell"
  obtain a a' where a: "exactNode f a" "sameShell shell a" "niPods a = xs" "exactNode f a'" "sameShell shell a'" "niPods a' = xs @ ?nom"
    using exactNode_exists [OF shell] by metis
  obtain b where b: "exactNode f b" "sameShell shell b" "niPods b = ys" using exactNode_exists [OF shell] by metis
  have nom: "nominatedFor q pod n = ?nom" if "sameShell shell n" for n using that by (simp add: nominatedFor_def sameShell_def)
  have "trialFits f q fw pod (st, b, 0)" using fits fitsNextTo_exact [OF b(1,2)] b(3) ys by simp
  then obtain b' where b': "exactNode f b'" "sameShell b b'" "mset (niPods b') = mset ys + mset ?nom" "passes b'" "passes b"
    unfolding trialFits_iff [OF b(1)] nom [OF b(2)] b(3) by blast
  have sh: "sameShell a b" "sameShell a' b'" using a(2,5) b(2) b'(2) by (simp_all add: sameShell_def)
  have small: "smallLoad f (pod # niPods b')" "smallLoad f (pod # niPods b)"
    by (rule smallLoad_split(1) [OF load]; use sub(2) b'(3) b(3) ys in \<open>simp add: subset_mset.add_increasing\<close>)+
  have "passes a" using passes_fewer [OF a(1) b(1) sh(1) _ small(2) b'(5)] a(3) b(3) xs ys sub(1) by simp
  moreover have "passes a'" using passes_fewer [OF a(4) b'(1) sh(2) _ small(1) b'(4)] a(6) b'(3) xs ys sub(1) by simp
  moreover have "sameShell a a'" using a(2,5) by (simp add: sameShell_def)
  ultimately have "trialFits f q fw pod (st, a, 0)" unfolding trialFits_iff [OF a(1)] nom [OF a(2)] using a(3,4,6) by auto
  then show ?thesis using fitsNextTo_exact [OF a(1,2)] a(3) xs by simp
qed

end

section \<open>The in-tree filters\<close>

lemma requested_view:
  assumes "exactNode f ni" and "exactNode f ni'" and "mset (niPods ni) = mset (niPods ni')"
  shows "amount (niRequestedResource ni) d = amount (niRequestedResource ni') d"
proof -
  have "(\<Sum>p \<leftarrow> niPods ni. h p) = (\<Sum>p \<leftarrow> niPods ni'. h p)" for h :: "Pod \<Rightarrow> i64"
    using assms(3) by (metis mset_map sum_mset_sum_list)
  then show ?thesis using assms(1,2) by (simp add: exactNode_def nodeInfoInv_def)
qed

lemma fitsRequest_view:
  assumes "exactNode f ni" and "exactNode f ni'" and "sameShell ni ni'" and "mset (niPods ni) = mset (niPods ni')"
  shows "fitsRequest req ni ign = fitsRequest req ni' ign"
proof -
  note amt = requested_view [OF assms(1,2,4)]
  have r: "rMilliCPU (niRequestedResource ni) = rMilliCPU (niRequestedResource ni')"
      "rMemory (niRequestedResource ni) = rMemory (niRequestedResource ni')"
      "rEphemeralStorage (niRequestedResource ni) = rEphemeralStorage (niRequestedResource ni')"
    using amt [of DCPU] amt [of DMemory] amt [of DEphemeral] by simp_all
  have s: "scalarGet (rScalarResources (niRequestedResource ni)) = scalarGet (rScalarResources (niRequestedResource ni'))"
    using amt [of "DScalar _"] by (intro ext) simp
  have l: "length (niPods ni) = length (niPods ni')" by (rule mset_eq_length [OF assms(4)])
  have al: "niAllocatableResource ni = niAllocatableResource ni'" using assms(3) by (simp add: sameShell_def)
  show ?thesis unfolding fitsRequest_def Let_def r s l al by (rule refl)
qed

lemma fitsPorts_view:
  assumes "exactNode f ni" and "exactNode f ni'" and "mset (niPods ni) = mset (niPods ni')"
  shows "fitsPorts (getContainerPorts [pod]) ni = fitsPorts (getContainerPorts [pod]) ni'"
proof -
  have "hpBindings (niUsedPorts ni) = hpBindings (niUsedPorts ni')"
    using assms(1,2) mset_eq_setD [OF assms(3)] by (simp add: exactNode_def)
  then show ?thesis using assms(1,2) by (simp add: exactNode_def nodeInfoInv_def fitsPorts_iff)
qed

lemma preFiltered_states:
  "csRead fitStateKey (preFiltered f ign pod) = Some (FitState (computePodResourceRequest f pod))"
  "csRead portsStateKey (preFiltered f ign pod) = Some (PortsState (getContainerPorts [pod]))"
  using RunPreFilterPlugins_states [of "intreeFramework f ign" f "[]" "[]" pod]
  by (simp_all add: preFiltered_def intreeFramework_def)

lemma intree_plugins:
  assumes "pl \<in> set (fwFilterPlugins (intreeFramework f ign))"
  obtains "pl = fitPlugin ign" | "pl = portsPlugin" | name filt where "pl = nodePlugin name filt" "filt \<in> nodeFilters"
  using assms by (auto simp: intreeFramework_def nodeFilters_def)

lemma nodeFilters_view:
  assumes "filt \<in> nodeFilters" and "sameShell ni ni'"
  shows "filt pod ni = filt pod ni'"
proof -
  have eqs: "niNode ni = niNode ni'" "niTaints ni = niTaints ni'" using assms(2) by (simp_all add: sameShell_def)
  have "g pod ni = g pod ni'" if "g \<in> {runtimeFilter, nodeUnschedulableFilter, nodeNameFilter, nodeAffinityFilter}" for g
    using that eqs(1) by (auto simp: runtimeFilter_def nodeUnschedulableFilter_def nodeNameFilter_def nodeAffinityFilter_def)
  moreover have "taintFilter pod ni = taintFilter pod ni'" unfolding taintFilter_def eqs by (rule refl)
  ultimately show ?thesis using assms(1) by (auto simp: nodeFilters_def)
qed

interpretation iv: pod_filters f "intreeFramework f ign" "preFiltered f ign pod" pod for f ign pod
proof unfold_locales
  fix p ni
  show "RunPreFilterExtensionAddPod (intreeFramework f ign) (preFiltered f ign pod) pod p ni = (None, preFiltered f ign pod)"
      "RunPreFilterExtensionRemovePod (intreeFramework f ign) (preFiltered f ign pod) pod p ni = (None, preFiltered f ign pod)"
    by (simp_all add: RunPreFilterExtensionAddPod_def RunPreFilterExtensionRemovePod_def intreeFramework_def
        fitPreFilterPlugin_def portsPreFilterPlugin_def)
next
  show "csClone (preFiltered f ign pod) = preFiltered f ign pod"
    by (rule csClone_self) (simp add: preFiltered_def RunPreFilterPlugins_def intreeFramework_def fitPreFilterPlugin_def
        portsPreFilterPlugin_def fitPreFilter_def portsPreFilter_def csWrite_def status_defs gomap_wf_def)
next
  fix pl :: "'a StateData FilterPlugin" and ni ni'
  assume pl: "pl \<in> set (fwFilterPlugins (intreeFramework f ign))"
    and v: "exactNode f ni" "exactNode f ni'" "sameShell ni ni'" "mset (niPods ni) = mset (niPods ni')"
  from pl consider "pl = fitPlugin ign" | "pl = portsPlugin" | name filt where "pl = nodePlugin name filt" "filt \<in> nodeFilters"
    by (rule intree_plugins)
  then show "statusCode (fpFilter pl (preFiltered f ign pod) pod ni) = statusCode (fpFilter pl (preFiltered f ign pod) pod ni')"
  proof cases
    case 1
    then show ?thesis by (simp add: fitPlugin_def fitFilter_def fitGetState_def preFiltered_states fitsRequest_view [OF v])
  next
    case 2
    then show ?thesis by (simp add: portsPlugin_def portsFilter_def portsGetState_def preFiltered_states fitsPorts_view [OF v(1,2,4)])
  next
    case 3
    then show ?thesis by (simp add: nodePlugin_def nodeFilters_view [OF _ v(3)])
  qed
qed

section \<open>Fewer pods fit better\<close>

lemma fitsRequest_Nil_iff:
  "fitsRequest req ni ign = [] \<longleftrightarrow>
    int (length (niPods ni)) < sint (rAllowedPodNumber (niAllocatableResource ni)) \<and>
    (rMilliCPU req = 0 \<and> rMemory req = 0 \<and> rEphemeralStorage req = 0 \<and> rScalarResources req = [] \<or>
     (\<forall>d \<in> {DCPU, DMemory, DEphemeral}.
        sint (amount req d + amount (niRequestedResource ni) d) \<le> sint (amount (niAllocatableResource ni) d)) \<and>
     (\<forall>(name, v) \<in> set (rScalarResources req). ignoredDim ign (DScalar name) \<or>
        sint (v + amount (niRequestedResource ni) (DScalar name)) \<le> sint (amount (niAllocatableResource ni) (DScalar name))))"
proof -
  have if_Nil: "(if P then [] else if Q then [x] else []) = [] \<longleftrightarrow> P \<or> \<not> Q" "(if Q then [x] else []) = [] \<longleftrightarrow> \<not> Q"
      "(if P then xs else xs @ ys) = [] \<longleftrightarrow> xs = [] \<and> (P \<or> ys = [])"
    for P Q and x :: InsufficientResource and xs ys by simp_all
  show ?thesis unfolding fitsRequest_def Let_def split_beta if_Nil append_is_Nil_conv concat_eq_Nil_conv set_map ball_simps
    by (simp add: not_less not_le)
qed

lemma fitsRequest_fewer:
  assumes a: "exactNode f a" and b: "exactNode f b" and sh: "sameShell a b" and sub: "mset (niPods a) \<subseteq># mset (niPods b)"
    and small: "smallLoad f (pod # niPods b)" and fits: "fitsRequest (podRequest f pod) b ign = []"
  shows "fitsRequest (podRequest f pod) a ign = []"
proof -
  have sub': "mset (pod # niPods a) \<subseteq># mset (pod # niPods b)" using sub by simp
  have inv: "nodeInfoInv f a" "nodeInfoInv f b" using a b by (simp_all add: exactNode_def)
  have le: "sint (amount (podRequest f pod) d + amount (niRequestedResource a) d) \<le>
      sint (amount (podRequest f pod) d + amount (niRequestedResource b) d)" for d
    using total_load [OF inv(1) smallLoad_split(1) [OF small sub']] total_load [OF inv(2) small] smallLoad_split(2) [OF small sub']
    by simp
  have sc: "amount (podRequest f pod) (DScalar n) = v" if "(n, v) \<in> set (rScalarResources (podRequest f pod))" for n v
    using that gomap_wf_podRequest [of f pod] by (simp add: scalarGet_def gomap_wf_def)
  have len: "length (niPods a) \<le> length (niPods b)" using size_mset_mono [OF sub] by simp
  have al: "niAllocatableResource a = niAllocatableResource b" using sh by (simp add: sameShell_def)
  show ?thesis using fits len order_trans [OF le] sc unfolding fitsRequest_Nil_iff al by (fastforce simp del: amount.simps)
qed

lemma fitsPorts_fewer:
  assumes "exactNode f a" and "exactNode f b" and "mset (niPods a) \<subseteq># mset (niPods b)"
    and "fitsPorts (getContainerPorts [pod]) b"
  shows "fitsPorts (getContainerPorts [pod]) a"
proof -
  have "set (niPods a) \<subseteq> set (niPods b)" using set_mset_mono [OF assms(3)] by simp
  then have "hpBindings (niUsedPorts a) \<subseteq> hpBindings (niUsedPorts b)" using assms(1,2) unfolding exactNode_def by blast
  then show ?thesis using assms(1,2,4) by (auto simp: exactNode_def nodeInfoInv_def fitsPorts_iff)
qed

interpretation ia: antitone_filters f "intreeFramework f ign" "preFiltered f ign pod" pod for f ign pod
proof unfold_locales
  fix pl :: "'a StateData FilterPlugin" and a b
  assume pl: "pl \<in> set (fwFilterPlugins (intreeFramework f ign))" and v: "exactNode f a" "exactNode f b" "sameShell a b"
      "mset (niPods a) \<subseteq># mset (niPods b)" and small: "smallLoad f (pod # niPods b)"
    and ok: "IsSuccess (fpFilter pl (preFiltered f ign pod) pod b)"
  from pl show "IsSuccess (fpFilter pl (preFiltered f ign pod) pod a)"
  proof (cases rule: intree_plugins)
    case 1
    then show ?thesis using ok fitsRequest_fewer [OF v small]
      by (simp add: fitPlugin_def fitFilter_success [OF preFiltered_states(1)] Fits_def computePodResourceRequest_eq)
  next
    case 2
    then show ?thesis using ok fitsPorts_fewer [OF v(1,2,4)]
      by (simp add: portsPlugin_def portsFilter_success [OF preFiltered_states(2)])
  next
    case 3
    then show ?thesis using ok by (simp add: nodePlugin_def nodeFilters_view [OF _ v(3)])
  qed
qed

section \<open>The victims\<close>

text \<open>C4: \<open>selectVictimsOnNode\<close> is a greedy search over the multiset of pods, although it works on slices that \<open>RemovePod\<close>
  rearranges under its range loop. On a node whose aggregates are exact and whose pods have distinct uids and disjoint
  host ports, it returns nothing exactly when the pod does not fit even with all pods of lower priority
  gone. Otherwise the victims are pods of lower priority of the node, obtained by offering each candidate
  its place back, those whose eviction violates a budget first and in the sorted order within each group; the
  second result counts the violating ones; the pod fits once the victims are gone; and when the requests
  do not overflow the set is minimal: no victim can be reprieved.\<close>

theorem select_victims_minimal:
  fixes fw :: "'x StateData framework" and f :: features and ign :: "string set"
  defines "fw \<equiv> intreeFramework f ign"
  assumes "exactNode f ni" and "settledPods (niPods ni)" and "\<forall>less ps. mset (srt less ps) = mset ps"
  shows "let fits = fitsNextTo f q fw (preFiltered f ign pod) pod ni;
      lower = lowerPods pod (niPods ni);
      base = mset (niPods ni) - mset lower;
      (v, nv) = filterPodsWithPDBViolation (srt (importance clock) lower) pdbs
    in case selectVictimsOnNode f srt clock q fw (preFiltered f ign pod) pod g ni pdbs of
        None \<Rightarrow> \<not> fits base
      | Some (victims, violating) \<Rightarrow>
          fits base \<and> victims = greedyVictims fits base (v @ nv) \<and> violating = length (greedyVictims fits base v) \<and>
          mset victims \<subseteq># mset lower \<and> fits (mset (niPods ni) - mset victims) \<and>
          (smallLoad f (pod # nominatedFor q pod ni @ niPods ni) \<longrightarrow>
            (\<forall>p \<in> set victims. \<not> fits (add_mset p (mset (niPods ni) - mset victims))))"
proof -
  let ?fits = "fitsNextTo f q fw (preFiltered f ign pod) pod ni"
  let ?base = "mset (niPods ni) - mset (lowerPods pod (niPods ni))"
  obtain v nv where split: "filterPodsWithPDBViolation (srt (importance clock) (lowerPods pod (niPods ni))) pdbs = (v, nv)" by fastforce
  have spec: "selectVictimsOnNode f srt clock q fw (preFiltered f ign pod) pod g ni pdbs =
        (if ?fits ?base then Some (greedyVictims ?fits ?base (v @ nv), length (greedyVictims ?fits ?base v)) else None)"
      "mset (v @ nv) = mset (lowerPods pod (niPods ni))" "?base + mset (v @ nv) = mset (niPods ni)"
    unfolding fw_def by (rule iv.selectVictims_greedy [OF assms(2-) split])+
  let ?G = "greedyVictims ?fits ?base (v @ nv)"
  have sub: "mset ?G \<subseteq># mset (lowerPods pod (niPods ni))" using greedyVictims_mset [of ?fits ?base "v @ nv"] spec(2) by simp
  have fit: "?fits (mset (niPods ni) - mset ?G)" if "?fits ?base" using greedyVictims_fits [of ?fits, OF that] spec(3) by metis
  have "\<not> ?fits (add_mset p (mset (niPods ni) - mset ?G))"
    if small: "smallLoad f (pod # nominatedFor q pod ni @ niPods ni)" and p: "p \<in> set ?G" for p
  proof -
    have "\<not> ?fits (add_mset p (?base + mset (v @ nv) - mset ?G))"
    proof (rule greedyVictims_minimal [OF _ p])
      show "?fits A" if "A \<subseteq># B" "B \<subseteq># ?base + mset (v @ nv)" "?fits B" for A B
        using ia.fitsNextTo_fewer [OF assms(2) small that(1)] that(2,3) spec(3) unfolding fw_def by metis
    qed
    then show ?thesis using spec(3) by metis
  qed
  then show ?thesis using sub fit by (simp add: spec(1) split Let_def)
qed

lemma busyNode_exact: "exactNode defaultFeatures busyNode"
proof -
  have "exactNode defaultFeatures readyShell" using nodeInfoInv_empty [of defaultFeatures 0]
    by (simp add: exactNode_def readyShell_def nodeInfoInv_def emptyNodeInfo_def hpBindings_def emptyResource_def gomap_wf_def)
  then show ?thesis unfolding busyNode_def by (rule exactNode_addPod)
qed

theorem select_victims_minimal_witness:
  "let fw = intreeFramework defaultFeatures {} :: unit StateData framework;
       high = cpuPod ''high'' 1; low = cpuPod ''low'' 0; q = NewPriorityQueue 1 10;
       st = preFiltered defaultFeatures {} high
   in selectVictimsOnNode defaultFeatures (\<lambda>_ ps. ps) (\<lambda>_. 0) q fw st high 0 busyNode [] = Some ([low], 0) \<and>
      fitsNextTo defaultFeatures q fw st high busyNode {#} \<and> \<not> fitsNextTo defaultFeatures q fw st high busyNode {#low#}"
proof -
  let ?f = defaultFeatures and ?high = "cpuPod ''high'' 1" and ?low = "cpuPod ''low'' 0" and ?q = "NewPriorityQueue 1 10"
  have sel: "selectVictimsOnNode ?f (\<lambda>_ ps. ps) (\<lambda>_. 0) ?q (intreeFramework ?f {} :: unit StateData framework)
      (preFiltered ?f {} ?high) ?high 0 busyNode [] = Some ([?low], 0)" by code_simp
  have pods: "niPods busyNode = [?low]" "nominatedFor ?q ?high busyNode = []" by code_simp+
  have settled: "settledPods (niPods busyNode)" unfolding pods by (simp add: settledPods_def cpuPod_def)
  have req: "podRequest ?f ?high = emptyResource\<lparr>rMilliCPU := 600\<rparr>" "podRequest ?f ?low = emptyResource\<lparr>rMilliCPU := 600\<rparr>"
    by code_simp+
  have "amount (emptyResource\<lparr>rMilliCPU := 600\<rparr>) d = (if d = DCPU then 600 else 0)" for d
    by (cases d) (simp_all add: emptyResource_def)
  then have small: "smallLoad ?f (?high # nominatedFor ?q ?high busyNode @ niPods busyNode)"
    by (simp add: pods smallLoad_def trueLoad_def req)
  have "\<forall>less ps. mset ((\<lambda>_ ps. ps) less ps :: Pod list) = mset ps" by simp
  note v = select_victims_minimal [where 'x = unit, OF busyNode_exact settled this, where ign = "{}" and pod = ?high and q = ?q and
      clock = "\<lambda>_. 0" and pdbs = "[]" and g = 0]
  have "filterPodsWithPDBViolation (lowerPods ?high [?low]) [] = ([], [?low])" by code_simp
  then show ?thesis using v small sel by (simp add: pods Let_def)
qed

section \<open>Two departures\<close>

text \<open>The choice among nodes assumes the victims of a node in decreasing order of priority and takes the first one for the
  highest. With budgets the violating victims come first, whatever their priority.\<close>

lemma victims_not_by_priority:
  "let a = cpuPod ''a'' 0; a = a\<lparr>podMeta := (podMeta a)\<lparr>omLabels := [(''app'', ''x'')]\<rparr>\<rparr>; b = cpuPod ''b'' 1;
       ni = fst (addPod defaultFeatures b 0 (fst (addPod defaultFeatures a 0 readyShell)));
       pdb = \<lparr>pdbNamespace = [], pdbTenant = [], pdbSelector = Some \<lparr>lsMatchLabels = [(''app'', ''x'')], lsMatchExpressions = []\<rparr>,
              pdbPodDisruptionsAllowed = 0\<rparr>;
       high = cpuPod ''high'' 5
   in map_option (\<lambda>(victims, n). (map GetPodPriority victims, n))
        (selectVictimsOnNode defaultFeatures (\<lambda>_ ps. ps) (\<lambda>_. 0) (NewPriorityQueue 1 10)
          (intreeFramework defaultFeatures {} :: unit StateData framework) (preFiltered defaultFeatures {} high) high 0 ni [pdb]) =
      Some ([0, 1], 1)"
  by code_simp

text \<open>A pod without labels is said to match no budget; a selector that asks for the absence of a label matches it.\<close>

lemma unlabelled_pod_matches:
  "let pdb = \<lparr>pdbNamespace = [], pdbTenant = [], pdbSelector = Some \<lparr>lsMatchLabels = [], lsMatchExpressions =
         [\<lparr>lsrKey = ''app'', lsrOperator = ''DoesNotExist'', lsrValues = []\<rparr>]\<rparr>, pdbPodDisruptionsAllowed = 0\<rparr>
   in pdbMatches zeroPod pdb \<and> filterPodsWithPDBViolation [zeroPod] [pdb] = ([], [zeroPod])"
  by code_simp

end
