(* ===== verification/Revisions.thy ===== *)
theory Revisions
  imports Prelude
begin

text \<open>
  Resource versions (\<open>apimachinery/pkg/util/diff/compare.go\<close>). A revision of this storage backend packs a time in
  milliseconds, the id of the storage cluster in bits 13 to 18 and a sequence number in bits 0 to 12 into 64
  bits. Two revisions of one cluster are compared as numbers; revisions of different clusters are compared by
  their times with a tolerance. Revisions below a threshold are plain counters. The lemmas show that the
  fields come back out of a packed revision, and what the comparison means on each of the three branches.
\<close>

unbundle bit_operations_syntax

type_synonym u64 = "64 word"

section \<open>Definitions\<close>

text \<open>\<open>strconv.ParseUint(s, 10, 64)\<close>: digits only, with the range checked before and after each step.\<close>

datatype numError = ErrSyntax | ErrRange

definition maxUint64 :: int where "maxUint64 = 18446744073709551615"

definition digitOf :: "char \<Rightarrow> int option" where
  "digitOf c = (if 48 \<le> (of_char c :: int) \<and> (of_char c :: int) \<le> 57 then Some (of_char c - 48) else None)"

fun parseLoop :: "int \<Rightarrow> string \<Rightarrow> numError + u64" where
  "parseLoop n [] = Inr (word_of_int n)"
| "parseLoop n (c # cs) =
     (case digitOf c of
        None \<Rightarrow> Inl ErrSyntax
      | Some d \<Rightarrow>
          if maxUint64 div 10 + 1 \<le> n then Inl ErrRange
          else if maxUint64 < n * 10 + d then Inl ErrRange
          else parseLoop (n * 10 + d) cs)"

definition ParseUint :: "string \<Rightarrow> numError + u64" where
  "ParseUint s = (if s = [] then Inl ErrSyntax else parseLoop 0 s)"

definition allowedNTPDiffInMilliSecond :: u64 where "allowedNTPDiffInMilliSecond = 5000"

definition extractClusterId :: "u64 \<Rightarrow> u64" where
  "extractClusterId r = drop_bit 13 r mod 64"

definition extractMilliSecond :: "u64 \<Rightarrow> u64" where
  "extractMilliSecond r = drop_bit 19 r"

definition getRevisionNumber :: "i64 \<Rightarrow> i64 \<Rightarrow> i64 \<Rightarrow> u64" where
  "getRevisionNumber testTimeInNano clusterId seq =
     (let revision = go_div testTimeInNano 1000000;
          revision = push_bit 6 revision + clusterId;
          revision = push_bit 13 revision + seq
      in revision)"

text \<open>The threshold is the revision of midnight, 10 May 2020, UTC, in nanoseconds since the epoch.\<close>

definition v2MinRevision :: u64 where
  "v2MinRevision = getRevisionNumber 1589068800000000000 0 1"

definition revisionCompare :: "u64 \<Rightarrow> u64 \<Rightarrow> int \<times> bool" where
  "revisionCompare revision1 revision2 =
     (let isSameCluster = extractClusterId revision1 = extractClusterId revision2 in
      if isSameCluster then
        (if revision1 < revision2 then -1 else if revision1 = revision2 then 0 else 1, isSameCluster)
      else
        (let ms1 = extractMilliSecond revision1; ms2 = extractMilliSecond revision2 in
         (if ms1 = ms2 then 0
          else (let (result, absDiff) = (if ms1 < ms2 then (-1, ms2 - ms1) else (1, ms1 - ms2)) in
                if absDiff < allowedNTPDiffInMilliSecond then 0 else result), isSameCluster)))"

definition RevisionIsNewer :: "u64 \<Rightarrow> u64 \<Rightarrow> bool" where
  "RevisionIsNewer revision1 revision2 =
     (if revision1 < v2MinRevision \<or> revision2 < v2MinRevision then revision2 < revision1
      else (let (result, isSameCluster) = revisionCompare revision1 revision2 in
            if isSameCluster then 0 < result else 0 \<le> result))"

definition RevisionStrIsNewer :: "string \<Rightarrow> string \<Rightarrow> numError + bool" where
  "RevisionStrIsNewer rev1 rev2 =
     (case ParseUint rev1 of
        Inl e \<Rightarrow> Inl e
      | Inr revision1 \<Rightarrow>
          (case ParseUint rev2 of
             Inl e \<Rightarrow> Inl e
           | Inr revision2 \<Rightarrow> Inr (RevisionIsNewer revision1 revision2)))"

text \<open>The cluster id of a configuration string: \<open>strconv.ParseInt(s, 10, 8)\<close> on decimal digits with an optional sign.\<close>

definition ParseInt8 :: "string \<Rightarrow> numError + int" where
  "ParseInt8 s =
     (let (neg, digits) = (case s of [] \<Rightarrow> (False, []) | c # cs \<Rightarrow>
                             if c = CHR ''-'' then (True, cs) else if c = CHR ''+'' then (False, cs) else (False, s))
      in case ParseUint digits of
           Inl e \<Rightarrow> Inl e
         | Inr un \<Rightarrow>
             if \<not> neg \<and> 128 \<le> un then Inl ErrRange
             else if neg \<and> 128 < un then Inl ErrRange
             else Inr (if neg then - uint un else uint un))"

definition GetClusterIdFromString :: "string \<Rightarrow> (numError + string) + int" where
  "GetClusterIdFromString stringValue =
     (case ParseInt8 stringValue of
        Inl e \<Rightarrow> Inl (Inl e)
      | Inr clusterId \<Rightarrow>
          if clusterId < 0 \<or> 63 < clusterId then Inl (Inr ''Cluster id needs to be 0 - 63.'') else Inr clusterId)"

section \<open>Lemmas\<close>

text \<open>A revision is the number its three fields make, and the fields come back.\<close>

lemma getRevisionNumber_packed:
  fixes cluster seq :: nat
  assumes "0 \<le> sint t"
  shows "getRevisionNumber t (of_nat cluster) (of_nat seq) = of_nat ((nat (sint t div 1000000) * 64 + cluster) * 8192 + seq)"
proof -
  have "go_div t 1000000 = of_nat (nat (sint t div 1000000))"
    using assms by (simp add: go_div_def signed_divide_int_def sgn_if pos_imp_zdiv_nonneg_iff)
  then show ?thesis by (simp add: getRevisionNumber_def Let_def push_bit_eq_mult algebra_simps)
qed

lemma revision_fields:
  fixes ms cluster seq :: nat
  assumes "ms < 2 ^ 44" and "cluster < 64" and "seq < 8192"
  defines "r \<equiv> of_nat ((ms * 64 + cluster) * 8192 + seq) :: u64"
  shows "extractClusterId r = of_nat cluster" and "extractMilliSecond r = of_nat ms"
proof -
  let ?n = "(ms * 64 + cluster) * 8192 + seq"
  have "?n < 2 ^ LENGTH(64)" using assms(1-3) by simp
  then have u: "unat r = ?n" unfolding r_def unat_of_nat by (rule mod_less)
  have hi: "?n div 8192 = ms * 64 + cluster" using assms(3) by simp
  then have "unat (drop_bit 13 r) = ms * 64 + cluster" unfolding unat_drop_bit_eq u unfolding drop_bit_eq_div by simp
  then have "unat (extractClusterId r) = cluster" using assms(2) by (simp add: extractClusterId_def unat_mod_distrib)
  then show "extractClusterId r = of_nat cluster" using assms(2) by (simp add: word_unat_eq_iff unat_of_nat)
  have "unat (extractMilliSecond r) = ?n div 524288" unfolding extractMilliSecond_def unat_drop_bit_eq u unfolding drop_bit_eq_div by simp
  also have "\<dots> = ?n div 8192 div 64" unfolding div_mult2_eq [symmetric] by simp
  also have "\<dots> = ms" unfolding hi using assms(2) by simp
  finally show "extractMilliSecond r = of_nat ms" using assms(1) by (simp add: word_unat_eq_iff unat_of_nat)
qed

lemma getRevisionNumber_fields:
  fixes cluster seq :: nat
  assumes "0 \<le> sint t" and "cluster < 64" and "seq < 8192"
  shows "extractClusterId (getRevisionNumber t (of_nat cluster) (of_nat seq)) = of_nat cluster"
    and "extractMilliSecond (getRevisionNumber t (of_nat cluster) (of_nat seq)) = of_nat (nat (sint t div 1000000))"
proof -
  have "nat (sint t div 1000000) < 2 ^ 44" using sint64_less [of t] assms(1) by (simp add: nat_less_iff)
  from revision_fields [OF this assms(2,3)]
  show "extractClusterId (getRevisionNumber t (of_nat cluster) (of_nat seq)) = of_nat cluster"
    "extractMilliSecond (getRevisionNumber t (of_nat cluster) (of_nat seq)) = of_nat (nat (sint t div 1000000))"
    unfolding getRevisionNumber_packed [OF assms(1)] by simp_all
qed

text \<open>The three branches of the comparison.\<close>

lemma RevisionIsNewer_counter:
  "r1 < v2MinRevision \<or> r2 < v2MinRevision \<Longrightarrow> RevisionIsNewer r1 r2 \<longleftrightarrow> unat r2 < unat r1"
  by (simp add: RevisionIsNewer_def word_less_nat_alt)

lemma RevisionIsNewer_same_cluster:
  "extractClusterId r1 = extractClusterId r2 \<Longrightarrow> RevisionIsNewer r1 r2 \<longleftrightarrow> unat r2 < unat r1"
  by (auto simp: RevisionIsNewer_def revisionCompare_def Let_def word_less_nat_alt word_unat_eq_iff)

lemma RevisionIsNewer_other_cluster:
  assumes "v2MinRevision \<le> r1" and "v2MinRevision \<le> r2" and "extractClusterId r1 \<noteq> extractClusterId r2"
  shows "RevisionIsNewer r1 r2 \<longleftrightarrow> unat (extractMilliSecond r2) < unat (extractMilliSecond r1) + 5000"
proof -
  let ?m1 = "extractMilliSecond r1" and ?m2 = "extractMilliSecond r2"
  have d: "unat (?m2 - ?m1) = unat ?m2 - unat ?m1" if "?m1 < ?m2"
    using that by (simp add: unat_sub)
  have newer: "RevisionIsNewer r1 r2 \<longleftrightarrow> 0 \<le> fst (revisionCompare r1 r2)"
    using assms by (simp add: RevisionIsNewer_def not_less [symmetric] revisionCompare_def Let_def split: prod.split)
  show ?thesis
  proof (cases "?m1 < ?m2")
    case True
    then show ?thesis unfolding newer
      using assms(3) d by (auto simp: revisionCompare_def Let_def allowedNTPDiffInMilliSecond_def word_less_nat_alt)
  next
    case False
    then show ?thesis unfolding newer
      using assms(3) by (auto simp: revisionCompare_def Let_def word_less_nat_alt)
  qed
qed

text \<open>No revision is newer than itself; between clusters two revisions can each be newer than the other.\<close>

lemma RevisionIsNewer_irrefl: "\<not> RevisionIsNewer r r"
  by (simp add: RevisionIsNewer_same_cluster)

lemma RevisionIsNewer_mutual:
  assumes "v2MinRevision \<le> r1" and "v2MinRevision \<le> r2" and "extractClusterId r1 \<noteq> extractClusterId r2"
    and "extractMilliSecond r1 = extractMilliSecond r2"
  shows "RevisionIsNewer r1 r2 \<and> RevisionIsNewer r2 r1"
  using assms by (simp add: RevisionIsNewer_other_cluster)

lemma GetClusterIdFromString_fits:
  "GetClusterIdFromString s = Inr cluster \<Longrightarrow> 0 \<le> sint t \<Longrightarrow> seq < 8192 \<Longrightarrow>
   extractClusterId (getRevisionNumber t (word_of_int cluster) (of_nat seq)) = word_of_int cluster"
  using getRevisionNumber_fields(1) [of t "nat cluster" seq]
  by (auto simp: GetClusterIdFromString_def split: sum.splits if_splits)

end
