(* ===== verification/InstanceManager.thy ===== *)
theory InstanceManager
  imports ApiTypes Revisions
begin

text \<open>
  The controller instance manager (\<open>pkg/cloudfabric-controller/controllerframework/controllerinstancemanager.go\<close>): the
  process-wide cache of the registered controller instances, by type and by name, kept up to date by the
  informer's handlers. The channel the manager notifies is modelled by the list of the controller types that
  are sent. An exit of the process, by \<open>klog.Fatalf\<close> or by writing to a nil map, is the value \<open>None\<close>. The lemmas
  show that the two-level map stays well formed and that every handler is an update of one partial map from
  type and name to instance.
\<close>

section \<open>Definitions\<close>

record ControllerInstance =
  ciMeta :: ObjectMeta
  ciControllerType :: string
  ciControllerKey :: i64
  ciWorkloadNum :: i32
  ciIsLocked :: bool

abbreviation ciName :: "ControllerInstance \<Rightarrow> string" where "ciName i \<equiv> omName (ciMeta i)"

type_synonym instances = "(string, ControllerInstance) gomap"

record ControllerInstanceManager =
  cimInstanceId :: string
  cimCurrentControllers :: "(string, instances) gomap"
  cimIsControllerListInitialized :: bool

text \<open>What the delete handler can be given.\<close>

datatype deletedObj = DInstance ControllerInstance | DTombstone ControllerInstance | DTombstoneOther | DOther

definition removeInstance :: "ControllerInstance \<Rightarrow> ControllerInstanceManager \<Rightarrow> ControllerInstanceManager \<times> string list" where
  "removeInstance inst cim =
     (case mget (cimCurrentControllers cim) (ciControllerType inst) of
        None \<Rightarrow> (cim, [])
      | Some l \<Rightarrow>
          (case mget l (ciName inst) of
             None \<Rightarrow> (cim, [])
           | Some _ \<Rightarrow>
               (cim\<lparr>cimCurrentControllers := mput (ciControllerType inst) (mdel (ciName inst) l) (cimCurrentControllers cim)\<rparr>,
                [ciControllerType inst])))"

definition deleteControllerInstance :: "deletedObj \<Rightarrow> ControllerInstanceManager \<Rightarrow> ControllerInstanceManager \<times> string list" where
  "deleteControllerInstance obj cim =
     (case obj of
        DInstance inst \<Rightarrow> removeInstance inst cim
      | DTombstone inst \<Rightarrow> removeInstance inst cim
      | DTombstoneOther \<Rightarrow> (cim, [])
      | DOther \<Rightarrow> (cim, []))"

definition updateControllerInstance ::
  "ControllerInstance \<Rightarrow> ControllerInstance \<Rightarrow> ControllerInstanceManager \<Rightarrow> (ControllerInstanceManager \<times> string list) option" where
  "updateControllerInstance old cur cim =
     (if omResourceVersion (ciMeta cur) = omResourceVersion (ciMeta old) then Some (cim, [])
      else case RevisionStrIsNewer (omResourceVersion (ciMeta cur)) (omResourceVersion (ciMeta old)) of
             Inl _ \<Rightarrow> Some (cim, [])
           | Inr isNewer \<Rightarrow>
               if \<not> isNewer then Some (cim, [])
               else if ciName cur \<noteq> ciName old then None
               else if ciControllerType cur \<noteq> ciControllerType old then None
               else if omDeletionTimestamp (ciMeta cur) \<noteq> None then Some (deleteControllerInstance (DInstance cur) cim)
               else (case mget (cimCurrentControllers cim) (ciControllerType old) of
                       None \<Rightarrow> None
                     | Some l \<Rightarrow>
                         Some (cim\<lparr>cimCurrentControllers :=
                                 mput (ciControllerType old) (mput (ciName old) cur l) (cimCurrentControllers cim)\<rparr>,
                               if ciWorkloadNum cur \<noteq> ciWorkloadNum old \<or> ciControllerKey cur \<noteq> ciControllerKey old
                               then [ciControllerType cur] else [])))"

definition addControllerInstance ::
  "ControllerInstance \<Rightarrow> ControllerInstanceManager \<Rightarrow> (ControllerInstanceManager \<times> string list) option" where
  "addControllerInstance new cim =
     (if omDeletionTimestamp (ciMeta new) \<noteq> None then Some (deleteControllerInstance (DInstance new) cim)
      else
        (let insert = (\<lambda>l. Some (cim\<lparr>cimCurrentControllers :=
                                 mput (ciControllerType new) (mput (ciName new) new l) (cimCurrentControllers cim)\<rparr>,
                                [ciControllerType new]))
         in case mget (cimCurrentControllers cim) (ciControllerType new) of
              None \<Rightarrow> insert []
            | Some l \<Rightarrow>
                (case mget l (ciName new) of
                   Some existing \<Rightarrow> updateControllerInstance existing new cim
                 | None \<Rightarrow> insert l)))"

text \<open>\<open>syncControllerInstances\<close>: the argument is what listing the registry returned.\<close>

definition syncOne :: "ControllerInstance \<Rightarrow> (string, instances) gomap \<Rightarrow> (string, instances) gomap" where
  "syncOne inst m =
     (let l = (case mget m (ciControllerType inst) of None \<Rightarrow> [] | Some l \<Rightarrow> l)
      in mput (ciControllerType inst) (mput (ciName inst) inst l) m)"

definition syncControllerInstances ::
  "string + ControllerInstance list \<Rightarrow> ControllerInstanceManager \<Rightarrow> string option \<times> ControllerInstanceManager" where
  "syncControllerInstances registry cim =
     (case registry of
        Inl err \<Rightarrow> (Some err, cim)
      | Inr items \<Rightarrow>
          (None, cim\<lparr>cimCurrentControllers := fold syncOne items (cimCurrentControllers cim),
                     cimIsControllerListInitialized := True\<rparr>))"

definition NewControllerInstanceManager ::
  "string \<Rightarrow> string + ControllerInstance list \<Rightarrow> ControllerInstanceManager option" where
  "NewControllerInstanceManager uid registry =
     (let manager = \<lparr>cimInstanceId = uid, cimCurrentControllers = [], cimIsControllerListInitialized = False\<rparr>;
          (err, manager) = syncControllerInstances registry manager
      in if err \<noteq> None then None else Some manager)"

definition ListControllerInstances ::
  "string + ControllerInstance list \<Rightarrow> string \<Rightarrow> ControllerInstanceManager \<Rightarrow> (string + instances) \<times> ControllerInstanceManager" where
  "ListControllerInstances registry controllerType cim =
     (let (err, cim) = (if \<not> cimIsControllerListInitialized cim then syncControllerInstances registry cim else (None, cim))
      in case err of
           Some e \<Rightarrow> (Inl e, cim)
         | None \<Rightarrow> (Inr (case mget (cimCurrentControllers cim) controllerType of None \<Rightarrow> [] | Some l \<Rightarrow> l), cim))"

section \<open>What the cache is specified against\<close>

definition cimInv :: "ControllerInstanceManager \<Rightarrow> bool" where
  "cimInv cim \<longleftrightarrow> gomap_wf (cimCurrentControllers cim) \<and>
     (\<forall>ty l. mget (cimCurrentControllers cim) ty = Some l \<longrightarrow> gomap_wf l \<and>
        (\<forall>name inst. mget l name = Some inst \<longrightarrow> ciName inst = name \<and> ciControllerType inst = ty))"

text \<open>The registry as the cache sees it.\<close>

definition cimView :: "ControllerInstanceManager \<Rightarrow> string \<times> string \<Rightarrow> ControllerInstance option" where
  "cimView cim = (\<lambda>(ty, name). case mget (cimCurrentControllers cim) ty of None \<Rightarrow> None | Some l \<Rightarrow> mget l name)"

definition instanceKey :: "ControllerInstance \<Rightarrow> string \<times> string" where
  "instanceKey inst = (ciControllerType inst, ciName inst)"

text \<open>The events an informer delivers about its store: an instance that appears, an instance of the first listing, an
  update to a newer version, and a deletion. A deletion timestamp is never taken back.\<close>

datatype informerEvent = EvAdd ControllerInstance | EvUpdate ControllerInstance ControllerInstance | EvDelete ControllerInstance

type_synonym store = "string \<times> string \<Rightarrow> ControllerInstance option"

inductive informerStep :: "store \<Rightarrow> informerEvent \<Rightarrow> store \<Rightarrow> bool" where
  appears: "S (instanceKey i) = None \<Longrightarrow> informerStep S (EvAdd i) (S(instanceKey i \<mapsto> i))"
| listed: "S (instanceKey i) = Some i \<Longrightarrow> informerStep S (EvAdd i) S"
| updated: "S (instanceKey old) = Some old \<Longrightarrow> instanceKey cur = instanceKey old \<Longrightarrow>
    RevisionStrIsNewer (omResourceVersion (ciMeta cur)) (omResourceVersion (ciMeta old)) = Inr True \<Longrightarrow>
    (omDeletionTimestamp (ciMeta old) \<noteq> None \<longrightarrow> omDeletionTimestamp (ciMeta cur) \<noteq> None) \<Longrightarrow>
    informerStep S (EvUpdate old cur) (S(instanceKey cur \<mapsto> cur))"
| deleted: "S (instanceKey i) = Some i' \<Longrightarrow> informerStep S (EvDelete i) (S(instanceKey i := None))"

fun handleEvent :: "informerEvent \<Rightarrow> ControllerInstanceManager \<Rightarrow> (ControllerInstanceManager \<times> string list) option" where
  "handleEvent (EvAdd i) cim = addControllerInstance i cim"
| "handleEvent (EvUpdate old cur) cim = updateControllerInstance old cur cim"
| "handleEvent (EvDelete i) cim = Some (deleteControllerInstance (DInstance i) cim)"

text \<open>The instances that are not on their way out.\<close>

definition live :: "store \<Rightarrow> store" where
  "live S k = (case S k of None \<Rightarrow> None | Some i \<Rightarrow> if omDeletionTimestamp (ciMeta i) = None then Some i else None)"

section \<open>Lemmas\<close>

lemmas cim_defs = cimInv_def cimView_def instanceKey_def

lemma cimInv_write:
  assumes "cimInv cim"
    and "l = (case mget (cimCurrentControllers cim) (ciControllerType inst) of None \<Rightarrow> [] | Some l \<Rightarrow> l)"
  defines "cim' \<equiv> cim\<lparr>cimCurrentControllers := mput (ciControllerType inst) (mput (ciName inst) inst l) (cimCurrentControllers cim)\<rparr>"
  shows "cimInv cim'" and "cimView cim' = (cimView cim)(instanceKey inst \<mapsto> inst)"
proof -
  show "cimInv cim'" using assms(1,2) unfolding cim'_def
    by (auto simp: cimInv_def split: if_splits option.splits)
  show "cimView cim' = (cimView cim)(instanceKey inst \<mapsto> inst)" using assms(2) unfolding cim'_def
    by (auto simp: cimView_def instanceKey_def fun_eq_iff split: if_splits option.splits)
qed

lemma removeInstance_spec:
  assumes "cimInv cim" and "removeInstance inst cim = (cim', sent)"
  shows "cimInv cim'" and "cimView cim' = (cimView cim)(instanceKey inst := None)"
    and "sent = (if cimView cim (instanceKey inst) = None then [] else [ciControllerType inst])"
proof -
  show "cimInv cim'" using assms unfolding removeInstance_def
    by (auto simp: cimInv_def gomap_wf_mput gomap_wf_mdel split: if_splits option.splits)
  show "cimView cim' = (cimView cim)(instanceKey inst := None)" using assms(2) unfolding removeInstance_def
    by (auto simp: cimView_def instanceKey_def fun_eq_iff split: if_splits option.splits)
  show "sent = (if cimView cim (instanceKey inst) = None then [] else [ciControllerType inst])"
    using assms(2) unfolding removeInstance_def by (auto simp: cimView_def instanceKey_def split: option.splits)
qed

lemma updateControllerInstance_spec:
  assumes inv: "cimInv cim" and cached: "cimView cim (instanceKey old) = Some old"
    and key: "instanceKey cur = instanceKey old"
    and newer: "RevisionStrIsNewer (omResourceVersion (ciMeta cur)) (omResourceVersion (ciMeta old)) = Inr True"
    and alive: "omDeletionTimestamp (ciMeta cur) = None"
  obtains cim' sent where "updateControllerInstance old cur cim = Some (cim', sent)" and "cimInv cim'"
    and "cimView cim' = (cimView cim)(instanceKey cur \<mapsto> cur)"
proof -
  have rv: "omResourceVersion (ciMeta cur) \<noteq> omResourceVersion (ciMeta old)"
    using newer by (auto simp: RevisionStrIsNewer_def RevisionIsNewer_irrefl split: sum.splits)
  have k: "ciName cur = ciName old" "ciControllerType cur = ciControllerType old" using key by (simp_all add: instanceKey_def)
  obtain l where l: "mget (cimCurrentControllers cim) (ciControllerType cur) = Some l"
    using cached k by (auto simp: cimView_def instanceKey_def split: option.splits)
  let ?cim = "cim\<lparr>cimCurrentControllers := mput (ciControllerType cur) (mput (ciName cur) cur l) (cimCurrentControllers cim)\<rparr>"
  have "\<exists>sent. updateControllerInstance old cur cim = Some (?cim, sent)"
    using rv k l by (simp add: updateControllerInstance_def newer alive)
  then show ?thesis using that cimInv_write [OF inv, of l cur] l by auto
qed

lemma cimView_mem: "cimInv cim \<Longrightarrow> cimView cim k = Some i \<Longrightarrow> instanceKey i = k"
  by (cases k) (auto simp: cim_defs split: option.splits)

text \<open>One event of the informer keeps the cache equal to the live part of the informer's store, and does not end the
  process.\<close>

lemma handleEvent_tracks:
  assumes step: "informerStep S e S'" and inv: "cimInv cim" and view: "cimView cim = live S"
  shows "\<exists>cim' sent. handleEvent e cim = Some (cim', sent) \<and> cimInv cim' \<and> cimView cim' = live S'"
  using step
proof cases
  case (appears i)
  show ?thesis
  proof (cases "omDeletionTimestamp (ciMeta i)")
    case None
    have "cimView cim (instanceKey i) = None" using view appears(3) by (simp add: live_def)
    then have "\<exists>l. addControllerInstance i cim = Some (cim\<lparr>cimCurrentControllers :=
          mput (ciControllerType i) (mput (ciName i) i l) (cimCurrentControllers cim)\<rparr>, [ciControllerType i]) \<and>
        l = (case mget (cimCurrentControllers cim) (ciControllerType i) of None \<Rightarrow> [] | Some l \<Rightarrow> l)"
      using None by (auto simp: addControllerInstance_def cimView_def instanceKey_def split: option.splits)
    then show ?thesis using cimInv_write [OF inv] None view appears by (auto simp: live_def fun_eq_iff)
  next
    case (Some t)
    obtain cim' sent where r: "removeInstance i cim = (cim', sent)" by fastforce
    then show ?thesis using Some removeInstance_spec [OF inv r] view appears
      by (auto simp: addControllerInstance_def deleteControllerInstance_def live_def fun_eq_iff)
  qed
next
  case (listed i)
  show ?thesis
  proof (cases "omDeletionTimestamp (ciMeta i)")
    case None
    then have "cimView cim (instanceKey i) = Some i" using view listed by (simp add: live_def)
    then have "addControllerInstance i cim = Some (cim, [])"
      using None by (auto simp: addControllerInstance_def updateControllerInstance_def cimView_def instanceKey_def split: option.splits)
    then show ?thesis using inv view listed by simp
  next
    case (Some t)
    obtain cim' sent where r: "removeInstance i cim = (cim', sent)" by fastforce
    then show ?thesis using Some removeInstance_spec [OF inv r] view listed
      by (auto simp: addControllerInstance_def deleteControllerInstance_def live_def fun_eq_iff)
  qed
next
  case (updated old cur)
  show ?thesis
  proof (cases "omDeletionTimestamp (ciMeta cur)")
    case None
    then have "cimView cim (instanceKey old) = Some old" using view updated by (auto simp: live_def)
    then obtain cim' sent where "updateControllerInstance old cur cim = Some (cim', sent)" "cimInv cim'"
        "cimView cim' = (cimView cim)(instanceKey cur \<mapsto> cur)"
      using updateControllerInstance_spec [OF inv _ updated(4,5) None] by metis
    then show ?thesis using view updated None by (auto simp: live_def fun_eq_iff)
  next
    case (Some t)
    obtain cim' sent where r: "removeInstance cur cim = (cim', sent)" by fastforce
    have "omResourceVersion (ciMeta cur) \<noteq> omResourceVersion (ciMeta old)"
      using updated(5) by (auto simp: RevisionStrIsNewer_def RevisionIsNewer_irrefl split: sum.splits)
    then have "updateControllerInstance old cur cim = Some (cim', sent)"
      using Some r updated(4,5) by (simp add: updateControllerInstance_def deleteControllerInstance_def instanceKey_def)
    then show ?thesis using Some removeInstance_spec [OF inv r] view updated by (auto simp: live_def fun_eq_iff)
  qed
next
  case (deleted i)
  obtain cim' sent where r: "removeInstance i cim = (cim', sent)" by fastforce
  then show ?thesis using removeInstance_spec [OF inv r] view deleted
    by (auto simp: deleteControllerInstance_def live_def fun_eq_iff)
qed

text \<open>An update event is checked against the version the event carries as the old one, not against the cached one: an
  event behind the first listing puts an older instance back.\<close>

lemma older_instance_put_back:
  "let inst = (\<lambda>rv. \<lparr>ciMeta = zeroMeta\<lparr>omName := ''a'', omResourceVersion := rv\<rparr>, ciControllerType = ''t'', ciControllerKey = 0,
         ciWorkloadNum = 0, ciIsLocked = False\<rparr>);
       cim = the (NewControllerInstanceManager ''u'' (Inr [inst ''10'']))
   in map_option (\<lambda>(cim, _). cimView cim (''t'', ''a'')) (updateControllerInstance (inst ''5'') (inst ''7'') cim) = Some (Some (inst ''7''))"
  by code_simp

end
