(* ===== verification/ControllerFramework.thy ===== *)
theory ControllerFramework
  imports InstanceManager
begin

text \<open>
  The controller framework (\<open>controller_framework.go\<close>, \<open>controller_framework_utils.go\<close>): the instances of one controller
  type split the keys from 0 to the largest \<open>int64\<close> among themselves. Every process sorts the registered instances
  by name, deals out the keys evenly, and works on the keys of its own range. \<open>sort.Slice\<close> is a parameter, the
  registry is what listing, creating and updating return, and a crash (a slice index out of range, a write to a nil
  map, \<open>klog.Fatalf\<close>) is the value \<open>None\<close>. The lemmas show that the keys are dealt out as a partition, that every
  update keeps a process on its share, and that processes that have seen the same names agree.
\<close>

section \<open>Definitions\<close>

record controllerInstanceLocal =
  cilInstanceName :: string
  cilControllerKey :: i64
  cilLowerboundKey :: i64
  cilWorkloadNum :: i32

record ControllerBase =
  cbControllerType :: string
  cbControllerName :: string
  cbCountOfProcessingWorkItem :: i64
  cbControllerKey :: i64
  cbSorted :: "controllerInstanceLocal list"
  cbControllerInstanceMap :: instances
  cbCurPos :: int

type_synonym localSort = "(controllerInstanceLocal \<Rightarrow> controllerInstanceLocal \<Rightarrow> bool) \<Rightarrow> controllerInstanceLocal list \<Rightarrow> controllerInstanceLocal list"

text \<open>The message a range change sends to the informers.\<close>

record FilterBound =
  fbOwnerName :: string
  fbLowerBound :: i64
  fbUpperBound :: i64

subsection \<open>Ranges (\<open>controller_framework_utils.go\<close>)\<close>

definition toLocal :: "ControllerInstance \<Rightarrow> controllerInstanceLocal" where
  "toLocal inst = \<lparr>cilInstanceName = ciName inst, cilControllerKey = ciControllerKey inst, cilLowerboundKey = 0,
     cilWorkloadNum = ciWorkloadNum inst\<rparr>"

definition byName :: "controllerInstanceLocal \<Rightarrow> controllerInstanceLocal \<Rightarrow> bool" where
  "byName a b \<longleftrightarrow> cilInstanceName a < cilInstanceName b"

fun setLowerbounds :: "i64 \<Rightarrow> controllerInstanceLocal list \<Rightarrow> controllerInstanceLocal list" where
  "setLowerbounds lower [] = []"
| "setLowerbounds lower (x # xs) = x\<lparr>cilLowerboundKey := lower\<rparr> # setLowerbounds (cilControllerKey x) xs"

definition sortControllerInstancesByKeyAndConvertToLocal :: "localSort \<Rightarrow> instances \<Rightarrow> controllerInstanceLocal list" where
  "sortControllerInstancesByKeyAndConvertToLocal srt m = setLowerbounds 0 (srt byName (map (\<lambda>(_, inst). toLocal inst) m))"

text \<open>The loop from the last instance to the first; the first argument is one more than the index.\<close>

fun reassignLoop :: "nat \<Rightarrow> i64 \<Rightarrow> i64 \<Rightarrow> controllerInstanceLocal list \<Rightarrow> controllerInstanceLocal list" where
  "reassignLoop 0 interval startKey xs = xs"
| "reassignLoop (Suc i) interval startKey xs =
     (let xs = xs[i := (xs ! i)\<lparr>cilControllerKey := startKey\<rparr>];
          startKey = startKey - interval;
          xs = (if 0 < i then xs[i := (xs ! i)\<lparr>cilLowerboundKey := startKey\<rparr>] else xs)
      in reassignLoop i interval startKey xs)"

definition reassignControllerKeys :: "controllerInstanceLocal list \<Rightarrow> controllerInstanceLocal list" where
  "reassignControllerKeys xs =
     (if xs = [] then xs
      else (let interval = go_div maxInt64 (of_nat (length xs));
                xs = xs[0 := (xs ! 0)\<lparr>cilLowerboundKey := 0\<rparr>]
            in reassignLoop (length xs) interval maxInt64 xs))"

subsection \<open>A controller (\<open>controller_framework.go\<close>)\<close>

definition at :: "'a list \<Rightarrow> int \<Rightarrow> 'a option" where
  "at xs i = (if 0 \<le> i \<and> i < int (length xs) then Some (xs ! nat i) else None)"

definition AddProcessingWorkItem :: "ControllerBase \<Rightarrow> ControllerBase" where
  "AddProcessingWorkItem c = c\<lparr>cbCountOfProcessingWorkItem := cbCountOfProcessingWorkItem c + 1\<rparr>"

definition DoneProcessingWorkItem :: "ControllerBase \<Rightarrow> ControllerBase" where
  "DoneProcessingWorkItem c =
     (if cbCountOfProcessingWorkItem c = 0 then c
      else c\<lparr>cbCountOfProcessingWorkItem := cbCountOfProcessingWorkItem c - 1\<rparr>)"

definition IsDoneProcessingCurrentWorkloads :: "ControllerBase \<Rightarrow> bool \<times> i64" where
  "IsDoneProcessingCurrentWorkloads c =
     (if 0 < sint (cbCountOfProcessingWorkItem c) then (False, cbCountOfProcessingWorkItem c) else (True, 0))"

definition SetWorkloadNum :: "i64 \<Rightarrow> ControllerBase \<Rightarrow> ControllerBase option" where
  "SetWorkloadNum workloadNum c =
     (if mget (cbControllerInstanceMap c) (cbControllerName c) \<noteq> None \<and> 0 \<le> cbCurPos c then
        map_option (\<lambda>x. c\<lparr>cbSorted := (cbSorted c)[nat (cbCurPos c) := x\<lparr>cilWorkloadNum := ucast workloadNum\<rparr>]\<rparr>)
          (at (cbSorted c) (cbCurPos c))
      else None)"

definition IsInRange :: "ControllerBase \<Rightarrow> i64 \<Rightarrow> bool option" where
  "IsInRange c key =
     (if cbCurPos c = -1 then Some False
      else if sint key < 0 then Some False
      else map_option (\<lambda>x.
             if key = 0 \<and> cilLowerboundKey x = 0 then True
             else if sint (cbControllerKey c) < sint key \<or> sint key \<le> sint (cilLowerboundKey x) then False
             else True) (at (cbSorted c) (cbCurPos c)))"

text \<open>\<open>None\<close> is the nil slice that comes with the answer that nothing changed. The two lists have the same length where
  they are compared.\<close>

definition needToUpdateControllerKeys :: "ControllerBase \<Rightarrow> controllerInstanceLocal list \<Rightarrow> controllerInstanceLocal list option" where
  "needToUpdateControllerKeys c new =
     (let newCandidates = reassignControllerKeys new in
      if length (cbSorted c) \<noteq> length newCandidates then Some newCandidates
      else if list_ex (\<lambda>(x, y). cilControllerKey x \<noteq> cilControllerKey y \<or> cilInstanceName x \<noteq> cilInstanceName y)
                (zip (cbSorted c) newCandidates)
      then Some newCandidates else None)"

record consolidation =
  conIsUpdated :: bool
  conIsSelfUpdated :: bool
  conLowerbound :: i64
  conUpperbound :: i64
  conPos :: int
  conInstances :: "controllerInstanceLocal list"

definition unchanged :: consolidation where
  "unchanged = \<lparr>conIsUpdated = False, conIsSelfUpdated = False, conLowerbound = 0, conUpperbound = 0, conPos = 0, conInstances = []\<rparr>"

text \<open>The flag \<open>isUpdated\<close> is true from the first test on, so the comparison at the end of the source is never reached.\<close>

definition tryConsolidateControllerInstancesLocal ::
  "ControllerBase \<Rightarrow> controllerInstanceLocal list \<Rightarrow> consolidation option" where
  "tryConsolidateControllerInstancesLocal c new =
     (case needToUpdateControllerKeys c new of
        None \<Rightarrow> Some unchanged
      | Some new \<Rightarrow>
          (case find_idx (\<lambda>x. cilInstanceName x = cbControllerName c) new of
             None \<Rightarrow> Some unchanged
           | Some newPos \<Rightarrow>
               (let self = new ! newPos;
                    result = (\<lambda>selfUpdated. \<lparr>conIsUpdated = True, conIsSelfUpdated = selfUpdated,
                      conLowerbound = cilLowerboundKey self, conUpperbound = cilControllerKey self, conPos = int newPos,
                      conInstances = new\<rparr>)
                in if cbCurPos c = -1 then Some (result True)
                   else if cbControllerKey c \<noteq> cilControllerKey self \<or> cbCurPos c < 0 then Some (result True)
                   else map_option (\<lambda>x. result (cilLowerboundKey x \<noteq> cilLowerboundKey self)) (at (cbSorted c) (cbCurPos c)))))"

text \<open>The log message reads the slot of the current position.\<close>

definition updateCachedControllerInstances ::
  "localSort \<Rightarrow> instances \<Rightarrow> ControllerBase \<Rightarrow> (ControllerBase \<times> FilterBound option) option" where
  "updateCachedControllerInstances srt newMap c =
     (case tryConsolidateControllerInstancesLocal c (sortControllerInstancesByKeyAndConvertToLocal srt newMap) of
        None \<Rightarrow> None
      | Some r \<Rightarrow>
          if \<not> conIsUpdated r \<and> \<not> conIsSelfUpdated r then Some (c, None)
          else if conIsSelfUpdated r \<and> 0 \<le> cbCurPos c \<and> at (cbSorted c) (cbCurPos c) = None then None
          else if conIsUpdated r then
            (let c = c\<lparr>cbCurPos := conPos r, cbSorted := conInstances r, cbControllerInstanceMap := newMap\<rparr> in
             if conIsSelfUpdated r
             then Some (c\<lparr>cbControllerKey := conUpperbound r\<rparr>,
                        Some \<lparr>fbOwnerName = cbControllerType c @ ''_Controller'', fbLowerBound = conLowerbound r,
                              fbUpperBound = conUpperbound r\<rparr>)
             else Some (c, None))
          else Some (c, None))"

text \<open>\<open>listControllerInstancesByType\<close> copies the manager's map into a fresh one.\<close>

definition listControllerInstancesByType ::
  "string + ControllerInstance list \<Rightarrow> string \<Rightarrow> ControllerInstanceManager \<Rightarrow> (string + instances) \<times> ControllerInstanceManager" where
  "listControllerInstancesByType registry controllerType cim =
     (case ListControllerInstances registry controllerType cim of
        (Inl err, cim) \<Rightarrow> (Inl err, cim)
      | (Inr byType, cim) \<Rightarrow> (Inr (fold (\<lambda>(_, inst) m. mput (ciName inst) inst m) byType []), cim))"

definition instanceUpdateProcess ::
  "localSort \<Rightarrow> string + ControllerInstance list \<Rightarrow> ControllerInstanceManager \<Rightarrow> string \<Rightarrow> ControllerBase \<Rightarrow>
   (ControllerBase \<times> FilterBound option) option" where
  "instanceUpdateProcess srt registry cim updatedType c =
     (if updatedType \<noteq> cbControllerType c then Some (c, None)
      else case fst (listControllerInstancesByType registry (cbControllerType c) cim) of
             Inl err \<Rightarrow> Some (c, None)
           | Inr instances \<Rightarrow> updateCachedControllerInstances srt instances c)"

text \<open>The loop of \<open>WatchInstanceUpdate\<close> over what it reads from its channel: \<open>None\<close> is the closed channel, and a message comes
  with what the manager holds and the registry would list at that time. The case of the stop channel sends to a nil
  channel, which blocks forever: it is never taken.\<close>

fun WatchInstanceUpdate ::
  "localSort \<Rightarrow> ((string + ControllerInstance list) \<times> ControllerInstanceManager \<times> string) option list \<Rightarrow> ControllerBase \<Rightarrow>
   (ControllerBase \<times> FilterBound list) option" where
  "WatchInstanceUpdate srt [] c = Some (c, [])"
| "WatchInstanceUpdate srt (None # ms) c = Some (c, [])"
| "WatchInstanceUpdate srt (Some (registry, cim, updatedType) # ms) c =
     (case instanceUpdateProcess srt registry cim updatedType c of
        None \<Rightarrow> None
      | Some (c, sent) \<Rightarrow>
          map_option (\<lambda>(c, later). (c, (case sent of None \<Rightarrow> [] | Some b \<Rightarrow> [b]) @ later)) (WatchInstanceUpdate srt ms c))"

definition toLower :: "string \<Rightarrow> string" where
  "toLower = map (\<lambda>c. if 65 \<le> (of_char c :: nat) \<and> (of_char c :: nat) \<le> 90 then char_of ((of_char c :: nat) + 32) else c)"

definition generateControllerName :: "string \<Rightarrow> string \<Rightarrow> instances \<Rightarrow> string option" where
  "generateControllerName instanceId controllerType existedInstanceMap =
     (if instanceId = [] then None
      else (let name = toLower controllerType @ ''-'' @ instanceId in
            if mget existedInstanceMap name \<noteq> None then None else Some name))"

text \<open>\<open>registControllerInstance\<close>: what the API server answers to the creation is an argument.\<close>

definition registControllerInstance ::
  "(ControllerInstance \<Rightarrow> string + ControllerInstance) \<Rightarrow> ControllerBase \<Rightarrow> string option \<times> ControllerBase" where
  "registControllerInstance create c =
     (case create \<lparr>ciMeta = zeroMeta\<lparr>omName := cbControllerName c\<rparr>, ciControllerType = cbControllerType c,
                   ciControllerKey = cbControllerKey c, ciWorkloadNum = 0, ciIsLocked = False\<rparr> of
        Inl err \<Rightarrow> (Some err, c)
      | Inr new \<Rightarrow> (None, c\<lparr>cbControllerInstanceMap := mput (cbControllerName c) new (cbControllerInstanceMap c)\<rparr>))"

text \<open>\<open>NewControllerBase\<close> without the event recorder and the metrics. A listing that failed leaves a nil map, and the next
  write to it panics.\<close>

definition NewControllerBase ::
  "localSort \<Rightarrow> string + ControllerInstance list \<Rightarrow> (ControllerInstance \<Rightarrow> string + ControllerInstance) \<Rightarrow> string \<Rightarrow>
   ControllerInstanceManager \<Rightarrow> (ControllerBase \<times> FilterBound option) option" where
  "NewControllerBase srt registry create controllerType cim =
     (case fst (listControllerInstancesByType registry controllerType cim) of
        Inl err \<Rightarrow> None
      | Inr controllerInstanceMap \<Rightarrow>
          (case generateControllerName (cimInstanceId cim) controllerType controllerInstanceMap of
             None \<Rightarrow> None
           | Some name \<Rightarrow>
               (let controllerInstanceMap = mput name \<lparr>ciMeta = zeroMeta\<lparr>omName := name\<rparr>, ciControllerType = controllerType,
                      ciControllerKey = 0, ciWorkloadNum = 0, ciIsLocked = False\<rparr> controllerInstanceMap;
                    c = \<lparr>cbControllerType = controllerType, cbControllerName = name, cbCountOfProcessingWorkItem = 0,
                         cbControllerKey = 0, cbSorted = [], cbControllerInstanceMap = controllerInstanceMap, cbCurPos = -1\<rparr>
                in case updateCachedControllerInstances srt controllerInstanceMap c of
                     None \<Rightarrow> None
                   | Some (c, sent) \<Rightarrow>
                       (case registControllerInstance create c of
                          (Some err, _) \<Rightarrow> None
                        | (None, c) \<Rightarrow> Some (c, sent)))))"

definition zeroInstance :: ControllerInstance where
  "zeroInstance = \<lparr>ciMeta = zeroMeta, ciControllerType = [], ciControllerKey = 0, ciWorkloadNum = 0, ciIsLocked = False\<rparr>"

definition ReportHealth ::
  "(ControllerInstance \<Rightarrow> string + ControllerInstance) \<Rightarrow> ControllerBase \<Rightarrow> ControllerBase option" where
  "ReportHealth update c =
     (let old = (case mget (cbControllerInstanceMap c) (cbControllerName c) of Some i \<Rightarrow> i | None \<Rightarrow> zeroInstance) in
      map_option (\<lambda>x.
        case update (old\<lparr>ciWorkloadNum := cilWorkloadNum x, ciControllerKey := cbControllerKey c,
                         ciMeta := (ciMeta old)\<lparr>omResourceVersion := []\<rparr>\<rparr>) of
          Inl err \<Rightarrow> c
        | Inr new \<Rightarrow> c\<lparr>cbControllerInstanceMap := mput (cbControllerName c) new (cbControllerInstanceMap c)\<rparr>)
        (at (cbSorted c) (cbCurPos c)))"

section \<open>What the ranges are specified against\<close>

text \<open>The shares of \<open>n\<close> instances: equal intervals from the top, the remainder goes to the first.\<close>

definition rangeUpper :: "nat \<Rightarrow> nat \<Rightarrow> int" where
  "rangeUpper n i = 2 ^ 63 - 1 - int (n - 1 - i) * ((2 ^ 63 - 1) div int n)"

definition rangeLower :: "nat \<Rightarrow> nat \<Rightarrow> int" where
  "rangeLower n i = (if i = 0 then 0 else rangeUpper n (i - 1))"

definition inShare :: "nat \<Rightarrow> nat \<Rightarrow> int \<Rightarrow> bool" where
  "inShare n i k \<longleftrightarrow> (i = 0 \<and> k = 0) \<or> (rangeLower n i < k \<and> k \<le> rangeUpper n i)"

definition evenRanges :: "controllerInstanceLocal list \<Rightarrow> bool" where
  "evenRanges xs \<longleftrightarrow> (\<forall>i < length xs. sint (cilControllerKey (xs ! i)) = rangeUpper (length xs) i \<and>
     sint (cilLowerboundKey (xs ! i)) = rangeLower (length xs) i)"

text \<open>A controller has not joined yet, or it holds the share of its own entry.\<close>

definition joined :: "ControllerBase \<Rightarrow> bool" where
  "joined c \<longleftrightarrow> 0 \<le> cbCurPos c \<and> nat (cbCurPos c) < length (cbSorted c) \<and> length (cbSorted c) < 2 ^ 63 \<and>
     cilInstanceName (cbSorted c ! nat (cbCurPos c)) = cbControllerName c \<and>
     cbControllerKey c = cilControllerKey (cbSorted c ! nat (cbCurPos c)) \<and>
     evenRanges (cbSorted c) \<and> distinct (map cilInstanceName (cbSorted c))"

definition controllerInv :: "ControllerBase \<Rightarrow> bool" where
  "controllerInv c \<longleftrightarrow> cbCurPos c = -1 \<and> cbSorted c = [] \<or> joined c"

definition registered :: "instances \<Rightarrow> bool" where
  "registered m \<longleftrightarrow> gomap_wf m \<and> length m < 2 ^ 63 \<and> (\<forall>(name, inst) \<in> set m. ciName inst = name)"

text \<open>What \<open>sort.Slice\<close> documents for the comparison by name.\<close>

definition sortsByName :: "localSort \<Rightarrow> bool" where
  "sortsByName srt \<longleftrightarrow> (\<forall>xs. mset (srt byName xs) = mset xs \<and> sorted (map cilInstanceName (srt byName xs)))"

text \<open>Two instances of one type, each process before its first update.\<close>

definition poolInstance :: "string \<Rightarrow> ControllerInstance" where
  "poolInstance name = zeroInstance\<lparr>ciMeta := zeroMeta\<lparr>omName := name\<rparr>, ciControllerType := ''t''\<rparr>"

definition poolManager :: ControllerInstanceManager where
  "poolManager = \<lparr>cimInstanceId = ''u'', cimCurrentControllers = [(''t'', [(''a'', poolInstance ''a''), (''b'', poolInstance ''b'')])],
     cimIsControllerListInitialized = True\<rparr>"

definition poolController :: "string \<Rightarrow> ControllerBase" where
  "poolController name = \<lparr>cbControllerType = ''t'', cbControllerName = name, cbCountOfProcessingWorkItem = 0, cbControllerKey = 0,
     cbSorted = [], cbControllerInstanceMap = [], cbCurPos = -1\<rparr>"

section \<open>Dealing out the keys\<close>

lemma reassignLoop_length [simp]: "length (reassignLoop k interval startKey xs) = length xs"
  by (induction k interval startKey xs rule: reassignLoop.induct) (simp_all add: Let_def)

lemma reassignLoop_nth:
  assumes "k \<le> length xs" and "j < length xs"
  shows "reassignLoop k interval startKey xs ! j =
    (if j < k then (xs ! j)\<lparr>cilControllerKey := startKey - of_nat (k - 1 - j) * interval,
       cilLowerboundKey := (if j = 0 then cilLowerboundKey (xs ! 0) else startKey - of_nat (k - j) * interval)\<rparr> else xs ! j)"
  using assms
proof (induction k interval startKey xs rule: reassignLoop.induct)
  case (2 i interval startKey xs)
  let ?ys = "xs[i := (xs ! i)\<lparr>cilControllerKey := startKey\<rparr>]"
  let ?zs = "if 0 < i then ?ys[i := (?ys ! i)\<lparr>cilLowerboundKey := startKey - interval\<rparr>] else ?ys"
  have IH: "reassignLoop i interval (startKey - interval) ?zs ! j =
      (if j < i then (?zs ! j)\<lparr>cilControllerKey := startKey - interval - of_nat (i - 1 - j) * interval,
         cilLowerboundKey := (if j = 0 then cilLowerboundKey (?zs ! 0) else startKey - interval - of_nat (i - j) * interval)\<rparr> else ?zs ! j)"
    using "2.IH" [OF refl refl refl] "2.prems" by simp
  have eq: "reassignLoop (Suc i) interval startKey xs ! j = reassignLoop i interval (startKey - interval) ?zs ! j" by (simp add: Let_def)
  have step: "startKey - interval - of_nat m * interval = startKey - of_nat (Suc m) * interval" for m by (simp add: algebra_simps)
  consider "j < i" | "j = i" | "i < j" by linarith
  then show ?case
  proof cases
    case 1
    then have "Suc (i - 1 - j) = Suc i - 1 - j" "Suc (i - j) = Suc i - j" by simp_all
    then show ?thesis using 1 "2.prems" unfolding eq IH step by (simp add: nth_list_update)
  next
    case 2
    then show ?thesis using "2.prems" unfolding eq IH by (cases "i = 0") (simp_all add: nth_list_update)
  next
    case 3
    then show ?thesis using "2.prems" unfolding eq IH by (simp add: nth_list_update)
  qed
qed simp

text \<open>The shares, as integers.\<close>

lemma share_facts:
  assumes "0 < n" and "n < 2 ^ 63"
  shows "1 \<le> (2 ^ 63 - 1 :: int) div int n" and "int n * ((2 ^ 63 - 1) div int n) \<le> 2 ^ 63 - 1"
proof -
  have n: "int n \<le> 2 ^ 63 - 1" using assms(2) by (metis of_nat_less_iff of_nat_numeral of_nat_power zle_diff1_eq)
  then have "int n div int n \<le> (2 ^ 63 - 1) div int n" using assms(1) by (intro zdiv_mono1) auto
  then show "1 \<le> (2 ^ 63 - 1 :: int) div int n" using assms(1) by simp
  have "int n * ((2 ^ 63 - 1) div int n) + (2 ^ 63 - 1) mod int n = 2 ^ 63 - 1" by (rule mult_div_mod_eq)
  moreover have "0 \<le> (2 ^ 63 - 1) mod int n" using assms(1) by (intro pos_mod_sign) simp
  ultimately show "int n * ((2 ^ 63 - 1) div int n) \<le> 2 ^ 63 - 1" by linarith
qed

lemma rangeUpper_step:
  assumes "Suc i < n"
  shows "rangeUpper n (Suc i) = rangeUpper n i + (2 ^ 63 - 1) div int n"
proof -
  have "int (n - 1 - i) = int (n - 1 - Suc i) + 1" using assms by simp
  then show ?thesis by (simp add: rangeUpper_def algebra_simps)
qed

lemma rangeUpper_mono:
  assumes "i \<le> j" and "j < n" and "n < 2 ^ 63"
  shows "rangeUpper n i \<le> rangeUpper n j"
  using assms
proof (induction j)
  case (Suc j)
  have "rangeUpper n j \<le> rangeUpper n (Suc j)" using Suc.prems share_facts(1) [of n] by (simp add: rangeUpper_step)
  then show ?case using Suc by (cases "i = Suc j") auto
qed simp

lemma rangeUpper_bounds:
  assumes "i < n" and "n < 2 ^ 63"
  shows "0 < rangeUpper n i" and "rangeUpper n i \<le> 2 ^ 63 - 1" and "rangeUpper n (n - 1) = 2 ^ 63 - 1"
proof -
  let ?d = "(2 ^ 63 - 1 :: int) div int n"
  have f: "1 \<le> ?d" "int n * ?d \<le> 2 ^ 63 - 1" using share_facts [of n] assms by auto
  have "int (n - 1 - i) * ?d \<le> (int n - 1) * ?d" using assms f(1) by (intro mult_right_mono) auto
  also have "\<dots> = int n * ?d - ?d" by (simp add: algebra_simps)
  finally show "0 < rangeUpper n i" using f unfolding rangeUpper_def by linarith
  show "rangeUpper n i \<le> 2 ^ 63 - 1" using f(1) by (simp add: rangeUpper_def)
  show "rangeUpper n (n - 1) = 2 ^ 63 - 1" using assms by (simp add: rangeUpper_def)
qed

text \<open>Every key is in exactly one share.\<close>

lemma inShare_unique:
  assumes "0 < n" and "n < 2 ^ 63" and "0 \<le> k" and "k \<le> 2 ^ 63 - 1"
  shows "\<exists>!i. i < n \<and> inShare n i k"
proof (cases "k = 0")
  case True
  have "\<not> inShare n i 0" if i: "0 < i" "i < n" for i
  proof -
    have "0 < rangeUpper n (i - 1)" using i assms(2) by (intro rangeUpper_bounds(1)) auto
    then show ?thesis using i by (simp add: inShare_def rangeLower_def)
  qed
  then show ?thesis unfolding True using assms(1) by (intro ex1I [of _ 0]) (auto simp: inShare_def)
next
  case False
  let ?i = "LEAST i. k \<le> rangeUpper n i"
  have last: "k \<le> rangeUpper n (n - 1)" using rangeUpper_bounds(3) [of 0 n] assms by simp
  have le: "k \<le> rangeUpper n ?i" using last by (rule LeastI)
  have i: "?i < n" using Least_le [of "\<lambda>i. k \<le> rangeUpper n i", OF last] assms(1) by linarith
  have "rangeLower n ?i < k"
    using not_less_Least [of "?i - 1" "\<lambda>i. k \<le> rangeUpper n i"] False assms(3) by (auto simp: rangeLower_def)
  then have ex: "inShare n ?i k" using le by (simp add: inShare_def)
  have lt: "\<not> (inShare n a k \<and> inShare n b k)" if ab: "a < b" "b < n" for a b
  proof -
    have "rangeUpper n a \<le> rangeUpper n (b - 1)" using ab assms(2) by (intro rangeUpper_mono) auto
    then show ?thesis using ab False by (auto simp: inShare_def rangeLower_def)
  qed
  have "a = b" if "a < n" "inShare n a k" "b < n" "inShare n b k" for a b
    using lt [of a b] lt [of b a] that by (cases a b rule: linorder_cases) auto
  then show ?thesis using i ex by blast
qed

lemma reassignControllerKeys_length [simp]: "length (reassignControllerKeys xs) = length xs"
  by (simp add: reassignControllerKeys_def Let_def)

lemma reassignControllerKeys_names: "map cilInstanceName (reassignControllerKeys xs) = map cilInstanceName xs"
  by (rule nth_equalityI) (auto simp: reassignControllerKeys_def Let_def reassignLoop_nth nth_list_update)

lemma sint_share:
  assumes "m \<le> n" and "0 < n" and "n < 2 ^ 63"
  shows "sint (maxInt64 - of_nat m * go_div maxInt64 (of_nat n)) = 2 ^ 63 - 1 - int m * ((2 ^ 63 - 1) div int n)"
proof -
  let ?d = "(2 ^ 63 - 1 :: int) div int n"
  have "int n < 2 ^ 63" using assms(3) by (metis of_nat_less_iff of_nat_numeral of_nat_power)
  then have "sint (word_of_int (int n) :: i64) = int n" by (intro sint_word_of_int64) auto
  then have n: "sint (of_nat n :: i64) = int n" by simp
  have d: "go_div maxInt64 (of_nat n) = word_of_int ?d"
    using assms(2) by (simp add: go_div_def n signed_divide_int_def sgn_if)
  have f: "1 \<le> ?d" "int n * ?d \<le> 2 ^ 63 - 1" using share_facts [OF assms(2,3)] .
  have "int m * ?d \<le> int n * ?d" using assms(1) f(1) by (intro mult_right_mono) auto
  note md = order_trans [OF this f(2)]
  have "0 \<le> int m * ?d" using f(1) by (intro mult_nonneg_nonneg) auto
  note md = this md
  have "maxInt64 - of_nat m * go_div maxInt64 (of_nat n) = word_of_int (2 ^ 63 - 1 - int m * ?d)"
    unfolding d by (simp add: maxInt64_def)
  then show ?thesis using md by (simp only:) (rule sint_word_of_int64, auto)
qed

lemma reassignControllerKeys_even:
  assumes "length xs < 2 ^ 63"
  shows "evenRanges (reassignControllerKeys xs)"
proof (cases "xs = []")
  case False
  let ?n = "length xs" and ?xs = "xs[0 := (xs ! 0)\<lparr>cilLowerboundKey := 0\<rparr>]"
  have n: "0 < ?n" using False by simp
  let ?key = "\<lambda>m. maxInt64 - of_nat m * go_div maxInt64 (of_nat ?n)"
  have r: "reassignControllerKeys xs ! i = (?xs ! i)\<lparr>cilControllerKey := ?key (?n - 1 - i),
      cilLowerboundKey := (if i = 0 then 0 else ?key (?n - i))\<rparr>" if "i < ?n" for i
    using that False by (simp add: reassignControllerKeys_def Let_def reassignLoop_nth)
  have u: "sint (?key (?n - 1 - i)) = rangeUpper ?n i" for i unfolding rangeUpper_def by (rule sint_share) (use n assms in auto)
  have l: "sint (?key (?n - i)) = rangeLower ?n i" if "0 < i" "i < ?n" for i
  proof -
    have "?n - i = ?n - 1 - (i - 1)" using that by simp
    then show ?thesis using u [of "i - 1"] that(1) by (simp only: rangeLower_def) simp
  qed
  have key: "cilControllerKey (reassignControllerKeys xs ! i) = ?key (?n - 1 - i)"
    and low: "cilLowerboundKey (reassignControllerKeys xs ! i) = (if i = 0 then 0 else ?key (?n - i))" if "i < ?n" for i
    unfolding r [OF that] by simp_all
  have "sint (cilLowerboundKey (reassignControllerKeys xs ! i)) = rangeLower ?n i" if "i < ?n" for i
  proof (cases "i = 0")
    case True
    then show ?thesis using low [OF that] by (simp add: rangeLower_def)
  next
    case nz: False
    then show ?thesis using l [OF _ that] by (simp only: low [OF that] if_False)
  qed
  moreover have "sint (cilControllerKey (reassignControllerKeys xs ! i)) = rangeUpper ?n i" if "i < ?n" for i
    unfolding key [OF that] by (rule u)
  ultimately show ?thesis unfolding evenRanges_def reassignControllerKeys_length by blast
qed (simp add: evenRanges_def reassignControllerKeys_def)

section \<open>Joining and updating\<close>

lemma at_nat [simp]: "at xs (int p) = (if p < length xs then Some (xs ! p) else None)"
  by (simp add: at_def)

lemma setLowerbounds_length [simp]: "length (setLowerbounds l xs) = length xs"
  by (induction l xs rule: setLowerbounds.induct) auto

lemma setLowerbounds_names [simp]: "map cilInstanceName (setLowerbounds l xs) = map cilInstanceName xs"
  by (induction l xs rule: setLowerbounds.induct) auto

text \<open>Every process sorts the same names into the same order.\<close>

lemma sorted_locals:
  assumes "sortsByName srt" and "registered m"
  shows "map cilInstanceName (sortControllerInstancesByKeyAndConvertToLocal srt m) = sorted_list_of_set (mkeys m)"
    and "length (sortControllerInstancesByKeyAndConvertToLocal srt m) = length m"
proof -
  let ?xs = "map (\<lambda>(_, inst). toLocal inst) m"
  let ?ys = "srt byName ?xs"
  have m: "mset ?ys = mset ?xs" and srt: "sorted (map cilInstanceName ?ys)" using assms(1) unfolding sortsByName_def by blast+
  have names: "map cilInstanceName ?xs = map fst m" using assms(2) by (auto simp: registered_def toLocal_def)
  have mm: "mset (map cilInstanceName ?ys) = mset (map fst m)" unfolding mset_map [of cilInstanceName] m unfolding mset_map [symmetric] names ..
  have "distinct (map cilInstanceName ?ys)"
    using mset_eq_imp_distinct_iff [OF mm] assms(2) by (simp add: registered_def gomap_wf_def)
  moreover have "set (map cilInstanceName ?ys) = mkeys m" unfolding mset_eq_setD [OF mm] by (simp add: mkeys_def)
  ultimately have "map cilInstanceName ?ys = sorted_list_of_set (mkeys m)"
    using sorted_list_of_set.idem_if_sorted_distinct [OF srt] by simp
  then show n: "map cilInstanceName (sortControllerInstancesByKeyAndConvertToLocal srt m) = sorted_list_of_set (mkeys m)"
    by (simp add: sortControllerInstancesByKeyAndConvertToLocal_def)
  have "length ?ys = length m" using mset_eq_length [OF m] by simp
  then show "length (sortControllerInstancesByKeyAndConvertToLocal srt m) = length m"
    by (simp add: sortControllerInstancesByKeyAndConvertToLocal_def)
qed

lemma needToUpdate_None:
  assumes "needToUpdateControllerKeys c new = None"
  shows "map cilInstanceName (cbSorted c) = map cilInstanceName new"
proof -
  have len: "length (cbSorted c) = length new"
    and same: "\<not> list_ex (\<lambda>(x, y). cilControllerKey x \<noteq> cilControllerKey y \<or> cilInstanceName x \<noteq> cilInstanceName y)
      (zip (cbSorted c) (reassignControllerKeys new))"
    using assms by (auto simp: needToUpdateControllerKeys_def Let_def split: if_splits)
  have "cilInstanceName (cbSorted c ! i) = cilInstanceName (reassignControllerKeys new ! i)" if "i < length new" for i
    using same len that by (auto simp: list_ex_iff set_zip)
  then have "map cilInstanceName (cbSorted c) = map cilInstanceName (reassignControllerKeys new)"
    using len by (intro nth_equalityI) auto
  then show ?thesis by (simp add: reassignControllerKeys_names)
qed

lemma needToUpdate_Some: "needToUpdateControllerKeys c new = Some xs \<Longrightarrow> xs = reassignControllerKeys new"
  by (auto simp: needToUpdateControllerKeys_def Let_def split: if_splits)

text \<open>The list of shares a controller computes from the registered names.\<close>

lemma shares_of_registry:
  assumes "sortsByName srt" and "registered m"
  defines "xs \<equiv> reassignControllerKeys (sortControllerInstancesByKeyAndConvertToLocal srt m)"
  shows "map cilInstanceName xs = sorted_list_of_set (mkeys m)" and "length xs = length m" and "length xs < 2 ^ 63"
    and "evenRanges xs" and "distinct (map cilInstanceName xs)"
proof -
  note l = sorted_locals [OF assms(1,2)]
  show n: "map cilInstanceName xs = sorted_list_of_set (mkeys m)" unfolding xs_def reassignControllerKeys_names by (rule l)
  show len: "length xs = length m" unfolding xs_def by (simp add: l(2))
  show "length xs < 2 ^ 63" unfolding len using assms(2) by (simp add: registered_def)
  then show "evenRanges xs" unfolding xs_def by (intro reassignControllerKeys_even) simp
  show "distinct (map cilInstanceName xs)" unfolding n by simp
qed

lemma updateCached_joins:
  assumes inv: "controllerInv c" and srt: "sortsByName srt" and reg: "registered m" and mem: "cbControllerName c \<in> mkeys m"
  obtains c' sent where "updateCachedControllerInstances srt m c = Some (c', sent)" and "joined c'"
    and "cbControllerName c' = cbControllerName c" and "cbControllerType c' = cbControllerType c"
    and "map cilInstanceName (cbSorted c') = sorted_list_of_set (mkeys m)"
proof -
  let ?new = "sortControllerInstancesByKeyAndConvertToLocal srt m"
  have fin: "finite (mkeys m)" by (simp add: mkeys_def)
  show ?thesis
  proof (cases "needToUpdateControllerKeys c ?new")
    case None
    have n: "map cilInstanceName (cbSorted c) = sorted_list_of_set (mkeys m)"
      using needToUpdate_None [OF None] sorted_locals(1) [OF srt reg] by simp
    have "sorted_list_of_set (mkeys m) \<noteq> []" using mem fin sorted_list_of_set_eq_Nil_iff by blast
    then have "cbSorted c \<noteq> []" unfolding n [symmetric] by simp
    then have "joined c" using inv by (simp add: controllerInv_def)
    moreover have "updateCachedControllerInstances srt m c = Some (c, None)"
      by (simp add: updateCachedControllerInstances_def tryConsolidateControllerInstancesLocal_def None unchanged_def)
    ultimately show ?thesis using that n by blast
  next
    case (Some xs)
    have xs: "xs = reassignControllerKeys ?new" by (rule needToUpdate_Some [OF Some])
    note sh = shares_of_registry [OF srt reg, folded xs]
    have "cbControllerName c \<in> set (map cilInstanceName xs)" unfolding sh(1) using mem fin by simp
    then obtain p where p: "find_idx (\<lambda>x. cilInstanceName x = cbControllerName c) xs = Some p"
      by (cases "find_idx (\<lambda>x. cilInstanceName x = cbControllerName c) xs") (auto simp: find_idx_None)
    note pp = find_idx_Some [OF p]
    let ?c = "c\<lparr>cbCurPos := int p, cbSorted := xs, cbControllerInstanceMap := m, cbControllerKey := cilControllerKey (xs ! p)\<rparr>"
    have "joined ?c" using pp sh(3-5) by (simp add: joined_def)
    moreover have "\<exists>sent. updateCachedControllerInstances srt m c = Some (?c, sent)"
    proof (cases "cbCurPos c = -1")
      case True
      then show ?thesis by (simp add: updateCachedControllerInstances_def tryConsolidateControllerInstancesLocal_def Some p Let_def)
    next
      case False
      then have j: "joined c" using inv by (simp add: controllerInv_def)
      then obtain q where q: "cbCurPos c = int q" "q < length (cbSorted c)" by (metis joined_def int_nat_eq)
      show ?thesis
        using q by (auto simp: updateCachedControllerInstances_def tryConsolidateControllerInstancesLocal_def Some p Let_def)
    qed
    ultimately show ?thesis using that [of ?c] sh(1) by auto
  qed
qed

lemma IsInRange_joined:
  assumes "joined c" and "0 \<le> sint key"
  shows "IsInRange c key = Some (inShare (length (cbSorted c)) (nat (cbCurPos c)) (sint key))"
proof -
  let ?n = "length (cbSorted c)" and ?p = "nat (cbCurPos c)"
  let ?x = "cbSorted c ! ?p"
  have p: "?p < ?n" "?n < 2 ^ 63" "0 \<le> cbCurPos c" "at (cbSorted c) (cbCurPos c) = Some ?x"
    using assms(1) by (auto simp: joined_def at_def)
  have r: "sint (cbControllerKey c) = rangeUpper ?n ?p" "sint (cilLowerboundKey ?x) = rangeLower ?n ?p"
    using assms(1) by (auto simp: joined_def evenRanges_def)
  have "0 < rangeUpper ?n (?p - 1)" using p by (intro rangeUpper_bounds(1)) auto
  then have zero: "rangeLower ?n ?p = 0 \<longleftrightarrow> ?p = 0" by (simp add: rangeLower_def)
  have w: "w = 0 \<longleftrightarrow> sint w = 0" for w :: i64 by (simp add: sint64_eq_iff)
  have "cbCurPos c \<noteq> -1" "\<not> sint key < 0" using p(3) assms(2) by auto
  then have "IsInRange c key = Some (if sint key = 0 \<and> rangeLower ?n ?p = 0 then True
      else if rangeUpper ?n ?p < sint key \<or> sint key \<le> rangeLower ?n ?p then False else True)"
    using p(4) unfolding IsInRange_def by (simp add: w r)
  moreover have "0 \<le> rangeLower ?n ?p" using \<open>0 < rangeUpper ?n (?p - 1)\<close> by (simp add: rangeLower_def)
  ultimately show ?thesis using assms(2) zero by (auto simp: inShare_def)
qed

lemma listed_registered:
  assumes "cimInv cim" and "cimIsControllerListInitialized cim" and "card {name. cimView cim (ty, name) \<noteq> None} < 2 ^ 63"
  obtains m where "fst (listControllerInstancesByType registry ty cim) = Inr m" and "registered m"
    and "mkeys m = {name. cimView cim (ty, name) \<noteq> None}"
proof -
  let ?m = "case mget (cimCurrentControllers cim) ty of None \<Rightarrow> [] | Some l \<Rightarrow> l"
  have wf: "gomap_wf ?m" using assms(1) by (auto simp: cimInv_def split: option.split)
  have "mget ?m name = Some inst \<Longrightarrow> ciName inst = name" for name inst using assms(1) by (auto simp: cimInv_def split: option.splits)
  then have keys: "\<forall>(name, inst) \<in> set ?m. ciName inst = name" by (auto simp: mget_iff_mem [OF wf])
  have k: "mkeys ?m = {name. cimView cim (ty, name) \<noteq> None}" by (auto simp: cimView_def mkeys_iff split: option.split)
  have "length ?m = card (mkeys ?m)" using wf distinct_card [of "map fst ?m"] by (simp add: gomap_wf_def mkeys_def)
  then have reg: "registered ?m" using wf keys assms(3) k by (simp add: registered_def)
  have "fold (\<lambda>(_, inst) m. mput (ciName inst) inst m) ?m [] = fold (\<lambda>(k, v) m. mput k v m) ?m []"
    by (rule fold_cong) (use keys in auto)
  also have "\<dots> = ?m" by (rule fold_mput_self [OF wf])
  finally have "fst (listControllerInstancesByType registry ty cim) = Inr ?m"
    using assms(2) by (simp add: listControllerInstancesByType_def ListControllerInstances_def)
  then show ?thesis using reg k by (rule that)
qed

text \<open>A controller that processes an update for its type ends up on its share of the registered names, from whatever it
  held before.\<close>

lemma instanceUpdate_joins:
  assumes "sortsByName srt" and "cimInv cim" and "cimIsControllerListInitialized cim" and "controllerInv c"
    and "card {name. cimView cim (cbControllerType c, name) \<noteq> None} < 2 ^ 63"
    and "cimView cim (cbControllerType c, cbControllerName c) \<noteq> None"
  obtains c' sent where "instanceUpdateProcess srt registry cim (cbControllerType c) c = Some (c', sent)" and "joined c'"
    and "cbControllerName c' = cbControllerName c"
    and "map cilInstanceName (cbSorted c') = sorted_list_of_set {name. cimView cim (cbControllerType c, name) \<noteq> None}"
proof -
  obtain m where m: "fst (listControllerInstancesByType registry (cbControllerType c) cim) = Inr m" "registered m"
      "mkeys m = {name. cimView cim (cbControllerType c, name) \<noteq> None}"
    using assms(2,3,5) by (rule listed_registered)
  have "cbControllerName c \<in> mkeys m" using assms(6) m(3) by simp
  with assms(4,1) m(2) obtain c' sent where "updateCachedControllerInstances srt m c = Some (c', sent)" "joined c'"
      "cbControllerName c' = cbControllerName c" "map cilInstanceName (cbSorted c') = sorted_list_of_set (mkeys m)"
    by (rule updateCached_joins)
  then show ?thesis using that m(1,3) by (simp add: instanceUpdateProcess_def)
qed

lemma shares_of_peers:
  assumes joined: "\<forall>c \<in> set cs. joined c \<and> map cilInstanceName (cbSorted c) = sorted_list_of_set names"
    and names: "distinct (map cbControllerName cs)" "set (map cbControllerName cs) = names" and key: "0 \<le> sint key" and ne: "cs \<noteq> []"
  shows "\<exists>!i. i < length cs \<and> IsInRange (cs ! i) key = Some True"
proof -
  let ?L = "sorted_list_of_set names"
  have fin: "finite names" using names(2) by blast
  have L: "set ?L = names" "distinct ?L" using fin by simp_all
  have len: "length (cbSorted c) = length ?L" if "c \<in> set cs" for c using joined that by (metis length_map)
  have pos: "?L ! nat (cbCurPos c) = cbControllerName c" "nat (cbCurPos c) < length ?L" if "c \<in> set cs" for c
  proof -
    have j: "joined c" "map cilInstanceName (cbSorted c) = ?L" using joined that by blast+
    show "nat (cbCurPos c) < length ?L" using j(1) len [OF that] by (simp add: joined_def)
    show "?L ! nat (cbCurPos c) = cbControllerName c" unfolding j(2) [symmetric] using j(1) by (simp add: joined_def)
  qed
  have hd: "hd cs \<in> set cs" using ne by simp
  then have "length (cbSorted (hd cs)) < 2 ^ 63" using joined by (auto simp: joined_def)
  then have n: "0 < length ?L" "length ?L < 2 ^ 63" using pos(2) [OF hd] len [OF hd] by simp_all
  have inr: "IsInRange (cs ! i) key = Some True \<longleftrightarrow> inShare (length ?L) (nat (cbCurPos (cs ! i))) (sint key)" if "i < length cs" for i
    using IsInRange_joined [OF _ key, of "cs ! i"] joined len that by simp
  obtain q where q: "q < length ?L" "inShare (length ?L) q (sint key)"
      and uq: "\<And>r. r < length ?L \<Longrightarrow> inShare (length ?L) r (sint key) \<Longrightarrow> r = q"
    using inShare_unique [OF n key] sint64_less [of key] by auto
  have "?L ! q \<in> set (map cbControllerName cs)" unfolding names(2) using q(1) L(1) nth_mem by blast
  then obtain i where i: "i < length cs" "cbControllerName (cs ! i) = ?L ! q" by (auto simp: in_set_conv_nth)
  have "nat (cbCurPos (cs ! i)) = q" using pos [of "cs ! i"] i q(1) L(2) by (simp add: nth_eq_iff_index_eq)
  then have ex: "IsInRange (cs ! i) key = Some True" using inr [OF i(1)] q(2) by simp
  have "k = i" if "k < length cs" "IsInRange (cs ! k) key = Some True" for k
  proof -
    have "nat (cbCurPos (cs ! k)) = q" using inr that pos(2) [of "cs ! k"] uq by simp
    then have "cbControllerName (cs ! k) = cbControllerName (cs ! i)" using pos(1) [of "cs ! k"] that(1) i(2) by simp
    then show ?thesis using names(1) that(1) i(1) by (metis length_map nth_eq_iff_index_eq nth_map)
  qed
  then show ?thesis using i(1) ex by blast
qed

section \<open>The pool of controllers\<close>

text \<open>C13: the instances of one controller type split the work. Take the processes of a type, each with its own instance
  manager and whatever range it held before (none yet, or its share of any earlier set of instances). Once
  the managers see the same registered names, one for each process, and every process has handled the update, no
  process has crashed, each holds a well-formed share, and every key from 0 to the largest int64 is in the
  range of exactly one of them.\<close>

theorem ranges_partition:
  assumes "sortsByName srt"
    and "\<forall>(cim, c) \<in> set ps. cimInv cim \<and> cimIsControllerListInitialized cim \<and> controllerInv c \<and> cbControllerType c = ty \<and>
      {name. cimView cim (ty, name) \<noteq> None} = set (map (\<lambda>(_, c). cbControllerName c) ps)"
    and "distinct (map (\<lambda>(_, c). cbControllerName c) ps)" and "ps \<noteq> []" and "length ps < 2 ^ 63"
  shows "\<exists>cs. map (\<lambda>(cim, c). map_option fst (instanceUpdateProcess srt registry cim ty c)) ps = map Some cs \<and>
    (\<forall>c \<in> set cs. controllerInv c) \<and>
    (\<forall>key. 0 \<le> sint key \<longrightarrow> (\<exists>!i. i < length cs \<and> IsInRange (cs ! i) key = Some True))"
proof -
  let ?names = "set (map (\<lambda>(_, c). cbControllerName c) ps)"
  let ?upd = "\<lambda>(cim, c). fst (the (instanceUpdateProcess srt registry cim ty c))"
  have card: "card ?names < 2 ^ 63" using card_length [of "map (\<lambda>(_, c). cbControllerName c) ps"] assms(5) by simp
  have upd: "map_option fst (instanceUpdateProcess srt registry cim ty c) = Some (?upd (cim, c)) \<and> joined (?upd (cim, c)) \<and>
      cbControllerName (?upd (cim, c)) = cbControllerName c \<and>
      map cilInstanceName (cbSorted (?upd (cim, c))) = sorted_list_of_set ?names" if mem: "(cim, c) \<in> set ps" for cim c
  proof -
    have a: "cimInv cim" "cimIsControllerListInitialized cim" "controllerInv c" "cbControllerType c = ty"
        "{name. cimView cim (ty, name) \<noteq> None} = ?names" using assms(2) mem by blast+
    have "cbControllerName c \<in> ?names" using mem by force
    then have "cimView cim (ty, cbControllerName c) \<noteq> None" using a(5) by blast
    then obtain c' sent where "instanceUpdateProcess srt registry cim ty c = Some (c', sent)" "joined c'"
        "cbControllerName c' = cbControllerName c" "map cilInstanceName (cbSorted c') = sorted_list_of_set ?names"
      using instanceUpdate_joins [OF assms(1) a(1-3)] a(4,5) card by metis
    then show ?thesis by simp
  qed
  let ?cs = "map ?upd ps"
  have eq: "map (\<lambda>(cim, c). map_option fst (instanceUpdateProcess srt registry cim ty c)) ps = map Some ?cs"
    using upd by (auto simp del: split_paired_All)
  have nm: "map cbControllerName ?cs = map (\<lambda>(_, c). cbControllerName c) ps" using upd by auto
  have j: "\<forall>c \<in> set ?cs. joined c \<and> map cilInstanceName (cbSorted c) = sorted_list_of_set ?names" using upd by auto
  have "\<exists>!i. i < length ?cs \<and> IsInRange (?cs ! i) key = Some True" if "0 \<le> sint key" for key
    using shares_of_peers [OF j _ _ that] assms(3,4) unfolding nm by simp
  then show ?thesis using eq j by (intro exI [of _ ?cs]) (auto simp: controllerInv_def)
qed

theorem ranges_partition_witness:
  "let srt = (\<lambda>_. sort_key cilInstanceName);
       ps = [(poolManager, poolController ''b''), (poolManager, poolController ''a'')]
   in (\<exists>cs. map (\<lambda>(cim, c). map_option fst (instanceUpdateProcess srt (Inl []) cim ''t'' c)) ps = map Some cs \<and>
         (\<forall>key. 0 \<le> sint key \<longrightarrow> (\<exists>!i. i < length cs \<and> IsInRange (cs ! i) key = Some True))) \<and>
      map (\<lambda>(cim, c). map_option (\<lambda>(c, _). IsInRange c 0) (instanceUpdateProcess srt (Inl []) cim ''t'' c)) ps =
        [Some (Some False), Some (Some True)]"
proof -
  let ?srt = "\<lambda>_. sort_key cilInstanceName" and ?ps = "[(poolManager, poolController ''b''), (poolManager, poolController ''a'')]"
  have srt: "sortsByName ?srt" by (simp add: sortsByName_def)
  have inv: "cimInv poolManager" by (auto simp: cimInv_def poolManager_def poolInstance_def zeroInstance_def gomap_wf_def split: if_splits)
  have view: "{name. cimView poolManager (''t'', name) \<noteq> None} = {''b'', ''a''}"
    by (auto simp: cimView_def poolManager_def split: if_splits)
  have ps: "\<forall>(cim, c) \<in> set ?ps. cimInv cim \<and> cimIsControllerListInitialized cim \<and> controllerInv c \<and> cbControllerType c = ''t'' \<and>
      {name. cimView cim (''t'', name) \<noteq> None} = set (map (\<lambda>(_, c). cbControllerName c) ?ps)"
    using inv view by (simp add: controllerInv_def poolController_def poolManager_def [THEN arg_cong [where f = cimIsControllerListInitialized]])
  have "distinct (map (\<lambda>(_, c). cbControllerName c) ?ps)" "?ps \<noteq> []" "length ?ps < 2 ^ 63" by (simp_all add: poolController_def)
  from ranges_partition [OF srt ps this, of "Inl []"]
  have "\<exists>cs. map (\<lambda>(cim, c). map_option fst (instanceUpdateProcess ?srt (Inl []) cim ''t'' c)) ?ps = map Some cs \<and>
      (\<forall>key. 0 \<le> sint key \<longrightarrow> (\<exists>!i. i < length cs \<and> IsInRange (cs ! i) key = Some True))" by blast
  moreover have "map (\<lambda>(cim, c). map_option (\<lambda>(c, _). IsInRange c 0) (instanceUpdateProcess ?srt (Inl []) cim ''t'' c)) ?ps =
      [Some (Some False), Some (Some True)]" by code_simp
  ultimately show ?thesis by (simp only: Let_def)
qed

section \<open>Behaviour at the edges\<close>

text \<open>A process whose instance has left the registry is said to pause; it keeps its range.\<close>

lemma unregistered_keeps_range:
  assumes "sortsByName srt" and "registered m" and "cbControllerName c \<notin> mkeys m"
  shows "updateCachedControllerInstances srt m c = Some (c, None)"
proof (cases "needToUpdateControllerKeys c (sortControllerInstancesByKeyAndConvertToLocal srt m)")
  case (Some xs)
  note sh = shares_of_registry [OF assms(1,2), folded needToUpdate_Some [OF Some]]
  have "set (map cilInstanceName xs) = mkeys m" unfolding sh(1) by (simp add: mkeys_def)
  then have "find_idx (\<lambda>x. cilInstanceName x = cbControllerName c) xs = None" using assms(3) by (force simp: find_idx_None)
  then show ?thesis
    by (simp add: updateCachedControllerInstances_def tryConsolidateControllerInstancesLocal_def Some unchanged_def)
qed (simp add: updateCachedControllerInstances_def tryConsolidateControllerInstancesLocal_def unchanged_def)

text \<open>Whatever updates arrive, a process does not crash and keeps a well-formed share.\<close>

lemma instanceUpdate_inv:
  assumes "sortsByName srt" and "cimInv cim" and "cimIsControllerListInitialized cim" and "controllerInv c"
    and "card {name. cimView cim (cbControllerType c, name) \<noteq> None} < 2 ^ 63"
  obtains c' sent where "instanceUpdateProcess srt registry cim ty c = Some (c', sent)" and "controllerInv c'"
    and "cbControllerType c' = cbControllerType c"
proof (cases "ty = cbControllerType c")
  case True
  obtain m where m: "fst (listControllerInstancesByType registry (cbControllerType c) cim) = Inr m" "registered m"
    using listed_registered [OF assms(2,3,5)] by metis
  have "\<exists>c' sent. updateCachedControllerInstances srt m c = Some (c', sent) \<and> controllerInv c' \<and> cbControllerType c' = cbControllerType c"
  proof (cases "cbControllerName c \<in> mkeys m")
    case True
    from updateCached_joins [OF assms(4,1) m(2) True] show ?thesis unfolding controllerInv_def by metis
  next
    case False
    then show ?thesis using unregistered_keeps_range [OF assms(1) m(2)] assms(4) by simp
  qed
  then show ?thesis using that m(1) True by (auto simp: instanceUpdateProcess_def)
qed (use that assms(4) in \<open>simp add: instanceUpdateProcess_def\<close>)

lemma WatchInstanceUpdate_inv:
  assumes "sortsByName srt" and "controllerInv c"
    and "\<forall>(registry, cim, ty) \<in> set (List.map_filter id ms). cimInv cim \<and> cimIsControllerListInitialized cim \<and>
      card {name. cimView cim (cbControllerType c, name) \<noteq> None} < 2 ^ 63"
  shows "\<exists>c' sent. WatchInstanceUpdate srt ms c = Some (c', sent) \<and> controllerInv c'"
  using assms(2,3)
proof (induction ms arbitrary: c)
  case (Cons e ms)
  show ?case
  proof (cases e)
    case (Some t)
    obtain registry cim ty where t: "t = (registry, cim, ty)" by (cases t)
    have m: "cimInv cim" "cimIsControllerListInitialized cim" "card {name. cimView cim (cbControllerType c, name) \<noteq> None} < 2 ^ 63"
      using Cons.prems(2) Some t by (auto simp: List.map_filter_def)
    obtain c1 sent1 where c1: "instanceUpdateProcess srt registry cim ty c = Some (c1, sent1)" "controllerInv c1"
        "cbControllerType c1 = cbControllerType c"
      using assms(1) m(1,2) Cons.prems(1) m(3) by (rule instanceUpdate_inv)
    have "\<exists>c' sent. WatchInstanceUpdate srt ms c1 = Some (c', sent) \<and> controllerInv c'"
      by (rule Cons.IH [OF c1(2)]) (use Cons.prems(2) Some c1(3) in \<open>auto simp: List.map_filter_def\<close>)
    then show ?thesis using Some t c1(1) by auto
  qed (use Cons.prems in simp)
qed simp

text \<open>A new process that cannot list the registry crashes: the error is logged and the nil map is written.\<close>

lemma NewControllerBase_listing_fails:
  "\<not> cimIsControllerListInitialized cim \<Longrightarrow> NewControllerBase srt (Inl err) create ty cim = None"
  by (simp add: NewControllerBase_def listControllerInstancesByType_def ListControllerInstances_def syncControllerInstances_def)

text \<open>Otherwise a new process starts on its share.\<close>

lemma NewControllerBase_joins:
  assumes "sortsByName srt" and "cimInv cim" and "cimIsControllerListInitialized cim"
    and "card {name. cimView cim (ty, name) \<noteq> None} < 2 ^ 63 - 1"
    and "generateControllerName (cimInstanceId cim) ty m = Some name" and "fst (listControllerInstancesByType registry ty cim) = Inr m"
    and "\<And>i. \<exists>new. create i = Inr new"
  shows "\<exists>c sent. NewControllerBase srt registry create ty cim = Some (c, sent) \<and> joined c \<and> cbControllerName c = name"
proof -
  let ?i = "\<lparr>ciMeta = zeroMeta\<lparr>omName := name\<rparr>, ciControllerType = ty, ciControllerKey = 0, ciWorkloadNum = 0, ciIsLocked = False\<rparr>"
  let ?m = "mput name ?i m"
  let ?c = "\<lparr>cbControllerType = ty, cbControllerName = name, cbCountOfProcessingWorkItem = 0, cbControllerKey = 0, cbSorted = [],
      cbControllerInstanceMap = ?m, cbCurPos = -1\<rparr>"
  have "card {name. cimView cim (ty, name) \<noteq> None} < 2 ^ 63" using assms(4) by simp
  then obtain m' where "fst (listControllerInstancesByType registry ty cim) = Inr m'" "registered m'"
      "mkeys m' = {name. cimView cim (ty, name) \<noteq> None}" by (rule listed_registered [OF assms(2,3)])
  then have m: "registered m" "mkeys m = {name. cimView cim (ty, name) \<noteq> None}" using assms(6) by auto
  have wf: "gomap_wf m" using m(1) by (simp add: registered_def)
  have "length m < 2 ^ 63 - 1" using assms(4) m(2) length_gomap [OF wf] by simp
  then have "length ?m < 2 ^ 63" using length_mput [OF wf, of name ?i] by (simp split: if_splits)
  then have reg: "registered ?m" using m(1) by (auto simp: registered_def set_mput [OF wf] split: if_splits)
  have "controllerInv ?c" "cbControllerName ?c \<in> mkeys ?m" by (simp_all add: controllerInv_def)
  then obtain c' sent where u: "updateCachedControllerInstances srt ?m ?c = Some (c', sent)" "joined c'"
      "cbControllerName c' = cbControllerName ?c"
    using updateCached_joins [OF _ assms(1) reg] by metis
  obtain new where "create \<lparr>ciMeta = zeroMeta\<lparr>omName := cbControllerName c'\<rparr>, ciControllerType = cbControllerType c',
      ciControllerKey = cbControllerKey c', ciWorkloadNum = 0, ciIsLocked = False\<rparr> = Inr new" using assms(7) by blast
  then have "registControllerInstance create c' =
      (None, c'\<lparr>cbControllerInstanceMap := mput (cbControllerName c') new (cbControllerInstanceMap c')\<rparr>)"
    by (simp add: registControllerInstance_def)
  then show ?thesis using u assms(5,6) by (simp add: NewControllerBase_def Let_def joined_def)
qed

text \<open>The count of work items under way is never negative.\<close>

lemma work_items_nonneg:
  "0 \<le> sint (cbCountOfProcessingWorkItem c) \<Longrightarrow> 0 \<le> sint (cbCountOfProcessingWorkItem (DoneProcessingWorkItem c))"
  using sint_minus64 [of "cbCountOfProcessingWorkItem c" 1] sint64_less [of "cbCountOfProcessingWorkItem c"]
  by (auto simp: DoneProcessingWorkItem_def sint64_eq_iff)

end
