(* ===== verification/WaitingPods.thy ===== *)
theory WaitingPods
  imports Framework
begin

text \<open>
  The second half of the scheduling framework (\<open>pkg/scheduler/framework/v1alpha1\<close>): the runners of the Reserve,
  Permit, PreBind and Bind extension points (\<open>framework.go\<close>) and the pods that wait for a permission
  (\<open>waiting_pods_map.go\<close>). A waiting pod is an object that the map, the binding goroutine and the timers share, so
  that it lives at an address. Its channel has room for one status; a send to a full channel is dropped. A timer
  runs until it is stopped or expires; an expired timer has started a goroutine that calls \<open>Reject\<close>, and
  \<open>Stop\<close> comes too late for it. The plugins are arguments: what they answer for a pod and a node. They keep the
  cycle state among themselves. Unreserve and PostBind plugins return nothing and are not run here.
  The duration in the message about a timeout is left out.
\<close>

section \<open>Model: plugins\<close>

record Plugins =
  reservePlugins :: "(string \<times> (Pod \<Rightarrow> string \<Rightarrow> Status option)) list"
  permitPlugins :: "(string \<times> (Pod \<Rightarrow> string \<Rightarrow> Status option \<times> i64)) list"
  preBindPlugins :: "(string \<times> (Pod \<Rightarrow> string \<Rightarrow> Status option)) list"
  bindPlugins :: "(string \<times> (Pod \<Rightarrow> string \<Rightarrow> Status option)) list"

definition pluginFailed :: "string \<Rightarrow> string \<Rightarrow> Pod \<Rightarrow> Status option \<Rightarrow> Status option" where
  "pluginFailed name point pod status =
     NewStatus Error [''error while running '' @ quoted name @ '' '' @ point @ '' plugin for pod '' @
       quoted (podName pod) @ '': '' @ statusMessage status]"

fun runReserves :: "(string \<times> (Pod \<Rightarrow> string \<Rightarrow> Status option)) list \<Rightarrow> Pod \<Rightarrow> string \<Rightarrow> Status option" where
  "runReserves [] pod node = None"
| "runReserves ((name, pl) # pls) pod node =
     (if \<not> IsSuccess (pl pod node) then pluginFailed name ''reserve'' pod (pl pod node) else runReserves pls pod node)"

definition RunReservePlugins :: "Plugins \<Rightarrow> Pod \<Rightarrow> string \<Rightarrow> Status option" where
  "RunReservePlugins ps = runReserves (reservePlugins ps)"

fun runPreBinds :: "(string \<times> (Pod \<Rightarrow> string \<Rightarrow> Status option)) list \<Rightarrow> Pod \<Rightarrow> string \<Rightarrow> Status option" where
  "runPreBinds [] pod node = None"
| "runPreBinds ((name, pl) # pls) pod node =
     (if \<not> IsSuccess (pl pod node) then pluginFailed name ''prebind'' pod (pl pod node) else runPreBinds pls pod node)"

definition RunPreBindPlugins :: "Plugins \<Rightarrow> Pod \<Rightarrow> string \<Rightarrow> Status option" where
  "RunPreBindPlugins ps = runPreBinds (preBindPlugins ps)"

text \<open>The loop returns the status of the last plugin when all of them skip.\<close>

fun runBinds :: "(string \<times> (Pod \<Rightarrow> string \<Rightarrow> Status option)) list \<Rightarrow> Pod \<Rightarrow> string \<Rightarrow> Status option \<Rightarrow> Status option" where
  "runBinds [] pod node status = status"
| "runBinds ((name, pl) # pls) pod node _ =
     (let status = pl pod node in
      if status \<noteq> None \<and> statusCode status = Skip then runBinds pls pod node status
      else if \<not> IsSuccess status then
        NewStatus Error [''plugin '' @ quoted name @ '' failed to bind pod '' @
          quoted (podTenant pod @ ''/'' @ podNamespace pod @ ''/'' @ podName pod) @ '': '' @ statusMessage status]
      else status)"

definition RunBindPlugins :: "Plugins \<Rightarrow> Pod \<Rightarrow> string \<Rightarrow> Status option" where
  "RunBindPlugins ps pod node =
     (if bindPlugins ps = [] then NewStatus Skip [[]] else runBinds (bindPlugins ps) pod node None)"

section \<open>Model: waiting pods\<close>

datatype timerState = TimerRunning | TimerStopped | TimerFired

record waitingPod =
  wpPod :: Pod
  wpPending :: "string list"
  wpTimers :: "(string, i64 \<times> timerState) gomap"
  wpSignal :: "Status option"

definition newWaitingPod :: "Pod \<Rightarrow> (string, i64) gomap \<Rightarrow> waitingPod" where
  "newWaitingPod pod pluginsMaxWaitTime =
     \<lparr>wpPod = pod, wpPending = map fst pluginsMaxWaitTime,
      wpTimers = map (\<lambda>(plugin, waitTime). (plugin, waitTime, TimerRunning)) pluginsMaxWaitTime, wpSignal = None\<rparr>"

definition stopTimer :: "string \<Rightarrow> waitingPod \<Rightarrow> waitingPod" where
  "stopTimer plugin w =
     (case mget (wpTimers w) plugin of
        Some (t, TimerRunning) \<Rightarrow> w\<lparr>wpTimers := mput plugin (t, TimerStopped) (wpTimers w)\<rparr>
      | _ \<Rightarrow> w)"

definition wpSend :: "Status \<Rightarrow> waitingPod \<Rightarrow> waitingPod" where
  "wpSend s w = (if wpSignal w = None then w\<lparr>wpSignal := Some s\<rparr> else w)"

definition wpAllow :: "string \<Rightarrow> waitingPod \<Rightarrow> waitingPod" where
  "wpAllow pluginName w =
     (let w = (if pluginName \<in> set (wpPending w)
               then (stopTimer pluginName w)\<lparr>wpPending := remove1 pluginName (wpPending w)\<rparr> else w)
      in if wpPending w \<noteq> [] then w else wpSend \<lparr>stCode = Success, stReasons = [[]]\<rparr> w)"

definition wpReject :: "string \<Rightarrow> waitingPod \<Rightarrow> waitingPod" where
  "wpReject msg w = wpSend \<lparr>stCode = Code.Unschedulable, stReasons = [msg]\<rparr> (fold stopTimer (wpPending w) w)"

text \<open>What can happen to a waiting pod: the two methods, the expiry of a timer, and the goroutine an expired
  timer has started.\<close>

datatype waitAction = DoAllow string | DoReject string | TimerExpires string | TimeoutRuns string

definition timerExpires :: "string \<Rightarrow> waitingPod \<Rightarrow> waitingPod" where
  "timerExpires plugin w =
     (case mget (wpTimers w) plugin of
        Some (t, TimerRunning) \<Rightarrow> w\<lparr>wpTimers := mput plugin (t, TimerFired) (wpTimers w)\<rparr>
      | _ \<Rightarrow> w)"

definition hasFired :: "string \<Rightarrow> waitingPod \<Rightarrow> bool" where
  "hasFired plugin w = (case mget (wpTimers w) plugin of Some (_, TimerFired) \<Rightarrow> True | _ \<Rightarrow> False)"

definition timeoutRuns :: "string \<Rightarrow> waitingPod \<Rightarrow> waitingPod" where
  "timeoutRuns plugin w =
     (if hasFired plugin w
      then wpReject (''rejected due to timeout at plugin '' @ plugin)
             (w\<lparr>wpTimers := mput plugin (case mget (wpTimers w) plugin of Some (t, _) \<Rightarrow> t | None \<Rightarrow> 0, TimerStopped) (wpTimers w)\<rparr>)
      else w)"

fun waitAct :: "waitAction \<Rightarrow> waitingPod \<Rightarrow> waitingPod" where
  "waitAct (DoAllow plugin) w = wpAllow plugin w"
| "waitAct (DoReject msg) w = wpReject msg w"
| "waitAct (TimerExpires plugin) w = timerExpires plugin w"
| "waitAct (TimeoutRuns plugin) w = timeoutRuns plugin w"

record waitingPodsMap =
  wmPods :: "(string, nat) gomap"
  wmHeap :: "nat \<Rightarrow> waitingPod option"
  wmNext :: nat

definition newWaitingPodsMap :: waitingPodsMap where
  "newWaitingPodsMap = \<lparr>wmPods = [], wmHeap = (\<lambda>_. None), wmNext = 0\<rparr>"

definition wmAdd :: "waitingPod \<Rightarrow> waitingPodsMap \<Rightarrow> waitingPodsMap" where
  "wmAdd wp m = \<lparr>wmPods = mput (podUID (wpPod wp)) (wmNext m) (wmPods m), wmHeap = (wmHeap m)(wmNext m \<mapsto> wp),
     wmNext = Suc (wmNext m)\<rparr>"

definition wmRemove :: "string \<Rightarrow> waitingPodsMap \<Rightarrow> waitingPodsMap" where
  "wmRemove uid m = m\<lparr>wmPods := mdel uid (wmPods m)\<rparr>"

definition wmGet :: "string \<Rightarrow> waitingPodsMap \<Rightarrow> nat option" where
  "wmGet uid m = mget (wmPods m) uid"

definition wmAct :: "nat \<Rightarrow> waitAction \<Rightarrow> waitingPodsMap \<Rightarrow> waitingPodsMap" where
  "wmAct a act m = m\<lparr>wmHeap := (wmHeap m)(a := map_option (waitAct act) (wmHeap m a))\<rparr>"

definition RejectWaitingPod :: "string \<Rightarrow> waitingPodsMap \<Rightarrow> waitingPodsMap" where
  "RejectWaitingPod uid m = (case wmGet uid m of None \<Rightarrow> m | Some a \<Rightarrow> wmAct a (DoReject ''removed'') m)"

section \<open>Model: Permit\<close>

definition maxTimeout :: i64 where "maxTimeout = 15 * 60 * 1000000000"

fun runPermits ::
  "(string \<times> (Pod \<Rightarrow> string \<Rightarrow> Status option \<times> i64)) list \<Rightarrow> Pod \<Rightarrow> string \<Rightarrow> (string, i64) gomap \<Rightarrow> Code \<Rightarrow>
   Status option + (string, i64) gomap \<times> Code" where
  "runPermits [] pod node pluginsWaitTime code = Inr (pluginsWaitTime, code)"
| "runPermits ((name, pl) # pls) pod node pluginsWaitTime code =
     (let (status, timeout) = pl pod node in
      if \<not> IsSuccess status then
        (if IsUnschedulable status then
           Inl (NewStatus (statusCode status)
             [''rejected pod '' @ quoted (podName pod) @ '' by permit plugin '' @ quoted name @ '': '' @ statusMessage status])
         else if statusCode status = Wait then
           runPermits pls pod node (mput name (if sint maxTimeout < sint timeout then maxTimeout else timeout) pluginsWaitTime) Wait
         else Inl (pluginFailed name ''permit'' pod status))
      else runPermits pls pod node pluginsWaitTime code)"

definition RunPermitPlugins :: "Plugins \<Rightarrow> Pod \<Rightarrow> string \<Rightarrow> waitingPodsMap \<Rightarrow> Status option \<times> waitingPodsMap" where
  "RunPermitPlugins ps pod node m =
     (case runPermits (permitPlugins ps) pod node [] Success of
        Inl status \<Rightarrow> (status, m)
      | Inr (pluginsWaitTime, code) \<Rightarrow>
          if code = Wait then
            (NewStatus Wait [''one or more plugins asked to wait and no plugin rejected pod '' @ quoted (podName pod)],
             wmAdd (newWaitingPod pod pluginsWaitTime) m)
          else (None, m))"

text \<open>\<open>WaitOnPermit\<close> looks the waiting pod up, blocks on its channel, and drops it from the map. \<open>receiveSignal\<close> is the
  receive at the address found; \<open>None\<close> is a receive that blocks.\<close>

definition permitVerdict :: "Pod \<Rightarrow> Status \<Rightarrow> Status option" where
  "permitVerdict pod s =
     (if \<not> IsSuccess (Some s) then
        (if IsUnschedulable (Some s) then
           NewStatus (stCode s) [''pod '' @ quoted (podName pod) @ '' rejected while waiting on permit: '' @ statusMessage (Some s)]
         else NewStatus Error [''error received while waiting on permit for pod '' @ quoted (podName pod) @ '': '' @ statusMessage (Some s)])
      else None)"

definition receiveSignal :: "Pod \<Rightarrow> nat \<Rightarrow> waitingPodsMap \<Rightarrow> (Status option \<times> waitingPodsMap) option" where
  "receiveSignal pod a m =
     (case wmHeap m a of
        Some wp \<Rightarrow>
          (case wpSignal wp of
             Some s \<Rightarrow> Some (permitVerdict pod s, wmRemove (podUID pod) (m\<lparr>wmHeap := (wmHeap m)(a \<mapsto> wp\<lparr>wpSignal := None\<rparr>)\<rparr>))
           | None \<Rightarrow> None)
      | None \<Rightarrow> None)"

definition WaitOnPermit :: "Pod \<Rightarrow> waitingPodsMap \<Rightarrow> (Status option \<times> waitingPodsMap) option" where
  "WaitOnPermit pod m = (case wmGet (podUID pod) m of None \<Rightarrow> Some (None, m) | Some a \<Rightarrow> receiveSignal pod a m)"

section \<open>Specification\<close>

text \<open>An action that calls \<open>Reject\<close>, and a sequence in which one does.\<close>

definition rejectsAt :: "waitAction \<Rightarrow> waitingPod \<Rightarrow> bool" where
  "rejectsAt a w = (case a of DoReject _ \<Rightarrow> True | TimeoutRuns n \<Rightarrow> hasFired n w | _ \<Rightarrow> False)"

fun rejected :: "waitAction list \<Rightarrow> waitingPod \<Rightarrow> bool" where
  "rejected [] w = False"
| "rejected (a # as) w \<longleftrightarrow> rejectsAt a w \<or> rejected as (waitAct a w)"

definition allowedBy :: "waitAction list \<Rightarrow> string set" where
  "allowedBy acts = {n. DoAllow n \<in> set acts}"

definition asksToWait :: "Plugins \<Rightarrow> Pod \<Rightarrow> string \<Rightarrow> string set" where
  "asksToWait ps pod node = {name. \<exists>pl. (name, pl) \<in> set (permitPlugins ps) \<and> statusCode (fst (pl pod node)) = Wait}"

definition noRejection :: "(string \<times> (Pod \<Rightarrow> string \<Rightarrow> Status option \<times> i64)) list \<Rightarrow> Pod \<Rightarrow> string \<Rightarrow> bool" where
  "noRejection pls pod node \<longleftrightarrow>
     (\<forall>(name, pl) \<in> set pls. IsSuccess (fst (pl pod node)) \<or> statusCode (fst (pl pod node)) = Wait)"

text \<open>Every plugin has allowed the pod, and nobody had rejected it by then.\<close>

definition released :: "string set \<Rightarrow> waitAction list \<Rightarrow> waitingPod \<Rightarrow> bool" where
  "released P acts w \<longleftrightarrow> (\<exists>as bs. acts = as @ bs \<and> P \<subseteq> allowedBy as \<and> \<not> rejected as w)"

definition gatePlugins :: Plugins where
  "gatePlugins = \<lparr>reservePlugins = [], permitPlugins =
     [(''quota'', \<lambda>_ _. (NewStatus Wait [], 10)), (''gang'', \<lambda>_ _. (NewStatus Wait [], 20))],
     preBindPlugins = [], bindPlugins = []\<rparr>"

section \<open>One waiting pod\<close>

lemma stopTimer_frame [simp]: "wpSignal (stopTimer n w) = wpSignal w" "wpPending (stopTimer n w) = wpPending w"
  by (simp_all add: stopTimer_def split: option.split prod.split timerState.split)

lemma stopTimers_frame [simp]: "wpSignal (fold stopTimer ns w) = wpSignal w" "wpPending (fold stopTimer ns w) = wpPending w"
  by (induction ns arbitrary: w) simp_all

lemma timerExpires_frame [simp]: "wpSignal (timerExpires n w) = wpSignal w" "wpPending (timerExpires n w) = wpPending w"
  by (simp_all add: timerExpires_def split: option.split prod.split timerState.split)

lemma wpSend_frame [simp]: "wpPending (wpSend s w) = wpPending w"
  by (simp add: wpSend_def)

lemma signal_keeps: "wpSignal w \<noteq> None \<Longrightarrow> wpSignal (waitAct a w) = wpSignal w"
  by (cases a) (auto simp: wpAllow_def wpReject_def timeoutRuns_def wpSend_def Let_def)

lemma signal_stays: "wpSignal w \<noteq> None \<Longrightarrow> wpSignal (fold waitAct acts w) = wpSignal w"
  by (induction acts arbitrary: w) (simp_all add: signal_keeps)

lemma reject_signal:
  "rejectsAt a w \<Longrightarrow> wpSignal w = None \<Longrightarrow> \<exists>s. wpSignal (waitAct a w) = Some s \<and> stCode s = Code.Unschedulable"
  by (cases a) (auto simp: rejectsAt_def wpReject_def timeoutRuns_def wpSend_def)

lemma allowedBy_simps [simp]: "allowedBy [] = {}"
  "allowedBy (a # as) = (case a of DoAllow n \<Rightarrow> {n} | _ \<Rightarrow> {}) \<union> allowedBy as"
  by (auto simp: allowedBy_def split: waitAction.split)

lemma wpAllow_pending: "wpPending (wpAllow n w) = remove1 n (wpPending w)"
  by (simp add: wpAllow_def remove1_idem Let_def)

lemma wpAllow_signal:
  "wpSignal w = None \<Longrightarrow>
   wpSignal (wpAllow n w) = (if remove1 n (wpPending w) = [] then Some \<lparr>stCode = Success, stReasons = [[]]\<rparr> else None)"
  by (simp add: wpAllow_def wpSend_def remove1_idem Let_def)

lemma act_pending:
  assumes "\<not> rejectsAt a w" and "wpSignal w = None" and "wpPending w \<noteq> []" and "distinct (wpPending w)"
  shows "set (wpPending (waitAct a w)) = set (wpPending w) - allowedBy [a] \<and> distinct (wpPending (waitAct a w)) \<and>
    wpSignal (waitAct a w) = (if wpPending (waitAct a w) = [] then Some \<lparr>stCode = Success, stReasons = [[]]\<rparr> else None)"
proof (cases a)
  case (DoAllow n)
  then show ?thesis using assms by (simp add: wpAllow_pending wpAllow_signal)
next
  case (DoReject m)
  then show ?thesis using assms(1) by (simp add: rejectsAt_def)
next
  case (TimerExpires n)
  then show ?thesis using assms by simp
next
  case (TimeoutRuns n)
  then show ?thesis using assms by (simp add: rejectsAt_def timeoutRuns_def)
qed

lemma released_Cons:
  assumes "\<not> rejectsAt a w" and "P \<noteq> {}"
  shows "released P (a # acts) w \<longleftrightarrow> released (P - allowedBy [a]) acts (waitAct a w)"
proof
  assume "released P (a # acts) w"
  then obtain as bs where s: "a # acts = as @ bs" "P \<subseteq> allowedBy as" "\<not> rejected as w" by (auto simp: released_def)
  then obtain as' where as: "as = a # as'" using assms(2) by (cases as) auto
  then have "P - allowedBy [a] \<subseteq> allowedBy as'" using s(2) by auto
  then show "released (P - allowedBy [a]) acts (waitAct a w)" using s as by (auto simp: released_def)
next
  assume "released (P - allowedBy [a]) acts (waitAct a w)"
  then obtain as bs where "acts = as @ bs" "P - allowedBy [a] \<subseteq> allowedBy as" "\<not> rejected as (waitAct a w)"
    by (auto simp: released_def)
  then have "a # acts = (a # as) @ bs" "P \<subseteq> allowedBy (a # as)" "\<not> rejected (a # as) w" using assms(1) by auto
  then show "released P (a # acts) w" unfolding released_def by blast
qed

text \<open>What the channel holds after any sequence of actions.\<close>

lemma signal_spec:
  assumes "wpSignal w = None" and "wpPending w \<noteq> []" and "distinct (wpPending w)"
  shows "case wpSignal (fold waitAct acts w) of
      None \<Rightarrow> \<not> rejected acts w \<and> \<not> released (set (wpPending w)) acts w
    | Some s \<Rightarrow> if released (set (wpPending w)) acts w then stCode s = Success
                else stCode s = Code.Unschedulable \<and> rejected acts w"
  using assms
proof (induction acts arbitrary: w)
  case Nil
  then show ?case by (simp add: released_def)
next
  case (Cons a acts)
  let ?w = "waitAct a w"
  show ?case
  proof (cases "rejectsAt a w")
    case True
    then obtain s where s: "wpSignal ?w = Some s" "stCode s = Code.Unschedulable" using reject_signal Cons.prems(1) by blast
    have "\<not> released (set (wpPending w)) (a # acts) w"
      using True Cons.prems(2) by (auto simp: released_def Cons_eq_append_conv)
    then show ?thesis using s signal_stays [of ?w acts] True by simp
  next
    case False
    have p: "set (wpPending ?w) = set (wpPending w) - allowedBy [a]" "distinct (wpPending ?w)"
      "wpSignal ?w = (if wpPending ?w = [] then Some \<lparr>stCode = Success, stReasons = [[]]\<rparr> else None)"
      using act_pending [OF False Cons.prems] by blast+
    have r: "released (set (wpPending w)) (a # acts) w \<longleftrightarrow> released (set (wpPending ?w)) acts ?w"
      using released_Cons [OF False] p(1) Cons.prems(2) by simp
    show ?thesis
    proof (cases "wpPending ?w = []")
      case True
      then have "released (set (wpPending ?w)) acts ?w" by (auto simp: released_def intro: exI [of _ "[]"])
      then show ?thesis using r True p(3) signal_stays [of ?w acts] by simp
    next
      case nonempty: False
      have "wpSignal ?w = None" using p(3) nonempty by simp
      note IH = Cons.IH [OF this nonempty p(2)]
      have "rejected (a # acts) w = rejected acts ?w" "fold waitAct (a # acts) w = fold waitAct acts ?w" using False by simp_all
      then show ?thesis using IH unfolding r by (simp only:)
    qed
  qed
qed

section \<open>Permit\<close>

lemma runPermits_Inr:
  assumes "runPermits pls pod node wt code = Inr (wt', code')" and "gomap_wf wt"
  shows "noRejection pls pod node \<and> gomap_wf wt' \<and>
    mkeys wt' = mkeys wt \<union> {name. \<exists>pl. (name, pl) \<in> set pls \<and> statusCode (fst (pl pod node)) = Wait} \<and>
    (code' = Wait \<longleftrightarrow> code = Wait \<or> (\<exists>(name, pl) \<in> set pls. statusCode (fst (pl pod node)) = Wait))"
  using assms
proof (induction pls arbitrary: wt code)
  case (Cons pl pls)
  obtain name p where pl: "pl = (name, p)" by fastforce
  obtain status timeout where st: "p pod node = (status, timeout)" by fastforce
  show ?case
  proof (cases "IsSuccess status")
    case True
    then have "statusCode status \<noteq> Wait" by (simp add: IsSuccess_def)
    then show ?thesis using Cons.IH [of wt code] Cons.prems True pl st by (fastforce simp: noRejection_def)
  next
    case False
    let ?t = "mput name (if sint maxTimeout < sint timeout then maxTimeout else timeout) wt"
    have w: "statusCode status = Wait" and r: "runPermits pls pod node ?t Wait = Inr (wt', code')"
      using Cons.prems(1) False pl st by (auto split: if_splits)
    have "gomap_wf ?t" using Cons.prems(2) by simp
    from Cons.IH [OF r this] show ?thesis using w pl st False by (fastforce simp: noRejection_def)
  qed
qed (simp add: noRejection_def)

lemma RunPermit_wait:
  assumes "RunPermitPlugins ps pod node m = (st, m1)" and "statusCode st = Wait"
  obtains wt where "m1 = wmAdd (newWaitingPod pod wt) m" and "gomap_wf wt" and "mkeys wt = asksToWait ps pod node"
    and "asksToWait ps pod node \<noteq> {}" and "noRejection (permitPlugins ps) pod node"
proof (cases "runPermits (permitPlugins ps) pod node [] Success")
  case (Inl s)
  have "statusCode s \<noteq> Wait" if "runPermits pls pod node wt c = Inl s" for pls wt c
    using that
    by (induction pls arbitrary: wt c)
      (auto simp: IsUnschedulable_def NewStatus_def pluginFailed_def statusCode_def split: if_splits prod.splits)
  from this [OF Inl] show ?thesis using assms Inl by (simp add: RunPermitPlugins_def)
next
  case (Inr r)
  obtain wt code where r: "r = (wt, code)" by fastforce
  note spec = runPermits_Inr [OF Inr [unfolded r]]
  have "code = Wait" using assms Inr r by (auto simp: RunPermitPlugins_def statusCode_def split: if_splits)
  then show ?thesis using that [of wt] spec assms(1) Inr r by (auto simp: RunPermitPlugins_def asksToWait_def)
qed

lemma fold_wmAct:
  "fold (wmAct a) acts m = m\<lparr>wmHeap := (wmHeap m)(a := map_option (fold waitAct acts) (wmHeap m a))\<rparr>"
proof (induction acts arbitrary: m)
  case (Cons act acts)
  show ?case unfolding fold_simps Cons.IH by (auto intro!: waitingPodsMap.equality simp: wmAct_def option.map_comp comp_def)
qed (simp add: option.map_id)

text \<open>C14: a pod that the Permit plugins let wait is released exactly when every plugin that asked to wait has allowed
  it and nobody, no plugin and no timeout, had rejected it by then; a pod rejected earlier is refused as
  unschedulable whatever is allowed later; otherwise \<open>WaitOnPermit\<close> still blocks. No plugin had refused the pod,
  and when the wait is over the pod is gone from the map.\<close>

theorem permit_waits:
  assumes "RunPermitPlugins ps pod node m = (st, m1)" and "statusCode st = Wait"
  shows "\<exists>a w. wmGet (podUID pod) m1 = Some a \<and> wmHeap m1 a = Some w \<and> asksToWait ps pod node \<noteq> {} \<and>
     noRejection (permitPlugins ps) pod node \<and>
     (\<forall>acts. case WaitOnPermit pod (fold (wmAct a) acts m1) of
        None \<Rightarrow> \<not> released (asksToWait ps pod node) acts w \<and> \<not> rejected acts w
      | Some (verdict, m2) \<Rightarrow> wmGet (podUID pod) m2 = None \<and>
          (if released (asksToWait ps pod node) acts w then verdict = None
           else rejected acts w \<and> statusCode verdict = Code.Unschedulable))"
proof -
  obtain wt where m1: "m1 = wmAdd (newWaitingPod pod wt) m" and wf: "gomap_wf wt"
    and W: "mkeys wt = asksToWait ps pod node" "asksToWait ps pod node \<noteq> {}" and ok: "noRejection (permitPlugins ps) pod node"
    using RunPermit_wait [OF assms] by blast
  let ?w = "newWaitingPod pod wt" and ?a = "wmNext m" and ?P = "asksToWait ps pod node"
  have w: "wpSignal ?w = None" "set (wpPending ?w) = ?P" "distinct (wpPending ?w)" "wpPending ?w \<noteq> []"
    using W wf by (auto simp: newWaitingPod_def mkeys_def gomap_wf_def)
  have get: "wmGet (podUID pod) m1 = Some ?a" "wmHeap m1 ?a = Some ?w"
    by (simp_all add: m1 wmGet_def wmAdd_def newWaitingPod_def)
  have "case WaitOnPermit pod (fold (wmAct ?a) acts m1) of
        None \<Rightarrow> \<not> released ?P acts ?w \<and> \<not> rejected acts ?w
      | Some (verdict, m2) \<Rightarrow> wmGet (podUID pod) m2 = None \<and>
          (if released ?P acts ?w then verdict = None
           else rejected acts ?w \<and> statusCode verdict = Code.Unschedulable)" for acts
    using signal_spec [OF w(1,4,3), of acts] get w(2)
    by (cases "wpSignal (fold waitAct acts ?w)")
      (auto simp: WaitOnPermit_def receiveSignal_def fold_wmAct wmGet_def wmRemove_def permitVerdict_def IsSuccess_def
        IsUnschedulable_def statusCode_def NewStatus_def)
  then show ?thesis using get W(2) ok by blast
qed

theorem permit_waits_witness:
  "\<exists>m2. WaitOnPermit zeroPod (fold (wmAct 0) [DoAllow ''gang'', TimerExpires ''quota'', DoAllow ''quota'', TimeoutRuns ''quota'']
       (snd (RunPermitPlugins gatePlugins zeroPod ''n'' newWaitingPodsMap))) = Some (None, m2)"
proof -
  let ?r = "RunPermitPlugins gatePlugins zeroPod ''n'' newWaitingPodsMap"
  let ?acts = "[DoAllow ''gang'', TimerExpires ''quota'', DoAllow ''quota'', TimeoutRuns ''quota'']"
  have r: "?r = (fst ?r, snd ?r)" by simp
  have w: "statusCode (fst ?r) = Wait" "wmGet (podUID zeroPod) (snd ?r) = Some 0" by code_simp+
  have A: "asksToWait gatePlugins zeroPod ''n'' = {''quota'', ''gang''}"
    by (auto simp: asksToWait_def gatePlugins_def NewStatus_def statusCode_def)
  have "released {''quota'', ''gang''} ?acts w" for w
    unfolding released_def
    by (rule exI [of _ "take 3 ?acts"]) (auto simp: rejectsAt_def)
  with permit_waits [OF r w(1)] w(2) show ?thesis by (fastforce simp: A split: option.splits)
qed

end
