(* ===== verification/Scheduler.thy ===== *)
theory Scheduler
  imports Preemption QueueSpec WaitingPods
begin

text \<open>
  The scheduler itself (\<open>pkg/scheduler/scheduler.go\<close>, \<open>eventhandlers.go\<close>, the error function of \<open>factory.go\<close> and the
  profiles of \<open>profile/profile.go\<close>): the event handlers with the filters that route pods to the queue or to the
  cache, the scheduling cycle, the binding cycle and the retries. It composes the queue, the cache, the
  algorithm, preemption and the waiting pods.

  The source runs these in many goroutines that share the queue, the cache and the waiting pods, each under
  its own lock. The state therefore has the program counter of every goroutine: \<open>schCycle\<close> for \<open>scheduleOne\<close>,
  \<open>schBindings\<close> for the binding goroutines and \<open>schRetries\<close> for the goroutines of the error function. One action is
  what a goroutine does up to its next access to another shared object, and \<open>sysAct\<close> runs an action; only the
  nominations in the queue are written in the same action as the cache or the waiting pods. \<open>env\<close> holds
  the answers of everything outside during one action: the clock, the API server, listers, plugins of the
  points after scoring, volumes, extenders that bind, random draws and the interleaving of the search.
  No result is a crash of the process, or an action that blocks. Events, metrics and logs are left out, and so
  are status updates of pods, which only reach the API server.
\<close>

section \<open>Model: state\<close>

datatype cycleErr = CSched schedErr | CCache cacheErr | CMsg string | CNodeNotFound string

record env =
  envClock :: clock
  envGens :: "nat \<Rightarrow> int"
  envSearch :: "searchAction list"
  envIntn :: "nat \<Rightarrow> nat \<Rightarrow> nat"
  envPvcs :: "string \<Rightarrow> string \<Rightarrow> string \<Rightarrow> string + ObjectMeta"
  envPdbs :: "string + PodDisruptionBudget list"
  envSort :: podSort
  envGetPod :: "Pod \<Rightarrow> string + Pod"
  envSetNominated :: "Pod \<Rightarrow> string \<Rightarrow> string option"
  envDeletePod :: "Pod \<Rightarrow> string option"
  envNodeGone :: "string \<Rightarrow> bool"
  envAssumeVolumes :: "Pod \<Rightarrow> string \<Rightarrow> cycleErr + bool"
  envBindVolumes :: "Pod \<Rightarrow> cycleErr option"
  envExtBind :: "extender \<Rightarrow> Pod \<Rightarrow> string \<Rightarrow> string option"
  envPlugins :: "string \<Rightarrow> Plugins"
  envListers :: "(string, string \<Rightarrow> listerRes) gomap"

record 'd Profile =
  prFramework :: "'d framework"
  prWaitingPods :: waitingPodsMap

text \<open>Where \<open>scheduleOne\<close> stands: what it does next.\<close>

datatype cycle =
    CyPopped PodInfo
  | CyUnfit PodInfo schedErr
  | CyFailed PodInfo cycleErr
  | CyFits PodInfo string
  | CyAssumed PodInfo string bool
  | CyRefused PodInfo cycleErr

text \<open>Where a binding goroutine stands.\<close>

datatype bindPhase = BdWait | BdReceive nat | BdVolumes | BdPreBind | BdBind | BdFinish "cycleErr option"
  | BdForget cycleErr | BdFail cycleErr

record bindCycle =
  bdPodInfo :: PodInfo
  bdHost :: string
  bdAllBound :: bool
  bdPhase :: bindPhase

record retry =
  rtPodInfo :: PodInfo
  rtCycle :: i64
  rtBackoff :: i64

record 'd Scheduler =
  schAlgorithm :: genericScheduler
  schProfiles :: "(string, 'd Profile) gomap"
  schDisablePreemption :: bool
  schCycle :: "cycle option"
  schBindings :: "bindCycle list"
  schRetries :: "retry list"
  schEvictions :: "Pod list"

abbreviation schCache :: "'d Scheduler \<Rightarrow> schedulerCache" where "schCache s \<equiv> gsCache (schAlgorithm s)"
abbreviation schQueue :: "'d Scheduler \<Rightarrow> PriorityQueue" where "schQueue s \<equiv> gsQueue (schAlgorithm s)"
abbreviation schSnapshot :: "'d Scheduler \<Rightarrow> Snapshot" where "schSnapshot s \<equiv> gsSnapshot (schAlgorithm s)"

definition putCache :: "schedulerCache \<Rightarrow> 'd Scheduler \<Rightarrow> 'd Scheduler" where
  "putCache c s = s\<lparr>schAlgorithm := (schAlgorithm s)\<lparr>gsCache := c\<rparr>\<rparr>"

definition putQueue :: "PriorityQueue \<Rightarrow> 'd Scheduler \<Rightarrow> 'd Scheduler" where
  "putQueue q s = s\<lparr>schAlgorithm := (schAlgorithm s)\<lparr>gsQueue := q\<rparr>\<rparr>"

definition putWaiting :: "string \<Rightarrow> waitingPodsMap \<Rightarrow> 'd Scheduler \<Rightarrow> 'd Scheduler" where
  "putWaiting name m s =
     (case mget (schProfiles s) name of
        None \<Rightarrow> s
      | Some prof \<Rightarrow> s\<lparr>schProfiles := mput name (prof\<lparr>prWaitingPods := m\<rparr>) (schProfiles s)\<rparr>)"

text \<open>The outcome of a call on the cache: a fatal error ends the process, other errors are logged.\<close>

definition afterCache :: "cacheRes \<Rightarrow> 'd Scheduler \<Rightarrow> 'd Scheduler option" where
  "afterCache r s = (case r of (c, e) \<Rightarrow> if isPanic e \<or> e = Some CacheFatal then None else Some (putCache c s))"

definition afterQueue :: "PriorityQueue \<times> queueErr option \<Rightarrow> 'd Scheduler \<Rightarrow> 'd Scheduler option" where
  "afterQueue r s =
     (case r of (q, e) \<Rightarrow> if e = Some QPanicNil \<or> e = Some QPanicSelector then None else Some (putQueue q s))"

definition moveAll :: "LessFunc \<Rightarrow> env \<Rightarrow> 'd Scheduler \<Rightarrow> 'd Scheduler" where
  "moveAll lessFn env s = putQueue (MoveAllToActiveOrBackoffQueue lessFn (envClock env) (schQueue s)) s"

section \<open>Model: profiles and skipped pods\<close>

definition HandlesSchedulerName :: "string \<Rightarrow> (string, 'd Profile) gomap \<Rightarrow> bool" where
  "HandlesSchedulerName name m \<longleftrightarrow> mget m name \<noteq> None"

definition profileForPod :: "Pod \<Rightarrow> 'd Scheduler \<Rightarrow> 'd Profile option" where
  "profileForPod pod s = mget (schProfiles s) (psSchedulerName (podSpec pod))"

text \<open>The pod without the fields that an update of an assumed pod may change, its maps sorted by key. Managed
  fields and finalizers are not fields of the model.\<close>

definition updateMask :: "Pod \<Rightarrow> Pod" where
  "updateMask pod =
     pod\<lparr>podMeta := (podMeta pod)\<lparr>omResourceVersion := [], omAnnotations := [], omLabels := canonMap (omLabels (podMeta pod))\<rparr>,
         podSpec := (podSpec (strip pod))\<lparr>psNodeName := []\<rparr>,
         podStatus := (podStatus pod)\<lparr>pstConditions := []\<rparr>\<rparr>"

definition skipPodUpdate :: "Pod \<Rightarrow> 'd Scheduler \<Rightarrow> bool" where
  "skipPodUpdate pod s =
     (case IsAssumedPod pod (schCache s) of
        Inl _ \<Rightarrow> False
      | Inr assumed \<Rightarrow>
          if \<not> assumed then False
          else (case GetPod pod (schCache s) of
                  Inl _ \<Rightarrow> False
                | Inr assumedPod \<Rightarrow> updateMask assumedPod = updateMask pod))"

definition skipPodSchedule :: "Pod \<Rightarrow> 'd Scheduler \<Rightarrow> bool" where
  "skipPodSchedule pod s = (if omDeletionTimestamp (podMeta pod) \<noteq> None then True else skipPodUpdate pod s)"

section \<open>Model: failures and retries\<close>

definition initialGetBackoff :: i64 where "initialGetBackoff = 100000000"
definition maximalGetBackoff :: i64 where "maximalGetBackoff = 60000000000"

text \<open>The function of \<open>MakeDefaultErrorFunc\<close>: a node that the API server does not know is removed from the cache, by a
  node object that has only the name; then a goroutine is started for the pod.\<close>

definition bareNode :: "string \<Rightarrow> Node" where
  "bareNode name = zeroNode\<lparr>nodeMeta := zeroMeta\<lparr>omName := name\<rparr>\<rparr>"

definition defaultErrorFunc :: "env \<Rightarrow> PodInfo \<Rightarrow> cycleErr \<Rightarrow> 'd Scheduler \<Rightarrow> 'd Scheduler" where
  "defaultErrorFunc env podInfo err s =
     (let s = (case err of
                 CNodeNotFound name \<Rightarrow>
                   if envNodeGone env name then putCache (fst (cacheRemoveNode (bareNode name) (schCache s))) s else s
               | _ \<Rightarrow> s)
      in s\<lparr>schRetries := schRetries s @
             [\<lparr>rtPodInfo = podInfo, rtCycle = pqSchedulingCycle (schQueue s), rtBackoff = initialGetBackoff\<rparr>]\<rparr>)"

definition recordSchedulingFailure :: "env \<Rightarrow> PodInfo \<Rightarrow> cycleErr \<Rightarrow> 'd Scheduler \<Rightarrow> 'd Scheduler" where
  "recordSchedulingFailure env podInfo err s = defaultErrorFunc env podInfo err s"

datatype podAnswer = PodFound Pod | PodNotFound | PodError

definition dropAt :: "nat \<Rightarrow> 'a list \<Rightarrow> 'a list" where
  "dropAt i xs = take i xs @ drop (Suc i) xs"

text \<open>One round of the loop of a retry goroutine.\<close>

definition retryPod :: "env \<Rightarrow> nat \<Rightarrow> podAnswer \<Rightarrow> 'd Scheduler \<Rightarrow> 'd Scheduler option" where
  "retryPod env i answer s =
     (if length (schRetries s) \<le> i then None
      else (let r = schRetries s ! i; done = s\<lparr>schRetries := dropAt i (schRetries s)\<rparr> in
            case answer of
              PodFound pod \<Rightarrow>
                if podNodeName pod = []
                then Some (putQueue (fst (AddUnschedulableIfNotPresent (envClock env) ((rtPodInfo r)\<lparr>piPod := pod\<rparr>)
                             (rtCycle r) (schQueue s))) done)
                else Some done
            | PodNotFound \<Rightarrow> Some done
            | PodError \<Rightarrow>
                (let b = rtBackoff r * 2
                 in Some (s\<lparr>schRetries := (schRetries s)[i := r\<lparr>rtBackoff :=
                      if sint maximalGetBackoff < sint b then maximalGetBackoff else b\<rparr>]\<rparr>))))"

section \<open>Model: preemption\<close>

definition rejectVictim :: "string \<Rightarrow> Pod \<Rightarrow> 'd Scheduler \<Rightarrow> 'd Scheduler" where
  "rejectVictim name victim s =
     (case mget (schProfiles s) name of
        None \<Rightarrow> s
      | Some prof \<Rightarrow>
          (case wmGet (podUID victim) (prWaitingPods prof) of
             None \<Rightarrow> s
           | Some a \<Rightarrow> putWaiting name (wmAct a (DoReject ''preempted'') (prWaitingPods prof)) s))"

text \<open>The loop over the victims ends at the first deletion that fails.\<close>

fun deleteVictims :: "env \<Rightarrow> string \<Rightarrow> Pod list \<Rightarrow> 'd Scheduler \<Rightarrow> 'd Scheduler" where
  "deleteVictims env name [] s = s"
| "deleteVictims env name (victim # victims) s =
     (case envDeletePod env victim of
        Some _ \<Rightarrow> s
      | None \<Rightarrow> deleteVictims env name victims (rejectVictim name victim (s\<lparr>schEvictions := schEvictions s @ [victim]\<rparr>)))"

text \<open>The nomination is written to the queue before it is written to the API server, and taken back when that
  fails. The pods whose nomination is cleared are only updated at the API server. The cycle state is what the
  PreFilter plugins left in it, since the plugins after them up to the failed search do not write it.\<close>

definition preempt :: "features \<Rightarrow> env \<Rightarrow> 'd Profile \<Rightarrow> string \<Rightarrow> Pod \<Rightarrow> schedErr \<Rightarrow> 'd Scheduler \<Rightarrow> 'd Scheduler option" where
  "preempt f env prof name pod scheduleErr s =
     (case envGetPod env pod of
        Inl _ \<Rightarrow> Some s
      | Inr preemptor \<Rightarrow>
          (let state = snd (RunPreFilterPlugins (prFramework prof) [] pod) in
           case Preempt f (envSort env) (envClock env) (envPdbs env) (envGens env) (prFramework prof) state preemptor
                  scheduleErr (schAlgorithm s) of
             Inl SPanic \<Rightarrow> None
           | Inl _ \<Rightarrow> Some s
           | Inr p \<Rightarrow>
               (case preNode p of
                  None \<Rightarrow> Some s
                | Some node \<Rightarrow>
                    (let s = putQueue (UpdateNominatedPodForNode preemptor (nodeName node) (schQueue s)) s in
                     case envSetNominated env preemptor (nodeName node) of
                       Some _ \<Rightarrow> Some (putQueue (DeleteNominatedPodIfExists preemptor (schQueue s)) s)
                     | None \<Rightarrow> Some (deleteVictims env name (preVictims p) s)))))"

section \<open>Model: binding\<close>

fun extendersBinding :: "env \<Rightarrow> extender list \<Rightarrow> Pod \<Rightarrow> string \<Rightarrow> bool \<times> string option" where
  "extendersBinding env [] pod node = (False, None)"
| "extendersBinding env (e # es) pod node =
     (if \<not> extIsBinder e \<or> \<not> extIsInterested e pod then extendersBinding env es pod node
      else (True, envExtBind env e pod node))"

definition codeString :: "Code \<Rightarrow> string" where
  "codeString c =
     (case c of Success \<Rightarrow> ''Success'' | Error \<Rightarrow> ''Error'' | Code.Unschedulable \<Rightarrow> ''Unschedulable''
      | UnschedulableAndUnresolvable \<Rightarrow> ''UnschedulableAndUnresolvable'' | Wait \<Rightarrow> ''Wait'' | Skip \<Rightarrow> ''Skip'')"

definition bindAnswer :: "env \<Rightarrow> extender list \<Rightarrow> Pod \<Rightarrow> string \<Rightarrow> cycleErr option" where
  "bindAnswer env extenders assumed targetNode =
     (let (bound, err) = extendersBinding env extenders assumed targetNode in
      if bound then map_option CMsg err
      else (let bindStatus = RunBindPlugins (envPlugins env (psSchedulerName (podSpec assumed))) assumed targetNode in
            if IsSuccess bindStatus then None
            else if statusCode bindStatus = Error then Some (CMsg (statusMessage bindStatus))
            else Some (CMsg (''bind status: '' @ codeString (statusCode bindStatus) @ '', '' @ statusMessage bindStatus))))"

definition schedFinishBinding :: "env \<Rightarrow> Pod \<Rightarrow> 'd Scheduler \<Rightarrow> 'd Scheduler" where
  "schedFinishBinding env assumed s = putCache (fst (finishBinding assumed (envClock env 0) (schCache s))) s"

definition forget :: "features \<Rightarrow> Pod \<Rightarrow> 'd Scheduler \<Rightarrow> 'd Scheduler option" where
  "forget f assumed s = afterCache (ForgetPod f assumed (schCache s)) s"

text \<open>\<open>bind\<close> as the handler of pod updates calls it.\<close>

definition bind :: "features \<Rightarrow> env \<Rightarrow> Pod \<Rightarrow> string \<Rightarrow> 'd Scheduler \<Rightarrow> 'd Scheduler option" where
  "bind f env assumed targetNode s =
     (let err = bindAnswer env (gsExtenders (schAlgorithm s)) assumed targetNode;
          s = schedFinishBinding env assumed s
      in if err \<noteq> None then forget f assumed s else Some s)"

text \<open>One phase of a binding goroutine. \<open>WaitOnPermit\<close> is two phases, since it blocks on the channel of the pod it
  has found; \<open>bind\<close> is three.\<close>

definition bindNext :: "nat \<Rightarrow> bindPhase \<Rightarrow> 'd Scheduler \<Rightarrow> 'd Scheduler" where
  "bindNext i phase s = s\<lparr>schBindings := (schBindings s)[i := (schBindings s ! i)\<lparr>bdPhase := phase\<rparr>]\<rparr>"

definition bindEnds :: "nat \<Rightarrow> 'd Scheduler \<Rightarrow> 'd Scheduler" where
  "bindEnds i s = s\<lparr>schBindings := dropAt i (schBindings s)\<rparr>"

definition bindAct :: "features \<Rightarrow> env \<Rightarrow> nat \<Rightarrow> 'd Scheduler \<Rightarrow> 'd Scheduler option" where
  "bindAct f env i s =
     (if length (schBindings s) \<le> i then None
      else (let b = schBindings s ! i; assumedPod = piPod (bdPodInfo b); name = psSchedulerName (podSpec assumedPod) in
            case mget (schProfiles s) name of
              None \<Rightarrow> None
            | Some prof \<Rightarrow>
                (case bdPhase b of
                   BdWait \<Rightarrow>
                     Some (bindNext i (case wmGet (podUID assumedPod) (prWaitingPods prof) of
                                         None \<Rightarrow> BdVolumes | Some a \<Rightarrow> BdReceive a) s)
                 | BdReceive a \<Rightarrow>
                     (case receiveSignal assumedPod a (prWaitingPods prof) of
                        None \<Rightarrow> None
                      | Some (verdict, m) \<Rightarrow>
                          Some (bindNext i (if IsSuccess verdict then BdVolumes else BdForget (CMsg (statusMessage verdict)))
                                  (putWaiting name m s)))
                 | BdVolumes \<Rightarrow>
                     Some (bindNext i (if bdAllBound b then BdPreBind
                                       else (case envBindVolumes env assumedPod of
                                               None \<Rightarrow> BdPreBind | Some e \<Rightarrow> BdForget e)) s)
                 | BdPreBind \<Rightarrow>
                     (let preBindStatus = RunPreBindPlugins (envPlugins env name) assumedPod (bdHost b) in
                      Some (bindNext i (if IsSuccess preBindStatus then BdBind
                                        else BdForget (CMsg (statusMessage preBindStatus))) s))
                 | BdBind \<Rightarrow>
                     Some (bindNext i (BdFinish (bindAnswer env (gsExtenders (schAlgorithm s)) assumedPod (bdHost b))) s)
                 | BdFinish err \<Rightarrow>
                     (let s = schedFinishBinding env assumedPod s in
                      case err of None \<Rightarrow> Some (bindEnds i s) | Some e \<Rightarrow> Some (bindNext i (BdForget e) s))
                 | BdForget e \<Rightarrow> map_option (bindNext i (BdFail e)) (forget f assumedPod s)
                 | BdFail e \<Rightarrow> Some (recordSchedulingFailure env (bdPodInfo b) e (bindEnds i s)))))"

section \<open>Model: the scheduling cycle\<close>

definition nextPod :: "LessFunc \<Rightarrow> 'd Scheduler \<Rightarrow> 'd Scheduler" where
  "nextPod lessFn s =
     (case pqPop lessFn (schQueue s) of
        (q, Popped podInfo) \<Rightarrow> (putQueue q s)\<lparr>schCycle := Some (CyPopped podInfo)\<rparr>
      | (q, _) \<Rightarrow> putQueue q s)"

definition cycleNext :: "cycle option \<Rightarrow> 'd Scheduler \<Rightarrow> 'd Scheduler" where
  "cycleNext c s = s\<lparr>schCycle := c\<rparr>"

definition scheduleAct :: "features \<Rightarrow> env \<Rightarrow> PodInfo \<Rightarrow> 'd Scheduler \<Rightarrow> 'd Scheduler option" where
  "scheduleAct f env podInfo s =
     (let pod = piPod podInfo in
      case profileForPod pod s of
        None \<Rightarrow> Some (cycleNext None s)
      | Some prof \<Rightarrow>
          if skipPodSchedule pod s then Some (cycleNext None s)
          else (case Schedule f (envPvcs env) (prFramework prof) (envGens env) (envSearch env) (envIntn env) [] pod
                       (schAlgorithm s) of
                  None \<Rightarrow> None
                | Some (_, Inl SPanic) \<Rightarrow> None
                | Some (gs, Inl err) \<Rightarrow> Some (cycleNext (Some (CyUnfit podInfo err)) (s\<lparr>schAlgorithm := gs\<rparr>))
                | Some (gs, Inr r) \<Rightarrow>
                    Some (cycleNext (Some (CyFits podInfo (SuggestedHost r))) (s\<lparr>schAlgorithm := gs\<rparr>))))"

definition unfitAct :: "features \<Rightarrow> env \<Rightarrow> PodInfo \<Rightarrow> schedErr \<Rightarrow> 'd Scheduler \<Rightarrow> 'd Scheduler option" where
  "unfitAct f env podInfo err s =
     map_option (cycleNext (Some (CyFailed podInfo (CSched err))))
       (case err of
          FitError _ _ \<Rightarrow>
            if schDisablePreemption s then Some s
            else (case profileForPod (piPod podInfo) s of
                    None \<Rightarrow> Some s
                  | Some prof \<Rightarrow> preempt f env prof (psSchedulerName (podSpec (piPod podInfo))) (piPod podInfo) err s)
        | _ \<Rightarrow> Some s)"

text \<open>\<open>assume\<close> sets the node name of the copy of the pod, tells the cache, and drops the nomination.\<close>

definition assignTo :: "string \<Rightarrow> Pod \<Rightarrow> Pod" where
  "assignTo host pod = pod\<lparr>podSpec := (podSpec pod)\<lparr>psNodeName := host\<rparr>\<rparr>"

definition sched_assume :: "features \<Rightarrow> Pod \<Rightarrow> 'd Scheduler \<Rightarrow> 'd Scheduler \<times> cacheErr option" where
  "sched_assume f assumed s =
     (case AssumePod f assumed (schCache s) of
        (c, Some e) \<Rightarrow> (putCache c s, Some e)
      | (c, None) \<Rightarrow>
          (let s = putCache c s in (putQueue (DeleteNominatedPodIfExists assumed (schQueue s)) s, None)))"

definition fitsAct :: "features \<Rightarrow> env \<Rightarrow> PodInfo \<Rightarrow> string \<Rightarrow> 'd Scheduler \<Rightarrow> 'd Scheduler" where
  "fitsAct f env podInfo host s =
     (let pod = piPod podInfo; plugins = envPlugins env (psSchedulerName (podSpec pod)) in
      case envAssumeVolumes env pod host of
        Inl e \<Rightarrow> cycleNext (Some (CyFailed podInfo e)) s
      | Inr allBound \<Rightarrow>
          (let sts = RunReservePlugins plugins pod host in
           if \<not> IsSuccess sts then cycleNext (Some (CyFailed podInfo (CMsg (statusMessage sts)))) s
           else (let assumedPodInfo = podInfo\<lparr>piPod := assignTo host pod\<rparr> in
                 case sched_assume f (piPod assumedPodInfo) s of
                   (s, Some e) \<Rightarrow> cycleNext (Some (CyFailed assumedPodInfo (CCache e))) s
                 | (s, None) \<Rightarrow> cycleNext (Some (CyAssumed assumedPodInfo host allBound)) s)))"

definition permitAct :: "env \<Rightarrow> PodInfo \<Rightarrow> string \<Rightarrow> bool \<Rightarrow> 'd Scheduler \<Rightarrow> 'd Scheduler option" where
  "permitAct env podInfo host allBound s =
     (let assumedPod = piPod podInfo; name = psSchedulerName (podSpec assumedPod) in
      case mget (schProfiles s) name of
        None \<Rightarrow> None
      | Some prof \<Rightarrow>
          (let (status, m) = RunPermitPlugins (envPlugins env name) assumedPod host (prWaitingPods prof);
               s = putWaiting name m s
           in if statusCode status \<noteq> Wait \<and> \<not> IsSuccess status
              then Some (cycleNext (Some (CyRefused podInfo (CMsg (statusMessage status)))) s)
              else Some (cycleNext None (s\<lparr>schBindings := schBindings s @
                     [\<lparr>bdPodInfo = podInfo, bdHost = host, bdAllBound = allBound, bdPhase = BdWait\<rparr>]\<rparr>))))"

definition cycleAct :: "features \<Rightarrow> env \<Rightarrow> 'd Scheduler \<Rightarrow> 'd Scheduler option" where
  "cycleAct f env s =
     (case schCycle s of
        None \<Rightarrow> None
      | Some (CyPopped podInfo) \<Rightarrow> scheduleAct f env podInfo s
      | Some (CyUnfit podInfo err) \<Rightarrow> unfitAct f env podInfo err s
      | Some (CyFits podInfo host) \<Rightarrow> Some (fitsAct f env podInfo host s)
      | Some (CyAssumed podInfo host allBound) \<Rightarrow> permitAct env podInfo host allBound s
      | Some (CyRefused podInfo e) \<Rightarrow>
          map_option (cycleNext (Some (CyFailed podInfo e))) (forget f (piPod podInfo) s)
      | Some (CyFailed podInfo e) \<Rightarrow> Some (cycleNext None (recordSchedulingFailure env podInfo e s)))"

text \<open>\<open>scheduleOne\<close> without interference: its phases one after the other. A cycle has at most five phases after the
  pop.\<close>

fun runCycle :: "features \<Rightarrow> env \<Rightarrow> nat \<Rightarrow> 'd Scheduler \<Rightarrow> 'd Scheduler option" where
  "runCycle f env 0 s = Some s"
| "runCycle f env (Suc n) s =
     (if schCycle s = None then Some s else Option.bind (cycleAct f env s) (runCycle f env n))"

definition scheduleOne :: "features \<Rightarrow> LessFunc \<Rightarrow> env \<Rightarrow> 'd Scheduler \<Rightarrow> 'd Scheduler option" where
  "scheduleOne f lessFn env s = runCycle f env 5 (nextPod lessFn s)"

section \<open>Model: event handlers\<close>

text \<open>The object of a deletion: the object itself, a \<open>DeletedFinalStateUnknown\<close> with an object of the expected type
  or with another one.\<close>

datatype 'a deletion = Deleted 'a | FinalStateUnknown "'a option"

definition addNodeToCache :: "features \<Rightarrow> LessFunc \<Rightarrow> env \<Rightarrow> Node \<Rightarrow> 'd Scheduler \<Rightarrow> 'd Scheduler option" where
  "addNodeToCache f lessFn env node s =
     (case GetNodeFromNodelisters (envListers env) (nodeName node) of
        None \<Rightarrow> Some s
      | Some (_, rpId) \<Rightarrow> map_option (moveAll lessFn env) (afterCache (cacheAddNode f node rpId (schCache s)) s))"

definition nodeAllocatableChanged :: "Node \<Rightarrow> Node \<Rightarrow> bool" where
  "nodeAllocatableChanged new old \<longleftrightarrow> canonMap (nstAllocatable (nodeStatus old)) \<noteq> canonMap (nstAllocatable (nodeStatus new))"

definition nodeLabelsChanged :: "Node \<Rightarrow> Node \<Rightarrow> bool" where
  "nodeLabelsChanged new old \<longleftrightarrow> canonMap (omLabels (nodeMeta old)) \<noteq> canonMap (omLabels (nodeMeta new))"

definition nodeTaintsChanged :: "Node \<Rightarrow> Node \<Rightarrow> bool" where
  "nodeTaintsChanged new old \<longleftrightarrow> nsTaints (nodeSpec new) \<noteq> nsTaints (nodeSpec old)"

definition conditionStatuses :: "NodeCondition list \<Rightarrow> (string, string) gomap" where
  "conditionStatuses conditions = fold (\<lambda>c m. mput (ncType c) (ncStatus c) m) conditions []"

definition nodeConditionsChanged :: "Node \<Rightarrow> Node \<Rightarrow> bool" where
  "nodeConditionsChanged new old \<longleftrightarrow>
     canonMap (conditionStatuses (nstConditions (nodeStatus old))) \<noteq>
     canonMap (conditionStatuses (nstConditions (nodeStatus new)))"

definition nodeSpecUnschedulableChanged :: "Node \<Rightarrow> Node \<Rightarrow> bool" where
  "nodeSpecUnschedulableChanged new old \<longleftrightarrow>
     nsUnschedulable (nodeSpec new) \<noteq> nsUnschedulable (nodeSpec old) \<and> nsUnschedulable (nodeSpec new) = False"

definition nodeSchedulingPropertiesChange :: "Node \<Rightarrow> Node \<Rightarrow> string" where
  "nodeSchedulingPropertiesChange new old =
     (if nodeSpecUnschedulableChanged new old then ''NodeSpecUnschedulableChange''
      else if nodeAllocatableChanged new old then ''NodeAllocatableChange''
      else if nodeLabelsChanged new old then ''NodeLabelChange''
      else if nodeTaintsChanged new old then ''NodeTaintChange''
      else if nodeConditionsChanged new old then ''NodeConditionChange''
      else [])"

definition updateNodeInCache :: "features \<Rightarrow> LessFunc \<Rightarrow> env \<Rightarrow> Node \<Rightarrow> Node \<Rightarrow> 'd Scheduler \<Rightarrow> 'd Scheduler option" where
  "updateNodeInCache f lessFn env oldNode newNode s =
     map_option (\<lambda>s. if NumUnschedulablePods (schQueue s) = 0 then moveAll lessFn env s
                     else if nodeSchedulingPropertiesChange newNode oldNode \<noteq> [] then moveAll lessFn env s else s)
       (afterCache (cacheUpdateNode f (Some oldNode) newNode (envListers env) (schCache s)) s)"

definition deleteNodeFromCache :: "Node deletion \<Rightarrow> 'd Scheduler \<Rightarrow> 'd Scheduler option" where
  "deleteNodeFromCache obj s =
     (case obj of
        Deleted node \<Rightarrow> afterCache (cacheRemoveNode node (schCache s)) s
      | FinalStateUnknown (Some node) \<Rightarrow> afterCache (cacheRemoveNode node (schCache s)) s
      | FinalStateUnknown None \<Rightarrow> Some s)"

definition addPodToSchedulingQueue :: "LessFunc \<Rightarrow> env \<Rightarrow> Pod \<Rightarrow> 'd Scheduler \<Rightarrow> 'd Scheduler option" where
  "addPodToSchedulingQueue lessFn env pod s = afterQueue (pqAdd lessFn (envClock env) pod (schQueue s)) s"

definition updatePodInSchedulingQueue :: "LessFunc \<Rightarrow> env \<Rightarrow> Pod \<Rightarrow> Pod \<Rightarrow> 'd Scheduler \<Rightarrow> 'd Scheduler option" where
  "updatePodInSchedulingQueue lessFn env oldPod pod s =
     (if skipPodUpdate pod s then Some s
      else afterQueue (pqUpdate lessFn (envClock env) (Some oldPod) pod (schQueue s)) s)"

definition deletePodFromSchedulingQueue :: "LessFunc \<Rightarrow> Pod deletion \<Rightarrow> 'd Scheduler \<Rightarrow> 'd Scheduler option" where
  "deletePodFromSchedulingQueue lessFn obj s =
     (case (case obj of Deleted pod \<Rightarrow> Some pod | FinalStateUnknown p \<Rightarrow> p) of
        None \<Rightarrow> Some s
      | Some pod \<Rightarrow>
          (let s = putQueue (pqDelete lessFn pod (schQueue s)) s in
           case profileForPod pod s of
             None \<Rightarrow> Some s
           | Some prof \<Rightarrow>
               Some (putWaiting (psSchedulerName (podSpec pod)) (RejectWaitingPod (podUID pod) (prWaitingPods prof)) s)))"

definition addPodToCache :: "features \<Rightarrow> LessFunc \<Rightarrow> env \<Rightarrow> Pod \<Rightarrow> 'd Scheduler \<Rightarrow> 'd Scheduler option" where
  "addPodToCache f lessFn env pod s =
     Option.bind (afterCache (AddPod f pod (schCache s)) s)
       (\<lambda>s. afterQueue (AssignedPodAdded lessFn (envClock env) pod (schQueue s)) s)"

text \<open>A virtual machine pod whose phase becomes \<open>NoSchedule\<close> is bound to the empty node name.\<close>

definition updatePodInCache :: "features \<Rightarrow> LessFunc \<Rightarrow> env \<Rightarrow> Pod \<Rightarrow> Pod \<Rightarrow> 'd Scheduler \<Rightarrow> 'd Scheduler option" where
  "updatePodInCache f lessFn env oldPod newPod s =
     Option.bind (afterCache (UpdatePod f oldPod newPod (schCache s)) s)
       (\<lambda>s. Option.bind
          (if pstPhase (podStatus newPod) = ''NoSchedule'' \<and> pstPhase (podStatus oldPod) \<noteq> ''NoSchedule'' \<and>
              profileForPod newPod s \<noteq> None
           then bind f env newPod [] s else Some s)
          (\<lambda>s. afterQueue (AssignedPodUpdated lessFn (envClock env) newPod (schQueue s)) s))"

definition deletePodFromCache :: "features \<Rightarrow> LessFunc \<Rightarrow> env \<Rightarrow> Pod deletion \<Rightarrow> 'd Scheduler \<Rightarrow> 'd Scheduler option" where
  "deletePodFromCache f lessFn env obj s =
     (case (case obj of Deleted pod \<Rightarrow> Some pod | FinalStateUnknown p \<Rightarrow> p) of
        None \<Rightarrow> Some s
      | Some pod \<Rightarrow> map_option (moveAll lessFn env) (afterCache (RemovePod f pod (schCache s)) s))"

text \<open>Volumes, claims, services and CSI nodes only wake the unschedulable pods; of storage classes those that
  bind with the first consumer.\<close>

definition onStorageClassAdd :: "LessFunc \<Rightarrow> env \<Rightarrow> string option \<Rightarrow> 'd Scheduler \<Rightarrow> 'd Scheduler" where
  "onStorageClassAdd lessFn env bindingMode s =
     (if bindingMode = Some ''WaitForFirstConsumer'' then moveAll lessFn env s else s)"

section \<open>Model: routing of pod events\<close>

definition assignedPod :: "Pod \<Rightarrow> bool" where
  "assignedPod pod \<longleftrightarrow> podNodeName pod \<noteq> []"

definition vmPodShouldSleep :: "Pod \<Rightarrow> bool" where
  "vmPodShouldSleep pod \<longleftrightarrow> pstPhase (podStatus pod) = ''NoSchedule''"

definition responsibleForPod :: "Pod \<Rightarrow> (string, 'd Profile) gomap \<Rightarrow> bool" where
  "responsibleForPod pod profiles = HandlesSchedulerName (psSchedulerName (podSpec pod)) profiles"

definition cacheFilter :: "Pod deletion \<Rightarrow> bool" where
  "cacheFilter obj =
     (case obj of Deleted pod \<Rightarrow> assignedPod pod | FinalStateUnknown (Some pod) \<Rightarrow> assignedPod pod | FinalStateUnknown None \<Rightarrow> False)"

definition queueFilter :: "(string, 'd Profile) gomap \<Rightarrow> Pod deletion \<Rightarrow> bool" where
  "queueFilter profiles obj =
     (case obj of
        Deleted pod \<Rightarrow> \<not> assignedPod pod \<and> responsibleForPod pod profiles \<and> \<not> vmPodShouldSleep pod
      | FinalStateUnknown (Some pod) \<Rightarrow> \<not> assignedPod pod \<and> responsibleForPod pod profiles
      | FinalStateUnknown None \<Rightarrow> False)"

datatype podEvent = PodAdded Pod | PodUpdated Pod Pod | PodDeleted "Pod deletion"

text \<open>\<open>FilteringResourceEventHandler\<close>: a pod that starts or stops to pass the filter is added or deleted.\<close>

definition filteringHandler ::
  "(Pod deletion \<Rightarrow> bool) \<Rightarrow> (Pod \<Rightarrow> 's \<Rightarrow> 's option) \<Rightarrow> (Pod \<Rightarrow> Pod \<Rightarrow> 's \<Rightarrow> 's option) \<Rightarrow> (Pod deletion \<Rightarrow> 's \<Rightarrow> 's option) \<Rightarrow>
   podEvent \<Rightarrow> 's \<Rightarrow> 's option" where
  "filteringHandler flt onAdd onUpdate onDelete ev s =
     (case ev of
        PodAdded pod \<Rightarrow> if flt (Deleted pod) then onAdd pod s else Some s
      | PodUpdated old new \<Rightarrow>
          (let newer = flt (Deleted new); older = flt (Deleted old) in
           if newer \<and> older then onUpdate old new s
           else if newer \<and> \<not> older then onAdd new s
           else if \<not> newer \<and> older then onDelete (Deleted old) s
           else Some s)
      | PodDeleted obj \<Rightarrow> if flt obj then onDelete obj s else Some s)"

definition cacheHandler :: "features \<Rightarrow> LessFunc \<Rightarrow> env \<Rightarrow> podEvent \<Rightarrow> 'd Scheduler \<Rightarrow> 'd Scheduler option" where
  "cacheHandler f lessFn env =
     filteringHandler cacheFilter (addPodToCache f lessFn env) (updatePodInCache f lessFn env) (deletePodFromCache f lessFn env)"

definition queueHandler :: "LessFunc \<Rightarrow> env \<Rightarrow> podEvent \<Rightarrow> 'd Scheduler \<Rightarrow> 'd Scheduler option" where
  "queueHandler lessFn env ev s =
     filteringHandler (queueFilter (schProfiles s)) (addPodToSchedulingQueue lessFn env) (updatePodInSchedulingQueue lessFn env)
       (deletePodFromSchedulingQueue lessFn) ev s"

section \<open>Model: actions of the whole scheduler\<close>

datatype action =
    NextPod | CycleRuns | BindRuns nat | RetryRuns nat podAnswer
  | CachePod podEvent | QueuePod podEvent
  | NodeAdded Node | NodeUpdated Node Node | NodeDeleted "Node deletion"
  | Wake | StorageClassAdded "string option"
  | FlushBackoff | FlushLeftover | Cleanup
  | Waiting string nat waitAction

definition waitingAct :: "string \<Rightarrow> nat \<Rightarrow> waitAction \<Rightarrow> 'd Scheduler \<Rightarrow> 'd Scheduler" where
  "waitingAct name a act s =
     (case mget (schProfiles s) name of None \<Rightarrow> s | Some prof \<Rightarrow> putWaiting name (wmAct a act (prWaitingPods prof)) s)"

definition sysAct :: "features \<Rightarrow> LessFunc \<Rightarrow> env \<Rightarrow> action \<Rightarrow> 'd Scheduler \<Rightarrow> 'd Scheduler option" where
  "sysAct f lessFn env act s =
     (case act of
        NextPod \<Rightarrow> if schCycle s = None then Some (nextPod lessFn s) else None
      | CycleRuns \<Rightarrow> cycleAct f env s
      | BindRuns i \<Rightarrow> bindAct f env i s
      | RetryRuns i answer \<Rightarrow> retryPod env i answer s
      | CachePod ev \<Rightarrow> cacheHandler f lessFn env ev s
      | QueuePod ev \<Rightarrow> queueHandler lessFn env ev s
      | NodeAdded node \<Rightarrow> addNodeToCache f lessFn env node s
      | NodeUpdated old new \<Rightarrow> updateNodeInCache f lessFn env old new s
      | NodeDeleted obj \<Rightarrow> deleteNodeFromCache obj s
      | Wake \<Rightarrow> Some (moveAll lessFn env s)
      | StorageClassAdded mode \<Rightarrow> Some (onStorageClassAdd lessFn env mode s)
      | FlushBackoff \<Rightarrow> Some (putQueue (flushBackoffQCompleted lessFn (envClock env) (schQueue s)) s)
      | FlushLeftover \<Rightarrow> Some (putQueue (flushUnschedulableQLeftover lessFn (envClock env) (schQueue s)) s)
      | Cleanup \<Rightarrow> afterCache (cleanupAssumedPods f (envClock env 0) (schCache s)) s
      | Waiting name a wact \<Rightarrow> Some (waitingAct name a wact s))"

definition newScheduler :: "genericScheduler \<Rightarrow> (string, 'd Profile) gomap \<Rightarrow> bool \<Rightarrow> 'd Scheduler" where
  "newScheduler gs profiles disablePreemption =
     \<lparr>schAlgorithm = gs, schProfiles = profiles, schDisablePreemption = disablePreemption, schCycle = None,
      schBindings = [], schRetries = [], schEvictions = []\<rparr>"

section \<open>What the scheduler relies on\<close>

text \<open>The informers and the API server agree with what the cache has seen, as for the steps of the cache. The
  specification of a pod does not change while it is assumed on a node, so that the pod a binding goroutine
  takes back is the one the cache counts.\<close>

definition forgetAgrees :: "schedulerCache \<Rightarrow> Pod \<Rightarrow> bool" where
  "forgetAgrees c pod \<longleftrightarrow>
     (\<forall>st. mget (scPodStates c) (podUID pod) = Some st \<longrightarrow> isAssumed (podUID pod) c \<longrightarrow>
        podNodeName (stPod st) = podNodeName pod \<longrightarrow> podSpec (stPod st) = podSpec pod)"

definition zoneAgrees :: "schedulerCache \<Rightarrow> Node \<Rightarrow> bool" where
  "zoneAgrees c node \<longleftrightarrow> (\<forall>nd. cacheNode c (nodeName node) = Some nd \<longrightarrow> GetZoneKey nd = GetZoneKey node)"

definition addAgrees :: "schedulerCache \<Rightarrow> Pod \<Rightarrow> bool" where
  "addAgrees c pod \<longleftrightarrow>
     (\<forall>st. mget (scPodStates c) (podUID pod) = Some st \<longrightarrow> podNodeName (stPod st) = podNodeName pod \<longrightarrow>
        podSpec (stPod st) = podSpec pod)"

definition updateAgrees :: "schedulerCache \<Rightarrow> Pod \<Rightarrow> Pod \<Rightarrow> bool" where
  "updateAgrees c old new \<longleftrightarrow> podUID new = podUID old \<and> sameSpec c old \<and>
     (podNodeName new = podNodeName old \<or> cacheInfo c (podNodeName new) \<noteq> None) \<and>
     (pstPhase (podStatus new) = ''NoSchedule'' \<longrightarrow> pstPhase (podStatus old) = ''NoSchedule'' \<longrightarrow> podSpec new = podSpec old) \<and>
     forgetAgrees c new"

definition errAgrees :: "schedulerCache \<Rightarrow> cycleErr \<Rightarrow> bool" where
  "errAgrees c e = (case e of CNodeNotFound name \<Rightarrow> zoneAgrees c (bareNode name) | _ \<Rightarrow> True)"

definition agrees :: "features \<Rightarrow> env \<Rightarrow> action \<Rightarrow> 'd Scheduler \<Rightarrow> bool" where
  "agrees f env act s =
     (case act of
        CycleRuns \<Rightarrow>
          (case schCycle s of
             Some (CyRefused pi _) \<Rightarrow> forgetAgrees (schCache s) (piPod pi)
           | Some (CyFailed _ e) \<Rightarrow> errAgrees (schCache s) e
           | _ \<Rightarrow> True)
      | BindRuns i \<Rightarrow>
          i < length (schBindings s) \<longrightarrow>
          (case bdPhase (schBindings s ! i) of
             BdForget _ \<Rightarrow> forgetAgrees (schCache s) (piPod (bdPodInfo (schBindings s ! i)))
           | BdFail e \<Rightarrow> errAgrees (schCache s) e
           | _ \<Rightarrow> True)
      | RetryRuns i (PodFound pod) \<Rightarrow>
          i < length (schRetries s) \<longrightarrow>
          podNamed pod \<and> podKey pod = podKey (piPod (rtPodInfo (schRetries s ! i)))
      | CachePod (PodAdded pod) \<Rightarrow> addAgrees (schCache s) pod
      | CachePod (PodUpdated old new) \<Rightarrow>
          assignedPod new \<longrightarrow>
          (if assignedPod old then updateAgrees (schCache s) old new else addAgrees (schCache s) new)
      | QueuePod (PodAdded pod) \<Rightarrow> podNamed pod
      | QueuePod (PodUpdated old new) \<Rightarrow> podNamed old \<and> podNamed new \<and> podKey old = podKey new
      | QueuePod (PodDeleted (Deleted pod)) \<Rightarrow> podNamed pod
      | QueuePod (PodDeleted (FinalStateUnknown (Some pod))) \<Rightarrow> podNamed pod
      | NodeAdded node \<Rightarrow> zoneAgrees (schCache s) node
      | NodeUpdated old new \<Rightarrow> nodeName old = nodeName new \<and>
          snd (cacheUpdateNode f (Some old) new (envListers env) (schCache s)) = None \<and>
          (cacheInfo (schCache s) (nodeName new) \<noteq> None \<longrightarrow>
             (\<exists>nd. cacheNode (schCache s) (nodeName new) = Some nd \<and> GetZoneKey nd = GetZoneKey old))
      | NodeDeleted (Deleted node) \<Rightarrow> zoneAgrees (schCache s) node
      | NodeDeleted (FinalStateUnknown (Some node)) \<Rightarrow> zoneAgrees (schCache s) node
      | _ \<Rightarrow> True)"

inductive sysStep :: "features \<Rightarrow> LessFunc \<Rightarrow> 'd Scheduler \<Rightarrow> 'd Scheduler \<Rightarrow> bool" for f lessFn where
  act: "agrees f env act s \<Longrightarrow> sysAct f lessFn env act s = Some s' \<Longrightarrow> sysStep f lessFn s s'"

inductive_cases sysStepE: "sysStep f lessFn s s'"

text \<open>What a step of the whole scheduler is to the queue and to the cache with its snapshot.\<close>

definition algStep :: "features \<Rightarrow> LessFunc \<Rightarrow> genericScheduler \<Rightarrow> genericScheduler \<Rightarrow> bool" where
  "algStep f lessFn gs gs' \<longleftrightarrow>
     (schedStep f)\<^sup>*\<^sup>* (gsCache gs, gsSnapshot gs) (gsCache gs', gsSnapshot gs') \<and>
     (queueStep lessFn)\<^sup>*\<^sup>* (gsQueue gs) (gsQueue gs')"

section \<open>Frames\<close>

lemma alg_put [simp]:
  "schAlgorithm (putCache c s) = (schAlgorithm s)\<lparr>gsCache := c\<rparr>" "schAlgorithm (putQueue q s) = (schAlgorithm s)\<lparr>gsQueue := q\<rparr>"
  "schAlgorithm (putWaiting name m s) = schAlgorithm s" "schAlgorithm (cycleNext cy s) = schAlgorithm s"
  "schAlgorithm (bindNext i ph s) = schAlgorithm s" "schAlgorithm (bindEnds i s) = schAlgorithm s"
  "schAlgorithm (rejectVictim name v s) = schAlgorithm s" "schAlgorithm (waitingAct name a act s) = schAlgorithm s"
  by (simp_all add: putCache_def putQueue_def putWaiting_def cycleNext_def bindNext_def bindEnds_def rejectVictim_def
      waitingAct_def split: option.split)

lemma alg_deleteVictims [simp]: "schAlgorithm (deleteVictims env name vs s) = schAlgorithm s"
  by (induction vs arbitrary: s) (simp_all split: option.split)

lemma afterCache_Some:
  "afterCache r s = Some s' \<Longrightarrow> s' = putCache (fst r) s"
  by (auto simp: afterCache_def split: prod.splits if_splits)

lemma afterQueue_Some:
  "afterQueue r s = Some s' \<Longrightarrow> s' = putQueue (fst r) s"
  by (auto simp: afterQueue_def split: prod.splits if_splits)

section \<open>Steps of the parts\<close>

lemma algStep_refl [simp]: "algStep f lessFn gs gs"
  by (simp add: algStep_def)

lemma algStep_trans [trans]: "algStep f lessFn a b \<Longrightarrow> algStep f lessFn b c \<Longrightarrow> algStep f lessFn a c"
  unfolding algStep_def by (meson rtranclp_trans)

lemma algStep_frame:
  "gsCache gs' = gsCache gs \<Longrightarrow> gsSnapshot gs' = gsSnapshot gs \<Longrightarrow> gsQueue gs' = gsQueue gs \<Longrightarrow> algStep f lessFn gs gs'"
  by (simp add: algStep_def)

lemma algStep_cache: "cacheStep f (gsCache gs) c \<Longrightarrow> algStep f lessFn gs (gs\<lparr>gsCache := c\<rparr>)"
  by (simp add: algStep_def r_into_rtranclp schedStep.event)

lemma algStep_queue: "queueStep lessFn (gsQueue gs) q \<Longrightarrow> algStep f lessFn gs (gs\<lparr>gsQueue := q\<rparr>)"
  by (simp add: algStep_def r_into_rtranclp)

lemma algStep_cycle:
  "UpdateSnapshot f (gsCache gs) (gsSnapshot gs) = Some (c, sn, e) \<Longrightarrow> algStep f lessFn gs (gs\<lparr>gsCache := c, gsSnapshot := sn\<rparr>)"
  by (simp add: algStep_def r_into_rtranclp schedStep.cycle)

lemma findNodesThatPassFilters_frame:
  "findNodesThatPassFilters f fw state pod gens sched gs = Some (gs', res) \<Longrightarrow>
   gsCache gs' = gsCache gs \<and> gsSnapshot gs' = gsSnapshot gs \<and> gsQueue gs' = gsQueue gs"
  by (auto simp: findNodesThatPassFilters_def Let_def split: if_splits option.splits)

lemma findNodesThatFitPod_frame:
  assumes "findNodesThatFitPod f fw state pod gens sched gs = Some (gs', res)"
  shows "gsCache gs' = gsCache gs \<and> gsSnapshot gs' = gsSnapshot gs \<and> gsQueue gs' = gsQueue gs"
proof -
  obtain r where "findNodesThatPassFilters f fw state pod gens sched gs = Some (gs', r)"
    using assms by (auto simp: findNodesThatFitPod_def split: option.splits prod.splits sum.splits)
  then show ?thesis by (rule findNodesThatPassFilters_frame)
qed

lemma Schedule_step:
  assumes "Schedule f pvcLister fw gens sched intn state pod gs = Some (gs', res)"
  shows "algStep f lessFn gs gs'"
proof (cases "podPassesBasicChecks pvcLister pod")
  case (Some e)
  then show ?thesis using assms by (simp add: Schedule_def)
next
  case None
  obtain c sn b where u: "UpdateSnapshot f (gsCache gs) (gsSnapshot gs) = Some (c, sn, b)"
    using assms None by (cases "UpdateSnapshot f (gsCache gs) (gsSnapshot gs)") (auto simp: Schedule_def)
  let ?gs = "gs\<lparr>gsCache := c, gsSnapshot := sn\<rparr>"
  have "gs' = ?gs \<or> (\<exists>st r. findNodesThatFitPod f fw st pod gens sched ?gs = Some (gs', r))"
    using assms None u by (auto simp: Schedule_def Let_def split: if_splits option.splits prod.splits sum.splits)
  then have "algStep f lessFn ?gs gs'" using findNodesThatFitPod_frame by (metis algStep_frame algStep_refl)
  then show ?thesis using algStep_trans [OF algStep_cycle [OF u]] by blast
qed

lemma forget_cacheStep:
  assumes "forgetAgrees c pod"
  shows "fst (ForgetPod f pod c) = c \<or> cacheStep f c (fst (ForgetPod f pod c))"
proof (cases "sameSpec c pod")
  case True
  then show ?thesis using cacheStep.forgetPod by blast
next
  case False
  then obtain st where "mget (scPodStates c) (podUID pod) = Some st" "podSpec (stPod st) \<noteq> podSpec pod"
    by (auto simp: sameSpec_def split: option.splits)
  then have "\<not> isAssumed (podUID pod) c \<or> podNodeName (stPod st) \<noteq> podNodeName pod" and
    "mget (scPodStates c) (podUID pod) = Some st" using assms by (auto simp: forgetAgrees_def)
  then show ?thesis by (auto simp: ForgetPod_def GetPodKey_def)
qed

lemma forget_step:
  assumes "forget f pod s = Some s'" and "forgetAgrees (schCache s) pod"
  shows "algStep f lessFn (schAlgorithm s) (schAlgorithm s')"
proof -
  have s': "s' = putCache (fst (ForgetPod f pod (schCache s))) s" using assms(1) by (simp add: forget_def afterCache_Some)
  from forget_cacheStep [OF assms(2), of f] show ?thesis
  proof
    assume "fst (ForgetPod f pod (schCache s)) = schCache s"
    then show ?thesis unfolding s' by (simp add: algStep_frame)
  qed (simp add: s' algStep_cache)
qed

lemma finishBinding_step: "algStep f lessFn (schAlgorithm s) (schAlgorithm (schedFinishBinding env pod s))"
  by (simp add: schedFinishBinding_def algStep_cache cacheStep.finishBinding)

lemma finishBinding_agrees: "forgetAgrees c pod \<Longrightarrow> forgetAgrees (fst (finishBinding p now c)) pod"
  by (auto simp: forgetAgrees_def finishBinding_def isAssumed_def split: option.splits if_splits)

lemma cacheUpdatePod_assumed: "scAssumedPods (fst (cacheUpdatePod f old new c)) = scAssumedPods c"
  by (auto simp: cacheUpdatePod_def cacheRemovePod_def cacheAddPod_def newItem_def Let_def split: option.split prod.split)

lemma UpdatePod_agrees:
  assumes "updateAgrees c old new"
  shows "forgetAgrees (fst (UpdatePod f old new c)) new"
proof (cases "isAssumed (podUID old) c \<or> mget (scPodStates c) (podUID old) = None \<or> podUID old = []")
  case True
  then have "fst (UpdatePod f old new c) = c" by (auto simp: UpdatePod_def GetPodKey_def split: option.split)
  then show ?thesis using assms by (simp add: updateAgrees_def)
next
  case False
  have "scAssumedPods (fst (UpdatePod f old new c)) = scAssumedPods c"
    using cacheUpdatePod_assumed [of f old new c] by (auto simp: UpdatePod_def split: option.split prod.splits if_splits)
  then have "\<not> isAssumed (podUID new) (fst (UpdatePod f old new c))"
    using False assms by (simp add: isAssumed_def updateAgrees_def)
  then show ?thesis by (simp add: forgetAgrees_def)
qed

lemma UpdatePod_step:
  assumes "updateAgrees c old new"
  shows "cacheStep f c (fst (UpdatePod f old new c))"
  using assms by (intro cacheStep.updatePod) (auto simp: updateAgrees_def)

lemma errorFunc_step:
  assumes "errAgrees (schCache s) e"
  shows "algStep f lessFn (schAlgorithm s) (schAlgorithm (recordSchedulingFailure env pi e s))"
proof (cases e)
  case (CNodeNotFound name)
  have "cacheStep f (schCache s) (fst (cacheRemoveNode (bareNode name) (schCache s)))"
    using assms CNodeNotFound by (intro cacheStep.removeNode) (simp add: errAgrees_def zoneAgrees_def)
  then show ?thesis using CNodeNotFound
    by (simp add: recordSchedulingFailure_def defaultErrorFunc_def Let_def algStep_cache)
qed (simp_all add: recordSchedulingFailure_def defaultErrorFunc_def)

lemma moveAll_step: "algStep f lessFn (schAlgorithm s) (schAlgorithm (moveAll lessFn env s))"
  by (simp add: moveAll_def algStep_queue step_move_all)

lemma preempt_step:
  assumes "preempt f env prof name pod err s = Some s'"
  shows "algStep f lessFn (schAlgorithm s) (schAlgorithm s')"
proof -
  have n: "algStep f lessFn (schAlgorithm s) ((schAlgorithm s)\<lparr>gsQueue := UpdateNominatedPodForNode p n (schQueue s)\<rparr>)" for p n
    by (rule algStep_queue) (rule step_nominate)
  have d: "algStep f lessFn (schAlgorithm s) ((schAlgorithm s)\<lparr>gsQueue := DeleteNominatedPodIfExists p (UpdateNominatedPodForNode p n (schQueue s))\<rparr>)" for p n
    using algStep_trans [OF n algStep_queue [OF step_denominate]] by fastforce
  show ?thesis
    using assms n d by (auto simp: preempt_def Let_def split: sum.splits option.splits schedErr.splits)
qed

lemma scheduleAct_step:
  assumes "scheduleAct f env pi s = Some s'"
  shows "algStep f lessFn (schAlgorithm s) (schAlgorithm s')"
proof (cases "profileForPod (piPod pi) s")
  case (Some prof)
  show ?thesis
  proof (cases "skipPodSchedule (piPod pi) s")
    case False
    let ?S = "Schedule f (envPvcs env) (prFramework prof) (envGens env) (envSearch env) (envIntn env) [] (piPod pi) (schAlgorithm s)"
    obtain gs res where S: "?S = Some (gs, res)" using assms Some False by (cases ?S) (auto simp: scheduleAct_def)
    then have "schAlgorithm s' = gs"
      using assms Some False by (auto simp: scheduleAct_def split: sum.splits schedErr.splits)
    then show ?thesis using Schedule_step [OF S] by simp
  qed (use assms Some in \<open>auto simp: scheduleAct_def\<close>)
qed (use assms in \<open>auto simp: scheduleAct_def\<close>)

lemma fitsAct_step: "algStep f lessFn (schAlgorithm s) (schAlgorithm (fitsAct f env pi host s))"
proof -
  let ?pod = "assignTo host (piPod pi)"
  obtain c e where r: "AssumePod f ?pod (schCache s) = (c, e)" by fastforce
  have c: "algStep f lessFn (schAlgorithm s) ((schAlgorithm s)\<lparr>gsCache := c\<rparr>)"
    using algStep_cache [of f "schAlgorithm s"] cacheStep.assumePod [of f "schCache s" ?pod] r by simp
  have "algStep f lessFn ((schAlgorithm s)\<lparr>gsCache := c\<rparr>)
      ((schAlgorithm s)\<lparr>gsCache := c, gsQueue := DeleteNominatedPodIfExists ?pod (schQueue s)\<rparr>)"
    using algStep_queue [of lessFn "(schAlgorithm s)\<lparr>gsCache := c\<rparr>"] step_denominate by fastforce
  with c have "algStep f lessFn (schAlgorithm s) (schAlgorithm (fst (sched_assume f ?pod s)))"
    using algStep_trans by (cases e) (auto simp: sched_assume_def r)
  then show ?thesis by (auto simp: fitsAct_def Let_def split: sum.splits prod.splits option.splits)
qed

lemma cycleAct_step:
  assumes "cycleAct f env s = Some s'" and "agrees f env CycleRuns s"
  shows "algStep f lessFn (schAlgorithm s) (schAlgorithm s')"
proof (cases "schCycle s")
  case (Some cy)
  show ?thesis
  proof (cases cy)
    case (CyPopped pi)
    then show ?thesis using assms Some scheduleAct_step by (simp add: cycleAct_def)
  next
    case (CyUnfit pi err)
    then show ?thesis using assms Some preempt_step
      by (auto simp: cycleAct_def unfitAct_def split: schedErr.splits if_splits option.splits)
  next
    case (CyFailed pi e)
    then show ?thesis using assms Some errorFunc_step by (auto simp: cycleAct_def agrees_def)
  next
    case (CyFits pi host)
    then show ?thesis using assms Some fitsAct_step by (auto simp: cycleAct_def)
  next
    case (CyAssumed pi host b)
    then show ?thesis using assms Some
      by (auto simp: cycleAct_def permitAct_def Let_def split: option.splits prod.splits if_splits)
  next
    case (CyRefused pi e)
    then show ?thesis using assms Some forget_step by (fastforce simp: cycleAct_def agrees_def)
  qed
qed (use assms in \<open>simp add: cycleAct_def\<close>)

lemma bindAct_step:
  assumes "bindAct f env i s = Some s'" and "agrees f env (BindRuns i) s"
  shows "algStep f lessFn (schAlgorithm s) (schAlgorithm s')"
proof -
  let ?b = "schBindings s ! i" and ?pod = "piPod (bdPodInfo (schBindings s ! i))"
  have i: "i < length (schBindings s)" using assms(1) by (simp add: bindAct_def split: if_splits)
  obtain prof where prof: "mget (schProfiles s) (psSchedulerName (podSpec ?pod)) = Some prof"
    using assms(1) i by (auto simp: bindAct_def Let_def split: option.splits)
  show ?thesis
  proof (cases "bdPhase ?b")
    case (BdFinish err)
    then show ?thesis using assms(1) i prof finishBinding_step by (auto simp: bindAct_def Let_def split: option.splits)
  next
    case (BdForget e)
    then show ?thesis using assms i prof forget_step by (fastforce simp: bindAct_def Let_def agrees_def)
  next
    case (BdFail e)
    then show ?thesis using assms i prof errorFunc_step [of "bindEnds i s" e]
      by (auto simp: bindAct_def Let_def agrees_def)
  qed (use assms(1) i prof in \<open>auto simp: bindAct_def Let_def split: option.splits prod.splits\<close>)
qed

lemma retryPod_step:
  assumes "retryPod env i answer s = Some s'" and "agrees f env (RetryRuns i answer) s"
  shows "algStep f lessFn (schAlgorithm s) (schAlgorithm s')"
proof (cases answer)
  case (PodFound pod)
  have "algStep f lessFn (schAlgorithm s) ((schAlgorithm s)\<lparr>gsQueue := fst (AddUnschedulableIfNotPresent clk (pi\<lparr>piPod := pod\<rparr>) c (schQueue s))\<rparr>)"
    if "podNamed pod" for clk pi c
    by (rule algStep_queue, rule step_unschedulable) (simp add: that)
  then show ?thesis using assms PodFound by (auto simp: retryPod_def agrees_def Let_def split: if_splits)
qed (use assms in \<open>auto simp: retryPod_def Let_def split: if_splits\<close>)

lemma afterCache_step:
  assumes "afterCache r s = Some s'" and "cacheStep f (schCache s) (fst r)"
  shows "algStep f lessFn (schAlgorithm s) (schAlgorithm s')"
  using algStep_cache [OF assms(2)] afterCache_Some [OF assms(1)] by simp

lemma afterQueue_step:
  assumes "afterQueue r s = Some s'" and "queueStep lessFn (schQueue s) (fst r)"
  shows "algStep f lessFn (schAlgorithm s) (schAlgorithm s')"
  using algStep_queue [OF assms(2)] afterQueue_Some [OF assms(1)] by simp

lemma AssignedPodUpdated_Added: "AssignedPodUpdated = AssignedPodAdded"
  by (intro ext) (simp add: AssignedPodUpdated_def AssignedPodAdded_def)

lemma addPodToCache_step:
  assumes "addPodToCache f lessFn env pod s = Some s'" and "addAgrees (schCache s) pod"
  shows "algStep f lessFn (schAlgorithm s) (schAlgorithm s')"
proof -
  obtain s1 where s1: "afterCache (AddPod f pod (schCache s)) s = Some s1"
      "afterQueue (AssignedPodAdded lessFn (envClock env) pod (schQueue s1)) s1 = Some s'"
    using assms(1) by (auto simp: addPodToCache_def bind_eq_Some_conv)
  have "cacheStep f (schCache s) (fst (AddPod f pod (schCache s)))"
    using assms(2) by (intro cacheStep.addPod) (auto simp: addAgrees_def)
  from afterCache_step [OF s1(1) this] afterQueue_step [OF s1(2) step_assigned] show ?thesis by (rule algStep_trans)
qed

lemma deletePodFromCache_step:
  assumes "deletePodFromCache f lessFn env obj s = Some s'"
  shows "algStep f lessFn (schAlgorithm s) (schAlgorithm s')"
proof -
  have "s' = s \<or> (\<exists>pod s1. afterCache (RemovePod f pod (schCache s)) s = Some s1 \<and> s' = moveAll lessFn env s1)"
    using assms by (auto simp: deletePodFromCache_def split: option.splits deletion.splits)
  then show ?thesis using afterCache_step [OF _ cacheStep.removePod] moveAll_step by (metis algStep_refl algStep_trans)
qed

lemma bind_step:
  assumes "bind f env pod node s = Some s'" and "forgetAgrees (schCache s) pod"
  shows "algStep f lessFn (schAlgorithm s) (schAlgorithm s')"
proof -
  let ?s = "schedFinishBinding env pod s"
  have "forgetAgrees (schCache ?s) pod" using finishBinding_agrees [OF assms(2)] by (simp add: schedFinishBinding_def)
  moreover have "s' = ?s \<or> forget f pod ?s = Some s'" using assms(1) by (auto simp: bind_def Let_def split: if_splits)
  ultimately show ?thesis using finishBinding_step forget_step by (metis algStep_trans)
qed

lemma updatePodInCache_step:
  assumes "updatePodInCache f lessFn env old new s = Some s'" and "updateAgrees (schCache s) old new"
  shows "algStep f lessFn (schAlgorithm s) (schAlgorithm s')"
proof -
  obtain s1 where s1: "afterCache (UpdatePod f old new (schCache s)) s = Some s1"
    using assms(1) by (auto simp: updatePodInCache_def bind_eq_Some_conv)
  obtain s2 where s2: "s2 = s1 \<or> bind f env new [] s1 = Some s2"
      "afterQueue (AssignedPodUpdated lessFn (envClock env) new (schQueue s2)) s2 = Some s'"
    using assms(1) s1 by (auto simp: updatePodInCache_def bind_eq_Some_conv split: if_splits)
  have "forgetAgrees (schCache s1) new" using UpdatePod_agrees [OF assms(2)] afterCache_Some [OF s1] by simp
  then have "algStep f lessFn (schAlgorithm s1) (schAlgorithm s2)" using s2(1) bind_step by (metis algStep_refl)
  moreover have "algStep f lessFn (schAlgorithm s) (schAlgorithm s1)"
    by (rule afterCache_step [OF s1 UpdatePod_step [OF assms(2)]])
  moreover have "algStep f lessFn (schAlgorithm s2) (schAlgorithm s')"
    using afterQueue_step [OF s2(2)] step_assigned by (simp add: AssignedPodUpdated_Added)
  ultimately show ?thesis by (meson algStep_trans)
qed

lemma cacheHandler_step:
  assumes "cacheHandler f lessFn env ev s = Some s'" and "agrees f env (CachePod ev) s"
  shows "algStep f lessFn (schAlgorithm s) (schAlgorithm s')"
  using assms addPodToCache_step updatePodInCache_step deletePodFromCache_step
  by (cases ev) (auto simp: cacheHandler_def filteringHandler_def agrees_def cacheFilter_def Let_def split: if_splits)

lemma queueDelete_step:
  assumes "deletePodFromSchedulingQueue lessFn obj s = Some s'"
    and "case (case obj of Deleted pod \<Rightarrow> Some pod | FinalStateUnknown p \<Rightarrow> p) of Some pod \<Rightarrow> podNamed pod | None \<Rightarrow> True"
  shows "algStep f lessFn (schAlgorithm s) (schAlgorithm s')"
  using assms algStep_queue [OF step_delete]
  by (auto simp: deletePodFromSchedulingQueue_def Let_def split: option.splits)

lemma queueHandler_step:
  assumes "queueHandler lessFn env ev s = Some s'" and "agrees f env (QueuePod ev) s"
  shows "algStep f lessFn (schAlgorithm s) (schAlgorithm s')"
proof (cases ev)
  case (PodAdded pod)
  then show ?thesis using assms afterQueue_step [OF _ step_add]
    by (auto simp: queueHandler_def filteringHandler_def agrees_def addPodToSchedulingQueue_def split: if_splits)
next
  case (PodUpdated old new)
  then have n: "podNamed old" "podNamed new" "podKey old = podKey new" using assms(2) by (simp_all add: agrees_def)
  show ?thesis
    using assms(1) PodUpdated n afterQueue_step [OF _ step_update [OF n]] afterQueue_step [OF _ step_add [OF n(2)]]
      queueDelete_step [of lessFn "Deleted old"]
    by (auto simp: queueHandler_def filteringHandler_def addPodToSchedulingQueue_def updatePodInSchedulingQueue_def Let_def
        split: if_splits)
next
  case (PodDeleted obj)
  then show ?thesis using assms queueDelete_step
    by (fastforce simp: queueHandler_def filteringHandler_def agrees_def split: if_splits deletion.splits option.splits)
qed

lemma node_step:
  shows "addNodeToCache f lessFn env node s = Some s' \<Longrightarrow> zoneAgrees (schCache s) node \<Longrightarrow>
      algStep f lessFn (schAlgorithm s) (schAlgorithm s')"
    and "updateNodeInCache f lessFn env old new s = Some s' \<Longrightarrow> agrees f env (NodeUpdated old new) s \<Longrightarrow>
      algStep f lessFn (schAlgorithm s) (schAlgorithm s')"
    and "deleteNodeFromCache obj s = Some s' \<Longrightarrow> agrees f env (NodeDeleted obj) s \<Longrightarrow>
      algStep f lessFn (schAlgorithm s) (schAlgorithm s')"
proof -
  assume a: "addNodeToCache f lessFn env node s = Some s'" "zoneAgrees (schCache s) node"
  have "algStep f lessFn (schAlgorithm s) (schAlgorithm (moveAll lessFn env s1))"
    if r: "afterCache (cacheAddNode f node rp (schCache s)) s = Some s1" for rp s1
  proof -
    obtain c e where c: "cacheAddNode f node rp (schCache s) = (c, e)" by fastforce
    have "e = None" using r c by (auto simp: afterCache_def cacheAddNode_def newNodeItem_def isPanic_def Let_def
          split: if_splits prod.splits option.splits nodeInfoErr.splits)
    then have "cacheStep f (schCache s) c" using c a(2) by (intro cacheStep.addNode) (auto simp: zoneAgrees_def)
    then show ?thesis using afterCache_step [OF r] c moveAll_step algStep_trans by fastforce
  qed
  then show "algStep f lessFn (schAlgorithm s) (schAlgorithm s')"
    using a(1) by (auto simp: addNodeToCache_def split: option.splits prod.splits)
next
  assume a: "updateNodeInCache f lessFn env old new s = Some s'" "agrees f env (NodeUpdated old new) s"
  let ?r = "cacheUpdateNode f (Some old) new (envListers env) (schCache s)"
  obtain s1 where s1: "afterCache ?r s = Some s1" "s' = s1 \<or> s' = moveAll lessFn env s1"
    using a(1) by (auto simp: updateNodeInCache_def split: if_splits)
  have "?r = (fst ?r, None)" using a(2) by (simp add: agrees_def prod_eq_iff)
  then have "cacheStep f (schCache s) (fst ?r)" by (rule cacheStep.updateNode) (use a(2) in \<open>simp_all add: agrees_def\<close>)
  then show "algStep f lessFn (schAlgorithm s) (schAlgorithm s')"
    using afterCache_step [OF s1(1)] s1(2) moveAll_step algStep_trans by metis
next
  assume a: "deleteNodeFromCache obj s = Some s'" "agrees f env (NodeDeleted obj) s"
  have "algStep f lessFn (schAlgorithm s) (schAlgorithm s')"
    if "afterCache (cacheRemoveNode node (schCache s)) s = Some s'" "zoneAgrees (schCache s) node" for node
    by (rule afterCache_step [OF that(1)], rule cacheStep.removeNode) (use that(2) in \<open>auto simp: zoneAgrees_def\<close>)
  then show "algStep f lessFn (schAlgorithm s) (schAlgorithm s')"
    using a by (auto simp: deleteNodeFromCache_def agrees_def split: deletion.splits option.splits)
qed

lemma nextPod_step: "algStep f lessFn (schAlgorithm s) (schAlgorithm (nextPod lessFn s))"
proof -
  obtain q r where q: "pqPop lessFn (schQueue s) = (q, r)" by fastforce
  have "queueStep lessFn (schQueue s) q" using step_pop [of lessFn "schQueue s"] q by simp
  from algStep_queue [OF this] show ?thesis by (simp add: nextPod_def q split: popResult.split)
qed

lemma sysAct_step:
  assumes "sysAct f lessFn env act s = Some s'" and "agrees f env act s"
  shows "algStep f lessFn (schAlgorithm s) (schAlgorithm s')"
proof (cases act)
  case NextPod
  then show ?thesis using assms(1) nextPod_step by (auto simp: sysAct_def split: if_splits)
next
  case CycleRuns
  then show ?thesis using assms cycleAct_step by (simp add: sysAct_def)
next
  case (BindRuns i)
  then show ?thesis using assms bindAct_step by (simp add: sysAct_def)
next
  case (RetryRuns i a)
  then show ?thesis using assms retryPod_step by (simp add: sysAct_def)
next
  case (CachePod ev)
  then show ?thesis using assms cacheHandler_step by (simp add: sysAct_def)
next
  case (QueuePod ev)
  then show ?thesis using assms queueHandler_step by (simp add: sysAct_def)
next
  case (NodeAdded node)
  then show ?thesis using assms node_step(1) by (simp add: sysAct_def agrees_def)
next
  case (NodeUpdated old new)
  then show ?thesis using assms node_step(2) by (simp add: sysAct_def)
next
  case (NodeDeleted obj)
  then show ?thesis using assms node_step(3) by (simp add: sysAct_def)
next
  case Cleanup
  then show ?thesis using assms afterCache_step [OF _ cacheStep.cleanup] by (simp add: sysAct_def)
next
  case FlushBackoff
  then show ?thesis using assms(1) algStep_queue [OF step_flush_backoff] by (auto simp: sysAct_def)
next
  case FlushLeftover
  then show ?thesis using assms(1) algStep_queue [OF step_flush_leftover] by (auto simp: sysAct_def)
qed (use assms(1) moveAll_step in \<open>auto simp: sysAct_def onStorageClassAdd_def\<close>)

lemma sysSteps_parts:
  assumes "(sysStep f lessFn)\<^sup>*\<^sup>* s s'"
  shows "algStep f lessFn (schAlgorithm s) (schAlgorithm s')"
  using assms
proof (induction rule: rtranclp_induct)
  case (step s1 s2)
  from step(2) have "algStep f lessFn (schAlgorithm s1) (schAlgorithm s2)" by (auto elim!: sysStepE intro: sysAct_step)
  with step(3) show ?case by (rule algStep_trans)
qed simp

end
