(* ===== verification/SchedulerSpec.thy ===== *)
theory SchedulerSpec
  imports Scheduler FilterPlugins
begin

text \<open>
  What the whole scheduler guarantees: the node that a scheduling cycle suggests takes the pod without being
  overcommitted, and no pod is lost between the queue, the goroutines and the cache.
\<close>

section \<open>Specification\<close>

text \<open>The maps of a node info have one entry per key, as every Go map has; a clone then equals the original.\<close>

definition mapsWf :: "NodeInfo \<Rightarrow> bool" where
  "mapsWf ni \<longleftrightarrow> gomap_wf (rScalarResources (niRequestedResource ni)) \<and> gomap_wf (rScalarResources (niNonzeroRequest ni)) \<and>
     gomap_wf (rScalarResources (niAllocatableResource ni))"

text \<open>The node info \<open>ni'\<close> is \<open>ni\<close> with the pod added, and the node is not overcommitted by it: the number of pods is
  within the allowed number; along every dimension that is not ignored the integer sum of the requests is
  within the allocatable amount, or is what it was when the pod requests nothing there; and the host ports of
  the pod collide with none that were bound.\<close>

definition takesPod :: "features \<Rightarrow> string set \<Rightarrow> Pod \<Rightarrow> NodeInfo \<Rightarrow> NodeInfo \<Rightarrow> bool" where
  "takesPod f ign pod ni ni' \<longleftrightarrow> niPods ni' = niPods ni @ [pod] \<and>
     niAllocatableResource ni' = niAllocatableResource ni \<and>
     int (length (niPods ni')) \<le> sint (rAllowedPodNumber (niAllocatableResource ni')) \<and>
     (\<forall>d. \<not> ignoredDim ign d \<longrightarrow>
        (if amount (podRequest f pod) d = 0 then trueLoad f (niPods ni') d = trueLoad f (niPods ni) d
         else trueLoad f (niPods ni') d \<le> sint (amount (niAllocatableResource ni') d))) \<and>
     hpBindings (niUsedPorts ni') = hpBindings (niUsedPorts ni) \<union> portBindings pod \<and>
     (\<forall>b \<in> portBindings pod. \<forall>c \<in> hpBindings (niUsedPorts ni). \<not> bindingsCollide b c)"

text \<open>The requests on the node and of the pod are not negative, and their sums are below the range of \<open>int64\<close>.\<close>

definition saneLoad :: "features \<Rightarrow> Pod \<Rightarrow> NodeInfo \<Rightarrow> bool" where
  "saneLoad f pod ni \<longleftrightarrow> (\<forall>p \<in> set (pod # niPods ni). \<forall>d. 0 \<le> sint (amount (podRequest f p) d)) \<and>
     (\<forall>d. trueLoad f (niPods ni @ [pod]) d < 2 ^ 63)"

text \<open>The states of a scheduler that started with an empty cache, snapshot and queue.\<close>

definition reachable :: "features \<Rightarrow> LessFunc \<Rightarrow> 'd Scheduler \<Rightarrow> bool" where
  "reachable f lessFn s \<longleftrightarrow>
     (\<exists>gs profiles disable ttl initB maxB. gsCache gs = newSchedulerCache ttl \<and> gsSnapshot gs = NewEmptySnapshot \<and>
        gsQueue gs = NewPriorityQueue initB maxB \<and> (sysStep f lessFn)\<^sup>*\<^sup>* (newScheduler gs profiles disable) s)"

text \<open>The number of phases a scheduling cycle may still have.\<close>

fun phasesLeft :: "cycle \<Rightarrow> nat" where
  "phasesLeft (CyPopped _) = 5"
| "phasesLeft (CyFits _ _) = 4"
| "phasesLeft (CyAssumed _ _ _) = 3"
| "phasesLeft (CyRefused _ _) = 2"
| "phasesLeft (CyUnfit _ _) = 2"
| "phasesLeft (CyFailed _ _) = 1"

text \<open>Who has a pod: the queue, the scheduling cycle, a binding goroutine or a retry.\<close>

fun cyclePod :: "cycle \<Rightarrow> PodInfo" where
  "cyclePod (CyPopped pi) = pi"
| "cyclePod (CyUnfit pi _) = pi"
| "cyclePod (CyFailed pi _) = pi"
| "cyclePod (CyFits pi _) = pi"
| "cyclePod (CyAssumed pi _ _) = pi"
| "cyclePod (CyRefused pi _) = pi"

definition infoKey :: "PodInfo \<Rightarrow> string" where
  "infoKey pi = podKey (piPod pi)"

definition cycleKeys :: "'d Scheduler \<Rightarrow> string set" where
  "cycleKeys s = (case schCycle s of None \<Rightarrow> {} | Some cy \<Rightarrow> {infoKey (cyclePod cy)})"

definition bindKeys :: "'d Scheduler \<Rightarrow> string set" where
  "bindKeys s = (infoKey \<circ> bdPodInfo) ` set (schBindings s)"

definition retryKeys :: "'d Scheduler \<Rightarrow> string set" where
  "retryKeys s = (infoKey \<circ> rtPodInfo) ` set (schRetries s)"

definition heldKeys :: "'d Scheduler \<Rightarrow> string set" where
  "heldKeys s = dom (absQ (schQueue s)) \<union> cycleKeys s \<union> bindKeys s \<union> retryKeys s"

text \<open>The pod a queue event takes out of the queue: a deleted pod, and a pod that is no longer for this queue.\<close>

definition queueLoses :: "(string, 'd Profile) gomap \<Rightarrow> podEvent \<Rightarrow> Pod option" where
  "queueLoses profiles ev =
     (case ev of
        PodDeleted (Deleted pod) \<Rightarrow> Some pod
      | PodDeleted (FinalStateUnknown p) \<Rightarrow> p
      | PodUpdated old new \<Rightarrow> if \<not> queueFilter profiles (Deleted new) then Some old else None
      | _ \<Rightarrow> None)"

text \<open>When the scheduler lets a pod go.\<close>

definition letsGo :: "action \<Rightarrow> 'd Scheduler \<Rightarrow> string \<Rightarrow> bool" where
  "letsGo act s k \<longleftrightarrow>
     (case act of
        CycleRuns \<Rightarrow> \<exists>pi. schCycle s = Some (CyPopped pi) \<and> infoKey pi = k \<and>
          (profileForPod (piPod pi) s = None \<or> skipPodSchedule (piPod pi) s)
      | BindRuns i \<Rightarrow> infoKey (bdPodInfo (schBindings s ! i)) = k \<and> bdPhase (schBindings s ! i) = BdFinish None
      | RetryRuns i PodNotFound \<Rightarrow> infoKey (rtPodInfo (schRetries s ! i)) = k
      | RetryRuns i (PodFound pod) \<Rightarrow> infoKey (rtPodInfo (schRetries s ! i)) = k \<and> assignedPod pod
      | QueuePod ev \<Rightarrow> \<exists>pod. queueLoses (schProfiles s) ev = Some pod \<and> podKey pod = k
      | _ \<Rightarrow> False)"

text \<open>No goroutine of the scheduler moved, and the same pods wait in the queue.\<close>

definition sameHolders :: "'d Scheduler \<Rightarrow> 'd Scheduler \<Rightarrow> bool" where
  "sameHolders s s' \<longleftrightarrow> cycleKeys s' = cycleKeys s \<and> bindKeys s' = bindKeys s \<and> retryKeys s' = retryKeys s \<and>
     dom (absQ (schQueue s')) = dom (absQ (schQueue s))"

text \<open>A small cluster: one node, a scheduler with the resource and port filters, and an environment in which the
  API server and the plugins agree to everything.\<close>

definition bigNode :: Node where
  "bigNode = (zonedNode ''z'' ''n'')\<lparr>nodeStatus := (nodeStatus zeroNode)\<lparr>nstAllocatable :=
     [(''pods'', QInt \<lparr>iaValue = 110, iaScale = 0\<rparr>), (''cpu'', QInt \<lparr>iaValue = 4, iaScale = 0\<rparr>)]\<rparr>\<rparr>"

definition fitFramework :: "unit StateData framework" where
  "fitFramework = \<lparr>fwPreFilterPlugins = [fitPreFilterPlugin defaultFeatures, portsPreFilterPlugin],
     fwFilterPlugins = [fitPlugin {}, portsPlugin], fwPreScorePlugins = [], fwScorePlugins = [], fwPluginNameToWeight = [],
     fwRunAllFilters = False\<rparr>"

definition miniScheduler :: "unit StateData Scheduler" where
  "miniScheduler = newScheduler
     \<lparr>gsCache = newSchedulerCache 30, gsQueue = NewPriorityQueue 1 10, gsExtenders = [], gsSnapshot = NewEmptySnapshot,
      gsDisablePreemption = False, gsPercentageOfNodesToScore = 0, gsEnableNonPreempting = False, gsNextStartNodeIndex = 0\<rparr>
     [([], \<lparr>prFramework = fitFramework, prWaitingPods = newWaitingPodsMap\<rparr>)] False"

definition miniEnv :: env where
  "miniEnv = \<lparr>envClock = (\<lambda>_. 5), envGens = (\<lambda>_. 0), envSearch = [TakePiece, FinishPiece 0], envIntn = (\<lambda>_ _. 0),
     envPvcs = (\<lambda>_ _ _. Inl []), envPdbs = Inr [], envSort = (\<lambda>_ ps. ps), envGetPod = Inr, envSetNominated = (\<lambda>_ _. None),
     envDeletePod = (\<lambda>_. None), envNodeGone = (\<lambda>_. False), envAssumeVolumes = (\<lambda>_ _. Inr True), envBindVolumes = (\<lambda>_. None),
     envExtBind = (\<lambda>_ _ _. None),
     envPlugins = (\<lambda>_. \<lparr>reservePlugins = [], permitPlugins = [], preBindPlugins = [], bindPlugins = [(''DefaultBinder'', \<lambda>_ _. None)]\<rparr>),
     envListers = [(''rp'', \<lambda>_. Found bigNode)]\<rparr>"

definition miniActs :: "action list" where
  "miniActs = [NodeAdded bigNode, QueuePod (PodAdded samplePod), NextPod]"

fun runActs :: "features \<Rightarrow> LessFunc \<Rightarrow> env \<Rightarrow> action list \<Rightarrow> 'd Scheduler \<Rightarrow> 'd Scheduler option" where
  "runActs f lessFn env [] s = Some s"
| "runActs f lessFn env (a # as) s = Option.bind (sysAct f lessFn env a s) (runActs f lessFn env as)"

fun runAgrees :: "features \<Rightarrow> LessFunc \<Rightarrow> env \<Rightarrow> action list \<Rightarrow> 'd Scheduler \<Rightarrow> bool" where
  "runAgrees f lessFn env [] s \<longleftrightarrow> True"
| "runAgrees f lessFn env (a # as) s \<longleftrightarrow>
     agrees f env a s \<and> (\<forall>s'. sysAct f lessFn env a s = Some s' \<longrightarrow> runAgrees f lessFn env as s')"

section \<open>The node that was found\<close>

lemma addNominated_added:
  "addNominated f fw pod ps True st g ni = Inr (b, st', ni') \<Longrightarrow> b"
proof (induction ps arbitrary: st g ni)
  case (Cons p ps)
  obtain ni1 g1 where a: "addPod f p g ni = (ni1, g1)" by fastforce
  obtain status st1 where e: "RunPreFilterExtensionAddPod fw st pod p ni1 = (status, st1)" by fastforce
  show ?case using Cons.prems Cons.IH [of st g ni] Cons.IH [of st1 g1 ni1] by (simp add: a e split: if_splits option.splits)
qed simp

lemma addNominated_none:
  assumes "addNominated f fw pod ps False st g ni = Inr (False, st', ni')"
  shows "st' = st \<and> ni' = ni"
  using assms
proof (induction ps)
  case (Cons p ps)
  obtain ni1 g1 where a: "addPod f p g ni = (ni1, g1)" by fastforce
  obtain status st1 where e: "RunPreFilterExtensionAddPod fw st pod p ni1 = (status, st1)" by fastforce
  show ?case
    using Cons addNominated_added [of f fw pod ps st1 g1 ni1 False st' ni'] by (simp add: a e split: if_splits option.splits)
qed simp

lemma runFiltersOn_success: "runFiltersOn fw pod st ni = Inr x \<Longrightarrow> x = Merge (RunFilterPlugins fw st pod ni)"
  by (simp add: runFiltersOn_def Let_def split: if_splits)

lemma podPasses_filters:
  assumes p: "podPassesFiltersOnNode f q fw state pod g info = Inr (True, st)"
    and same: "csClone state = state" "nodeInfoClone info = info"
  shows "IsSuccess (Merge (RunFilterPlugins fw state pod info))"
proof -
  obtain added st1 ni1 where a: "addNominatedPods f q fw pod state g info = Inr (added, st1, ni1)"
    using p by (cases "addNominatedPods f q fw pod state g info") (auto simp: podPassesFiltersOnNode_def)
  obtain x where x: "runFiltersOn fw pod st1 ni1 = Inr x"
    using p by (cases "runFiltersOn fw pod st1 ni1") (auto simp: podPassesFiltersOnNode_def a)
  show ?thesis
  proof (cases "added \<and> IsSuccess x")
    case True
    then obtain y where "runFiltersOn fw pod state info = Inr y" "IsSuccess y"
      using p by (cases "runFiltersOn fw pod state info") (auto simp: podPassesFiltersOnNode_def a x)
    then show ?thesis using runFiltersOn_success by metis
  next
    case False
    then have "IsSuccess x" "\<not> added" using p by (auto simp: podPassesFiltersOnNode_def a x)
    moreover have "st1 = state \<and> ni1 = info"
    proof (cases "niNode info")
      case (Some node)
      then show ?thesis using a \<open>\<not> added\<close> same addNominated_none [of f fw pod _ state g info st1 ni1]
        by (auto simp: addNominatedPods_def Let_def split: if_splits)
    qed (use a in \<open>simp add: addNominatedPods_def\<close>)
    ultimately show ?thesis using runFiltersOn_success [OF x] by simp
  qed
qed

lemma findNodes_sound:
  assumes plugins: "fwFilterPlugins fw \<noteq> []"
    and found: "findNodesThatPassFilters f fw state pod gens sched gs = Some (gs', Inr (filtered, statuses))"
    and node: "node \<in> set filtered"
  shows "\<exists>ni g st. ni \<in> set (snapList (gsSnapshot gs)) \<and> niNode ni = Some node \<and>
    podPassesFiltersOnNode f (gsQueue gs) fw state pod g ni = Inr (True, st)"
proof -
  let ?n = "length (snapList (gsSnapshot gs))" and ?piece = "pieceAt (snapList (gsSnapshot gs)) (gsNextStartNodeIndex gs)"
  let ?passes = "\<lambda>i. podPassesFiltersOnNode f (gsQueue gs) fw state pod (gens i) (?piece i)"
  let ?node = "\<lambda>i. niNode (?piece i)" and ?N = "nodesWanted gs"
  define run where "run = fold (searchAct ?passes ?node ?N ?n) sched searchStart"
  have unfold: "findNodesThatPassFilters f fw state pod gens sched gs =
      (let s = run in if \<not> searchDone ?n s then None else if ssPanicked s then Some (gs, Inl SPanic)
       else (let gs = gs\<lparr>gsNextStartNodeIndex := (gsNextStartNodeIndex gs + (length (ssFiltered s) + length (ssStatuses s))) mod ?n\<rparr>
             in case ssErr s of Some e \<Rightarrow> Some (gs, Inl (SErr e)) | None \<Rightarrow> Some (gs, Inr (ssFiltered s, ssStatuses s))))"
    using plugins by (simp add: findNodesThatPassFilters_def Let_def run_def nodesWanted_def)
  obtain ended where inv: "searchInv ?passes ?node ?N ?n ended run"
    using searchInv_run [OF searchInv_start] unfolding run_def by blast
  have fin: "searchDone ?n run" "ssErr run = None" "\<not> ssPanicked run" and out: "filtered = ssFiltered run"
    using found unfolding unfold by (auto simp: Let_def split: if_splits option.splits)
  note r = search_result [OF inv fin]
  have "Some node \<in> set (map Some (ssFiltered run))" using node out by simp
  then have "Some node \<in> set (map ?node (take ?N (filter (pieceFits ?passes) ended)))" unfolding r(3) .
  then obtain i where i: "?node i = Some node" "i < ?n" "pieceFits ?passes i" using r(2) by auto
  have "?piece i \<in> set (snapList (gsSnapshot gs))" unfolding pieceAt_def using i(2) by (intro nth_mem mod_less_divisor) auto
  moreover obtain st where "?passes i = Inr (True, st)" using i(3) by (auto simp: pieceFits_def split: sum.splits)
  ultimately show ?thesis using i(1) by blast
qed

lemma scheduleFiltered_host:
  assumes "scheduleFiltered fw intn [] n state pod filtered statuses = Inr r"
  shows "SuggestedHost r \<in> nodeName ` set filtered"
proof -
  obtain node others where F: "filtered = node # others" using assms by (cases filtered) (auto simp: scheduleFiltered_def)
  obtain st st1 where ps: "RunPreScorePlugins fw state pod filtered = (st, st1)" by fastforce
  show ?thesis
  proof (cases "others = []")
    case True
    then show ?thesis using assms F ps by (auto simp: scheduleFiltered_def split: option.splits)
  next
    case False
    then obtain pl host where pl: "prioritizeNodes fw [] st1 pod filtered = Inr pl" "selectHost intn pl = Inr host" "SuggestedHost r = host"
      using assms F ps by (auto simp: scheduleFiltered_def split: option.splits sum.splits)
    have names: "map nsName pl = map nodeName filtered" by (rule prioritizeNodes_total(1) [OF pl(1)])
    then have "pl \<noteq> []" using F by auto
    from selectHost_max [OF this, of intn] obtain k where "k < length pl" "host = nsName (pl ! k)" using pl(2) by auto
    then have "host \<in> set (map nsName pl)" by simp
    then show ?thesis unfolding names pl(3) by auto
  qed
qed

lemma snapList_view:
  assumes "snapOk c sn" and "ni \<in> set (snapList sn)"
  shows "\<exists>n. snapView sn n = Some ni"
proof -
  obtain a where a: "a \<in> set (nodeInfoList sn)" "snStore sn a = Some ni"
    using assms(2) by (auto simp: snapList_def List.map_filter_def)
  then obtain n where "mget (nodeInfoMap sn) n = Some a" using assms(1) by (auto simp: snapOk_def snapLists_def ran_def)
  then have "snapView sn n = Some ni" using a(2) by (simp add: snapView_def)
  then show ?thesis by blast
qed

lemma nodeInfoClone_self:
  assumes "nodeInfoInv f ni" and "mapsWf ni"
  shows "nodeInfoClone ni = ni"
  using assms by (simp add: nodeInfoClone_def resourceClone_self clonePorts_self nodeInfoInv_def mapsWf_def)

lemma schedule_admits:
  assumes inv: "cacheInv f (gsCache gs)" "treeSync (gsCache gs)" "snapOk (gsCache gs) (gsSnapshot gs)"
    and nodes: "\<forall>n. cacheInfo (gsCache gs) n \<noteq> None \<longrightarrow> cacheNode (gsCache gs) n \<noteq> None"
    and S: "Schedule f pvcLister fw gens sched intn [] pod gs = Some (gs', Inr r)"
    and ext: "gsExtenders gs = []" and plugins: "fwFilterPlugins fw \<noteq> []"
    and clone: "gomap_wf (snd (RunPreFilterPlugins fw [] pod))"
    and wf: "\<forall>ni. cacheInfo (gsCache gs') (SuggestedHost r) = Some ni \<longrightarrow> mapsWf ni"
  shows "\<exists>ni. cacheInfo (gsCache gs') (SuggestedHost r) = Some ni \<and> nodeInfoInv f ni \<and>
    IsSuccess (Merge (RunFilterPlugins fw (snd (RunPreFilterPlugins fw [] pod)) pod ni))"
proof -
  let ?st = "snd (RunPreFilterPlugins fw [] pod)"
  obtain c sn filtered statuses where u: "UpdateSnapshot f (gsCache gs) (gsSnapshot gs) = Some (c, sn, False)"
    and fit: "findNodesThatFitPod f fw ?st pod gens sched (gs\<lparr>gsCache := c, gsSnapshot := sn\<rparr>) = Some (gs', Inr (filtered, statuses))"
    and r: "scheduleFiltered fw intn (gsExtenders gs') (NumNodes sn) ?st pod filtered statuses = Inr r"
    using S by (rule Schedule_InrD)
  have found: "findNodesThatPassFilters f fw ?st pod gens sched (gs\<lparr>gsCache := c, gsSnapshot := sn\<rparr>) = Some (gs', Inr (filtered, statuses))"
    and "gsExtenders gs' = []" using findNodesThatFitPod_InrD [OF fit] ext by simp_all
  with r obtain node where node: "node \<in> set filtered" "SuggestedHost r = nodeName node" using scheduleFiltered_host by fastforce
  have c: "gsCache gs' = c" using findNodesThatFitPod_frame [OF fit] by simp
  from findNodes_sound [OF plugins found node(1)] obtain ni g st where ni: "ni \<in> set (snapList sn)" "niNode ni = Some node"
      "podPassesFiltersOnNode f (gsQueue gs) fw ?st pod g ni = Inr (True, st)" by auto
  obtain ns where L: "cacheInvL f (gsCache gs) ns" using inv(1) by (rule cacheInvE)
  from UpdateSnapshot_spec [OF L inv(2,3)] u have spec: "cacheInv f c" "treeSync c" "snapOk c sn" "cacheNode c = cacheNode (gsCache gs)"
      "\<And>n. cacheInfo c n = None \<longleftrightarrow> cacheInfo (gsCache gs) n = None"
      "\<And>n ni. cacheInfo c n = Some ni \<Longrightarrow> niNode ni \<noteq> None \<Longrightarrow> snapView sn n = Some (nodeInfoClone ni)"
      "\<And>n. cacheInfo (gsCache gs) n = None \<Longrightarrow> snapView sn n = None" using nodes by auto
  obtain n where n: "snapView sn n = Some ni" using snapList_view [OF spec(3) ni(1)] by blast
  then obtain ni0 where ni0: "cacheInfo c n = Some ni0" using spec(5,7) by fastforce
  then have "cacheNode c n \<noteq> None" using nodes spec(4,5) by (metis option.distinct(1))
  then have "niNode ni0 \<noteq> None" using ni0 by (simp add: cacheNode_def)
  then have cl: "ni = nodeInfoClone ni0" using spec(6) [OF ni0] n by simp
  then have "cacheNode c n = Some node" using ni(2) ni0 by (simp add: cacheNode_def nodeInfoClone_def)
  then have host: "n = SuggestedHost r" using spec(2) node(2) by (auto simp: treeSync_def)
  obtain ns' where "cacheInvL f c ns'" using spec(1) by (rule cacheInvE)
  then have iv: "nodeInfoInv f ni0" using infosOkD [OF cacheInvLD(4) ni0] by (simp add: nodeOk_def)
  have "nodeInfoClone ni0 = ni0" using nodeInfoClone_self [OF iv] wf ni0 host c by simp
  with cl have "ni = ni0" "nodeInfoClone ni0 = ni0" by simp_all
  then have "IsSuccess (Merge (RunFilterPlugins fw ?st pod ni0))" using podPasses_filters [OF ni(3) csClone_self [OF clone]] by simp
  then show ?thesis using ni0 host c iv by auto
qed

section \<open>The pod that is assumed\<close>

lemma assignTo_simps [simp]: "podUID (assignTo h p) = podUID p" "podNodeName (assignTo h p) = h" "podMeta (assignTo h p) = podMeta p"
  by (simp_all add: assignTo_def)

lemma assignTo_request: "podRequest f (assignTo h p) = podRequest f p" "portBindings (assignTo h p) = portBindings p"
  by (simp_all add: assignTo_def podRequest_def calculateResource_def portBindings_def podPorts_def Workloads_def split: option.split)

lemma admitted_takesPod:
  assumes pre: "fwPreFilterPlugins fw = [fitPreFilterPlugin f, portsPreFilterPlugin] @ rest" "\<forall>pl \<in> set rest. keepsKeys pl"
    and plugins: "fitPlugin ign \<in> set (fwFilterPlugins fw)" "portsPlugin \<in> set (fwFilterPlugins fw)"
    and ok: "IsSuccess (Merge (RunFilterPlugins fw (snd (RunPreFilterPlugins fw st pod)) pod ni))"
    and inv: "nodeInfoInv f ni" and sane: "saneLoad f pod ni"
  shows "takesPod f ign (assignTo host pod) ni (fst (addPod f (assignTo host pod) g ni))"
proof -
  let ?p = "assignTo host pod"
  have load: "trueLoad f (niPods ni @ [?p]) d = trueLoad f (niPods ni @ [pod]) d" for d
    by (simp add: trueLoad_def assignTo_request)
  have hpi: "hpInv (niUsedPorts ni)" using inv by (simp add: nodeInfoInv_def)
  have pods: "niPods (fst (addPod f q g ni)) = niPods ni @ [q]"
    "niAllocatableResource (fst (addPod f q g ni)) = niAllocatableResource ni" for q g by simp_all
  have "\<forall>p \<in> set (pod # niPods ni). \<forall>d. 0 \<le> sint (amount (podRequest f p) d)" "\<forall>d. trueLoad f (niPods ni @ [pod]) d < 2 ^ 63"
    using sane by (simp_all add: saneLoad_def)
  note cap = admission_keeps_capacity [OF pre plugins ok inv this, of 0, unfolded Let_def pods]
  show ?thesis using cap addPod_bindings [OF hpi] unfolding takesPod_def pods load assignTo_request by (simp add: assignTo_request)
qed

lemma reachable_steps:
  assumes "reachable f lessFn s" and "(sysStep f lessFn)\<^sup>*\<^sup>* s s'"
  shows "reachable f lessFn s'"
  using assms unfolding reachable_def by (meson rtranclp_trans)

lemma reachable_alg:
  assumes "reachable f lessFn s"
  shows "\<exists>ttl initB maxB. (schedStep f)\<^sup>*\<^sup>* (newSchedulerCache ttl, NewEmptySnapshot) (schCache s, schSnapshot s) \<and>
    (queueStep lessFn)\<^sup>*\<^sup>* (NewPriorityQueue initB maxB) (schQueue s)"
proof -
  obtain gs profiles disable ttl initB maxB where gs: "gsCache gs = newSchedulerCache ttl" "gsSnapshot gs = NewEmptySnapshot"
      "gsQueue gs = NewPriorityQueue initB maxB" and r: "(sysStep f lessFn)\<^sup>*\<^sup>* (newScheduler gs profiles disable) s"
    using assms by (auto simp: reachable_def)
  have "algStep f lessFn gs (schAlgorithm s)" using sysSteps_parts [OF r] by (simp add: newScheduler_def)
  then show ?thesis using gs by (auto simp: algStep_def)
qed

lemma reachable_parts:
  assumes "reachable f lessFn s"
  shows "cacheInv f (schCache s)" and "treeSync (schCache s)" and "snapOk (schCache s) (schSnapshot s)"
    and "weak_order lessFn \<Longrightarrow> queueInv lessFn (schQueue s)"
proof -
  obtain ttl initB maxB where c: "(schedStep f)\<^sup>*\<^sup>* (newSchedulerCache ttl, NewEmptySnapshot) (schCache s, schSnapshot s)"
    and q: "(queueStep lessFn)\<^sup>*\<^sup>* (NewPriorityQueue initB maxB) (schQueue s)" using reachable_alg [OF assms] by blast
  show "cacheInv f (schCache s)" "treeSync (schCache s)" "snapOk (schCache s) (schSnapshot s)"
    using schedSteps_inv [OF c] by simp_all
  show "queueInv lessFn (schQueue s)" if "weak_order lessFn"
    by (rule queue_sort.steps_inv [OF queue_sortI [OF that] q queueInv_new])
qed

lemma scheduleAct_fits:
  assumes "scheduleAct f env pi s = Some s1" and "schCycle s1 = Some (CyFits pi host)" and "profileForPod (piPod pi) s = Some prof"
  shows "\<exists>r. Schedule f (envPvcs env) (prFramework prof) (envGens env) (envSearch env) (envIntn env) [] (piPod pi) (schAlgorithm s) =
    Some (schAlgorithm s1, Inr r) \<and> SuggestedHost r = host"
proof -
  let ?S = "Schedule f (envPvcs env) (prFramework prof) (envGens env) (envSearch env) (envIntn env) [] (piPod pi) (schAlgorithm s)"
  have skip: "\<not> skipPodSchedule (piPod pi) s" using assms by (auto simp: scheduleAct_def cycleNext_def)
  obtain gs res where S: "?S = Some (gs, res)" using assms skip by (cases ?S) (auto simp: scheduleAct_def)
  show ?thesis
  proof (cases res)
    case (Inl e)
    then show ?thesis using assms skip S by (cases e) (auto simp: scheduleAct_def cycleNext_def)
  next
    case (Inr r)
    then show ?thesis using assms skip S by (auto simp: scheduleAct_def cycleNext_def)
  qed
qed

lemma fitsAct_assumes:
  assumes "schCycle (fitsAct f env pi host s) = Some (CyAssumed pi' host b)" and inv: "cacheInv f (schCache s)"
    and ni: "cacheInfo (schCache s) host = Some ni"
  defines "pod \<equiv> assignTo host (piPod pi)"
  shows "piPod pi' = pod \<and> isAssumed (podUID pod) (schCache (fitsAct f env pi host s)) \<and>
    (\<exists>g. cacheInfo (schCache (fitsAct f env pi host s)) host = Some (fst (addPod f pod g ni)))"
proof -
  obtain c e where r: "AssumePod f pod (schCache s) = (c, e)" by fastforce
  have "e = None" and pi': "piPod pi' = pod" and c: "schCache (fitsAct f env pi host s) = c"
    using assms(1) r by (auto simp: fitsAct_def sched_assume_def pod_def cycleNext_def Let_def split: sum.splits if_splits option.splits)
  then have k: "podUID pod \<noteq> []" "mget (scPodStates (schCache s)) (podUID pod) = None"
    and c': "c = (cacheAddPod f pod (schCache s))\<lparr>scPodStates := mput (podUID pod) \<lparr>stPod = pod, stDeadline = None, stBindingFinished = False\<rparr>
      (scPodStates (cacheAddPod f pod (schCache s))), scAssumedPods := mput (podUID pod) True (scAssumedPods (cacheAddPod f pod (schCache s)))\<rparr>"
    using r by (auto simp: AssumePod_def GetPodKey_def Let_def split: if_splits)
  obtain ns where L: "cacheInvL f (schCache s) ns" using inv by (rule cacheInvE)
  obtain ni0 g where "cacheInfo (schCache s) (podNodeName pod) = Some ni0 \<or>
        (cacheInfo (schCache s) (podNodeName pod) = None \<and> ni0 = emptyNodeInfo (scGeneration (schCache s) + 1))"
      "cacheInfo (cacheAddPod f pod (schCache s)) = (cacheInfo (schCache s))(podNodeName pod \<mapsto> fst (addPod f pod g ni0))"
    using cacheAddPod_facts [OF cacheInvLD(1) [OF L], of pod f] by metis
  then have "cacheInfo c host = Some (fst (addPod f pod g ni))" using ni c' by (simp add: pod_def)
  moreover have "isAssumed (podUID pod) c" using c' by (simp add: isAssumed_def)
  ultimately show ?thesis using pi' c by blast
qed

section \<open>The queue keeps its pods\<close>

lemma moveOut_None [simp]: "moveOut P now p w = None \<longleftrightarrow> w = None"
  by (auto simp: moveOut_def split: option.splits place.splits)

context queue_sort
begin

lemma waiting_moves:
  assumes "queueInv lessFn p"
  shows "dom (absQ (MoveAllToActiveOrBackoffQueue lessFn clk p)) = dom (absQ p)"
    and "dom (absQ (flushUnschedulableQLeftover lessFn clk p)) = dom (absQ p)"
    and "dom (absQ (flushBackoffQCompleted lessFn clk p)) = dom (absQ p)"
    and "dom (absQ (fst (AssignedPodAdded lessFn clk pod p))) = dom (absQ p)"
proof -
  have eq: "dom q = dom (absQ p)" if "\<forall>k. \<exists>j. q k = moveOut P (clk j) p (absQ p k)" for q P and clk :: clock
  proof -
    have "q k = None \<longleftrightarrow> absQ p k = None" for k using spec [OF that, of k] moveOut_None by metis
    then show ?thesis by (auto simp: dom_def)
  qed
  show "dom (absQ (MoveAllToActiveOrBackoffQueue lessFn clk p)) = dom (absQ p)" by (rule eq [OF conjunct2 [OF MoveAll_spec [OF assms]]])
  show "dom (absQ (flushUnschedulableQLeftover lessFn clk p)) = dom (absQ p)" by (rule eq [OF conjunct2 [OF flushLeftover_spec [OF assms]]])
  show "dom (absQ (flushBackoffQCompleted lessFn clk p)) = dom (absQ p)"
  proof -
    have "absQ (flushBackoffQCompleted lessFn clk p) k = None \<longleftrightarrow> absQ p k = None" for k
      using spec [OF conjunct2 [OF conjunct2 [OF flushBackoff_spec [OF assms, of clk]]], of k] by auto
    then show ?thesis by (auto simp: dom_def)
  qed
  show "dom (absQ (fst (AssignedPodAdded lessFn clk pod p))) = dom (absQ p)"
  proof (cases "getUnschedulablePodsWithMatchingAffinityTerm pod p")
    case (Some l)
    note l = matchingAffinity_filter [OF Some [unfolded getUnschedulablePodsWithMatchingAffinityTerm_def]]
    have "\<forall>k. \<exists>j. absQ (movePodsToActiveOrBackoffQueue lessFn clk l p) k =
        moveOut (\<lambda>x. anyTermMatches pod (piPod x) (podAffinityTerms (piPod x)) = Some True) (clk j) p (absQ p k)"
      unfolding l using movePods_spec [OF assms] by blast
    from eq [OF this] show ?thesis using Some by (simp add: AssignedPodAdded_def)
  qed (simp add: AssignedPodAdded_def)
qed

lemma waiting_changes:
  assumes "queueInv lessFn p"
  shows "podNamed pod \<Longrightarrow> dom (absQ (fst (pqAdd lessFn clk pod p))) = insert (podKey pod) (dom (absQ p))"
    and "podNamed pod \<Longrightarrow> podKey old = podKey pod \<Longrightarrow>
      dom (absQ (fst (pqUpdate lessFn clk (Some old) pod p))) = insert (podKey pod) (dom (absQ p))"
    and "podNamed pod \<Longrightarrow> dom (absQ (pqDelete lessFn pod p)) = dom (absQ p) - {podKey pod}"
    and "podNamed (piPod pi) \<Longrightarrow>
      dom (absQ (fst (AddUnschedulableIfNotPresent clk pi cycle p))) = insert (podKey (piPod pi)) (dom (absQ p))"
proof -
  show "podNamed pod \<Longrightarrow> dom (absQ (fst (pqAdd lessFn clk pod p))) = insert (podKey pod) (dom (absQ p))"
    using pqAdd_spec [OF assms, of pod clk] by auto
  show "podNamed pod \<Longrightarrow> podKey old = podKey pod \<Longrightarrow>
      dom (absQ (fst (pqUpdate lessFn clk (Some old) pod p))) = insert (podKey pod) (dom (absQ p))"
    using pqUpdate_spec [OF assms, of pod old clk] by auto
  show "podNamed pod \<Longrightarrow> dom (absQ (pqDelete lessFn pod p)) = dom (absQ p) - {podKey pod}"
    using pqDelete_spec [OF assms] by simp
  show "podNamed (piPod pi) \<Longrightarrow>
      dom (absQ (fst (AddUnschedulableIfNotPresent clk pi cycle p))) = insert (podKey (piPod pi)) (dom (absQ p))"
    using AddUnschedulable_spec [OF assms, of pi clk cycle] by (auto simp: dom_def insert_absorb split: option.splits)
qed

lemma waiting_pop:
  assumes inv: "queueInv lessFn p" and pop: "pqPop lessFn p = (q, r)"
  shows "case r of Popped pi \<Rightarrow> dom (absQ p) = insert (podKey (piPod pi)) (dom (absQ q)) | _ \<Rightarrow> absQ q = absQ p"
proof (cases "\<exists>k pi. absQ p k = Some (Active, pi)")
  case True
  then obtain k pi where "absQ p k = Some (Active, pi)" by blast
  from pqPop_spec [OF inv this] obtain k' pi' p' where
    "pqPop lessFn p = (p', Popped (pi'\<lparr>piAttempts := piAttempts pi' + 1\<rparr>))" and a: "absQ p k' = Some (Active, pi')"
    "k' = podKey (piPod pi')" "absQ p' = (absQ p)(k' := None)" by blast
  then have r: "r = Popped (pi'\<lparr>piAttempts := piAttempts pi' + 1\<rparr>)" "q = p'" using pop by simp_all
  have "k' \<in> dom (absQ p)" using a(1) by blast
  then show ?thesis using a(2,3) r by (simp add: insert_absorb)
next
  case False
  then have "pqPop lessFn p = (p, if pqClosed p then PopClosed else PopBlocked)" using pqPop_none [OF inv] by blast
  then have "q = p" "r = PopClosed \<or> r = PopBlocked" using pop by (auto split: if_splits)
  then show ?thesis by auto
qed

end

lemma nominate_absQ [simp]: "absQ (UpdateNominatedPodForNode pod n p) = absQ p" "absQ (DeleteNominatedPodIfExists pod p) = absQ p"
  by (intro ext, simp add: absQ_def UpdateNominatedPodForNode_def DeleteNominatedPodIfExists_def)+

section \<open>No pod is lost\<close>

lemma keys_frame [simp]:
  "cycleKeys (putCache c s) = cycleKeys s" "bindKeys (putCache c s) = bindKeys s" "retryKeys (putCache c s) = retryKeys s"
  "cycleKeys (putQueue q s) = cycleKeys s" "bindKeys (putQueue q s) = bindKeys s" "retryKeys (putQueue q s) = retryKeys s"
  "cycleKeys (putWaiting n m s) = cycleKeys s" "bindKeys (putWaiting n m s) = bindKeys s" "retryKeys (putWaiting n m s) = retryKeys s"
  "bindKeys (cycleNext cy s) = bindKeys s" "retryKeys (cycleNext cy s) = retryKeys s"
  "cycleKeys (bindNext i ph s) = cycleKeys s" "retryKeys (bindNext i ph s) = retryKeys s"
  "cycleKeys (bindEnds i s) = cycleKeys s" "retryKeys (bindEnds i s) = retryKeys s"
  "cycleKeys (s\<lparr>schAlgorithm := gs\<rparr>) = cycleKeys s" "bindKeys (s\<lparr>schAlgorithm := gs\<rparr>) = bindKeys s"
  "retryKeys (s\<lparr>schAlgorithm := gs\<rparr>) = retryKeys s"
  by (simp_all add: cycleKeys_def bindKeys_def retryKeys_def putCache_def putQueue_def putWaiting_def cycleNext_def bindNext_def
      bindEnds_def split: option.split)

lemma cycleKeys_next [simp]: "cycleKeys (cycleNext cy s) = (case cy of None \<Rightarrow> {} | Some c \<Rightarrow> {infoKey (cyclePod c)})"
  by (simp add: cycleKeys_def cycleNext_def)

lemma dropAt_keeps: "i < length xs \<Longrightarrow> set xs = insert (xs ! i) (set (dropAt i xs))"
  by (subst id_take_nth_drop, assumption) (auto simp: dropAt_def)

lemma bindKeys_next [simp]:
  assumes "i < length (schBindings s)"
  shows "bindKeys (bindNext i ph s) = bindKeys s"
proof -
  have "map (infoKey \<circ> bdPodInfo) ((schBindings s)[i := (schBindings s ! i)\<lparr>bdPhase := ph\<rparr>]) = map (infoKey \<circ> bdPodInfo) (schBindings s)"
    using assms by (simp add: map_update list_update_same_conv)
  then have "set (map (infoKey \<circ> bdPodInfo) ((schBindings s)[i := (schBindings s ! i)\<lparr>bdPhase := ph\<rparr>])) =
      set (map (infoKey \<circ> bdPodInfo) (schBindings s))" by (simp only:)
  then show ?thesis by (simp add: bindKeys_def bindNext_def)
qed

lemma bindKeys_ends:
  assumes "i < length (schBindings s)"
  shows "bindKeys s = insert (infoKey (bdPodInfo (schBindings s ! i))) (bindKeys (bindEnds i s))"
  using dropAt_keeps [OF assms] by (simp add: bindKeys_def bindEnds_def)

lemma waiting_frame [simp]: "schQueue (cycleNext cy s) = schQueue s" by (simp add: cycleNext_def)

lemma failure_keys:
  "cycleKeys (recordSchedulingFailure env pi e s) = cycleKeys s" "bindKeys (recordSchedulingFailure env pi e s) = bindKeys s"
  "schQueue (recordSchedulingFailure env pi e s) = schQueue s"
  "retryKeys (recordSchedulingFailure env pi e s) = insert (infoKey pi) (retryKeys s)"
  by (auto simp: recordSchedulingFailure_def defaultErrorFunc_def Let_def cycleKeys_def bindKeys_def retryKeys_def putCache_def
      split: cycleErr.split)

lemma infoKey_assign [simp]: "infoKey (pi\<lparr>piPod := assignTo host (piPod pi)\<rparr>) = infoKey pi"
  by (simp add: infoKey_def podKey_def)

lemma forget_keys:
  "forget f pod s = Some s' \<Longrightarrow> cycleKeys s' = cycleKeys s \<and> bindKeys s' = bindKeys s \<and> retryKeys s' = retryKeys s \<and>
     schQueue s' = schQueue s \<and> schBindings s' = schBindings s"
  unfolding forget_def by (drule afterCache_Some) (auto simp: putCache_def cycleKeys_def bindKeys_def retryKeys_def)

lemma finish_keys [simp]:
  "cycleKeys (schedFinishBinding env pod s) = cycleKeys s" "bindKeys (schedFinishBinding env pod s) = bindKeys s"
  "retryKeys (schedFinishBinding env pod s) = retryKeys s" "schQueue (schedFinishBinding env pod s) = schQueue s"
  "schBindings (schedFinishBinding env pod s) = schBindings s"
  by (simp_all add: schedFinishBinding_def) (simp add: putCache_def)

lemma victims_keys:
  "cycleKeys (deleteVictims env n vs s) = cycleKeys s \<and> bindKeys (deleteVictims env n vs s) = bindKeys s \<and>
   retryKeys (deleteVictims env n vs s) = retryKeys s"
proof (induction vs arbitrary: s)
  case (Cons v vs)
  have "cycleKeys (rejectVictim n v s) = cycleKeys s \<and> bindKeys (rejectVictim n v s) = bindKeys s \<and>
      retryKeys (rejectVictim n v s) = retryKeys s" for s :: "'a Scheduler"
    by (simp add: rejectVictim_def split: option.split)
  moreover have "cycleKeys (s\<lparr>schEvictions := e\<rparr>) = cycleKeys s \<and> bindKeys (s\<lparr>schEvictions := e\<rparr>) = bindKeys s \<and>
      retryKeys (s\<lparr>schEvictions := e\<rparr>) = retryKeys s" for e
    by (simp add: cycleKeys_def bindKeys_def retryKeys_def)
  ultimately show ?case using Cons.IH by (simp split: option.split)
qed simp

lemma preempt_keys:
  assumes "preempt f env prof n pod e s = Some s'"
  shows "cycleKeys s' = cycleKeys s \<and> bindKeys s' = bindKeys s \<and> retryKeys s' = retryKeys s \<and> absQ (schQueue s') = absQ (schQueue s)"
  using assms by (auto simp: preempt_def Let_def victims_keys split: sum.splits schedErr.splits option.splits)

lemma Schedule_queue:
  assumes "Schedule f pvcLister fw gens sched intn state pod gs = Some (gs', res)"
  shows "gsQueue gs' = gsQueue gs"
proof (cases "podPassesBasicChecks pvcLister pod")
  case None
  obtain c sn b where u: "UpdateSnapshot f (gsCache gs) (gsSnapshot gs) = Some (c, sn, b)"
    using assms None by (cases "UpdateSnapshot f (gsCache gs) (gsSnapshot gs)") (auto simp: Schedule_def)
  let ?gs = "gs\<lparr>gsCache := c, gsSnapshot := sn\<rparr>"
  have "gs' = ?gs \<or> (\<exists>st r. findNodesThatFitPod f fw st pod gens sched ?gs = Some (gs', r))"
    using assms None u by (auto simp: Schedule_def Let_def split: if_splits option.splits prod.splits sum.splits)
  then show ?thesis using findNodesThatFitPod_frame by fastforce
qed (use assms in \<open>simp add: Schedule_def\<close>)

lemma cycle_held:
  assumes act: "cycleAct f env s = Some s'" and k: "k \<in> heldKeys s" and stays: "\<not> letsGo CycleRuns s k"
  shows "k \<in> heldKeys s'"
proof (cases "schCycle s")
  case (Some cy)
  have keys: "cycleKeys s = {infoKey (cyclePod cy)}" by (simp add: cycleKeys_def Some)
  have "dom (absQ (schQueue s')) = dom (absQ (schQueue s)) \<and> bindKeys s \<subseteq> bindKeys s' \<and> retryKeys s \<subseteq> retryKeys s' \<and>
      (k = infoKey (cyclePod cy) \<longrightarrow> k \<in> cycleKeys s' \<union> bindKeys s' \<union> retryKeys s')"
  proof (cases cy)
    case (CyPopped pi)
    have gs: "gsQueue gs = schQueue s"
      if "Schedule f pvcs fw gens sched intn st pod (schAlgorithm s) = Some (gs, res)" for pvcs fw gens sched intn st pod gs res
      using Schedule_queue [OF that] .
    show ?thesis
    proof (cases "profileForPod (piPod pi) s = None \<or> skipPodSchedule (piPod pi) s")
      case True
      then have "s' = cycleNext None s" using act Some CyPopped by (auto simp: cycleAct_def scheduleAct_def Let_def split: option.splits)
      then show ?thesis using True stays Some CyPopped by (auto simp: letsGo_def)
    next
      case False
      then obtain prof where p: "profileForPod (piPod pi) s = Some prof" "\<not> skipPodSchedule (piPod pi) s" by auto
      then obtain gs cy' res where s': "s' = cycleNext (Some cy') (s\<lparr>schAlgorithm := gs\<rparr>)" "cyclePod cy' = pi"
          "Schedule f (envPvcs env) (prFramework prof) (envGens env) (envSearch env) (envIntn env) [] (piPod pi) (schAlgorithm s) = Some (gs, res)"
        using act Some CyPopped
        by (auto simp: cycleAct_def scheduleAct_def Let_def split: option.splits prod.splits sum.splits schedErr.splits)
      then show ?thesis using gs [OF s'(3)] CyPopped by simp
    qed
  next
    case (CyUnfit pi e)
    then obtain s1 where s1: "s' = cycleNext (Some (CyFailed pi (CSched e))) s1"
        "s1 = s \<or> (\<exists>prof n. preempt f env prof n (piPod pi) e s = Some s1)"
      using act Some by (auto simp: cycleAct_def unfitAct_def split: schedErr.splits if_splits option.splits)
    then show ?thesis using preempt_keys CyUnfit by fastforce
  next
    case (CyFailed pi e)
    then have "s' = cycleNext None (recordSchedulingFailure env pi e s)" using act Some by (simp add: cycleAct_def)
    then show ?thesis using CyFailed by (auto simp: failure_keys)
  next
    case (CyFits pi host)
    then have "s' = fitsAct f env pi host s" using act Some by (simp add: cycleAct_def)
    then show ?thesis using CyFits
      by (auto simp: fitsAct_def sched_assume_def Let_def split: sum.split prod.split option.split)
  next
    case (CyAssumed pi host b)
    then show ?thesis using act Some
      by (auto simp: cycleAct_def permitAct_def Let_def cycleNext_def putWaiting_def bindKeys_def retryKeys_def cycleKeys_def
          split: option.splits prod.splits if_splits)
  next
    case (CyRefused pi e)
    then obtain s1 where "forget f (piPod pi) s = Some s1" "s' = cycleNext (Some (CyFailed pi e)) s1"
      using act Some by (auto simp: cycleAct_def)
    then show ?thesis using forget_keys CyRefused by fastforce
  qed
  then show ?thesis using k keys unfolding heldKeys_def by blast
qed (use act in \<open>simp add: cycleAct_def\<close>)

lemma bind_held:
  assumes act: "bindAct f env i s = Some s'" and k: "k \<in> heldKeys s" and stays: "\<not> letsGo (BindRuns i) s k"
  shows "k \<in> heldKeys s'"
proof -
  let ?b = "schBindings s ! i" and ?pod = "piPod (bdPodInfo (schBindings s ! i))"
  have i: "i < length (schBindings s)" using act by (simp add: bindAct_def split: if_splits)
  obtain prof where prof: "mget (schProfiles s) (psSchedulerName (podSpec ?pod)) = Some prof"
    using act i by (auto simp: bindAct_def Let_def split: option.splits)
  have next_held: "k \<in> heldKeys (bindNext i ph s1)"
    if "schBindings s1 = schBindings s" "cycleKeys s1 = cycleKeys s" "retryKeys s1 = retryKeys s" "schQueue s1 = schQueue s" for ph s1
  proof -
    have "bindKeys s1 = bindKeys s" using that(1) by (simp add: bindKeys_def)
    then show ?thesis using k i that by (simp add: heldKeys_def)
  qed
  have ends: "bindKeys s = insert (infoKey (bdPodInfo ?b)) (bindKeys (bindEnds i s1))" if "schBindings s1 = schBindings s" for s1 :: "'a Scheduler"
    using bindKeys_ends [OF i] that by (simp add: bindEnds_def bindKeys_def)
  show ?thesis
  proof (cases "bdPhase ?b")
    case BdWait
    then show ?thesis using act i prof next_held by (auto simp: bindAct_def Let_def)
  next
    case (BdReceive a)
    have w: "schBindings (putWaiting n m s) = schBindings s" for n m by (simp add: putWaiting_def split: option.split)
    show ?thesis using BdReceive act i prof next_held [OF w] by (auto simp: bindAct_def Let_def split: option.splits)
  next
    case BdVolumes
    then show ?thesis using act i prof next_held by (auto simp: bindAct_def Let_def)
  next
    case BdPreBind
    then show ?thesis using act i prof next_held by (auto simp: bindAct_def Let_def)
  next
    case BdBind
    then show ?thesis using act i prof next_held by (auto simp: bindAct_def Let_def)
  next
    case (BdFinish err)
    show ?thesis
    proof (cases err)
      case None
      then have "s' = bindEnds i (schedFinishBinding env ?pod s)" using act i prof BdFinish by (simp add: bindAct_def Let_def)
      moreover have "k \<noteq> infoKey (bdPodInfo ?b)" using stays BdFinish None by (auto simp: letsGo_def)
      ultimately show ?thesis using k ends [of "schedFinishBinding env ?pod s"] by (auto simp: heldKeys_def)
    next
      case (Some e)
      then have "s' = bindNext i (BdForget e) (schedFinishBinding env ?pod s)" using act i prof BdFinish by (simp add: bindAct_def Let_def)
      then show ?thesis using next_held [of "schedFinishBinding env ?pod s"] by simp
    qed
  next
    case (BdForget e)
    then obtain s1 where "forget f ?pod s = Some s1" "s' = bindNext i (BdFail e) s1" using act i prof by (auto simp: bindAct_def Let_def)
    then show ?thesis using forget_keys [of f ?pod s s1] next_held [of s1] by simp
  next
    case (BdFail e)
    then have s': "s' = recordSchedulingFailure env (bdPodInfo ?b) e (bindEnds i s)" using act i prof by (simp add: bindAct_def Let_def)
    show ?thesis using k ends [of s] unfolding s' heldKeys_def failure_keys by auto
  qed
qed

context queue_sort
begin

lemma retry_held:
  assumes act: "retryPod env i answer s = Some s'" and k: "k \<in> heldKeys s" and stays: "\<not> letsGo (RetryRuns i answer) s k"
    and agree: "agrees f env (RetryRuns i answer) s" and inv: "queueInv lessFn (schQueue s)"
  shows "k \<in> heldKeys s'"
proof -
  let ?r = "schRetries s ! i" and ?done = "s\<lparr>schRetries := dropAt i (schRetries s)\<rparr>"
  have i: "i < length (schRetries s)" using act by (simp add: retryPod_def split: if_splits)
  have drop: "retryKeys s = insert (infoKey (rtPodInfo ?r)) (retryKeys ?done)" "cycleKeys ?done = cycleKeys s" "bindKeys ?done = bindKeys s"
    using dropAt_keeps [OF i] by (simp_all add: retryKeys_def cycleKeys_def bindKeys_def)
  show ?thesis
  proof (cases answer)
    case (PodFound pod)
    then have n: "podNamed pod" "podKey pod = infoKey (rtPodInfo ?r)" using agree i by (simp_all add: agrees_def infoKey_def)
    show ?thesis
    proof (cases "podNodeName pod = []")
      case True
      then have s': "s' = putQueue (fst (AddUnschedulableIfNotPresent (envClock env) ((rtPodInfo ?r)\<lparr>piPod := pod\<rparr>) (rtCycle ?r) (schQueue s))) ?done"
        using act i PodFound by (simp add: retryPod_def Let_def)
      have "dom (absQ (schQueue s')) = insert (podKey pod) (dom (absQ (schQueue s)))"
        unfolding s' using waiting_changes(4) [OF inv, of "(rtPodInfo ?r)\<lparr>piPod := pod\<rparr>"] n(1) by simp
      then show ?thesis using k drop n(2) by (auto simp: heldKeys_def s')
    next
      case False
      then have "s' = ?done" using act i PodFound by (simp add: retryPod_def Let_def)
      moreover have "k \<noteq> infoKey (rtPodInfo ?r)" using stays PodFound False by (simp add: letsGo_def assignedPod_def)
      ultimately show ?thesis using k drop by (auto simp: heldKeys_def)
    qed
  next
    case PodNotFound
    then have "s' = ?done" using act i by (simp add: retryPod_def Let_def)
    moreover have "k \<noteq> infoKey (rtPodInfo ?r)" using stays PodNotFound by (auto simp: letsGo_def)
    ultimately show ?thesis using k drop by (auto simp: heldKeys_def)
  next
    case PodError
    then obtain b where s': "s' = s\<lparr>schRetries := (schRetries s)[i := ?r\<lparr>rtBackoff := b\<rparr>]\<rparr>" using act i by (auto simp: retryPod_def Let_def)
    have "map (infoKey \<circ> rtPodInfo) ((schRetries s)[i := ?r\<lparr>rtBackoff := b\<rparr>]) = map (infoKey \<circ> rtPodInfo) (schRetries s)"
      using i by (simp add: map_update list_update_same_conv)
    then have "set (map (infoKey \<circ> rtPodInfo) ((schRetries s)[i := ?r\<lparr>rtBackoff := b\<rparr>])) = set (map (infoKey \<circ> rtPodInfo) (schRetries s))"
      by (simp only:)
    then have "retryKeys s' = retryKeys s" by (simp add: retryKeys_def s')
    then show ?thesis using k by (simp add: heldKeys_def s' cycleKeys_def bindKeys_def)
  qed
qed

lemma moveAll_holders: "queueInv lessFn (schQueue s) \<Longrightarrow> sameHolders s (moveAll lessFn env s)"
  by (simp add: sameHolders_def moveAll_def waiting_moves)

lemma afterCache_holders: "afterCache r s = Some s' \<Longrightarrow> sameHolders s s' \<and> schQueue s' = schQueue s"
  by (drule afterCache_Some) (simp add: sameHolders_def)

lemma assigned_holders:
  assumes "afterQueue (AssignedPodAdded lessFn clk pod (schQueue s)) s = Some s'" and "queueInv lessFn (schQueue s)"
  shows "sameHolders s s'"
  using afterQueue_Some [OF assms(1)] waiting_moves(4) [OF assms(2)] by (simp add: sameHolders_def)

lemma bind_holders: "bind f env pod node s = Some s' \<Longrightarrow> sameHolders s s' \<and> schQueue s' = schQueue s"
  using forget_keys [of f pod "schedFinishBinding env pod s" s'] by (auto simp: bind_def Let_def sameHolders_def split: if_splits)

lemma sameHolders_trans: "sameHolders a b \<Longrightarrow> sameHolders b c \<Longrightarrow> sameHolders a c"
  by (simp add: sameHolders_def)

lemma cacheHandler_holders:
  assumes "cacheHandler f lessFn env ev s = Some s'" and inv: "queueInv lessFn (schQueue s)"
  shows "sameHolders s s'"
proof -
  have refl: "sameHolders s s" by (simp add: sameHolders_def)
  have add: "sameHolders s s'" if a: "addPodToCache f lessFn env pod s = Some s'" for pod
  proof -
    obtain s1 where s1: "afterCache (AddPod f pod (schCache s)) s = Some s1"
        "afterQueue (AssignedPodAdded lessFn (envClock env) pod (schQueue s1)) s1 = Some s'"
      using a by (auto simp: addPodToCache_def bind_eq_Some_conv)
    then show ?thesis using afterCache_holders [OF s1(1)] assigned_holders [OF s1(2)] inv sameHolders_trans by metis
  qed
  have upd: "sameHolders s s'" if u: "updatePodInCache f lessFn env old new s = Some s'" for old new
  proof -
    obtain s1 s2 where s1: "afterCache (UpdatePod f old new (schCache s)) s = Some s1" "s2 = s1 \<or> bind f env new [] s1 = Some s2"
        "afterQueue (AssignedPodAdded lessFn (envClock env) new (schQueue s2)) s2 = Some s'"
      using u by (auto simp: updatePodInCache_def bind_eq_Some_conv AssignedPodUpdated_Added split: if_splits)
    have "sameHolders s s2 \<and> schQueue s2 = schQueue s"
      using afterCache_holders [OF s1(1)] bind_holders s1(2) sameHolders_trans by metis
    then show ?thesis using assigned_holders [OF s1(3)] inv sameHolders_trans by metis
  qed
  have del: "sameHolders s s'" if d: "deletePodFromCache f lessFn env obj s = Some s'" for obj
  proof -
    have "s' = s \<or> (\<exists>pod s1. afterCache (RemovePod f pod (schCache s)) s = Some s1 \<and> s' = moveAll lessFn env s1)"
      using d by (auto simp: deletePodFromCache_def split: option.splits deletion.splits)
    then show ?thesis using afterCache_holders moveAll_holders inv sameHolders_trans refl by metis
  qed
  show ?thesis
    using assms(1) add upd del refl by (auto simp: cacheHandler_def filteringHandler_def Let_def split: podEvent.splits if_splits)
qed

lemma queueHandler_held:
  assumes act: "queueHandler lessFn env ev s = Some s'" and k: "k \<in> heldKeys s" and stays: "\<not> letsGo (QueuePod ev) s k"
    and agree: "agrees f env (QueuePod ev) s" and inv: "queueInv lessFn (schQueue s)"
  shows "k \<in> heldKeys s'"
proof -
  have put: "k \<in> heldKeys s'" if "afterQueue (q, e) s = Some s'" "dom (absQ (schQueue s)) \<subseteq> dom (absQ q)" for q e
    using afterQueue_Some [OF that(1)] that(2) k by (auto simp: heldKeys_def)
  have add: "k \<in> heldKeys s'" if "addPodToSchedulingQueue lessFn env pod s = Some s'" "podNamed pod" for pod
    using that put [of "fst (pqAdd lessFn (envClock env) pod (schQueue s))" "snd (pqAdd lessFn (envClock env) pod (schQueue s))"]
      waiting_changes(1) [OF inv that(2), of "envClock env"] by (auto simp: addPodToSchedulingQueue_def)
  have del: "k \<in> heldKeys s'" if d: "deletePodFromSchedulingQueue lessFn obj s = Some s'"
    "\<And>pod. (case obj of Deleted p \<Rightarrow> Some p | FinalStateUnknown p \<Rightarrow> p) = Some pod \<Longrightarrow> podNamed pod \<and> k \<noteq> podKey pod" for obj
  proof (cases "case obj of Deleted p \<Rightarrow> Some p | FinalStateUnknown p \<Rightarrow> p")
    case (Some pod)
    have "k \<in> dom (absQ (schQueue s)) \<Longrightarrow> k \<in> dom (absQ (pqDelete lessFn pod (schQueue s)))"
      using d(2) [OF Some] waiting_changes(3) [OF inv, of pod] by blast
    moreover have "cycleKeys s' = cycleKeys s \<and> bindKeys s' = bindKeys s \<and> retryKeys s' = retryKeys s \<and>
        schQueue s' = pqDelete lessFn pod (schQueue s)"
      using d(1) Some by (auto simp: deletePodFromSchedulingQueue_def Let_def split: option.splits)
    ultimately show ?thesis using k unfolding heldKeys_def by auto
  qed (use d(1) k in \<open>simp add: deletePodFromSchedulingQueue_def\<close>)
  show ?thesis
  proof (cases ev)
    case (PodAdded pod)
    then show ?thesis using act agree add k by (auto simp: queueHandler_def filteringHandler_def agrees_def split: if_splits)
  next
    case (PodUpdated old new)
    then have n: "podNamed old" "podNamed new" "podKey old = podKey new" using agree by (simp_all add: agrees_def)
    let ?u = "pqUpdate lessFn (envClock env) (Some old) new (schQueue s)"
    have upd: "k \<in> heldKeys s'" if "updatePodInSchedulingQueue lessFn env old new s = Some s'"
      using that put [of "fst ?u" "snd ?u"] k waiting_changes(2) [OF inv n(2,3), of "envClock env"]
      by (auto simp: updatePodInSchedulingQueue_def split: if_splits)
    have d: "k \<in> heldKeys s'" if "deletePodFromSchedulingQueue lessFn (Deleted old) s = Some s'" "\<not> queueFilter (schProfiles s) (Deleted new)"
      using del [OF that(1)] stays that(2) PodUpdated n(1) by (auto simp: letsGo_def queueLoses_def)
    show ?thesis using act PodUpdated upd add d n(2) k
      by (auto simp: queueHandler_def filteringHandler_def Let_def split: if_splits)
  next
    case (PodDeleted obj)
    have "podNamed pod \<and> k \<noteq> podKey pod" if "(case obj of Deleted p \<Rightarrow> Some p | FinalStateUnknown p \<Rightarrow> p) = Some pod" for pod
      using that agree stays PodDeleted by (auto simp: agrees_def letsGo_def queueLoses_def split: deletion.splits)
    then show ?thesis using act PodDeleted del k by (auto simp: queueHandler_def filteringHandler_def split: if_splits)
  qed
qed

lemma sameHolders_held: "sameHolders s s' \<Longrightarrow> heldKeys s' = heldKeys s"
  by (simp add: sameHolders_def heldKeys_def)

lemma nextPod_held:
  assumes "schCycle s = None" and inv: "queueInv lessFn (schQueue s)"
  shows "heldKeys (nextPod lessFn s) = heldKeys s"
proof -
  obtain q r where p: "pqPop lessFn (schQueue s) = (q, r)" by fastforce
  have keys: "bindKeys (s\<lparr>schCycle := c\<rparr>) = bindKeys s" "retryKeys (s\<lparr>schCycle := c\<rparr>) = retryKeys s" for c and s :: "'a Scheduler"
    by (simp_all add: bindKeys_def retryKeys_def)
  show ?thesis
  proof (cases r)
    case (Popped pi)
    then have "dom (absQ (schQueue s)) = insert (infoKey pi) (dom (absQ q))" using waiting_pop [OF inv p] by (simp add: infoKey_def)
    moreover have "cycleKeys s = {}" using assms(1) by (simp add: cycleKeys_def)
    moreover have "nextPod lessFn s = (putQueue q s)\<lparr>schCycle := Some (CyPopped pi)\<rparr>" using p Popped by (simp add: nextPod_def)
    moreover have "cycleKeys ((putQueue q s)\<lparr>schCycle := Some (CyPopped pi)\<rparr>) = {infoKey pi}" by (simp add: cycleKeys_def)
    ultimately show ?thesis by (simp add: heldKeys_def keys)
  qed (use waiting_pop [OF inv p] p in \<open>simp_all add: nextPod_def heldKeys_def\<close>)
qed

lemma node_holders:
  assumes inv: "queueInv lessFn (schQueue s)"
  shows "addNodeToCache f lessFn env node s = Some s' \<Longrightarrow> sameHolders s s'"
    and "updateNodeInCache f lessFn env old new s = Some s' \<Longrightarrow> sameHolders s s'"
    and "deleteNodeFromCache obj s = Some s' \<Longrightarrow> sameHolders s s'"
proof -
  have refl: "sameHolders s s" by (simp add: sameHolders_def)
  have after: "sameHolders s s1 \<and> sameHolders s (moveAll lessFn env s1)" if "afterCache r s = Some s1" for r s1
    using afterCache_holders [OF that] moveAll_holders inv sameHolders_trans by metis
  show "addNodeToCache f lessFn env node s = Some s' \<Longrightarrow> sameHolders s s'"
    using refl by (auto simp: addNodeToCache_def split: option.splits prod.splits dest: after)
  show "updateNodeInCache f lessFn env old new s = Some s' \<Longrightarrow> sameHolders s s'"
    by (auto simp: updateNodeInCache_def split: if_splits dest: after)
  show "deleteNodeFromCache obj s = Some s' \<Longrightarrow> sameHolders s s'"
    using refl by (auto simp: deleteNodeFromCache_def split: deletion.splits option.splits dest: after)
qed

lemma act_held:
  assumes act: "sysAct f lessFn env act s = Some s'" and agree: "agrees f env act s" and inv: "queueInv lessFn (schQueue s)"
    and k: "k \<in> heldKeys s" and stays: "\<not> letsGo act s k"
  shows "k \<in> heldKeys s'"
proof (cases act)
  case NextPod
  then show ?thesis using act k nextPod_held [OF _ inv] by (auto simp: sysAct_def split: if_splits)
next
  case CycleRuns
  then show ?thesis using act k stays cycle_held by (auto simp: sysAct_def)
next
  case (BindRuns i)
  then show ?thesis using act k stays bind_held by (auto simp: sysAct_def)
next
  case (RetryRuns i a)
  then show ?thesis using act k stays agree inv retry_held by (auto simp: sysAct_def)
next
  case (CachePod ev)
  then show ?thesis using act k sameHolders_held [OF cacheHandler_holders [OF _ inv]] by (auto simp: sysAct_def)
next
  case (QueuePod ev)
  then show ?thesis using act k stays agree inv queueHandler_held by (auto simp: sysAct_def)
next
  case (NodeAdded node)
  then show ?thesis using act k sameHolders_held [OF node_holders(1) [OF inv]] by (auto simp: sysAct_def)
next
  case (NodeUpdated old new)
  then show ?thesis using act k sameHolders_held [OF node_holders(2) [OF inv]] by (auto simp: sysAct_def)
next
  case (NodeDeleted obj)
  then show ?thesis using act k sameHolders_held [OF node_holders(3) [OF inv]] by (auto simp: sysAct_def)
next
  case Wake
  then show ?thesis using act k sameHolders_held [OF moveAll_holders [OF inv]] by (auto simp: sysAct_def)
next
  case (StorageClassAdded m)
  then show ?thesis using act k sameHolders_held [OF moveAll_holders [OF inv]] by (auto simp: sysAct_def onStorageClassAdd_def split: if_splits)
next
  case FlushBackoff
  then have "sameHolders s s'" using act waiting_moves(3) [OF inv] by (clarsimp simp: sysAct_def sameHolders_def)
  then show ?thesis using k sameHolders_held by blast
next
  case FlushLeftover
  then have "sameHolders s s'" using act waiting_moves(2) [OF inv] by (clarsimp simp: sysAct_def sameHolders_def)
  then show ?thesis using k sameHolders_held by blast
next
  case Cleanup
  then have "afterCache (cleanupAssumedPods f (envClock env 0) (schCache s)) s = Some s'" using act by (simp add: sysAct_def)
  from sameHolders_held [OF conjunct1 [OF afterCache_holders [OF this]]] k show ?thesis by simp
next
  case (Waiting n a w)
  then show ?thesis using act k by (auto simp: sysAct_def waitingAct_def heldKeys_def split: option.splits)
qed

end

section \<open>The cycle ends\<close>

lemma cycle_phases:
  assumes "cycleAct f env s = Some s'" and "schCycle s = Some cy" and "schCycle s' = Some cy'"
  shows "phasesLeft cy' < phasesLeft cy"
proof (cases cy)
  case (CyPopped pi)
  then show ?thesis using assms
    by (auto simp: cycleAct_def scheduleAct_def cycleNext_def Let_def split: option.splits prod.splits sum.splits schedErr.splits if_splits)
next
  case (CyUnfit pi e)
  then show ?thesis using assms
    by (auto simp: cycleAct_def unfitAct_def cycleNext_def Let_def split: option.splits prod.splits sum.splits if_splits)
next
  case (CyFits pi h)
  then show ?thesis using assms
    by (auto simp: cycleAct_def fitsAct_def cycleNext_def Let_def split: option.splits prod.splits sum.splits if_splits)
next
  case (CyAssumed pi h b)
  then show ?thesis using assms
    by (auto simp: cycleAct_def permitAct_def cycleNext_def Let_def split: option.splits prod.splits sum.splits if_splits)
qed (use assms in \<open>auto simp: cycleAct_def cycleNext_def\<close>)

lemma runCycle_ends:
  assumes "runCycle f env n s = Some s'" and "\<forall>cy. schCycle s = Some cy \<longrightarrow> phasesLeft cy \<le> n"
  shows "schCycle s' = None"
  using assms
proof (induction n arbitrary: s)
  case 0
  then show ?case by (cases "schCycle s"; cases "the (schCycle s)") auto
next
  case (Suc n)
  show ?case
  proof (cases "schCycle s")
    case None
    then show ?thesis using Suc.prems by simp
  next
    case (Some cy)
    then obtain t where t: "cycleAct f env s = Some t" "runCycle f env n t = Some s'" using Suc.prems by (auto simp: bind_eq_Some_conv)
    then have "\<forall>cy'. schCycle t = Some cy' \<longrightarrow> phasesLeft cy' \<le> n" using cycle_phases [OF t(1) Some] Suc.prems(2) Some by fastforce
    with t(2) show ?thesis by (rule Suc.IH)
  qed
qed

lemma phasesLeft_bound: "phasesLeft cy \<le> 5" by (cases cy) simp_all

lemma scheduleOne_ends: "scheduleOne f lessFn env s = Some s' \<Longrightarrow> schCycle s' = None"
  unfolding scheduleOne_def by (erule runCycle_ends) (blast intro: phasesLeft_bound)

section \<open>Runs of the small cluster\<close>

lemma runActs_steps:
  assumes "runActs f lessFn env as s = Some s'" and "runAgrees f lessFn env as s"
  shows "(sysStep f lessFn)\<^sup>*\<^sup>* s s'"
  using assms
proof (induction as arbitrary: s)
  case (Cons a as)
  then obtain t where t: "sysAct f lessFn env a s = Some t" "runActs f lessFn env as t = Some s'" by (auto simp: bind_eq_Some_conv)
  then have "sysStep f lessFn s t" and "(sysStep f lessFn)\<^sup>*\<^sup>* t s'" using Cons by (auto intro: sysStep.act)
  then show ?case by (rule converse_rtranclp_into_rtranclp)
qed simp

lemma miniScheduler_reachable: "reachable f lessFn miniScheduler"
  unfolding reachable_def miniScheduler_def by force

lemma mini_agrees:
  "runAgrees f lessFn env miniActs miniScheduler"
proof -
  have "cacheNode (schCache miniScheduler) n = None" for n
    by (simp add: miniScheduler_def newScheduler_def cacheNode_def newSchedulerCache_def nlInfo_def newNodeList_def)
  then show ?thesis using samplePod_named by (simp add: miniActs_def agrees_def zoneAgrees_def)
qed

lemma mini_popped:
  "\<exists>s. runActs defaultFeatures prioritySortLess miniEnv miniActs miniScheduler = Some s \<and>
     reachable defaultFeatures prioritySortLess s \<and> schCycle s = Some (CyPopped ((newPodInfo 5 samplePod)\<lparr>piAttempts := 1\<rparr>))"
proof -
  let ?run = "runActs defaultFeatures prioritySortLess miniEnv miniActs miniScheduler"
  have "case ?run of None \<Rightarrow> False | Some s \<Rightarrow> (case schCycle s of
      Some (CyPopped pi) \<Rightarrow> pi = (newPodInfo 5 samplePod)\<lparr>piAttempts := 1\<rparr> | _ \<Rightarrow> False)" by code_simp
  then obtain s where s: "?run = Some s" "schCycle s = Some (CyPopped ((newPodInfo 5 samplePod)\<lparr>piAttempts := 1\<rparr>))"
    by (auto split: option.splits cycle.splits)
  then show ?thesis using reachable_steps [OF miniScheduler_reachable runActs_steps [OF _ mini_agrees]] by blast
qed

lemma acts_keep:
  "sysAct f lessFn env (NodeAdded node) s = Some s' \<Longrightarrow> schProfiles s' = schProfiles s \<and> gsExtenders (schAlgorithm s') = gsExtenders (schAlgorithm s)"
  "sysAct f lessFn env (QueuePod (PodAdded pod)) s = Some s' \<Longrightarrow> schProfiles s' = schProfiles s \<and> gsExtenders (schAlgorithm s') = gsExtenders (schAlgorithm s)"
  "sysAct f lessFn env NextPod s = Some s' \<Longrightarrow> schProfiles s' = schProfiles s \<and> gsExtenders (schAlgorithm s') = gsExtenders (schAlgorithm s)"
  by (auto simp: sysAct_def addNodeToCache_def queueHandler_def filteringHandler_def addPodToSchedulingQueue_def nextPod_def
      putQueue_def putCache_def moveAll_def dest!: afterCache_Some afterQueue_Some split: option.splits if_splits prod.splits popResult.splits)

lemma mini_profile:
  assumes "runActs f lessFn env miniActs miniScheduler = Some s"
  shows "profileForPod samplePod s = Some \<lparr>prFramework = fitFramework, prWaitingPods = newWaitingPodsMap\<rparr> \<and> gsExtenders (schAlgorithm s) = []"
proof -
  have "schProfiles s = schProfiles miniScheduler \<and> gsExtenders (schAlgorithm s) = gsExtenders (schAlgorithm miniScheduler)"
    using assms by (auto simp: miniActs_def bind_eq_Some_conv dest!: acts_keep)
  then show ?thesis
    by (simp add: profileForPod_def miniScheduler_def newScheduler_def samplePod_def zeroPod_def)
qed

lemma mini_scheduled:
  assumes "runActs defaultFeatures prioritySortLess miniEnv miniActs miniScheduler = Some s"
  shows "\<exists>s1 s3 pi' b ni. sysAct defaultFeatures prioritySortLess miniEnv CycleRuns s = Some s1 \<and>
    schCycle s1 = Some (CyFits ((newPodInfo 5 samplePod)\<lparr>piAttempts := 1\<rparr>) ''n'') \<and>
    cacheInfo (schCache s1) ''n'' = Some ni \<and> niPods ni = [] \<and> mapsWf ni \<and>
    sysAct defaultFeatures prioritySortLess miniEnv CycleRuns s1 = Some s3 \<and> schCycle s3 = Some (CyAssumed pi' ''n'' b)"
proof -
  let ?act = "sysAct defaultFeatures prioritySortLess miniEnv CycleRuns"
  have "case runActs defaultFeatures prioritySortLess miniEnv miniActs miniScheduler of
      None \<Rightarrow> False | Some s \<Rightarrow> (case ?act s of None \<Rightarrow> False | Some s1 \<Rightarrow> (case ?act s1 of None \<Rightarrow> False | Some s3 \<Rightarrow>
        (case schCycle s1 of Some (CyFits pi h) \<Rightarrow> pi = (newPodInfo 5 samplePod)\<lparr>piAttempts := 1\<rparr> \<and> h = ''n'' | _ \<Rightarrow> False) \<and>
        (case schCycle s3 of Some (CyAssumed pi' h b) \<Rightarrow> h = ''n'' | _ \<Rightarrow> False) \<and>
        (case cacheInfo (schCache s1) ''n'' of Some ni \<Rightarrow> niPods ni = [] \<and> mapsWf ni | _ \<Rightarrow> False)))"
    by code_simp
  then show ?thesis unfolding assms
    by (auto split: option.splits cycle.splits)
qed

lemma mini_nodes:
  assumes "runActs defaultFeatures prioritySortLess miniEnv miniActs miniScheduler = Some s"
  shows "\<forall>n. cacheInfo (schCache s) n \<noteq> None \<longrightarrow> cacheNode (schCache s) n \<noteq> None"
proof -
  have "case runActs defaultFeatures prioritySortLess miniEnv miniActs miniScheduler of
      None \<Rightarrow> False | Some s \<Rightarrow> map fst (nlNodes (scList (schCache s))) = [''n''] \<and> cacheNode (schCache s) ''n'' \<noteq> None" by code_simp
  then have one: "map fst (nlNodes (scList (schCache s))) = [''n'']" "cacheNode (schCache s) ''n'' \<noteq> None" unfolding assms by simp_all
  show ?thesis
  proof (intro allI impI)
    fix n assume "cacheInfo (schCache s) n \<noteq> None"
    then have "mget (nlNodes (scList (schCache s))) n \<noteq> None" by (auto simp: nlInfo_def split: option.splits)
    then have "n \<in> fst ` set (nlNodes (scList (schCache s)))" by (simp add: map_of_eq_None_iff)
    then show "cacheNode (schCache s) n \<noteq> None" using one by (auto simp flip: set_map)
  qed
qed

lemma samplePod_request: "amount (podRequest defaultFeatures samplePod) d = 0"
proof -
  have "let r = podRequest defaultFeatures samplePod in rMilliCPU r = 0 \<and> rMemory r = 0 \<and> rEphemeralStorage r = 0 \<and> rScalarResources r = []"
    by code_simp
  then show ?thesis by (cases d) (simp_all add: Let_def scalarGet_def)
qed

text \<open>The error function removes a node that is gone with a bare node object. The node tree files nodes under their
  zone, so a node with a zone leaves the cache but stays in the tree.\<close>

lemma bareNode_stays_in_tree:
  "nlInfo (scList (fst (cacheRemoveNode (bareNode ''n'') oneNode))) ''n'' = None \<and>
   treeNodes (scTree (fst (cacheRemoveNode (bareNode ''n'') oneNode))) = [''n'']"
  by code_simp

end
