(* ===== verification/Spec2Isabelle.thy ===== *)
theory Spec2Isabelle
  imports Prelude Quantity ApiTypes HostPorts NodeInfo GoHeap SchedHeap Labels NominatedPods SchedQueue QueueSpec WorkQueue NodeTree
    NodeList SchedCache CacheSpec CacheSteps Snapshot Framework FilterPlugins ScorePlugins GenericScheduler Preemption VictimSpec Revisions InstanceManager
    ControllerFramework WaitingPods Scheduler SchedulerSpec
begin

text \<open>
  A verification library for Arktos, a Kubernetes fork: the core of its scheduler, the controller framework that
  splits work among controller processes, and the data structures under both. All file names are relative to
  \<open>src/\<close>.

  \<^bold>\<open>The program and how its parts interact.\<close> Informers deliver pods and nodes to the scheduler. Pods without a node
  go into the scheduling queue; pods with a node, and nodes, go into the scheduler cache. The scheduler pops a
  pod, brings a snapshot of the cache up to date, runs the filter plugins on the nodes of the snapshot in
  parallel, scores the nodes that pass and suggests the best. The pod is then assumed in the cache until its
  binding is confirmed or expires. When no node passes, preemption selects victims on the nodes where evicting
  pods can help. A pod that was assumed is reserved, permitted and bound by a goroutine of its own, and a pod
  that failed is fetched again and put back into the queue by another. Controllers take their work from work queues, and the processes of one controller type deal
  out the hash keys of the objects among themselves through a registry of controller instances.

  \<^bold>\<open>Shared theories.\<close>
  \<^item> \<open>Prelude\<close>: Go's int64 as 64-bit words read with \<open>sint\<close>, Go maps as association lists with distinct keys,
    deletions from slices, search loops, and the collections \<open>sint_simps\<close> and \<open>gomap_simps\<close>.
  \<^item> \<open>Quantity\<close>: \<open>resource.Quantity\<close> (\<open>math.go\<close>, \<open>amount.go\<close>, \<open>scale_int.go\<close>, \<open>quantity.go\<close>, \<open>inf.v0/dec.go\<close>). Addition
    and comparison are exact also when the int64 fast path overflows; rounding of scaled values.
  \<^item> \<open>ApiTypes\<close>: the API objects with the fields the modelled code reads, object keys (\<open>tools/cache/store.go\<close>),
    resource names, pod priorities, the feature gates.
  \<^item> \<open>Labels\<close>: label selectors and affinity terms; a converted selector means what its expressions describe.
  \<^item> \<open>Revisions\<close>: resource versions (\<open>util/diff/compare.go\<close>), packing, unpacking and comparison.

  \<^bold>\<open>The scheduler's data structures.\<close>
  \<^item> \<open>HostPorts\<close> (\<open>nodeinfo/host_ports.go\<close>): the port table refines a set of bindings. The locale \<open>port_table\<close> is
    the interface; its interpretation \<open>hp\<close> is the table.
  \<^item> \<open>NodeInfo\<close> (\<open>nodeinfo/node_info.go\<close>, \<open>util/non_zero.go\<close>): aggregates of a node. The invariant \<open>nodeInfoInv\<close> says
    that they are the sums over the pods, with wrap-around; all operations keep it.
  \<^item> \<open>GoHeap\<close>, \<open>SchedHeap\<close> (\<open>container/heap\<close>, \<open>internal/heap/heap.go\<close>): sift operations and the keyed heap; the locale
    \<open>weak_order\<close> is what the comparison promises.
  \<^item> \<open>NominatedPods\<close>, \<open>SchedQueue\<close>, \<open>QueueSpec\<close> (\<open>internal/queue/scheduling_queue.go\<close>, \<open>queuesort\<close>): the priority queue with
    its active, backoff and unschedulable parts. \<open>QueueSpec\<close> has the abstract queue, the step relation \<open>queueStep\<close>
    with the reachability invariant, wake-ups, move requests and backoff. The locales \<open>keyed_queue\<close>, \<open>keyed_heap\<close>
    and \<open>queue_sort\<close> are the interfaces between heap, queue and sort plugin.
  \<^item> \<open>WorkQueue\<close> (\<open>client-go/util/workqueue/queue.go\<close>) with a system of workers: exclusion and no lost item.
  \<^item> \<open>NodeTree\<close>, \<open>NodeList\<close>, \<open>SchedCache\<close>, \<open>CacheSpec\<close>, \<open>CacheSteps\<close> (\<open>internal/cache/node_tree.go\<close>, \<open>cache.go\<close>): the tree of
    zones, the linked list of node infos on an explicit store of addresses, the cache operations, their invariant
    \<open>cacheInv\<close> and the step relation \<open>cacheStep\<close> of the events the scheduler delivers.
  \<^item> \<open>Snapshot\<close> (\<open>internal/cache/snapshot.go\<close>, \<open>UpdateSnapshot\<close>): the incremental update equals a full copy.

  \<^bold>\<open>Scheduling decisions.\<close>
  \<^item> \<open>Framework\<close> (\<open>framework/v1alpha1\<close>): statuses, cycle state, the loops over the plugins.
  \<^item> \<open>FilterPlugins\<close>, \<open>ScorePlugins\<close> (\<open>framework/plugins\<close>): the filters on resources, ports, node name, cordon, taints, runtime
    readiness and node affinity, and the scorers with integer arithmetic; what the filters mean, that admission
    does not overcommit, and the bounds of the scores.
  \<^item> \<open>GenericScheduler\<close> (\<open>core/generic_scheduler.go\<close>, \<open>workqueue/parallelizer.go\<close>): \<open>Schedule\<close> and its steps. The parallel
    search is a fold over a sequence of worker actions; the properties hold for every sequence.
  \<^item> \<open>Preemption\<close>, \<open>VictimSpec\<close> (same file): \<open>Preempt\<close> and its steps. \<open>VictimSpec\<close> has the locales \<open>pod_filters\<close> and
    \<open>antitone_filters\<close>, what the loop relies on of the filters; inside them victim selection is shown to be a greedy
    search over multisets of pods with a minimal result. The interpretations \<open>iv\<close> and \<open>ia\<close> are on the in-tree filters.

  \<^bold>\<open>The scheduler as a whole.\<close>
  \<^item> \<open>WaitingPods\<close> (\<open>framework/v1alpha1/waiting_pods_map.go\<close>, \<open>framework.go\<close>): the Reserve, Permit, PreBind and Bind points, and
    the pods that wait for permission, with their timers and channels. A pod that waits is released exactly
    when all the plugins that asked for it allow it before any rejection.
  \<^item> \<open>Scheduler\<close> (\<open>scheduler.go\<close>, \<open>eventhandlers.go\<close>, the error function of \<open>factory.go\<close>, \<open>profile/profile.go\<close>): the event
    handlers, \<open>scheduleOne\<close>, the binding goroutines and the retries. The state has the place where each goroutine
    stands, \<open>sysAct\<close> runs one action of one of them, \<open>agrees\<close> is what is assumed of informers and API server, and
    \<open>sysStep\<close> is the step relation. Each step is a sequence of steps of the queue and of the cache with its snapshot.
  \<^item> \<open>SchedulerSpec\<close> and this theory: what follows for the whole scheduler. The node that a cycle suggests takes the
    pod without being overcommitted, and no pod is lost between the queue, the cycle, the binding goroutines and
    the retries. A run of a cluster with one node and one pod is evaluated for the witnesses.

  \<^bold>\<open>The controller framework.\<close>
  \<^item> \<open>InstanceManager\<close> (\<open>controllerframework/controllerinstancemanager.go\<close>): the cache of registered instances tracks
    the live part of the informer's store.
  \<^item> \<open>ControllerFramework\<close> (\<open>controller_framework.go\<close>, \<open>controller_framework_utils.go\<close>): the ranges of the processes of
    a type partition the keys, from whatever ranges they held before.

  \<^bold>\<open>How code is modelled.\<close> A struct is a record, an enumeration or tagged union a datatype; an operation is a
  function from the state to the new state and the results. Mutexes make the operations atomic. A Go error is a
  value; a panic or an exit of the process is \<open>None\<close>, or an error constructor where it is told apart from other
  errors. Pointers that are shared and changed are addresses in a store (\<open>NodeList\<close>, \<open>Snapshot\<close>); slices whose backing
  array is rearranged under a range loop carry the array (\<open>removeLower\<close> in \<open>Preemption\<close>). The clock is a sequence of
  readings. Code outside \<open>src/\<close> (\<open>sort.Slice\<close>, random draws, extenders, listers, the API server) is an argument, and
  what the properties assume of it is a named hypothesis.

  \<^bold>\<open>Termination and fuel.\<close> Most loops are structural recursions; the sift loops of the heaps have a
  termination proof with a measure. Two loops are partial functions, since they follow
  indexes or pointers: \<open>nextLoop\<close> of \<open>NodeTree\<close>, which returns by \<open>next_returns\<close>, and \<open>snapshotLoop\<close> of \<open>Snapshot\<close>, which
  returns by \<open>UpdateSnapshot_spec\<close>. The flush of the backoff queue and the walks along the linked list take as many
  rounds as there are pods or items, and the lemmas show that they reach the end. \<open>scheduleOne\<close> takes five phases,
  which end the cycle by \<open>scheduleOne_ends\<close>.

  \<^bold>\<open>Not modelled.\<close> Of the scheduler: its construction from the configuration, the volume binder (an argument), the
  Unreserve and PostBind points, which return nothing, the volume plugins, inter-pod affinity and topology spread, and scorers
  on floating point numbers (balanced allocation, image locality, the rounding of requested-to-capacity ratio). Of
  quantities: parsing and printing. The API server, etcd storage, the kubelet, the proxies, the cloud providers,
  kubectl and the controllers themselves are I/O around other services or much larger state machines of their own;
  generated code (deepcopy, conversion, clients) has no behaviour of its own. Logging, events and metrics change no
  state.
\<close>

section \<open>The whole scheduler\<close>





text \<open>C2: a pod that the scheduler has (in one of the parts of the queue, in the scheduling cycle, in a binding
  goroutine or waiting for a retry) is still with the scheduler after any step, unless that step lets it go: it is
  bound, it is deleted or no longer for this scheduler, or the API server says that it is gone or has a node.\<close>

theorem pod_not_lost:
  assumes "reachable f lessFn s" and "weak_order lessFn"
    and "sysAct f lessFn env act s = Some s'" and "agrees f env act s"
    and "k \<in> heldKeys s" and "\<not> letsGo act s k"
  shows "k \<in> heldKeys s'"
  using queue_sort.act_held [OF queue_sortI [OF assms(2)] assms(3,4) reachable_parts(4) [OF assms(1,2)] assms(5,6)] .

theorem pod_not_lost_witness:
  "\<exists>s s'. runActs defaultFeatures prioritySortLess miniEnv miniActs miniScheduler = Some s \<and>
     sysAct defaultFeatures prioritySortLess miniEnv CycleRuns s = Some s' \<and> podKey samplePod \<in> heldKeys s'"
proof -
  let ?pi = "(newPodInfo 5 samplePod)\<lparr>piAttempts := 1\<rparr>"
  obtain s where s: "runActs defaultFeatures prioritySortLess miniEnv miniActs miniScheduler = Some s"
      "reachable defaultFeatures prioritySortLess s" "schCycle s = Some (CyPopped ?pi)" using mini_popped by blast
  obtain s1 where s1: "sysAct defaultFeatures prioritySortLess miniEnv CycleRuns s = Some s1"
      "schCycle s1 = Some (CyFits ?pi ''n'')" using mini_scheduled [OF s(1)] by metis
  have pi: "piPod ?pi = samplePod" by (simp add: newPodInfo_def)
  have skip: "\<not> skipPodSchedule samplePod s"
  proof
    assume "skipPodSchedule samplePod s"
    then have "schCycle s1 = None" using s1(1) s(3) pi by (auto simp: sysAct_def cycleAct_def scheduleAct_def cycleNext_def split: option.splits)
    then show False using s1(2) by simp
  qed
  have "podKey samplePod \<in> heldKeys s1"
  proof (rule pod_not_lost [OF s(2) prioritySortLess_weak s1(1)])
    show "agrees defaultFeatures miniEnv CycleRuns s" by (simp add: agrees_def s(3))
    show "podKey samplePod \<in> heldKeys s" by (simp add: heldKeys_def cycleKeys_def s(3) infoKey_def pi)
    show "\<not> letsGo CycleRuns s (podKey samplePod)" using skip mini_profile [OF s(1)] by (simp add: letsGo_def s(3) pi)
  qed
  then show ?thesis using s(1) s1(1) by blast
qed

end
